(* ===== verification/Prelude.thy ===== *)
theory Prelude
  imports Main "HOL-Library.Word"
begin

text \<open>
  Shared vocabulary of the development: the result type used for every Rust
  \<^verbatim>\<open>Result\<close> and its sequencing, the list operations the Rust code takes from its
  standard library (\<^verbatim>\<open>find\<close>, \<^verbatim>\<open>position\<close>, \<^verbatim>\<open>remove\<close>, \<^verbatim>\<open>resize\<close>, \<^verbatim>\<open>strip_prefix\<close>), the
  collections of simplification rules that the component theories extend, and
  generic lemmas that several components use.
\<close>

type_synonym byte = "8 word"
type_synonym u16 = "16 word"
type_synonym u32 = "32 word"
type_synonym u64 = "64 word"
type_synonym u128 = "128 word"
type_synonym u256 = "256 word"
type_synonym i64 = "64 word"

named_theorems result_simps "sequencing of results"
named_theorems len_simps "lengths of encodings and arrays"

section \<open>Results\<close>

text \<open>\<^verbatim>\<open>Err e\<close> is \<^verbatim>\<open>Inl e\<close>, \<^verbatim>\<open>Ok x\<close> is \<^verbatim>\<open>Inr x\<close>; \<^verbatim>\<open>andThen\<close> is the \<^verbatim>\<open>?\<close> operator.\<close>

fun andThen :: "'e + 'a \<Rightarrow> ('a \<Rightarrow> 'e + 'b) \<Rightarrow> 'e + 'b" where
  "andThen (Inl e) f = Inl e"
| "andThen (Inr x) f = f x"

fun mapErr :: "('e \<Rightarrow> 'd) \<Rightarrow> 'e + 'a \<Rightarrow> 'd + 'a" where
  "mapErr f (Inl e) = Inl (f e)"
| "mapErr f (Inr x) = Inr x"

fun mapOk :: "('a \<Rightarrow> 'b) \<Rightarrow> 'e + 'a \<Rightarrow> 'e + 'b" where
  "mapOk f (Inl e) = Inl e"
| "mapOk f (Inr x) = Inr (f x)"

fun okOr :: "'e \<Rightarrow> 'a option \<Rightarrow> 'e + 'a" where
  "okOr e None = Inl e"
| "okOr e (Some x) = Inr x"

definition guardR :: "bool \<Rightarrow> 'e \<Rightarrow> 'e + unit" where
  "guardR b e = (if b then Inr () else Inl e)"

fun isOk :: "'e + 'a \<Rightarrow> bool" where
  "isOk (Inl e) = False"
| "isOk (Inr x) = True"

lemma andThen_Inr_iff [result_simps]:
  "andThen m f = Inr y \<longleftrightarrow> (\<exists>x. m = Inr x \<and> f x = Inr y)"
  by (cases m) auto

lemma andThen_Inl_iff [result_simps]:
  "andThen m f = Inl e \<longleftrightarrow> m = Inl e \<or> (\<exists>x. m = Inr x \<and> f x = Inl e)"
  by (cases m) auto

lemma mapErr_Inr_iff [result_simps]: "mapErr f m = Inr y \<longleftrightarrow> m = Inr y"
  by (cases m) auto

lemma mapErr_Inl_iff [result_simps]: "mapErr f m = Inl d \<longleftrightarrow> (\<exists>e. m = Inl e \<and> d = f e)"
  by (cases m) auto

lemma mapOk_Inr_iff [result_simps]: "mapOk f m = Inr y \<longleftrightarrow> (\<exists>x. m = Inr x \<and> y = f x)"
  by (cases m) auto

lemma mapOk_Inl_iff [result_simps]: "mapOk f m = Inl e \<longleftrightarrow> m = Inl e"
  by (cases m) auto

lemma okOr_Inr_iff [result_simps]: "okOr e m = Inr x \<longleftrightarrow> m = Some x"
  by (cases m) auto

lemma okOr_Inl_iff [result_simps]: "okOr e m = Inl d \<longleftrightarrow> m = None \<and> d = e"
  by (cases m) auto

lemma guardR_Inr_iff [result_simps]: "guardR b e = Inr u \<longleftrightarrow> b"
  by (auto simp: guardR_def)

lemma guardR_Inl_iff [result_simps]: "guardR b e = Inl d \<longleftrightarrow> \<not> b \<and> d = e"
  by (auto simp: guardR_def)

lemma guardR_True [simp]: "guardR True e = Inr ()"
  by (simp add: guardR_def)

lemma guardR_False [simp]: "guardR False e = Inl e"
  by (simp add: guardR_def)

lemma isOk_iff: "isOk r \<longleftrightarrow> (\<exists>x. r = Inr x)"
  by (cases r) auto

text \<open>\<^verbatim>\<open>collect::<Result<Vec<_>, _>>\<close>: the first error, or all the values.\<close>

fun mapM :: "('a \<Rightarrow> 'e + 'b) \<Rightarrow> 'a list \<Rightarrow> 'e + 'b list" where
  "mapM f [] = Inr []"
| "mapM f (x # xs) = andThen (f x) (\<lambda>y. andThen (mapM f xs) (\<lambda>ys. Inr (y # ys)))"

lemma mapM_Inr_iff: "mapM f xs = Inr ys \<longleftrightarrow> list_all2 (\<lambda>x y. f x = Inr y) xs ys"
  by (induction xs arbitrary: ys) (auto simp: result_simps list_all2_Cons1)

lemma mapM_total [simp]: "mapM (\<lambda>x. Inr (f x)) xs = Inr (map f xs)"
  by (induction xs) auto

lemma length_mapM: "mapM f xs = Inr ys \<Longrightarrow> length ys = length xs"
  by (simp add: mapM_Inr_iff list_all2_lengthD)

section \<open>List operations of the standard library\<close>

fun position :: "('a \<Rightarrow> bool) \<Rightarrow> 'a list \<Rightarrow> nat option" where
  "position P [] = None"
| "position P (x # xs) = (if P x then Some 0 else map_option Suc (position P xs))"

definition remove_nth :: "nat \<Rightarrow> 'a list \<Rightarrow> 'a list" where
  "remove_nth i xs = take i xs @ drop (Suc i) xs"

definition resize :: "nat \<Rightarrow> 'a \<Rightarrow> 'a list \<Rightarrow> 'a list" where
  "resize n x xs = take n xs @ replicate (n - length xs) x"

fun strip_prefix :: "'a list \<Rightarrow> 'a list \<Rightarrow> 'a list option" where
  "strip_prefix [] s = Some s"
| "strip_prefix (p # ps) [] = None"
| "strip_prefix (p # ps) (c # s) = (if p = c then strip_prefix ps s else None)"

lemma strip_prefix_Some_iff: "strip_prefix p s = Some r \<longleftrightarrow> s = p @ r"
  by (induction p s rule: strip_prefix.induct) auto

lemma strip_prefix_append [simp]: "strip_prefix p (p @ r) = Some r"
  by (simp add: strip_prefix_Some_iff)

lemma position_None_iff: "position P xs = None \<longleftrightarrow> (\<forall>x\<in>set xs. \<not> P x)"
  by (induction xs) auto

lemma position_Some:
  "position P xs = Some i \<Longrightarrow> i < length xs \<and> P (xs ! i) \<and> (\<forall>j<i. \<not> P (xs ! j))"
proof (induction xs arbitrary: i)
  case (Cons x xs)
  then show ?case
    by (cases i) (auto split: if_splits simp: nth_Cons split: nat.splits)
qed simp

lemma position_find: "find P xs = map_option ((!) xs) (position P xs)"
  by (induction xs) (auto simp: option.map_comp comp_def intro: option.map_cong)

lemma remove_nth_single [simp]: "remove_nth 0 [x] = []"
  by (simp add: remove_nth_def)

lemma length_remove_nth [len_simps]: "i < length xs \<Longrightarrow> length (remove_nth i xs) = length xs - 1"
  by (simp add: remove_nth_def)

lemma length_resize [len_simps]: "length (resize n x xs) = n"
  by (simp add: resize_def)

lemma set_resize: "length xs \<le> n \<Longrightarrow> set (resize n x xs) = set xs \<union> (if length xs < n then {x} else {})"
  by (auto simp: resize_def set_replicate_conv_if)

lemma mset_like_remove_nth: "i < length xs \<Longrightarrow> xs = take i xs @ xs ! i # drop (Suc i) xs"
  by (rule id_take_nth_drop)

text \<open>\<^verbatim>\<open>dst[i..i + src.len()].copy_from_slice(src)\<close> for a range inside the destination.\<close>

definition copy_into :: "nat \<Rightarrow> 'a list \<Rightarrow> 'a list \<Rightarrow> 'a list" where
  "copy_into i src dst = take i dst @ src @ drop (i + length src) dst"

lemma length_copy_into [len_simps]:
  "i + length src \<le> length dst \<Longrightarrow> length (copy_into i src dst) = length dst"
  by (simp add: copy_into_def)

lemma copy_into_end:
  "length dst = i + length src \<Longrightarrow> copy_into i src dst = take i dst @ src"
  by (simp add: copy_into_def)

lemma copy_into_at:
  "length a = i \<Longrightarrow> length b = length src \<Longrightarrow> copy_into i src (a @ b @ c) = a @ src @ c"
  by (simp add: copy_into_def)

section \<open>Panics\<close>

text \<open>
  A function that may panic and otherwise returns an option or a result uses this type,
  so that a panic is not confused with a returned \<^verbatim>\<open>None\<close>; elsewhere a panic is \<^term>\<open>None\<close>.
\<close>

datatype 'a panics = Panics | Returns 'a

fun ifReturns :: "'a panics \<Rightarrow> ('a \<Rightarrow> 'b panics) \<Rightarrow> 'b panics" where
  "ifReturns Panics f = Panics"
| "ifReturns (Returns x) f = f x"

section \<open>Chunks\<close>

text \<open>\<^verbatim>\<open>chunks_exact(w)\<close>: the consecutive blocks of \<^term>\<open>w\<close> items; a shorter tail is dropped.\<close>

fun chunks_exact :: "nat \<Rightarrow> 'a list \<Rightarrow> 'a list list" where
  "chunks_exact w xs =
     (if w = 0 \<or> length xs < w then [] else take w xs # chunks_exact w (drop w xs))"

declare chunks_exact.simps [simp del]

lemma chunks_exact_short [simp]: "length xs < w \<Longrightarrow> chunks_exact w xs = []"
  by (subst chunks_exact.simps) simp

lemma chunks_exact_append:
  "length x = w \<Longrightarrow> 0 < w \<Longrightarrow> chunks_exact w (x @ xs) = x # chunks_exact w xs"
  by (subst chunks_exact.simps) simp

lemma chunks_exact_concat:
  "0 < w \<Longrightarrow> \<forall>x\<in>set xss. length x = w \<Longrightarrow> chunks_exact w (concat xss) = xss"
  by (induction xss) (auto simp: chunks_exact_append)

lemma chunks_exact_lengths: "x \<in> set (chunks_exact w xs) \<Longrightarrow> length x = w"
proof (induction w xs rule: chunks_exact.induct)
  case (1 w xs)
  then show ?case
    by (subst (asm) (2) chunks_exact.simps) (auto split: if_splits)
qed

lemma length_chunks_exact: "0 < w \<Longrightarrow> length (chunks_exact w xs) = length xs div w"
proof (induction w xs rule: chunks_exact.induct)
  case (1 w xs)
  show ?case
  proof (cases "length xs < w")
    case False
    then have "length (chunks_exact w xs) = Suc ((length xs - w) div w)"
      using 1 by (subst chunks_exact.simps) auto
    then show ?thesis using False 1(2) by (simp add: le_div_geq)
  qed simp
qed

lemma concat_chunks_exact: "w dvd length xs \<Longrightarrow> 0 < w \<Longrightarrow> concat (chunks_exact w xs) = xs"
proof (induction w xs rule: chunks_exact.induct)
  case (1 w xs)
  show ?case
  proof (cases "length xs < w")
    case True
    then have "xs = []" using 1(2,3) by (metis dvd_imp_le length_greater_0_conv not_less)
    then show ?thesis using 1(3) by simp
  next
    case False
    then have "concat (chunks_exact w (drop w xs)) = drop w xs"
      using 1 by (simp add: dvd_diff_nat)
    then show ?thesis using False 1(3) by (subst chunks_exact.simps) simp
  qed
qed

text \<open>\<^verbatim>\<open>chunks(w)\<close> keeps the shorter tail.\<close>

fun chunks :: "nat \<Rightarrow> 'a list \<Rightarrow> 'a list list" where
  "chunks w xs = (if w = 0 \<or> xs = [] then [] else take w xs # chunks w (drop w xs))"

declare chunks.simps [simp del]

lemma chunks_Nil [simp]: "chunks w [] = []"
  by (subst chunks.simps) simp

lemma chunks_short: "0 < w \<Longrightarrow> xs \<noteq> [] \<Longrightarrow> length xs \<le> w \<Longrightarrow> chunks w xs = [xs]"
  by (subst chunks.simps) simp

lemma chunks_append: "0 < w \<Longrightarrow> length xs = w \<Longrightarrow> chunks w (xs @ ys) = xs # chunks w ys"
  by (subst chunks.simps) auto

lemma chunks_append_dvd:
  "0 < w \<Longrightarrow> w dvd length xs \<Longrightarrow> chunks w (xs @ ys) = chunks w xs @ chunks w ys"
proof (induction w xs rule: chunks.induct)
  case (1 w xs)
  show ?case
  proof (cases "xs = []")
    case False
    then have "w \<le> length xs" using 1(3) by (meson dvd_imp_le length_greater_0_conv)
    then have t: "take w (xs @ ys) = take w xs" "drop w (xs @ ys) = drop w xs @ ys" by simp_all
    have "chunks w (drop w xs @ ys) = chunks w (drop w xs) @ chunks w ys"
      using 1 False by simp
    then show ?thesis
      using False 1(2) t chunks.simps [of w "xs @ ys"] chunks.simps [of w xs] by simp
  qed simp
qed

lemma chunks_length_le: "c \<in> set (chunks w xs) \<Longrightarrow> c \<noteq> [] \<and> length c \<le> w"
proof (induction w xs rule: chunks.induct)
  case (1 w xs)
  then show ?case
    by (subst (asm) (2) chunks.simps) (auto split: if_splits)
qed

lemma list_2: "length xs = 2 \<longleftrightarrow> (\<exists>a b. xs = [a, b])"
  by (auto simp: numeral_2_eq_2 length_Suc_conv)

section \<open>Folds and filters\<close>

lemma distinct_filter_Cons_iff:
  "distinct (filter P (x # xs)) \<longleftrightarrow> (P x \<longrightarrow> x \<notin> set xs) \<and> distinct (filter P xs)"
  by auto

lemma foldl_invariant:
  assumes "I s" and "\<And>s x. I s \<Longrightarrow> x \<in> set xs \<Longrightarrow> I (f s x)"
  shows "I (foldl f s xs)"
  using assms by (induction xs arbitrary: s) auto

section \<open>Words\<close>

lemma unat_ucast_mod: "unat (ucast (x :: 'a::len word) :: 'b::len word) = unat x mod 2 ^ LENGTH('b)"
  by (simp only: unsigned_ucast_eq take_bit_eq_mod)

lemma unat_ucast_widen:
  assumes "LENGTH('a::len) \<le> LENGTH('b::len)"
  shows "unat (ucast (x :: 'a word) :: 'b word) = unat x"
proof -
  have "unat x < 2 ^ LENGTH('a)" by simp
  also have "\<dots> \<le> 2 ^ LENGTH('b)" using assms by (simp add: power_increasing)
  finally show ?thesis by (simp add: unat_ucast_mod)
qed

lemma ucast_inverse_narrow:
  "unat (x :: 'a::len word) < 2 ^ LENGTH('b::len) \<Longrightarrow> ucast (ucast x :: 'b word) = x"
  by (subst word_unat_eq_iff) (simp add: unat_ucast_mod order.strict_trans1 [OF mod_less_eq_dividend])

lemma unat_drop_bit: "unat (drop_bit k (x :: 'a::len word)) = unat x div 2 ^ k"
  by (subst unsigned_drop_bit_eq) (simp add: drop_bit_eq_div take_bit_nat_eq_self)

end
