(* ===== verification/Codec.thy ===== *)
theory Codec
  imports Prelude
begin

text \<open>
  Fixed-width encodings.  Numbers are written as little-endian or big-endian digit
  lists of a given base and width; the Rust functions \<^verbatim>\<open>to_be_bytes\<close>,
  \<^verbatim>\<open>to_le_bytes\<close>, \<^verbatim>\<open>from_be_bytes\<close> and \<^verbatim>\<open>from_le_bytes\<close> of the integer types are
  instances with base 256.  The locale \<^verbatim>\<open>fixed_codec\<close> is the contract that every
  encoder of the code promises to the code that concatenates encodings and cuts them
  apart again; the component theories interpret it on their own encoders.
\<close>

section \<open>Digits\<close>

fun digits_le :: "nat \<Rightarrow> nat \<Rightarrow> nat \<Rightarrow> nat list" where
  "digits_le b 0 n = []"
| "digits_le b (Suc k) n = n mod b # digits_le b k (n div b)"

fun val_le :: "nat \<Rightarrow> nat list \<Rightarrow> nat" where
  "val_le b [] = 0"
| "val_le b (d # ds) = d + b * val_le b ds"

lemma length_digits_le [simp, len_simps]: "length (digits_le b k n) = k"
  by (induction k arbitrary: n) auto

lemma val_digits_le: "val_le b (digits_le b k n) = n mod b ^ k"
  by (induction k arbitrary: n) (auto simp: mod_mult2_eq)

lemma digits_le_less: "0 < b \<Longrightarrow> d \<in> set (digits_le b k n) \<Longrightarrow> d < b"
  by (induction k arbitrary: n) auto

lemma val_le_less: "\<forall>d\<in>set ds. d < b \<Longrightarrow> val_le b ds < b ^ length ds"
proof (induction ds)
  case (Cons d ds)
  then have "val_le b ds + 1 \<le> b ^ length ds" and d: "d < b" by auto
  then have "b * (val_le b ds + 1) \<le> b * b ^ length ds" by (rule_tac mult_le_mono2)
  then show ?case using d by simp
qed simp

lemma digits_val_le: "\<forall>d\<in>set ds. d < b \<Longrightarrow> digits_le b (length ds) (val_le b ds) = ds"
  by (induction ds) auto

lemma val_le_append: "val_le b (xs @ ys) = val_le b xs + b ^ length xs * val_le b ys"
  by (induction xs) (auto simp: algebra_simps)

lemma val_le_replicate_0 [simp]: "val_le b (replicate n 0) = 0"
  by (induction n) auto

lemma digits_le_2: "digits_le b 2 n = [n mod b, n div b mod b]"
  by (simp add: numeral_2_eq_2)

lemma digits_le_0: "0 < k \<Longrightarrow> digits_le b k n ! 0 = n mod b"
  by (cases k) simp_all

section \<open>Bytes\<close>

definition le_val :: "byte list \<Rightarrow> nat" where
  "le_val bs = val_le 256 (map unat bs)"

definition le_bytes :: "nat \<Rightarrow> nat \<Rightarrow> byte list" where
  "le_bytes k n = map of_nat (digits_le 256 k n)"

definition be_val :: "byte list \<Rightarrow> nat" where
  "be_val bs = le_val (rev bs)"

definition be_bytes :: "nat \<Rightarrow> nat \<Rightarrow> byte list" where
  "be_bytes k n = rev (le_bytes k n)"

lemma length_le_bytes [simp, len_simps]: "length (le_bytes k n) = k"
  by (simp add: le_bytes_def)

lemma length_be_bytes [simp, len_simps]: "length (be_bytes k n) = k"
  by (simp add: be_bytes_def)

lemma unat_byte_less [simp]: "unat (b :: byte) < 256"
  using unsigned_less [of b, where 'a = nat] by simp

lemma map_unat_of_nat: "\<forall>d\<in>set ds. d < 256 \<Longrightarrow> map unat (map (of_nat :: nat \<Rightarrow> byte) ds) = ds"
  by (induction ds) (auto simp: unat_of_nat)

lemma le_val_le_bytes: "le_val (le_bytes k n) = n mod 256 ^ k"
  unfolding le_val_def le_bytes_def
  by (subst map_unat_of_nat) (auto simp: val_digits_le dest: digits_le_less [rotated])

lemma be_val_be_bytes: "be_val (be_bytes k n) = n mod 256 ^ k"
  by (simp add: be_val_def be_bytes_def le_val_le_bytes)

lemma le_val_less: "le_val bs < 256 ^ length bs"
  unfolding le_val_def using val_le_less [of "map unat bs" 256] by simp

lemma be_val_less: "be_val bs < 256 ^ length bs"
  unfolding be_val_def using le_val_less [of "rev bs"] by simp

lemma le_bytes_le_val: "le_bytes (length bs) (le_val bs) = bs"
  unfolding le_bytes_def le_val_def
  using digits_val_le [of "map unat bs" 256] by (simp add: map_idI)

lemma be_bytes_be_val: "be_bytes (length bs) (be_val bs) = bs"
  unfolding be_bytes_def be_val_def using le_bytes_le_val [of "rev bs"] by simp

lemma le_val_append: "le_val (xs @ ys) = le_val xs + 256 ^ length xs * le_val ys"
  by (simp add: le_val_def val_le_append)

lemma be_val_append: "be_val (xs @ ys) = be_val xs * 256 ^ length ys + be_val ys"
  by (simp add: be_val_def le_val_append)

lemma le_val_zeros [simp]: "le_val (replicate n 0) = 0"
  by (simp add: le_val_def)

lemma be_val_zeros [simp]: "be_val (replicate n 0) = 0"
  by (simp add: be_val_def)

lemma le_val_inj: "length xs = length ys \<Longrightarrow> le_val xs = le_val ys \<Longrightarrow> xs = ys"
  by (metis le_bytes_le_val)

lemma be_val_inj: "length xs = length ys \<Longrightarrow> be_val xs = be_val ys \<Longrightarrow> xs = ys"
  by (metis be_bytes_be_val)

section \<open>The contract of a fixed-width encoder\<close>

locale fixed_codec =
  fixes enc :: "'a \<Rightarrow> 'b list" and dec :: "'b list \<Rightarrow> 'a" and width :: nat
  assumes width_pos: "0 < width"
    and enc_width: "length (enc x) = width"
    and dec_enc: "dec (enc x) = x"
    and enc_dec: "length bs = width \<Longrightarrow> enc (dec bs) = bs"
begin

lemma enc_inj: "enc x = enc y \<longleftrightarrow> x = y"
  by (metis dec_enc)

lemma dec_inj: "length xs = width \<Longrightarrow> length ys = width \<Longrightarrow> dec xs = dec ys \<longleftrightarrow> xs = ys"
  by (metis enc_dec)

lemma concat_length: "length (concat (map enc xs)) = length xs * width"
  by (induction xs) (auto simp: enc_width)

lemma chunks_of_concat: "chunks_exact width (concat (map enc xs)) = map enc xs"
  using width_pos by (auto intro!: chunks_exact_concat simp: enc_width)

lemma decode_chunks: "map dec (chunks_exact width (concat (map enc xs))) = xs"
  by (simp add: chunks_of_concat dec_enc comp_def)

lemma encode_chunks:
  assumes "width dvd length bs"
  shows "concat (map enc (map dec (chunks_exact width bs))) = bs"
proof -
  have "map (enc \<circ> dec) (chunks_exact width bs) = chunks_exact width bs"
    by (rule map_idI) (auto simp: enc_dec dest: chunks_exact_lengths)
  then show ?thesis
    using concat_chunks_exact [OF assms width_pos] by simp
qed

lemma concat_inj: "concat (map enc xs) = concat (map enc ys) \<longleftrightarrow> xs = ys"
  by (metis decode_chunks)

lemma field_at:
  "i < length xs \<Longrightarrow> take width (drop (i * width) (concat (map enc xs))) = enc (xs ! i)"
proof (induction xs arbitrary: i)
  case (Cons x xs)
  show ?case
  proof (cases i)
    case 0
    then show ?thesis by (simp add: enc_width)
  next
    case (Suc j)
    then show ?thesis using Cons by (simp add: enc_width)
  qed
qed simp

end

section \<open>Byte encodings of words\<close>

definition word_to_le :: "'a::len word \<Rightarrow> byte list" where
  "word_to_le x = le_bytes (LENGTH('a) div 8) (unat x)"

definition word_from_le :: "byte list \<Rightarrow> 'a::len word" where
  "word_from_le bs = of_nat (le_val bs)"

definition word_to_be :: "'a::len word \<Rightarrow> byte list" where
  "word_to_be x = be_bytes (LENGTH('a) div 8) (unat x)"

definition word_from_be :: "byte list \<Rightarrow> 'a::len word" where
  "word_from_be bs = of_nat (be_val bs)"

lemma pow256: "8 dvd k \<Longrightarrow> (256::nat) ^ (k div 8) = 2 ^ k"
proof -
  assume "8 dvd k"
  then have "(2::nat) ^ k = 2 ^ (8 * (k div 8))" by simp
  also have "\<dots> = (2 ^ 8) ^ (k div 8)" by (rule power_mult)
  finally show ?thesis by simp
qed

lemma length_word_to_le [simp, len_simps]: "length (word_to_le (x :: 'a::len word)) = LENGTH('a) div 8"
  by (simp add: word_to_le_def)

lemma length_word_to_be [simp, len_simps]: "length (word_to_be (x :: 'a::len word)) = LENGTH('a) div 8"
  by (simp add: word_to_be_def)

lemma word_from_to_le:
  "8 dvd LENGTH('a) \<Longrightarrow> word_from_le (word_to_le x) = (x :: 'a::len word)"
  using unsigned_less [of x, where 'a = nat]
  by (simp add: word_from_le_def word_to_le_def le_val_le_bytes pow256)

lemma word_from_to_be:
  "8 dvd LENGTH('a) \<Longrightarrow> word_from_be (word_to_be x) = (x :: 'a::len word)"
  using unsigned_less [of x, where 'a = nat]
  by (simp add: word_from_be_def word_to_be_def be_val_be_bytes pow256)

lemma unat_word_from_le:
  "8 dvd LENGTH('a) \<Longrightarrow> length bs \<le> LENGTH('a) div 8 \<Longrightarrow>
   unat (word_from_le bs :: 'a::len word) = le_val bs"
proof -
  assume "8 dvd LENGTH('a)" "length bs \<le> LENGTH('a) div 8"
  then have "le_val bs < 2 ^ LENGTH('a)"
    using le_val_less [of bs] pow256 [of "LENGTH('a)"]
      power_increasing [of "length bs" "LENGTH('a) div 8" "256::nat"] by linarith
  then show ?thesis by (simp add: word_from_le_def unat_of_nat)
qed

lemma word_from_be_rev: "word_from_be bs = word_from_le (rev bs)"
  by (simp add: word_from_be_def word_from_le_def be_val_def)

lemma word_to_be_rev: "word_to_be x = rev (word_to_le x)"
  by (simp add: word_to_be_def word_to_le_def be_bytes_def)

lemma unat_word_from_be:
  "8 dvd LENGTH('a) \<Longrightarrow> length bs \<le> LENGTH('a) div 8 \<Longrightarrow>
   unat (word_from_be bs :: 'a::len word) = be_val bs"
  by (simp add: word_from_be_rev unat_word_from_le be_val_def)

lemma word_to_from_le:
  "8 dvd LENGTH('a) \<Longrightarrow> length bs = LENGTH('a) div 8 \<Longrightarrow>
   word_to_le (word_from_le bs :: 'a::len word) = bs"
  using le_bytes_le_val [of bs] by (simp add: word_to_le_def unat_word_from_le)

lemma word_to_from_be:
  "8 dvd LENGTH('a) \<Longrightarrow> length bs = LENGTH('a) div 8 \<Longrightarrow>
   word_to_be (word_from_be bs :: 'a::len word) = bs"
  by (simp add: word_from_be_rev word_to_be_rev word_to_from_le)

interpretation u64_le: fixed_codec "word_to_le :: u64 \<Rightarrow> byte list" word_from_le 8
  by unfold_locales (simp_all add: word_from_to_le word_to_from_le)

interpretation u16_be: fixed_codec "word_to_be :: u16 \<Rightarrow> byte list" word_from_be 2
  by unfold_locales (simp_all add: word_from_to_be word_to_from_be)

interpretation u32_le: fixed_codec "word_to_le :: u32 \<Rightarrow> byte list" word_from_le 4
  by unfold_locales (simp_all add: word_from_to_le word_to_from_le)

end
