(* ===== verification/Element.thy ===== *)
theory Element
  imports Codec
begin

unbundle bit_operations_syntax

text \<open>
  The 256-bit element of \<^verbatim>\<open>pkg/element\<close> (\<^verbatim>\<open>lib.rs\<close>, \<^verbatim>\<open>arith.rs\<close>, \<^verbatim>\<open>convert.rs\<close>).
  \<^verbatim>\<open>Element\<close> is a newtype of a 256-bit unsigned integer, so it is a 256-bit word here.
  The arithmetic operators panic on overflow when the crate is built with overflow
  checks and wrap around otherwise: they take that build setting as their first
  argument, and a panic is \<^term>\<open>None\<close>.
\<close>

type_synonym element = u256

section \<open>Constants and predicates (lib.rs)\<close>

definition ZERO :: element where "ZERO = 0"
definition ONE :: element where "ONE = 1"
definition MAX_E :: element where "MAX_E = - 1"
definition NULL_HASH :: element where "NULL_HASH = ZERO"
definition BYTE_HASH_IV :: element where "BYTE_HASH_IV = 2"

definition element_new :: "u64 \<Rightarrow> element" where
  "element_new i = ucast i"

definition as_bool :: "element \<Rightarrow> bool option" where
  "as_bool e = (if e = ZERO then Some False else if e = ONE then Some True else None)"

definition is_zero :: "element \<Rightarrow> bool" where
  "is_zero e \<longleftrightarrow> e = ZERO"

text \<open>The \<^verbatim>\<open>hex\<close> crate is a parameter: its encoder, and its fallible decoder.\<close>

definition pad_left :: "nat \<Rightarrow> char \<Rightarrow> string \<Rightarrow> string" where
  "pad_left w c s = replicate (w - length s) c @ s"

definition to_be_bytes :: "element \<Rightarrow> byte list" where
  "to_be_bytes e = word_to_be e"

definition to_hex_compact :: "(byte list \<Rightarrow> string) \<Rightarrow> element \<Rightarrow> string" where
  "to_hex_compact henc e = henc (to_be_bytes e)"

definition to_hex :: "(byte list \<Rightarrow> string) \<Rightarrow> element \<Rightarrow> string" where
  "to_hex henc e = pad_left 64 (CHR ''0'') (to_hex_compact henc e)"

section \<open>Conversions (convert.rs)\<close>

definition from_uint :: "'a::len word \<Rightarrow> element" where
  "from_uint v = ucast v"

definition try_to_uint :: "element \<Rightarrow> 'a::len word option" where
  "try_to_uint e = (if unat e < 2 ^ LENGTH('a) then Some (ucast e) else None)"

definition from_bool :: "bool \<Rightarrow> element" where
  "from_bool b = (if b then ONE else ZERO)"

definition eq_uint :: "element \<Rightarrow> 'a::len word \<Rightarrow> bool" where
  "eq_uint e v \<longleftrightarrow> e = from_uint v"

definition element_from_str :: "(string \<Rightarrow> 'e + element) \<Rightarrow> string \<Rightarrow> 'e + element" where
  "element_from_str parse_radix16 s =
     (let s = (case strip_prefix ''0x'' s of Some r \<Rightarrow> r | None \<Rightarrow> s) in parse_radix16 s)"

definition to_words :: "element \<Rightarrow> u128 \<times> u128" where
  "to_words e = (ucast (drop_bit 128 e), ucast e)"

definition from_words :: "u128 \<times> u128 \<Rightarrow> element" where
  "from_words w = push_bit 128 (ucast (fst w)) OR ucast (snd w)"

definition from_u64_array :: "u64 \<times> u64 \<times> u64 \<times> u64 \<Rightarrow> element" where
  "from_u64_array = (\<lambda>(a0, a1, a2, a3).
     let low = (ucast a0 :: u128) OR push_bit 64 (ucast a1);
         high = (ucast a2 :: u128) OR push_bit 64 (ucast a3)
     in from_words (high, low))"

definition to_u64_array :: "element \<Rightarrow> u64 \<times> u64 \<times> u64 \<times> u64" where
  "to_u64_array e =
     (let (high, low) = to_words e
      in (ucast low, ucast (drop_bit 64 low), ucast high, ucast (drop_bit 64 high)))"

definition to_le_bytes :: "element \<Rightarrow> byte list" where
  "to_le_bytes e = word_to_le e"

definition from_be_bytes :: "byte list \<Rightarrow> element" where
  "from_be_bytes bs = word_from_be bs"

definition from_le_bytes :: "byte list \<Rightarrow> element" where
  "from_le_bytes bs = word_from_le bs"

definition decompose_be :: "element \<Rightarrow> element \<times> element" where
  "decompose_be e =
     (let bytes = to_be_bytes e;
          high_bytes = take 16 bytes;
          low_bytes = drop 16 bytes
      in (from_be_bytes (replicate 16 0 @ high_bytes), from_be_bytes (replicate 16 0 @ low_bytes)))"

definition decompose_le :: "element \<Rightarrow> element \<times> element" where
  "decompose_le e =
     (let bytes = to_le_bytes e;
          low_bytes = take 16 bytes;
          high_bytes = drop 16 bytes
      in (from_le_bytes (high_bytes @ replicate 16 0), from_le_bytes (low_bytes @ replicate 16 0)))"

section \<open>Arithmetic (arith.rs)\<close>

definition add_e :: "bool \<Rightarrow> element \<Rightarrow> element \<Rightarrow> element option" where
  "add_e chk a b = (if chk \<and> 2 ^ 256 \<le> unat a + unat b then None else Some (a + b))"

definition sub_e :: "bool \<Rightarrow> element \<Rightarrow> element \<Rightarrow> element option" where
  "sub_e chk a b = (if chk \<and> a < b then None else Some (a - b))"

definition mul_e :: "bool \<Rightarrow> element \<Rightarrow> element \<Rightarrow> element option" where
  "mul_e chk a b = (if chk \<and> 2 ^ 256 \<le> unat a * unat b then None else Some (a * b))"

definition div_e :: "element \<Rightarrow> element \<Rightarrow> element option" where
  "div_e a b = (if b = 0 then None else Some (a div b))"

definition rem_e :: "element \<Rightarrow> element \<Rightarrow> element option" where
  "rem_e a b = (if b = 0 then None else Some (a mod b))"

definition xor_e :: "element \<Rightarrow> element \<Rightarrow> element" where "xor_e a b = a XOR b"
definition or_e :: "element \<Rightarrow> element \<Rightarrow> element" where "or_e a b = a OR b"
definition and_e :: "element \<Rightarrow> element \<Rightarrow> element" where "and_e a b = a AND b"

text \<open>The impls for a primitive right operand convert it first and use the operator on elements.\<close>

definition binop_uint :: "(element \<Rightarrow> element \<Rightarrow> 'r) \<Rightarrow> element \<Rightarrow> 'b::len word \<Rightarrow> 'r" where
  "binop_uint oper a v = oper a (from_uint v)"

definition shl_u8 :: "element \<Rightarrow> byte \<Rightarrow> element" where
  "shl_u8 e n = push_bit (unat n) e"

definition shr_u8 :: "element \<Rightarrow> byte \<Rightarrow> element" where
  "shr_u8 e n = drop_bit (unat n) e"

definition fold_checked :: "(element \<Rightarrow> element \<Rightarrow> element option) \<Rightarrow> element \<Rightarrow> element list \<Rightarrow> element option" where
  "fold_checked oper a xs = foldl (\<lambda>acc x. Option.bind acc (\<lambda>a. oper a x)) (Some a) xs"

definition sum_e :: "bool \<Rightarrow> element list \<Rightarrow> element option" where
  "sum_e chk xs = fold_checked (add_e chk) ZERO xs"

definition product_e :: "bool \<Rightarrow> element list \<Rightarrow> element option" where
  "product_e chk xs = fold_checked (mul_e chk) ONE xs"

section \<open>Lemmas\<close>

lemmas element_consts = ZERO_def ONE_def MAX_E_def NULL_HASH_def BYTE_HASH_IV_def

lemma unat_element_less: "unat (e :: element) < 2 ^ 256"
  using unsigned_less [of e, where 'a = nat] by simp

lemma length_to_be_bytes [simp, len_simps]: "length (to_be_bytes e) = 32"
  by (simp add: to_be_bytes_def)

lemma length_to_le_bytes [simp, len_simps]: "length (to_le_bytes e) = 32"
  by (simp add: to_le_bytes_def)

interpretation element_be: fixed_codec to_be_bytes from_be_bytes 32
  by unfold_locales (simp_all add: to_be_bytes_def from_be_bytes_def word_from_to_be word_to_from_be)

interpretation element_le: fixed_codec to_le_bytes from_le_bytes 32
  by unfold_locales (simp_all add: to_le_bytes_def from_le_bytes_def word_from_to_le word_to_from_le)

lemma to_le_bytes_rev: "to_le_bytes e = rev (to_be_bytes e)"
  by (simp add: to_le_bytes_def to_be_bytes_def word_to_be_rev)

lemma unat_from_be_bytes: "length bs \<le> 32 \<Longrightarrow> unat (from_be_bytes bs) = be_val bs"
  by (simp add: from_be_bytes_def unat_word_from_be)

lemma unat_from_le_bytes: "length bs \<le> 32 \<Longrightarrow> unat (from_le_bytes bs) = le_val bs"
  by (simp add: from_le_bytes_def unat_word_from_le)

lemma be_val_to_be_bytes [simp]: "be_val (to_be_bytes e) = unat e"
  using unat_element_less [of e] by (simp add: to_be_bytes_def word_to_be_def be_val_be_bytes)

lemma le_val_to_le_bytes [simp]: "le_val (to_le_bytes e) = unat e"
  using unat_element_less [of e] by (simp add: to_le_bytes_def word_to_le_def le_val_le_bytes)

lemma try_to_uint_from_uint:
  assumes "LENGTH('a::len) \<le> 256"
  shows "try_to_uint (from_uint (v :: 'a word)) = Some v"
proof -
  have w: "unat (ucast v :: element) = unat v" using assms by (simp add: unat_ucast_widen)
  then have "ucast (ucast v :: element) = v" by (simp add: word_unat_eq_iff unat_ucast_mod)
  then show ?thesis using w by (simp add: try_to_uint_def from_uint_def)
qed

lemma from_uint_try_to_uint:
  "LENGTH('a::len) \<le> 256 \<Longrightarrow> try_to_uint e = Some (v :: 'a word) \<Longrightarrow> from_uint v = e"
  unfolding try_to_uint_def from_uint_def
  by (auto split: if_splits simp: ucast_inverse_narrow)

lemma from_words_to_words [simp]: "from_words (to_words e) = e"
  unfolding from_words_def to_words_def
  by (rule bit_word_eqI) (auto simp: bit_simps dest: bit_imp_le_length)

lemma to_words_from_words [simp]: "to_words (from_words w) = w"
proof -
  have "ucast (drop_bit 128 (from_words w)) = fst w"
    unfolding from_words_def by (rule bit_word_eqI) (auto simp: bit_simps dest: bit_imp_le_length)
  moreover have "ucast (from_words w) = snd w"
    unfolding from_words_def by (rule bit_word_eqI) (auto simp: bit_simps dest: bit_imp_le_length)
  ultimately show ?thesis by (cases w) (simp add: to_words_def)
qed

text \<open>
  the four conversions between an element and its machine words are inverse to each
  other: an element survives \<^verbatim>\<open>to_words\<close> and \<^verbatim>\<open>to_u64_array\<close>, and every pair of
  128-bit words and every array of four 64-bit words survives the other direction, with
  no limb swapped or truncated.
\<close>

theorem words_round_trip:
  "from_words (to_words e) = e \<and> to_words (from_words w) = w \<and>
   from_u64_array (to_u64_array e) = e \<and> to_u64_array (from_u64_array a) = a"
proof -
  have "from_u64_array (to_u64_array e) = from_words (to_words e)"
  proof -
    have *: "ucast (ucast x :: u64) OR push_bit 64 (ucast (ucast (drop_bit 64 x) :: u64)) = x" for x :: u128
      by (rule bit_word_eqI) (auto simp: bit_simps dest: bit_imp_le_length)
    show ?thesis
      by (simp add: from_u64_array_def to_u64_array_def split_beta Let_def *)
  qed
  moreover have "to_u64_array (from_u64_array a) = a"
  proof -
    have lo: "ucast (ucast x OR push_bit 64 (ucast y) :: u128) = x" for x y :: u64
      by (rule bit_word_eqI) (auto simp: bit_simps dest: bit_imp_le_length)
    have hi: "ucast (drop_bit 64 (ucast x OR push_bit 64 (ucast y) :: u128)) = y" for x y :: u64
      by (rule bit_word_eqI) (auto simp: bit_simps dest: bit_imp_le_length)
    show ?thesis
      by (cases a) (simp add: from_u64_array_def to_u64_array_def Let_def lo hi [simplified])
  qed
  ultimately show ?thesis by simp
qed

lemma unat_decompose_be:
  "unat (fst (decompose_be e)) = unat e div 2 ^ 128 \<and> unat (snd (decompose_be e)) = unat e mod 2 ^ 128"
proof -
  let ?b = "to_be_bytes e"
  have "be_val ?b = be_val (take 16 ?b @ drop 16 ?b)" by simp
  then have v: "unat e = be_val (take 16 ?b) * 256 ^ 16 + be_val (drop 16 ?b)"
    unfolding be_val_append by simp
  have lo: "be_val (drop 16 ?b) < 256 ^ 16"
    using be_val_less [of "drop 16 ?b"] by simp
  have "unat (fst (decompose_be e)) = be_val (take 16 ?b)"
    and "unat (snd (decompose_be e)) = be_val (drop 16 ?b)"
    by (simp_all add: decompose_be_def Let_def unat_from_be_bytes be_val_append)
  then show ?thesis using v lo by simp
qed

lemma decompose_le_eq_be: "decompose_le e = decompose_be e"
  by (simp add: decompose_le_def decompose_be_def Let_def to_le_bytes_rev from_le_bytes_def
      from_be_bytes_def word_from_be_rev take_rev drop_rev)

text \<open>
  \<^verbatim>\<open>decompose_be\<close> and \<^verbatim>\<open>decompose_le\<close>, written over opposite byte orders, return
  the same pair: the quotient and the remainder of the element by \<^term>\<open>2 ^ 128\<close>, so that
  the element is recovered as \<^verbatim>\<open>high * 2^128 + low\<close>.
\<close>

theorem decompose_halves:
  "decompose_le e = decompose_be e \<and>
   unat (fst (decompose_be e)) = unat e div 2 ^ 128 \<and>
   unat (snd (decompose_be e)) = unat e mod 2 ^ 128 \<and>
   from_words (ucast (fst (decompose_be e)), ucast (snd (decompose_be e))) = e"
proof -
  have "ucast (fst (decompose_be e)) = fst (to_words e)"
    by (rule word_unat_eq_iff [THEN iffD2])
      (simp add: unat_decompose_be to_words_def unat_ucast_mod unat_drop_bit)
  moreover have "ucast (snd (decompose_be e)) = snd (to_words e)"
    by (rule word_unat_eq_iff [THEN iffD2])
      (simp add: unat_decompose_be to_words_def unat_ucast_mod)
  ultimately show ?thesis
    by (simp add: decompose_le_eq_be unat_decompose_be)
qed

lemma add_e_Some_iff: "add_e True a b = Some c \<longleftrightarrow> unat c = unat a + unat b"
  using unat_element_less [of c]
  by (auto simp: add_e_def unat_word_ariths(1) word_unat_eq_iff)

lemma mul_e_Some_iff: "mul_e True a b = Some c \<longleftrightarrow> unat c = unat a * unat b"
  using unat_element_less [of c]
  by (auto simp: mul_e_def unat_word_ariths(2) word_unat_eq_iff)

lemma fold_checked_None: "foldl (\<lambda>acc x. Option.bind acc (\<lambda>a. oper a x)) None xs = None"
  by (induction xs) auto

lemma fold_checked_Nil [simp]: "fold_checked oper a [] = Some a"
  by (simp add: fold_checked_def)

lemma fold_checked_Cons [simp]:
  "fold_checked oper a (x # xs) = (case oper a x of None \<Rightarrow> None | Some b \<Rightarrow> fold_checked oper b xs)"
  by (simp add: fold_checked_def fold_checked_None split: option.split)

lemma fold_add_checked:
  "fold_checked (add_e True) a xs = Some s \<longleftrightarrow> unat s = unat a + sum_list (map unat xs)"
proof (induction xs arbitrary: a)
  case Nil
  then show ?case by (auto simp: word_unat_eq_iff)
next
  case (Cons x xs)
  show ?case
  proof (cases "add_e True a x")
    case None
    then have "2 ^ 256 \<le> unat a + unat x" by (simp add: add_e_def split: if_splits)
    then show ?thesis using None unat_element_less [of s] by simp
  next
    case (Some b)
    then show ?thesis using Cons by (simp add: add_e_Some_iff [THEN iffD1] add.assoc)
  qed
qed

lemma fold_add_wrapping: "fold_checked (add_e False) a xs = Some (a + sum_list xs)"
  by (induction xs arbitrary: a) (auto simp: add_e_def algebra_simps)

text \<open>
  summing elements. With overflow checks the sum is returned exactly when the true
  sum of the values fits in 256 bits, and then it is that sum; without them the result
  is the sum modulo \<^term>\<open>2 ^ 256\<close>, and no input makes it panic.
\<close>

theorem sum_e_exact:
  "(sum_e True xs = Some s \<longleftrightarrow> unat s = sum_list (map unat xs)) \<and>
   (sum_e True xs = None \<longleftrightarrow> 2 ^ 256 \<le> sum_list (map unat xs)) \<and>
   sum_e False xs = Some (sum_list xs)"
proof -
  have iff: "sum_e True xs = Some t \<longleftrightarrow> unat t = sum_list (map unat xs)" for t
    by (simp add: sum_e_def fold_add_checked element_consts)
  have "sum_e True xs = None \<longleftrightarrow> 2 ^ 256 \<le> sum_list (map unat xs)"
  proof
    assume n: "sum_e True xs = None"
    show "2 ^ 256 \<le> sum_list (map unat xs)"
    proof (rule ccontr)
      assume "\<not> ?thesis"
      then have "unat (of_nat (sum_list (map unat xs)) :: element) = sum_list (map unat xs)"
        by (simp add: unat_of_nat)
      then show False using iff n by simp
    qed
  next
    assume "2 ^ 256 \<le> sum_list (map unat xs)"
    then show "sum_e True xs = None"
      using iff unat_element_less by (metis not_less option.exhaust)
  qed
  then show ?thesis using iff by (simp add: sum_e_def fold_add_wrapping element_consts)
qed

end
