(* ===== verification/Hex.thy ===== *)
theory Hex
  imports Prelude
begin

text \<open>
  The \<^verbatim>\<open>hex\<close> crate, a parameter of the model: an encoder and a fallible decoder.  What
  the code relies on is \<^verbatim>\<open>hex_laws\<close>: lower-case digits, two per byte, decoding inverts
  encoding.  The concrete codec at the end satisfies the laws and serves the witnesses.
\<close>

definition lower_hex_char :: "char \<Rightarrow> bool" where
  "lower_hex_char c \<longleftrightarrow> (48 \<le> (of_char c :: nat) \<and> of_char c \<le> (57 :: nat)) \<or>
                      (97 \<le> (of_char c :: nat) \<and> of_char c \<le> (102 :: nat))"

definition hex_laws :: "(byte list \<Rightarrow> string) \<Rightarrow> (string \<Rightarrow> byte list option) \<Rightarrow> bool" where
  "hex_laws henc hdec \<longleftrightarrow>
     (\<forall>bs. hdec (henc bs) = Some bs \<and> length (henc bs) = 2 * length bs \<and>
        list_all lower_hex_char (henc bs))"

definition hex_digit :: "nat \<Rightarrow> char" where
  "hex_digit n = char_of (if n < 10 then 48 + n else 87 + n)"

definition hex_value :: "char \<Rightarrow> nat option" where
  "hex_value c =
     (let n = of_char c :: nat in
      if 48 \<le> n \<and> n \<le> 57 then Some (n - 48)
      else if 97 \<le> n \<and> n \<le> 102 then Some (n - 87)
      else if 65 \<le> n \<and> n \<le> 70 then Some (n - 55) else None)"

definition hex_enc :: "byte list \<Rightarrow> string" where
  "hex_enc bs = concat (map (\<lambda>b. [hex_digit (unat b div 16), hex_digit (unat b mod 16)]) bs)"

fun hex_dec :: "string \<Rightarrow> byte list option" where
  "hex_dec [] = Some []"
| "hex_dec [c] = None"
| "hex_dec (c # d # s) =
     (case (hex_value c, hex_value d, hex_dec s) of
        (Some h, Some l, Some bs) \<Rightarrow> Some (of_nat (16 * h + l) # bs)
      | _ \<Rightarrow> None)"

lemma of_char_hex_digit: "n < 16 \<Longrightarrow> of_char (hex_digit n) = (if n < 10 then 48 + n else 87 + n)"
  by (simp add: hex_digit_def)

lemma hex_value_digit: "n < 16 \<Longrightarrow> hex_value (hex_digit n) = Some n"
  by (simp add: hex_value_def of_char_hex_digit)

lemma lower_hex_digit: "n < 16 \<Longrightarrow> lower_hex_char (hex_digit n)"
  by (simp add: lower_hex_char_def of_char_hex_digit)

lemma nibbles: "unat (b :: byte) div 16 < 16" "unat (b :: byte) mod 16 < 16"
  using unsigned_less [of b, where 'a = nat] by (auto intro!: less_mult_imp_div_less)

lemma hex_dec_enc: "hex_dec (hex_enc bs) = Some bs"
  by (induction bs) (simp_all add: hex_enc_def hex_value_digit nibbles)

lemma hex_laws_concrete: "hex_laws hex_enc hex_dec"
proof -
  have "length (hex_enc bs) = 2 * length bs" for bs
    by (induction bs) (auto simp: hex_enc_def)
  moreover have "list_all lower_hex_char (hex_enc bs)" for bs
    by (induction bs) (auto simp: hex_enc_def lower_hex_digit nibbles)
  ultimately show ?thesis by (simp add: hex_laws_def hex_dec_enc)
qed

lemma lower_hex_not_x [simp]: "\<not> lower_hex_char (CHR ''x'')"
  by (simp add: lower_hex_char_def)

end
