(* ===== verification/ElementExt.thy ===== *)
theory ElementExt
  imports Element Hex
begin

unbundle bit_operations_syntax

text \<open>
  The rest of \<^verbatim>\<open>pkg/element\<close>: the least significant bits and tree collisions
  (\<^verbatim>\<open>lsb.rs\<close>, \<^verbatim>\<open>collision.rs\<close>), the conversion to and from the proof system's field
  (\<^verbatim>\<open>noir.rs\<close>, \<^verbatim>\<open>rand_impls.rs\<close>), and the serialisations (\<^verbatim>\<open>serde.rs\<close>,
  \<^verbatim>\<open>borsh_impls.rs\<close>).  The field type and the hex crate are parameters.
\<close>

section \<open>Least significant bits (lsb.rs, collision.rs)\<close>

text \<open>\<^verbatim>\<open>BitArray<[u8; 32], Msb0>\<close>: the bits of each byte, most significant first.\<close>

definition byte_bits_msb0 :: "byte \<Rightarrow> bool list" where
  "byte_bits_msb0 b = map (bit b) [7, 6, 5, 4, 3, 2, 1, 0]"

definition to_be_bits :: "element \<Rightarrow> bool list" where
  "to_be_bits e = concat (map byte_bits_msb0 (to_be_bytes e))"

record lsb_handle =
  lsb_bits :: "bool list"
  lsb_count :: nat

definition lsb_of :: "element \<Rightarrow> nat \<Rightarrow> lsb_handle" where
  "lsb_of e n = \<lparr> lsb_bits = to_be_bits e, lsb_count = n \<rparr>"

text \<open>A count above the number of bits makes \<^verbatim>\<open>len - count\<close> or the slice panic.\<close>

definition lsb_as_slice :: "lsb_handle \<Rightarrow> bool list option" where
  "lsb_as_slice l =
     (if length (lsb_bits l) < lsb_count l then None
      else Some (drop (length (lsb_bits l) - lsb_count l) (lsb_bits l)))"

text \<open>
  \<^verbatim>\<open>into_iter\<close> skips \<^verbatim>\<open>len - count\<close> bits: with overflow checks a larger count panics,
  without them the difference wraps around to a skip past the end.
\<close>

definition lsb_into_iter :: "bool \<Rightarrow> lsb_handle \<Rightarrow> bool list option" where
  "lsb_into_iter chk l =
     (if length (lsb_bits l) < lsb_count l then (if chk then None else Some [])
      else Some (drop (length (lsb_bits l) - lsb_count l) (lsb_bits l)))"

definition lsb_eq :: "lsb_handle \<Rightarrow> lsb_handle \<Rightarrow> bool option" where
  "lsb_eq l m =
     Option.bind (lsb_as_slice l) (\<lambda>a. Option.bind (lsb_as_slice m) (\<lambda>b. Some (a = b)))"

definition collides_with :: "nat \<Rightarrow> element \<Rightarrow> element \<Rightarrow> bool option" where
  "collides_with depth a b =
     (if depth = 0 then None else lsb_eq (lsb_of a (depth - 1)) (lsb_of b (depth - 1)))"

section \<open>The field of the proof system (noir.rs, rand-impls.rs)\<close>

text \<open>
  \<^verbatim>\<open>Base\<close> is the scalar field type of the \<^verbatim>\<open>acvm\<close> crate.  The code uses two of its
  functions; what it relies on is stated by \<^verbatim>\<open>base_laws\<close>: encodings are canonical
  32-byte big-endian representatives, and decoding reduces modulo the field's prime.
\<close>

definition MODULUS :: element where
  "MODULUS = 0x30644E72E131A029B85045B68181585D2833E84879B9709143E1F593F0000001"

record 'f base_ops =
  fe_from_be_bytes_reduce :: "byte list \<Rightarrow> 'f"
  fe_to_be_bytes :: "'f \<Rightarrow> byte list"

definition base_laws :: "('f, 'z) base_ops_scheme \<Rightarrow> bool" where
  "base_laws F \<longleftrightarrow>
     (\<forall>x. length (fe_to_be_bytes F x) = 32 \<and> be_val (fe_to_be_bytes F x) < unat MODULUS) \<and>
     (\<forall>bs. be_val (fe_to_be_bytes F (fe_from_be_bytes_reduce F bs)) = be_val bs mod unat MODULUS) \<and>
     (\<forall>bs cs. be_val bs mod unat MODULUS = be_val cs mod unat MODULUS \<longrightarrow>
        fe_from_be_bytes_reduce F bs = fe_from_be_bytes_reduce F cs)"

definition from_base :: "('f, 'z) base_ops_scheme \<Rightarrow> 'f \<Rightarrow> element" where
  "from_base F x = from_be_bytes (fe_to_be_bytes F x)"

definition to_base :: "('f, 'z) base_ops_scheme \<Rightarrow> element \<Rightarrow> 'f" where
  "to_base F e = fe_from_be_bytes_reduce F (to_be_bytes e)"

text \<open>The random generators reduce 32 bytes drawn from the generator into the field.\<close>

definition random_from :: "('f, 'z) base_ops_scheme \<Rightarrow> byte list \<Rightarrow> element" where
  "random_from F bytes = from_base F (to_base F (from_be_bytes bytes))"

definition secure_random_from :: "('f, 'z) base_ops_scheme \<Rightarrow> byte list \<Rightarrow> element" where
  "secure_random_from F bytes = (let e = from_be_bytes bytes in from_base F (to_base F e))"

section \<open>Serialisation (serde.rs, borsh-impls.rs)\<close>

datatype serde_error = InvalidHex | InvalidLength

definition serde_serialize :: "(byte list \<Rightarrow> string) \<Rightarrow> element \<Rightarrow> string" where
  "serde_serialize henc u = pad_left 64 (CHR ''0'') (henc (to_be_bytes u))"

text \<open>\<^verbatim>\<open>trim_start_matches\<close> removes the prefix as often as it occurs.\<close>

fun trim_start_matches :: "string \<Rightarrow> string \<Rightarrow> string" where
  "trim_start_matches p s =
     (if p = [] then s else
       (case strip_prefix p s of None \<Rightarrow> s
        | Some r \<Rightarrow> if length r < length s then trim_start_matches p r else s))"

declare trim_start_matches.simps [simp del]

definition serde_deserialize :: "(string \<Rightarrow> byte list option) \<Rightarrow> string \<Rightarrow> serde_error + element" where
  "serde_deserialize hdec s =
     (case hdec (trim_start_matches ''0x'' s) of
        None \<Rightarrow> Inl InvalidHex
      | Some bytes \<Rightarrow> if length bytes = 32 then Inr (from_be_bytes bytes) else Inl InvalidLength)"

definition borsh_serialize :: "element \<Rightarrow> byte list" where
  "borsh_serialize e = to_be_bytes e"

text \<open>A reader is the rest of its input; a short read is an error.\<close>

definition read_exact :: "nat \<Rightarrow> byte list \<Rightarrow> (byte list \<times> byte list) option" where
  "read_exact n r = (if length r < n then None else Some (take n r, drop n r))"

definition borsh_deserialize :: "byte list \<Rightarrow> (element \<times> byte list) option" where
  "borsh_deserialize r =
     map_option (\<lambda>(bytes, rest). (from_be_bytes bytes, rest)) (read_exact 32 r)"

section \<open>Lemmas\<close>

lemma byte_bits_rev: "byte_bits_msb0 = (\<lambda>b. map (bit b) (rev [0..<8]))"
  by (rule ext) (simp add: byte_bits_msb0_def upt_rec eval_nat_numeral)

lemma upt_split_8: "[0..<8 * Suc k] = [0..<8] @ map (\<lambda>i. 8 + i) [0..<8 * k]"
proof -
  have "[0..<8 * Suc k] = [0..<8] @ [8..<8 + 8 * k]"
    using upt_add_eq_append [of 0 8 "8 * k"] by simp
  also have "[8..<8 + 8 * k] = map (\<lambda>i. 8 + i) [0..<8 * k]"
    using map_add_upt [of 8 "8 * k"] by (simp add: add.commute comp_def)
  finally show ?thesis .
qed

lemma bit_of_nat_byte: "map (bit (of_nat n :: byte)) [0..<8] = map (bit n) [0..<8]"
  by (auto simp: bit_simps)

lemma bits_le_bytes:
  "concat (map (\<lambda>b. map (bit b) [0..<8]) (le_bytes k n)) = map (bit n) [0..<8 * k]"
proof (induction k arbitrary: n)
  case (Suc k)
  have "of_nat (n mod 256) = (of_nat n :: byte)"
    using word_of_nat_eq_iff [where 'a = 8, of "n mod 256" n] by (simp add: take_bit_eq_mod)
  moreover have "bit (n div 256) = (\<lambda>i. bit n (8 + i))"
    using bit_drop_bit_eq [of 8 n] by (simp add: drop_bit_eq_div comp_def)
  ultimately show ?case
    using Suc [of "n div 256"]
    by (simp add: le_bytes_def bit_of_nat_byte upt_split_8 comp_def del: mult_Suc_right)
qed (simp add: le_bytes_def)

lemma to_be_bits_eq: "to_be_bits e = map (bit e) (rev [0..<256])"
proof -
  have "to_be_bits e = rev (concat (map (\<lambda>b. map (bit b) [0..<8]) (to_le_bytes e)))"
    by (simp add: to_be_bits_def to_le_bytes_rev rev_concat rev_map comp_def byte_bits_rev)
  also have "\<dots> = rev (map (bit (unat e)) [0..<256])"
    by (simp add: to_le_bytes_def word_to_le_def bits_le_bytes)
  also have "map (bit (unat e)) [0..<256] = map (bit e) [0..<256]"
    by (simp add: bit_unsigned_iff)
  finally show ?thesis by (simp add: rev_map)
qed

lemma lsb_slice:
  "n \<le> 256 \<Longrightarrow> lsb_as_slice (lsb_of e n) = Some (map (bit e) (rev [0..<n]))"
  by (simp add: lsb_as_slice_def lsb_of_def to_be_bits_eq drop_map drop_rev)

lemma lsb_iter:
  "n \<le> 256 \<Longrightarrow> lsb_into_iter chk (lsb_of e n) = Some (map (bit e) (rev [0..<n]))"
  by (simp add: lsb_into_iter_def lsb_of_def to_be_bits_eq drop_map drop_rev)

text \<open>
  \<^verbatim>\<open>collides_with::<DEPTH>\<close>: two elements collide in a tree of depth \<^verbatim>\<open>DEPTH\<close> (at most
  257) exactly when they agree modulo \<^verbatim>\<open>2^(DEPTH-1)\<close>, that is when the paths to the two
  leaves are the same; the bits are read from the big-endian byte array, most
  significant first.
\<close>

theorem collides_with_iff:
  assumes "1 \<le> depth" "depth \<le> 257"
  shows "collides_with depth a b = Some (unat a mod 2 ^ (depth - 1) = unat b mod 2 ^ (depth - 1))"
proof -
  let ?n = "depth - 1"
  have "take_bit ?n (unat a) = take_bit ?n (unat b) \<longleftrightarrow> (\<forall>i<?n. bit (unat a) i = bit (unat b) i)"
    unfolding bit_eq_iff [of "take_bit ?n (unat a)"] bit_take_bit_iff by auto
  then have "map (bit a) (rev [0..<?n]) = map (bit b) (rev [0..<?n]) \<longleftrightarrow> take_bit ?n (unat a) = take_bit ?n (unat b)"
    by (auto simp: bit_unsigned_iff)
  then show ?thesis
    using assms by (simp add: collides_with_def lsb_eq_def lsb_slice take_bit_eq_mod)
qed

theorem collides_with_iff_witness:
  "collides_with 4 5 13 = Some (unat (5 :: element) mod 2 ^ (4 - 1) = unat (13 :: element) mod 2 ^ (4 - 1))"
  by (rule collides_with_iff) simp_all

lemma from_base_less: "base_laws F \<Longrightarrow> unat (from_base F x) < unat MODULUS"
  by (simp add: base_laws_def from_base_def unat_from_be_bytes)

lemma unat_from_base_to_base:
  "base_laws F \<Longrightarrow> unat (from_base F (to_base F e)) = unat e mod unat MODULUS"
  by (simp add: base_laws_def from_base_def to_base_def unat_from_be_bytes)

lemma unat_from_base_reduce:
  "base_laws F \<Longrightarrow> unat (from_base F (fe_from_be_bytes_reduce F bs)) = be_val bs mod unat MODULUS"
proof -
  assume F: "base_laws F"
  from F have "\<forall>x. length (fe_to_be_bytes F x) = 32 \<and> be_val (fe_to_be_bytes F x) < unat MODULUS"
    unfolding base_laws_def by (elim conjE)
  moreover from F have "\<forall>bs. be_val (fe_to_be_bytes F (fe_from_be_bytes_reduce F bs)) = be_val bs mod unat MODULUS"
    unfolding base_laws_def by (elim conjE)
  ultimately show ?thesis by (simp add: from_base_def unat_from_be_bytes)
qed

lemma to_base_eq_iff:
  assumes "base_laws F"
  shows "to_base F a = to_base F b \<longleftrightarrow> unat a mod unat MODULUS = unat b mod unat MODULUS"
proof
  assume "to_base F a = to_base F b"
  then show "unat a mod unat MODULUS = unat b mod unat MODULUS"
    using unat_from_base_to_base [OF assms, of a] unat_from_base_to_base [OF assms, of b] by simp
next
  assume "unat a mod unat MODULUS = unat b mod unat MODULUS"
  then show "to_base F a = to_base F b"
    using assms unfolding base_laws_def to_base_def by simp
qed

lemma base_round_trip: "base_laws F \<Longrightarrow> e < MODULUS \<Longrightarrow> from_base F (to_base F e) = e"
  by (simp add: word_unat_eq_iff unat_from_base_to_base word_less_nat_alt)

text \<open>A concrete field: the canonical representatives themselves, used by the witnesses.\<close>

definition nat_base :: "nat base_ops" where
  "nat_base = \<lparr> fe_from_be_bytes_reduce = (\<lambda>bs. be_val bs mod unat MODULUS),
     fe_to_be_bytes = (\<lambda>n. be_bytes 32 (n mod unat MODULUS)) \<rparr>"

lemma MODULUS_pos: "0 < unat MODULUS"
  by (simp add: MODULUS_def)

lemma mod_MODULUS_fits: "n mod unat MODULUS mod 256 ^ 32 = n mod unat MODULUS"
proof -
  have "n mod unat MODULUS < 256 ^ 32"
    using mod_less_divisor [OF MODULUS_pos, of n] unat_element_less [of MODULUS] by simp
  then show ?thesis by simp
qed

lemma base_laws_nat_base: "base_laws nat_base"
  unfolding base_laws_def nat_base_def
  using mod_MODULUS_fits MODULUS_pos by (simp add: be_val_be_bytes del: power_numeral)

text \<open>
  conversion to the field and back reduces the element modulo the field's prime and
  lands below it; two elements have the same field value exactly when they agree modulo
  the prime; elements below the prime survive the round trip; and both random generators
  return canonical elements whatever bytes they draw.
\<close>

theorem base_conversion_reduces:
  assumes "base_laws F"
  shows "unat (from_base F (to_base F e)) = unat e mod unat MODULUS \<and>
    from_base F x < MODULUS \<and>
    (to_base F a = to_base F b \<longleftrightarrow> unat a mod unat MODULUS = unat b mod unat MODULUS) \<and>
    (e < MODULUS \<longrightarrow> from_base F (to_base F e) = e) \<and>
    random_from F bytes < MODULUS \<and> secure_random_from F bytes < MODULUS"
  using assms
  by (simp add: from_base_less to_base_eq_iff base_round_trip random_from_def secure_random_from_def
      word_less_nat_alt Let_def unat_from_base_to_base [OF assms, of e])

theorem base_conversion_reduces_witness:
  "(5 :: element) < MODULUS \<and> from_base nat_base (to_base nat_base 5) = 5"
proof -
  have "(5 :: element) < MODULUS" by (simp add: MODULUS_def)
  then show ?thesis
    using base_conversion_reduces [OF base_laws_nat_base, of 5 7 MODULUS 0 "[1, 2]"] by blast
qed

lemma pad_left_full: "length s = w \<Longrightarrow> pad_left w c s = s"
  by (simp add: pad_left_def)

lemma hex_no_prefix: "hex_laws henc hdec \<Longrightarrow> trim_start_matches ''0x'' (henc bs) = henc bs"
proof -
  assume "hex_laws henc hdec"
  then have "list_all lower_hex_char (henc bs)" by (simp add: hex_laws_def)
  then have "strip_prefix ''0x'' (henc bs) = None"
    by (cases "strip_prefix ''0x'' (henc bs)") (auto simp: strip_prefix_Some_iff)
  then show ?thesis by (subst trim_start_matches.simps) simp
qed

text \<open>
  serialisations of an element lose nothing: the JSON form is always 64 characters
  (the padding never adds any) and deserialises to the element; the Borsh form is 32
  bytes, is read back from any longer input leaving the rest unread, and a shorter input
  is refused.
\<close>

theorem element_serialisations:
  assumes "hex_laws henc hdec"
  shows "length (serde_serialize henc e) = 64 \<and>
    serde_deserialize hdec (serde_serialize henc e) = Inr e \<and>
    to_hex henc e = serde_serialize henc e \<and>
    borsh_deserialize (borsh_serialize e @ rest) = Some (e, rest) \<and>
    (length r < 32 \<longrightarrow> borsh_deserialize r = None)"
proof -
  have "length (henc (to_be_bytes e)) = 64" and "hdec (henc (to_be_bytes e)) = Some (to_be_bytes e)"
    using assms by (simp_all add: hex_laws_def)
  then show ?thesis
    by (simp add: serde_serialize_def pad_left_full serde_deserialize_def
        hex_no_prefix [OF assms] element_be.dec_enc to_hex_def to_hex_compact_def
        borsh_deserialize_def borsh_serialize_def read_exact_def)
qed

theorem element_serialisations_witness:
  "serde_deserialize hex_dec (serde_serialize hex_enc 300) = Inr 300 \<and>
   borsh_deserialize (borsh_serialize 300 @ [7]) = Some (300, [7]) \<and>
   borsh_deserialize [7, 7] = None"
  using element_serialisations [OF hex_laws_concrete, of 300 "[7]" "[7, 7]"] by simp

end
