(* ===== verification/Hash.thy ===== *)
theory Hash
  imports ElementExt
begin

unbundle bit_operations_syntax

text \<open>
  \<^verbatim>\<open>pkg/hash\<close>: merging and hashing of elements and bytes (\<^verbatim>\<open>lib.rs\<close>) and the Merkle
  path functions (\<^verbatim>\<open>path.rs\<close>).  The Poseidon function of \<^verbatim>\<open>bn254_blackbox_solver\<close> is a
  parameter: it returns \<^verbatim>\<open>Ok\<close> on every input and \<^term>\<open>poseidon\<close> is that value.
\<close>

record 'f crypto = "'f base_ops" +
  poseidon :: "'f list \<Rightarrow> 'f"

section \<open>lib.rs\<close>

definition hash_merge :: "('f, 'z) crypto_scheme \<Rightarrow> element list \<Rightarrow> element" where
  "hash_merge C elements =
     (let inputs = map (to_base C) elements;
          hash = poseidon C inputs
      in from_base C hash)"

definition bytes_to_element :: "byte list \<Rightarrow> element" where
  "bytes_to_element bytes =
     (let padded_bytes = bytes @ replicate (16 - length bytes) 0
      in from_uint (word_from_be padded_bytes :: u128))"

definition hash_bytes :: "('f, 'z) crypto_scheme \<Rightarrow> byte list \<Rightarrow> element" where
  "hash_bytes C bytes =
     foldl (\<lambda>left right. hash_merge C [left, right]) BYTE_HASH_IV
       (map bytes_to_element (chunks 16 bytes))"

section \<open>path.rs\<close>

definition least_significant_bits :: "bool \<Rightarrow> element \<Rightarrow> nat \<Rightarrow> bool list option" where
  "least_significant_bits chk e depth = map_option rev (lsb_into_iter chk (lsb_of e depth))"

fun compute_merkle_root_from_iter ::
  "('f, 'z) crypto_scheme \<Rightarrow> element \<Rightarrow> (element \<times> bool) list \<Rightarrow> element" where
  "compute_merkle_root_from_iter C leaf [] = leaf"
| "compute_merkle_root_from_iter C leaf ((sibling, False) # rest) =
     compute_merkle_root_from_iter C (hash_merge C [leaf, sibling]) rest"
| "compute_merkle_root_from_iter C leaf ((sibling, True) # rest) =
     compute_merkle_root_from_iter C (hash_merge C [sibling, leaf]) rest"

definition compute_merkle_root ::
  "bool \<Rightarrow> ('f, 'z) crypto_scheme \<Rightarrow> element \<Rightarrow> element \<Rightarrow> element list \<Rightarrow> element option" where
  "compute_merkle_root chk C leaf path_element siblings =
     map_option (\<lambda>bits. compute_merkle_root_from_iter C leaf (zip siblings bits))
       (least_significant_bits chk path_element (length siblings))"

definition compute_null_root ::
  "bool \<Rightarrow> ('f, 'z) crypto_scheme \<Rightarrow> element \<Rightarrow> element list \<Rightarrow> element option" where
  "compute_null_root chk C leaf siblings =
     map_option (\<lambda>bits. compute_merkle_root_from_iter C NULL_HASH (zip siblings bits))
       (least_significant_bits chk leaf (length siblings))"

text \<open>The loop pushes the hash of every level after the leaf.\<close>

fun merkle_path_loop ::
  "('f, 'z) crypto_scheme \<Rightarrow> element \<Rightarrow> (element \<times> bool) list \<Rightarrow> element list \<Rightarrow> element list" where
  "merkle_path_loop C hash [] path = path"
| "merkle_path_loop C hash ((sibling, right) # rest) path =
     (let hash' = (if right then hash_merge C [sibling, hash] else hash_merge C [hash, sibling])
      in merkle_path_loop C hash' rest (path @ [hash']))"

definition compute_merkle_path_for_leaf ::
  "bool \<Rightarrow> ('f, 'z) crypto_scheme \<Rightarrow> element \<Rightarrow> element list \<Rightarrow> element list option" where
  "compute_merkle_path_for_leaf chk C leaf siblings =
     map_option (\<lambda>bits. merkle_path_loop C leaf (zip siblings bits) [leaf])
       (least_significant_bits chk leaf (length siblings))"

text \<open>The assertion on the depth is the panic.\<close>

definition empty_tree_root :: "('f, 'z) crypto_scheme \<Rightarrow> nat \<Rightarrow> element option" where
  "empty_tree_root C depth =
     (if depth = 0 then None
      else Some (compute_merkle_root_from_iter C NULL_HASH (map (\<lambda>_. (NULL_HASH, False)) [1..<depth])))"

section \<open>The tree the path functions are about\<close>

text \<open>
  A perfect tree with \<^verbatim>\<open>2^n\<close> leaves \<^verbatim>\<open>f 0 ... f (2^n - 1)\<close>: its root, and the siblings on
  the way up from the leaf of index \<^verbatim>\<open>i\<close>, deepest first.
\<close>

definition parent_level :: "('f, 'z) crypto_scheme \<Rightarrow> (nat \<Rightarrow> element) \<Rightarrow> nat \<Rightarrow> element" where
  "parent_level C f i = hash_merge C [f (2 * i), f (2 * i + 1)]"

fun tree_root :: "('f, 'z) crypto_scheme \<Rightarrow> nat \<Rightarrow> (nat \<Rightarrow> element) \<Rightarrow> element" where
  "tree_root C 0 f = f 0"
| "tree_root C (Suc n) f = tree_root C n (parent_level C f)"

fun tree_siblings :: "('f, 'z) crypto_scheme \<Rightarrow> nat \<Rightarrow> (nat \<Rightarrow> element) \<Rightarrow> nat \<Rightarrow> element list" where
  "tree_siblings C 0 f i = []"
| "tree_siblings C (Suc n) f i =
     f (if even i then i + 1 else i - 1) # tree_siblings C n (parent_level C f) (i div 2)"

section \<open>Lemmas\<close>

lemma length_tree_siblings [simp, len_simps]: "length (tree_siblings C n f i) = n"
  by (induction n arbitrary: f i) auto

lemma bits_of_path:
  "n \<le> 256 \<Longrightarrow> least_significant_bits chk e n = Some (map (bit e) [0..<n])"
  by (simp add: least_significant_bits_def lsb_iter rev_map)

lemma root_step:
  "compute_merkle_root_from_iter C leaf ((s, b) # rest) =
   compute_merkle_root_from_iter C (if b then hash_merge C [s, leaf] else hash_merge C [leaf, s]) rest"
  by (cases b) auto

lemma map_bit_Suc: "map (bit (k :: nat)) [0..<Suc n] = odd k # map (bit (k div 2)) [0..<n]"
  by (simp add: upt_rec [of 0 "Suc n"] map_Suc_upt [symmetric] bit_Suc comp_def bit_0 del: upt_Suc)

lemma parent_level_upd:
  "parent_level C (f(i := x)) =
   (parent_level C f)(i div 2 := (if odd i then hash_merge C [f (i - 1), x] else hash_merge C [x, f (i + 1)]))"
  by (rule ext) (auto simp: parent_level_def elim!: oddE evenE)

lemma root_of_siblings:
  "i < 2 ^ n \<Longrightarrow>
   compute_merkle_root_from_iter C x (zip (tree_siblings C n f i) (map (bit i) [0..<n])) =
   tree_root C n (f(i := x))"
proof (induction n arbitrary: f i x)
  case (Suc n)
  have "i div 2 < 2 ^ n" using Suc.prems by (simp add: less_mult_imp_div_less mult.commute)
  note ih = Suc.IH [OF this, of _ "parent_level C f"]
  show ?case
    unfolding map_bit_Suc tree_siblings.simps zip_Cons_Cons root_step tree_root.simps parent_level_upd ih
    by (auto elim!: oddE evenE)
qed simp

lemma bit_mod_2p: "map (bit (e :: element)) [0..<n] = map (bit (unat e mod 2 ^ n)) [0..<n]"
  by (auto simp: bit_simps simp flip: take_bit_eq_mod dest: bit_imp_le_length)

text \<open>
  C14: the path functions compute roots of a perfect binary tree. For a tree with
  \<^verbatim>\<open>2^n\<close> leaves, \<^verbatim>\<open>n <= 256\<close>, the siblings of a leaf index and any leaf value,
  \<^verbatim>\<open>compute_merkle_root\<close> returns the root of the tree with that value written at the
  index given by the low \<^verbatim>\<open>n\<close> bits of the path element: the present leaf gives the
  present root, a new leaf the root after insertion, and \<^verbatim>\<open>compute_null_root\<close> the root of
  the tree with the leaf removed. None of them panics.
\<close>

theorem merkle_root_of_tree:
  assumes "n \<le> 256" "i = unat path mod 2 ^ n"
  shows "compute_merkle_root chk C x path (tree_siblings C n f i) = Some (tree_root C n (f(i := x))) \<and>
    compute_merkle_root chk C (f i) path (tree_siblings C n f i) = Some (tree_root C n f) \<and>
    compute_null_root chk C path (tree_siblings C n f i) = Some (tree_root C n (f(i := NULL_HASH)))"
proof -
  have i: "i < 2 ^ n" using assms(2) by simp
  have bits: "least_significant_bits chk path n = Some (map (bit i) [0..<n])"
    using bits_of_path [OF assms(1), of chk path] bit_mod_2p [of path n] assms(2) by simp
  have root: "compute_merkle_root chk C y path (tree_siblings C n f i) = Some (tree_root C n (f(i := y)))" for y
    by (simp add: compute_merkle_root_def bits root_of_siblings [OF i])
  show ?thesis
    using root [of x] root [of "f i"]
    by (simp add: compute_null_root_def bits root_of_siblings [OF i])
qed

definition poly_crypto :: "nat crypto" where
  "poly_crypto = \<lparr> fe_from_be_bytes_reduce = (\<lambda>bs. be_val bs mod unat MODULUS),
     fe_to_be_bytes = (\<lambda>n. be_bytes 32 (n mod unat MODULUS)),
     poseidon = foldl (\<lambda>a x. (a * 7 + x + 1) mod unat MODULUS) 3 \<rparr>"

theorem merkle_root_of_tree_witness:
  "(2::nat) \<le> 256 \<and> (3::nat) = unat (7 :: element) mod 2 ^ 2 \<and>
   compute_merkle_root True poly_crypto 9 7 (tree_siblings poly_crypto 2 of_nat 3) =
     Some (tree_root poly_crypto 2 (of_nat(3 := 9)))"
  using merkle_root_of_tree [of 2 3 7 True poly_crypto 9 of_nat] by simp

text \<open>
  What a path hashes, level by level: the value that has reached level \<^term>\<open>k\<close>, and the
  pair of that value and the sibling, in the order the path's bit gives.
\<close>

fun path_value :: "('f, 'z) crypto_scheme \<Rightarrow> (nat \<Rightarrow> bool) \<Rightarrow> element \<Rightarrow> element list \<Rightarrow> nat \<Rightarrow> element" where
  "path_value C right leaf siblings 0 = leaf"
| "path_value C right leaf siblings (Suc k) =
     hash_merge C (if right k then [siblings ! k, path_value C right leaf siblings k]
       else [path_value C right leaf siblings k, siblings ! k])"

definition path_pair :: "('f, 'z) crypto_scheme \<Rightarrow> (nat \<Rightarrow> bool) \<Rightarrow> element \<Rightarrow> element list \<Rightarrow> nat \<Rightarrow> element list" where
  "path_pair C right leaf siblings k =
     (if right k then [siblings ! k, path_value C right leaf siblings k]
      else [path_value C right leaf siblings k, siblings ! k])"

lemma root_from_iter_snoc:
  "compute_merkle_root_from_iter C leaf (ps @ [(s, b)]) =
     hash_merge C (if b then [s, compute_merkle_root_from_iter C leaf ps]
       else [compute_merkle_root_from_iter C leaf ps, s])"
proof (induction ps arbitrary: leaf)
  case Nil
  show ?case by (cases b) simp_all
next
  case (Cons p ps)
  obtain t c where "p = (t, c)" by (cases p)
  then show ?case using Cons by (simp add: root_step)
qed

lemma root_from_iter_path:
  "n \<le> length siblings \<Longrightarrow>
   compute_merkle_root_from_iter C leaf (zip (take n siblings) (map right [0..<n])) = path_value C right leaf siblings n"
proof (induction n)
  case (Suc n)
  then have "zip (take (Suc n) siblings) (map right [0..<Suc n]) =
      zip (take n siblings) (map right [0..<n]) @ [(siblings ! n, right n)]"
    by (simp add: take_Suc_conv_app_nth)
  then show ?case using Suc by (simp add: root_from_iter_snoc)
qed simp

lemma merkle_root_path:
  "length siblings \<le> 256 \<Longrightarrow>
   compute_merkle_root chk C leaf path siblings = Some (path_value C (bit path) leaf siblings (length siblings))"
  using root_from_iter_path [of "length siblings" siblings C leaf "bit path"]
  by (simp add: compute_merkle_root_def bits_of_path)

text \<open>From a common value downwards: without a collision on the way everything below agrees.\<close>

lemma path_values_agree:
  assumes "path_value C right x ss n = path_value C right y ts n"
    and "\<forall>k<n. hash_merge C (path_pair C right x ss k) = hash_merge C (path_pair C right y ts k) \<longrightarrow>
      path_pair C right x ss k = path_pair C right y ts k"
  shows "x = y \<and> (\<forall>k<n. ss ! k = ts ! k)"
  using assms
proof (induction n)
  case (Suc n)
  have "hash_merge C (path_pair C right x ss n) = hash_merge C (path_pair C right y ts n)"
    using Suc.prems(1) by (simp add: path_pair_def)
  then have "path_pair C right x ss n = path_pair C right y ts n" using Suc.prems(2) by blast
  then have "path_value C right x ss n = path_value C right y ts n" "ss ! n = ts ! n"
    by (simp_all add: path_pair_def split: if_splits)
  then show ?case using Suc by (simp add: less_Suc_eq)
qed simp

text \<open>
  C15: Merkle proofs bind the leaf and the siblings. The root a proof reaches is what
  hashing along the path gives, and of two proofs along the same path that reach the same
  root but differ in the leaf or in a sibling, some level hashes two different pairs to
  the same value: the collision is at one of the at most 256 pairs the two proofs
  themselves hash, so whoever has both proofs has found it. An inclusion and a
  non-inclusion proof for the same position are such a pair.
\<close>

theorem merkle_proof_binding:
  assumes "compute_merkle_root chk C x path ss = Some r"
    and "compute_merkle_root chk C y path ts = Some r"
    and "length ts = length ss" "length ss \<le> 256" "x \<noteq> y \<or> ss \<noteq> ts"
  shows "r = path_value C (bit path) x ss (length ss) \<and> r = path_value C (bit path) y ts (length ss) \<and>
    (\<exists>k<length ss. path_pair C (bit path) x ss k \<noteq> path_pair C (bit path) y ts k \<and>
       hash_merge C (path_pair C (bit path) x ss k) = hash_merge C (path_pair C (bit path) y ts k))"
proof -
  have r: "r = path_value C (bit path) x ss (length ss)" "r = path_value C (bit path) y ts (length ss)"
    using assms(1-4) by (simp_all add: merkle_root_path)
  have "\<not> (x = y \<and> (\<forall>k<length ss. ss ! k = ts ! k))" using assms(3,5) by (metis nth_equalityI)
  then show ?thesis using path_values_agree [of C "bit path" x ss "length ss" y ts] r by auto
qed

definition const_crypto :: "nat crypto" where
  "const_crypto = \<lparr> fe_from_be_bytes_reduce = (\<lambda>bs. be_val bs mod unat MODULUS),
     fe_to_be_bytes = (\<lambda>n. be_bytes 32 (n mod unat MODULUS)), poseidon = (\<lambda>_. 0) \<rparr>"

theorem merkle_proof_binding_witness:
  "\<exists>r. compute_merkle_root True const_crypto 1 0 [5] = Some r \<and>
     compute_merkle_root True const_crypto 2 0 [5] = Some r \<and>
     hash_merge const_crypto [1, 5] = hash_merge const_crypto [2, 5]"
proof -
  have r: "compute_merkle_root True const_crypto x 0 [5] = Some (from_base const_crypto 0)" for x
    by (simp add: compute_merkle_root_def bits_of_path hash_merge_def const_crypto_def)
  show ?thesis
    using merkle_proof_binding [OF r [of 1] r [of 2]] r by (simp add: path_pair_def)
qed

lemma path_loop:
  "merkle_path_loop C h ps acc =
   acc @ map (\<lambda>k. compute_merkle_root_from_iter C h (take (Suc k) ps)) [0..<length ps]"
proof (induction ps arbitrary: h acc)
  case (Cons p ps)
  obtain s b where p: "p = (s, b)" by (cases p)
  show ?case
    unfolding p merkle_path_loop.simps Let_def Cons
    by (simp add: upt_rec [of 0 "Suc (length ps)"] map_Suc_upt [symmetric] root_step comp_def del: upt_Suc)
qed simp

text \<open>
  \<^verbatim>\<open>compute_merkle_path_for_leaf\<close> returns one hash per level: position \<^verbatim>\<open>k\<close> of the
  path is the root that \<^verbatim>\<open>compute_merkle_root\<close> finds with the first \<^verbatim>\<open>k\<close> siblings, so the
  path starts with the leaf, ends with the root, and has one entry more than there are
  siblings.
\<close>

theorem merkle_path_levels:
  assumes "length ss \<le> 256"
  shows "\<exists>path. compute_merkle_path_for_leaf chk C leaf ss = Some path \<and> length path = length ss + 1 \<and>
    (\<forall>k\<le>length ss. compute_merkle_root chk C leaf leaf (take k ss) = Some (path ! k))"
proof -
  let ?ps = "zip ss (map (bit leaf) [0..<length ss])"
  let ?path = "leaf # map (\<lambda>k. compute_merkle_root_from_iter C leaf (take (Suc k) ?ps)) [0..<length ss]"
  have "compute_merkle_path_for_leaf chk C leaf ss = Some ?path"
    using assms by (simp add: compute_merkle_path_for_leaf_def bits_of_path path_loop)
  moreover have "compute_merkle_root chk C leaf leaf (take k ss) = Some (?path ! k)" if "k \<le> length ss" for k
  proof -
    have "zip (take k ss) (map (bit leaf) [0..<k]) = take k ?ps"
      using that by (simp add: take_zip take_map)
    then have "compute_merkle_root chk C leaf leaf (take k ss) =
        Some (compute_merkle_root_from_iter C leaf (take k ?ps))"
      using that assms by (simp add: compute_merkle_root_def bits_of_path min_def)
    then show ?thesis using that by (cases k) (simp_all add: nth_Cons')
  qed
  ultimately show ?thesis by (intro exI [of _ ?path]) simp
qed

theorem merkle_path_levels_witness:
  "length [4, 5 :: element] \<le> 256 \<and>
   (\<exists>path. compute_merkle_path_for_leaf True poly_crypto 9 [4, 5] = Some path \<and> length path = length [4, 5 :: element] + 1 \<and>
    (\<forall>k\<le>length [4, 5 :: element]. compute_merkle_root True poly_crypto 9 9 (take k [4, 5]) = Some (path ! k)))"
  using merkle_path_levels [of "[4, 5]" True poly_crypto 9] by simp

lemma empty_iter:
  "compute_merkle_root_from_iter C h (replicate n (NULL_HASH, False)) =
   ((\<lambda>h. hash_merge C [h, NULL_HASH]) ^^ n) h"
proof (induction n arbitrary: h)
  case (Suc n)
  show ?case unfolding funpow_Suc_right by (simp add: Suc)
qed simp

lemma empty_tree_root_eq:
  "empty_tree_root C depth =
   (if depth = 0 then None else Some (((\<lambda>h. hash_merge C [h, NULL_HASH]) ^^ (depth - 1)) NULL_HASH))"
  by (simp add: empty_tree_root_def map_replicate_const empty_iter)

text \<open>
  \<^verbatim>\<open>empty_tree_root\<close> panics exactly on depth 0; depth 1 is the null hash, and each
  further level hashes the previous value with the null hash on the right. That is the
  root of a path of null siblings, not the root of the perfect tree of null leaves that
  the documentation's recursion defines: the two agree up to depth 2, and from depth 3
  on the documented recursion hashes a different pair.
\<close>

theorem empty_tree_root_recursion:
  "empty_tree_root C 0 = None \<and> empty_tree_root C 1 = Some NULL_HASH \<and>
   (\<exists>e. empty_tree_root C (Suc n) = Some e \<and>
        empty_tree_root C (Suc (Suc n)) = Some (hash_merge C [e, NULL_HASH])) \<and>
   empty_tree_root C 2 = Some (tree_root C 1 (\<lambda>_. NULL_HASH)) \<and>
   (\<exists>h. h = hash_merge C [NULL_HASH, NULL_HASH] \<and>
        empty_tree_root C 3 = Some (hash_merge C [h, NULL_HASH]) \<and>
        tree_root C 2 (\<lambda>_. NULL_HASH) = hash_merge C [h, h])"
  by (simp add: empty_tree_root_eq numeral_2_eq_2 numeral_3_eq_3 parent_level_def)

text \<open>
  \<^verbatim>\<open>hash_bytes\<close> absorbs the bytes in 16-byte blocks from left to right, so hashing
  can be resumed at a block boundary; and because the last block is padded with zeroes,
  trailing zero bytes that stay within the last block do not change the hash.
\<close>

theorem hash_bytes_blocks:
  assumes "16 dvd length xs"
  shows "hash_bytes C (xs @ ys) =
      foldl (\<lambda>l r. hash_merge C [l, r]) (hash_bytes C xs) (map bytes_to_element (chunks 16 ys)) \<and>
    (ys \<noteq> [] \<longrightarrow> length ys + k \<le> 16 \<longrightarrow> hash_bytes C (xs @ ys @ replicate k 0) = hash_bytes C (xs @ ys))"
proof -
  have split: "hash_bytes C (xs @ zs) =
      foldl (\<lambda>l r. hash_merge C [l, r]) (hash_bytes C xs) (map bytes_to_element (chunks 16 zs))" for zs
    using assms by (simp add: hash_bytes_def chunks_append_dvd)
  moreover have "hash_bytes C (xs @ ys @ replicate k 0) = hash_bytes C (xs @ ys)"
    if "ys \<noteq> []" "length ys + k \<le> 16"
  proof -
    have "bytes_to_element (ys @ replicate k 0) = bytes_to_element ys"
      using that(2) by (simp add: bytes_to_element_def replicate_add [symmetric])
    then show ?thesis
      using that split [of "ys @ replicate k 0"] split [of ys] by (simp add: chunks_short)
  qed
  ultimately show ?thesis by blast
qed

theorem hash_bytes_blocks_witness:
  "16 dvd length ([] :: byte list) \<and> ([1] :: byte list) \<noteq> [] \<and>
   hash_bytes poly_crypto ([] @ [1] @ replicate 3 0) = hash_bytes poly_crypto ([] @ [1])"
  using hash_bytes_blocks [of "[]" poly_crypto "[1]" 3] by simp

end
