(* ===== verification/Notes.thy ===== *)
theory Notes
  imports Hash
begin

text \<open>
  Notes and their links: \<^verbatim>\<open>pkg/zk-primitives\<close> (\<^verbatim>\<open>note.rs\<close>, \<^verbatim>\<open>input_note.rs\<close>,
  \<^verbatim>\<open>address.rs\<close>, \<^verbatim>\<open>util.rs\<close>, \<^verbatim>\<open>note_url.rs\<close>) and the 20-byte addresses and 32-byte
  hashes of \<^verbatim>\<open>pkg/primitives\<close> (\<^verbatim>\<open>peer.rs\<close>, \<^verbatim>\<open>hash.rs\<close>).  The hash functions, the hex,
  radix-16 and base-58 codecs are the parameters collected in \<^verbatim>\<open>zk_env\<close>; \<^term>\<open>None\<close> is a panic.
\<close>

record 'f zk_env = "'f crypto" +
  sha3_256 :: "byte list \<Rightarrow> byte list"
  keccak256 :: "byte list \<Rightarrow> byte list"
  hex_encode :: "byte list \<Rightarrow> string"
  hex_decode :: "string \<Rightarrow> byte list option"
  radix16 :: "string \<Rightarrow> element option"
  bs58_encode :: "byte list \<Rightarrow> string"
  bs58_decode :: "string \<Rightarrow> byte list option"

section \<open>Addresses and hashes (peer.rs, hash.rs)\<close>

datatype address = Address (addr_bytes: "byte list")

definition address_to_hex :: "('f, 'z) zk_env_scheme \<Rightarrow> address \<Rightarrow> string" where
  "address_to_hex E a = hex_encode E (addr_bytes a)"

datatype hex_error = FromHexError | InvalidStringLength

definition strip_0x :: "string \<Rightarrow> string" where
  "strip_0x s = (case strip_prefix ''0x'' s of Some r \<Rightarrow> r | None \<Rightarrow> s)"

text \<open>\<^verbatim>\<open>copy_from_slice\<close> panics unless the decoded bytes are exactly 20.\<close>

definition address_from_str :: "('f, 'z) zk_env_scheme \<Rightarrow> string \<Rightarrow> (hex_error + address) panics" where
  "address_from_str E s =
     (case hex_decode E (strip_0x s) of
        None \<Rightarrow> Returns (Inl FromHexError)
      | Some bytes \<Rightarrow> if length bytes \<noteq> 20 then Panics else Returns (Inr (Address bytes)))"

datatype crypto_hash = CryptoHash (hash_inner: "byte list")

definition crypto_hash_from_u64 :: "u64 \<Rightarrow> crypto_hash" where
  "crypto_hash_from_u64 n = CryptoHash (copy_into 24 (word_to_be n) (replicate 32 0))"

definition crypto_hash_as_u256 :: "crypto_hash \<Rightarrow> u256" where
  "crypto_hash_as_u256 h = word_from_le (hash_inner h)"

definition crypto_hash_genesis :: crypto_hash where
  "crypto_hash_genesis = CryptoHash (replicate 32 0)"

definition crypto_hash_to_hex :: "('f, 'z) zk_env_scheme \<Rightarrow> crypto_hash \<Rightarrow> string" where
  "crypto_hash_to_hex E h = hex_encode E (hash_inner h)"

definition crypto_hash_from_str :: "('f, 'z) zk_env_scheme \<Rightarrow> string \<Rightarrow> hex_error + crypto_hash" where
  "crypto_hash_from_str E s =
     andThen (okOr FromHexError (hex_decode E (strip_0x s))) (\<lambda>bytes.
       if length bytes = 32 then Inr (CryptoHash bytes) else Inl InvalidStringLength)"

section \<open>util.rs, address.rs\<close>

definition bytes_to_elements :: "byte list \<Rightarrow> element list option" where
  "bytes_to_elements bytes =
     (if length bytes mod 32 \<noteq> 0 then None
      else Some (map from_be_bytes (chunks_exact 32 bytes)))"

definition hash_private_key_for_psi :: "('f, 'z) zk_env_scheme \<Rightarrow> element \<Rightarrow> element" where
  "hash_private_key_for_psi E private_key =
     (let result = sha3_256 E (to_be_bytes private_key);
          e = from_be_bytes result
      in from_base E (to_base E e))"

definition generate_note_kind_bridge_evm :: "u64 \<Rightarrow> address \<Rightarrow> element" where
  "generate_note_kind_bridge_evm chain a =
     (let bytes = replicate 32 0;
          bytes = copy_into 0 (word_to_be (2 :: u16)) bytes;
          bytes = copy_into 2 (word_to_be chain) bytes;
          bytes = copy_into 10 (addr_bytes a) bytes
      in from_be_bytes bytes)"

definition bridged_polygon_usdc_note_kind :: "('f, 'z) zk_env_scheme \<Rightarrow> element option" where
  "bridged_polygon_usdc_note_kind E =
     (case hex_decode E ''3c499c542cef5e3811e1192ce70d8cc03d5c3359'' of
        None \<Rightarrow> None
      | Some bytes \<Rightarrow>
          if length bytes \<noteq> 20 then None
          else Some (generate_note_kind_bridge_evm 137 (Address bytes)))"

definition get_address_for_private_key :: "('f, 'z) crypto_scheme \<Rightarrow> element \<Rightarrow> element" where
  "get_address_for_private_key C private_key = hash_merge C [private_key, ZERO]"

section \<open>Notes (note.rs, input-note.rs)\<close>

record zk_note =
  note_kind :: element
  note_contract :: element
  note_address :: element
  note_psi :: element
  note_value :: element

definition note_new_with_psi :: "('f, 'z) zk_env_scheme \<Rightarrow> element \<Rightarrow> element \<Rightarrow> element \<Rightarrow> zk_note option" where
  "note_new_with_psi E a v psi =
     map_option (\<lambda>c. \<lparr> note_kind = element_new 2, note_contract = c, note_address = a,
                       note_psi = psi, note_value = v \<rparr>)
       (bridged_polygon_usdc_note_kind E)"

text \<open>\<^verbatim>\<open>Note::new\<close> draws its psi; the 32 random bytes are an argument.\<close>

definition note_new :: "('f, 'z) zk_env_scheme \<Rightarrow> byte list \<Rightarrow> element \<Rightarrow> element \<Rightarrow> zk_note option" where
  "note_new E random a v =
     map_option (\<lambda>c. \<lparr> note_kind = element_new 2, note_contract = c, note_address = a,
                       note_psi = secure_random_from E random, note_value = v \<rparr>)
       (bridged_polygon_usdc_note_kind E)"

definition note_new_from_ephemeral_private_key ::
  "('f, 'z) zk_env_scheme \<Rightarrow> element \<Rightarrow> element \<Rightarrow> zk_note option" where
  "note_new_from_ephemeral_private_key E private_key v =
     (let a = get_address_for_private_key E private_key;
          psi = hash_private_key_for_psi E private_key
      in map_option (\<lambda>c. \<lparr> note_kind = element_new 2, note_contract = c, note_address = a,
                           note_psi = psi, note_value = v \<rparr>)
           (bridged_polygon_usdc_note_kind E))"

definition padding_note :: zk_note where
  "padding_note = \<lparr> note_kind = element_new 2, note_contract = ZERO, note_address = ZERO,
                    note_psi = ZERO, note_value = ZERO \<rparr>"

definition is_padding_note :: "zk_note \<Rightarrow> bool" where
  "is_padding_note n \<longleftrightarrow> note_contract n = ZERO \<and> note_value n = ZERO"

definition note_commitment :: "('f, 'z) crypto_scheme \<Rightarrow> zk_note \<Rightarrow> element" where
  "note_commitment C n =
     (if note_value n = ZERO then ZERO
      else hash_merge C [note_kind n, note_contract n, note_value n, note_address n, note_psi n, ZERO, ZERO])"

record input_note =
  in_note :: zk_note
  in_secret_key :: element

definition input_note_new :: "zk_note \<Rightarrow> element \<Rightarrow> input_note" where
  "input_note_new n k = \<lparr> in_note = n, in_secret_key = k \<rparr>"

definition input_padding_note :: input_note where
  "input_padding_note = \<lparr> in_note = padding_note, in_secret_key = ZERO \<rparr>"

definition input_note_new_from_ephemeral_private_key ::
  "('f, 'z) zk_env_scheme \<Rightarrow> element \<Rightarrow> element \<Rightarrow> input_note option" where
  "input_note_new_from_ephemeral_private_key E private_key v =
     map_option (\<lambda>n. \<lparr> in_note = n, in_secret_key = private_key \<rparr>)
       (note_new_from_ephemeral_private_key E private_key v)"

section \<open>Links (note-url.rs)\<close>

record note_url_payload =
  url_version :: byte
  url_private_key :: element
  url_psi :: "element option"
  url_value :: element
  url_referral_code :: string

definition string_bytes :: "string \<Rightarrow> byte list" where
  "string_bytes s = map (\<lambda>c. of_nat (of_char c)) s"

definition bytes_string :: "byte list \<Rightarrow> string" where
  "bytes_string bs = map (\<lambda>b. char_of (unat b)) bs"

text \<open>\<^verbatim>\<open>String::from_utf8\<close>: the byte sequences that are well-formed UTF-8.\<close>

definition utf8_cont :: "byte \<Rightarrow> bool" where
  "utf8_cont b \<longleftrightarrow> 0x80 \<le> b \<and> b \<le> 0xBF"

fun utf8_valid :: "byte list \<Rightarrow> bool" where
  "utf8_valid [] = True"
| "utf8_valid (a # r) =
     (if a \<le> 0x7F then utf8_valid r
      else case r of
        b # r2 \<Rightarrow>
          if 0xC2 \<le> a \<and> a \<le> 0xDF then utf8_cont b \<and> utf8_valid r2
          else (case r2 of
            c # r3 \<Rightarrow>
              if a = 0xE0 then 0xA0 \<le> b \<and> b \<le> 0xBF \<and> utf8_cont c \<and> utf8_valid r3
              else if a = 0xED then 0x80 \<le> b \<and> b \<le> 0x9F \<and> utf8_cont c \<and> utf8_valid r3
              else if 0xE1 \<le> a \<and> a \<le> 0xEF then utf8_cont b \<and> utf8_cont c \<and> utf8_valid r3
              else (case r3 of
                d # r4 \<Rightarrow>
                  if a = 0xF0 then 0x90 \<le> b \<and> b \<le> 0xBF \<and> utf8_cont c \<and> utf8_cont d \<and> utf8_valid r4
                  else if a = 0xF4 then 0x80 \<le> b \<and> b \<le> 0x8F \<and> utf8_cont c \<and> utf8_cont d \<and> utf8_valid r4
                  else 0xF1 \<le> a \<and> a \<le> 0xF3 \<and> utf8_cont b \<and> utf8_cont c \<and> utf8_cont d \<and> utf8_valid r4
              | [] \<Rightarrow> False)
          | [] \<Rightarrow> False)
      | [] \<Rightarrow> False)"

definition input_note_from_payload :: "('f, 'z) zk_env_scheme \<Rightarrow> note_url_payload \<Rightarrow> input_note option" where
  "input_note_from_payload E p =
     (let psi = (case url_psi p of Some psi \<Rightarrow> psi | None \<Rightarrow> hash_private_key_for_psi E (url_private_key p))
      in map_option (\<lambda>c. \<lparr> in_note = \<lparr> note_kind = element_new 2, note_contract = c,
                                     note_address = get_address_for_private_key E (url_private_key p),
                                     note_psi = psi, note_value = url_value p \<rparr>,
                           in_secret_key = url_private_key p \<rparr>)
           (bridged_polygon_usdc_note_kind E))"

definition payload_from_input_note :: "input_note \<Rightarrow> note_url_payload" where
  "payload_from_input_note n =
     \<lparr> url_version = 2, url_private_key = in_secret_key n, url_psi = None,
       url_value = note_value (in_note n), url_referral_code = [] \<rparr>"

definition payload_address :: "('f, 'z) zk_env_scheme \<Rightarrow> note_url_payload \<Rightarrow> element option" where
  "payload_address E p = map_option (\<lambda>n. note_address (in_note n)) (input_note_from_payload E p)"

definition payload_commitment :: "('f, 'z) zk_env_scheme \<Rightarrow> note_url_payload \<Rightarrow> element option" where
  "payload_commitment E p = map_option (\<lambda>n. note_commitment E (in_note n)) (input_note_from_payload E p)"

text \<open>\<^verbatim>\<open>Element::from_str(&hex::encode(hash)).unwrap()\<close>\<close>

definition keccak_psi :: "('f, 'z) zk_env_scheme \<Rightarrow> element \<Rightarrow> element option" where
  "keccak_psi E private_key =
     (case element_from_str (\<lambda>s. okOr () (radix16 E s)) (hex_encode E (keccak256 E (to_be_bytes private_key))) of
        Inl _ \<Rightarrow> None | Inr e \<Rightarrow> Some e)"

definition payload_psi :: "('f, 'z) zk_env_scheme \<Rightarrow> note_url_payload \<Rightarrow> element option" where
  "payload_psi E p =
     (if url_version p = 0 then url_psi p
      else if url_version p = 1 then keccak_psi E (url_private_key p)
      else if url_version p = 2 then Some (hash_private_key_for_psi E (url_private_key p))
      else None)"

definition encode_payload_bytes :: "note_url_payload \<Rightarrow> byte list" where
  "encode_payload_bytes p =
     (let bytes = [url_version p] @ to_be_bytes (url_private_key p);
          bytes = (case url_psi p of
                     Some psi \<Rightarrow> if url_version p = 0 then bytes @ to_be_bytes psi else bytes
                   | None \<Rightarrow> bytes);
          value_bytes = to_be_bytes (url_value p);
          leading_zeros = length (takeWhile (\<lambda>b. b = 0) value_bytes);
          bytes = bytes @ [of_nat leading_zeros] @ drop leading_zeros value_bytes
      in bytes @ string_bytes (url_referral_code p))"

definition encode_activity_url_payload :: "('f, 'z) zk_env_scheme \<Rightarrow> note_url_payload \<Rightarrow> string" where
  "encode_activity_url_payload E p = bs58_encode E (encode_payload_bytes p)"

text \<open>Reading \<^term>\<open>n\<close> bytes off the rest; a slice or index past the end panics.\<close>

definition take_bytes :: "nat \<Rightarrow> byte list \<Rightarrow> (byte list \<times> byte list) option" where
  "take_bytes n rest = (if length rest < n then None else Some (take n rest, drop n rest))"

definition decode_payload_psi ::
  "('f, 'z) zk_env_scheme \<Rightarrow> byte \<Rightarrow> element \<Rightarrow> byte list \<Rightarrow> (element \<times> byte list) option" where
  "decode_payload_psi E version private_key rest =
     (if version = 0 then map_option (\<lambda>(b, rest). (from_be_bytes b, rest)) (take_bytes 32 rest)
      else if version = 1 then map_option (\<lambda>psi. (psi, rest)) (keccak_psi E private_key)
      else if version = 2 then Some (hash_private_key_for_psi E private_key, rest)
      else None)"

definition decode_payload_bytes :: "('f, 'z) zk_env_scheme \<Rightarrow> byte list \<Rightarrow> note_url_payload option" where
  "decode_payload_bytes E payload_bytes =
     Option.bind (take_bytes 1 payload_bytes) (\<lambda>(v, rest).
     Option.bind (take_bytes 32 rest) (\<lambda>(k, rest).
     (let version = hd v; private_key = from_be_bytes k in
     Option.bind (decode_payload_psi E version private_key rest) (\<lambda>(psi, rest).
     Option.bind (take_bytes 1 rest) (\<lambda>(z, rest).
     (let leading_zeros = unat (hd z) in
     if 32 < leading_zeros then None else
     Option.bind (take_bytes (32 - leading_zeros) rest) (\<lambda>(w, rest).
     (let val = from_be_bytes (copy_into leading_zeros w (replicate 32 0)) in
     if \<not> utf8_valid rest then None
     else Some \<lparr> url_version = version, url_private_key = private_key, url_psi = Some psi,
                 url_value = val, url_referral_code = bytes_string rest \<rparr>))))))))"

definition decode_activity_url_payload :: "('f, 'z) zk_env_scheme \<Rightarrow> string \<Rightarrow> note_url_payload option" where
  "decode_activity_url_payload E payload =
     Option.bind (bs58_decode E payload) (decode_payload_bytes E)"

definition input_note_new_from_link :: "('f, 'z) zk_env_scheme \<Rightarrow> string \<Rightarrow> input_note option" where
  "input_note_new_from_link E link =
     Option.bind (decode_activity_url_payload E link) (input_note_from_payload E)"

definition generate_link :: "('f, 'z) zk_env_scheme \<Rightarrow> input_note \<Rightarrow> string" where
  "generate_link E n = encode_activity_url_payload E (payload_from_input_note n)"

section \<open>Lemmas\<close>

lemma bytes_to_elements_concat: "bytes_to_elements (concat (map to_be_bytes es)) = Some es"
  using element_be.decode_chunks [of es] element_be.concat_length [of es]
  by (simp add: bytes_to_elements_def)

lemma bytes_to_elements_Some:
  "bytes_to_elements bs = Some es \<Longrightarrow> concat (map to_be_bytes es) = bs \<and> length bs = 32 * length es"
  using element_be.encode_chunks [of bs]
  by (auto simp: bytes_to_elements_def length_chunks_exact split: if_splits)

text \<open>
  a byte string of whole 32-byte blocks and its list of elements determine each other:
  the elements of a concatenation are the elements concatenated, re-encoding the elements
  gives the bytes back, and the function panics exactly on a length that is not a
  multiple of 32.
\<close>

theorem bytes_to_elements_bijection:
  "bytes_to_elements (concat (map to_be_bytes es)) = Some es \<and>
   (bytes_to_elements bs = None \<longleftrightarrow> \<not> 32 dvd length bs) \<and>
   (case bytes_to_elements bs of None \<Rightarrow> True
    | Some fs \<Rightarrow> concat (map to_be_bytes fs) = bs \<and> length bs = 32 * length fs)"
proof (intro conjI)
  show "bytes_to_elements (concat (map to_be_bytes es)) = Some es" by (rule bytes_to_elements_concat)
  show "bytes_to_elements bs = None \<longleftrightarrow> \<not> 32 dvd length bs"
    by (simp add: bytes_to_elements_def mod_eq_0_iff_dvd)
  show "case bytes_to_elements bs of None \<Rightarrow> True
    | Some fs \<Rightarrow> concat (map to_be_bytes fs) = bs \<and> length bs = 32 * length fs"
    using bytes_to_elements_Some [of bs] by (cases "bytes_to_elements bs") simp_all
qed

lemma word_to_be_u16_2: "word_to_be (2 :: u16) = [0, 2]"
  by (simp add: word_to_be_def be_bytes_def le_bytes_def digits_le_2)

lemma kind_bytes:
  assumes "length (addr_bytes a) = 20"
  shows "to_be_bytes (generate_note_kind_bridge_evm chain a) = [0, 2] @ word_to_be chain @ addr_bytes a @ [0, 0]"
proof -
  let ?z = "\<lambda>n. replicate n (0 :: byte)"
  have c: "length (word_to_be chain) = 8" by simp
  have "?z 32 = [] @ ?z 2 @ ?z 30" by (simp flip: replicate_add)
  then have 1: "copy_into 0 (word_to_be (2 :: u16)) (?z 32) = [] @ [0, 2] @ ?z 30"
    unfolding word_to_be_u16_2 by (simp only:) (rule copy_into_at, simp_all)
  have "[] @ [0, 2] @ ?z 30 = [0, 2] @ ?z 8 @ ?z 22" by (simp flip: replicate_add)
  then have 2: "copy_into 2 (word_to_be chain) ([] @ [0, 2] @ ?z 30) = [0, 2] @ word_to_be chain @ ?z 22"
    by (simp only:) (rule copy_into_at, simp_all)
  have "[0, 2] @ word_to_be chain @ ?z 22 = ([0, 2] @ word_to_be chain) @ ?z 20 @ ?z 2"
    by (simp flip: replicate_add)
  then have 3: "copy_into 10 (addr_bytes a) ([0, 2] @ word_to_be chain @ ?z 22) =
      ([0, 2] @ word_to_be chain) @ addr_bytes a @ ?z 2"
    by (simp only:) (rule copy_into_at, simp_all add: assms)
  let ?b = "copy_into 10 (addr_bytes a) (copy_into 2 (word_to_be chain) (copy_into 0 (word_to_be (2 :: u16)) (?z 32)))"
  have "?b = [0, 2] @ word_to_be chain @ addr_bytes a @ [0, 0]"
    unfolding 1 2 3 by (simp add: numeral_2_eq_2)
  moreover have "length ([0, 2] @ word_to_be chain @ addr_bytes a @ [0, 0]) = 32" using assms c by simp
  ultimately show ?thesis
    by (simp add: generate_note_kind_bridge_evm_def Let_def element_be.enc_dec)
qed

text \<open>
  the note kind of a bridged asset is, in its big-endian bytes, the format 2 in bytes
  0 and 1, the chain in bytes 2 to 9, the 20-byte address in bytes 10 to 29 and zero in
  the last two; different chains or addresses give different kinds.
\<close>

theorem note_kind_layout:
  assumes "length (addr_bytes a) = 20" "length (addr_bytes b) = 20"
  shows "to_be_bytes (generate_note_kind_bridge_evm chain a) = [0, 2] @ word_to_be chain @ addr_bytes a @ [0, 0] \<and>
    (generate_note_kind_bridge_evm chain a = generate_note_kind_bridge_evm chain' b \<longleftrightarrow> chain = chain' \<and> a = b)"
proof -
  have inj: "word_to_be chain = word_to_be chain' \<longleftrightarrow> chain = chain'"
    using word_from_to_be [of chain] word_from_to_be [of chain'] by (auto simp: eq_commute)
  have "generate_note_kind_bridge_evm chain a = generate_note_kind_bridge_evm chain' b \<longleftrightarrow>
      to_be_bytes (generate_note_kind_bridge_evm chain a) = to_be_bytes (generate_note_kind_bridge_evm chain' b)"
    by (simp add: element_be.enc_inj)
  also have "\<dots> \<longleftrightarrow> chain = chain' \<and> addr_bytes a = addr_bytes b"
    using assms by (simp add: kind_bytes inj)
  finally show ?thesis using assms(1) by (cases a; cases b) (simp add: kind_bytes)
qed

theorem note_kind_layout_witness:
  "length (addr_bytes (Address (replicate 20 7))) = 20 \<and>
   to_be_bytes (generate_note_kind_bridge_evm 137 (Address (replicate 20 7))) =
     [0, 2] @ word_to_be (137 :: u64) @ addr_bytes (Address (replicate 20 7)) @ [0, 0]"
  using note_kind_layout [of "Address (replicate 20 7)" "Address (replicate 20 7)" 137 137] by simp

definition env_hex_laws :: "('f, 'z) zk_env_scheme \<Rightarrow> bool" where
  "env_hex_laws E \<longleftrightarrow> hex_laws (hex_encode E) (hex_decode E)"

lemma env_hex:
  assumes "env_hex_laws E"
  shows "hex_decode E (strip_0x (hex_encode E bs)) = Some bs"
    and "hex_decode E (strip_0x (''0x'' @ hex_encode E bs)) = Some bs"
proof -
  have l: "hex_laws (hex_encode E) (hex_decode E)" using assms by (simp add: env_hex_laws_def)
  then have "list_all lower_hex_char (hex_encode E bs)" by (simp add: hex_laws_def)
  then have "strip_prefix ''0x'' (hex_encode E bs) = None"
    by (cases "strip_prefix ''0x'' (hex_encode E bs)") (auto simp: strip_prefix_Some_iff)
  then show "hex_decode E (strip_0x (hex_encode E bs)) = Some bs"
    and "hex_decode E (strip_0x (''0x'' @ hex_encode E bs)) = Some bs"
    using l by (simp_all only: strip_0x_def hex_laws_def strip_prefix_append option.case)
qed

text \<open>
  text forms of addresses and hashes: both parsers invert the printer, with or without
  the \<^verbatim>\<open>0x\<close> prefix. On other input \<^verbatim>\<open>CryptoHash\<close> reports an error for every string that
  is not 32 hex-encoded bytes, while \<^verbatim>\<open>Address::from_str\<close> panics on every hex string that
  does not decode to exactly 20 bytes (it is the deserialiser of untrusted input).
\<close>

theorem address_and_hash_text:
  assumes "env_hex_laws E" "length (addr_bytes a) = 20" "length (hash_inner h) = 32"
  shows "address_from_str E (address_to_hex E a) = Returns (Inr a) \<and>
    address_from_str E (''0x'' @ address_to_hex E a) = Returns (Inr a) \<and>
    crypto_hash_from_str E (crypto_hash_to_hex E h) = Inr h \<and>
    crypto_hash_from_str E (''0x'' @ crypto_hash_to_hex E h) = Inr h \<and>
    (crypto_hash_from_str E (hex_encode E bs) = Inl InvalidStringLength \<longleftrightarrow> length bs \<noteq> 32) \<and>
    (address_from_str E (hex_encode E bs) = Panics \<longleftrightarrow> length bs \<noteq> 20)"
  using assms env_hex [OF assms(1)]
  by (cases a; cases h)
    (auto simp: address_from_str_def address_to_hex_def crypto_hash_from_str_def crypto_hash_to_hex_def)

definition toy_env :: "nat zk_env" where
  "toy_env = \<lparr> fe_from_be_bytes_reduce = (\<lambda>bs. be_val bs mod unat MODULUS),
     fe_to_be_bytes = (\<lambda>n. be_bytes 32 (n mod unat MODULUS)),
     poseidon = foldl (\<lambda>a x. (a * 7 + x + 1) mod unat MODULUS) 3,
     sha3_256 = (\<lambda>bs. rev (take 32 (bs @ replicate 32 1))),
     keccak256 = (\<lambda>bs. rev (take 32 (bs @ replicate 32 2))),
     hex_encode = hex_enc, hex_decode = hex_dec, radix16 = (\<lambda>s. Some (of_nat (length s))),
     bs58_encode = bytes_string, bs58_decode = (\<lambda>s. Some (string_bytes s)) \<rparr>"

lemma toy_env_hex: "env_hex_laws toy_env"
  by (simp add: env_hex_laws_def toy_env_def hex_laws_concrete)

theorem address_and_hash_text_witness:
  "env_hex_laws toy_env \<and>
   address_from_str toy_env (address_to_hex toy_env (Address (replicate 20 9))) = Returns (Inr (Address (replicate 20 9))) \<and>
   address_from_str toy_env (hex_encode toy_env [1]) = Panics"
  using address_and_hash_text [OF toy_env_hex, of "Address (replicate 20 9)" "CryptoHash (replicate 32 9)" "[1]"] toy_env_hex
  by simp

section \<open>Links\<close>

lemma string_bytes_inverse: "bytes_string (string_bytes s) = s"
  by (induction s) (simp_all add: bytes_string_def string_bytes_def unat_of_nat)

lemma takeWhile_zeros: "takeWhile (\<lambda>b. b = 0) bs = replicate (length (takeWhile (\<lambda>b. b = 0) bs)) 0"
  by (induction bs) auto

lemma value_bytes_restored:
  fixes e :: element
  defines "z \<equiv> length (takeWhile (\<lambda>b. b = 0) (to_be_bytes e))"
  shows "z \<le> 32" "from_be_bytes (copy_into z (drop z (to_be_bytes e)) (replicate 32 0)) = e"
proof -
  show z: "z \<le> 32" unfolding z_def using length_takeWhile_le [of "\<lambda>b. b = 0" "to_be_bytes e"] by simp
  have "to_be_bytes e = takeWhile (\<lambda>b. b = 0) (to_be_bytes e) @ dropWhile (\<lambda>b. b = 0) (to_be_bytes e)" by simp
  also have "dropWhile (\<lambda>b. b = 0) (to_be_bytes e) = drop z (to_be_bytes e)"
    by (simp add: z_def dropWhile_eq_drop)
  also have "takeWhile (\<lambda>b. b = 0) (to_be_bytes e) = replicate z 0"
    unfolding z_def by (rule takeWhile_zeros)
  finally have "replicate z 0 @ drop z (to_be_bytes e) = to_be_bytes e" by simp
  then have "copy_into z (drop z (to_be_bytes e)) (replicate 32 0) = to_be_bytes e"
    using z by (simp add: copy_into_def min_def)
  then show "from_be_bytes (copy_into z (drop z (to_be_bytes e)) (replicate 32 0)) = e"
    by (simp add: element_be.dec_enc)
qed

lemma take_bytes_append: "length a = n \<Longrightarrow> take_bytes n (a @ b) = Some (a, b)"
  by (simp add: take_bytes_def)

lemma take_bytes_1 [simp]: "take_bytes (Suc 0) (x # xs) = Some ([x], xs)"
  by (simp add: take_bytes_def)

lemma decode_psi_of_encode:
  assumes "payload_psi E p = Some psi"
  shows "\<exists>mid. encode_payload_bytes p =
      [url_version p] @ to_be_bytes (url_private_key p) @ mid @
      [of_nat (length (takeWhile (\<lambda>b. b = 0) (to_be_bytes (url_value p))))] @
      drop (length (takeWhile (\<lambda>b. b = 0) (to_be_bytes (url_value p)))) (to_be_bytes (url_value p)) @
      string_bytes (url_referral_code p) \<and>
    (\<forall>r. decode_payload_psi E (url_version p) (url_private_key p) (mid @ r) = Some (psi, r))"
proof -
  let ?mid = "if url_version p = 0 then to_be_bytes psi else []"
  have "\<forall>r. decode_payload_psi E (url_version p) (url_private_key p) (?mid @ r) = Some (psi, r)"
    using assms by (auto simp: decode_payload_psi_def payload_psi_def take_bytes_append element_be.dec_enc split: if_splits)
  moreover have "encode_payload_bytes p =
      [url_version p] @ to_be_bytes (url_private_key p) @ ?mid @
      [of_nat (length (takeWhile (\<lambda>b. b = 0) (to_be_bytes (url_value p))))] @
      drop (length (takeWhile (\<lambda>b. b = 0) (to_be_bytes (url_value p)))) (to_be_bytes (url_value p)) @
      string_bytes (url_referral_code p)"
    using assms by (auto simp: encode_payload_bytes_def Let_def payload_psi_def split: option.split)
  ultimately show ?thesis by blast
qed

lemma decode_encode_bytes:
  assumes "payload_psi E p = Some psi" "utf8_valid (string_bytes (url_referral_code p))"
  shows "decode_payload_bytes E (encode_payload_bytes p) = Some (p\<lparr> url_psi := Some psi \<rparr>)"
proof -
  let ?v = "to_be_bytes (url_value p)"
  let ?z = "length (takeWhile (\<lambda>b. b = 0) ?v)"
  obtain mid where mid: "encode_payload_bytes p =
      [url_version p] @ to_be_bytes (url_private_key p) @ mid @ [of_nat ?z] @ drop ?z ?v @
      string_bytes (url_referral_code p)"
    "\<And>r. decode_payload_psi E (url_version p) (url_private_key p) (mid @ r) = Some (psi, r)"
    using decode_psi_of_encode [OF assms(1)] by auto
  have z: "?z \<le> 32" and v: "from_be_bytes (copy_into ?z (drop ?z ?v) (replicate 32 0)) = url_value p"
    using value_bytes_restored [of "url_value p"] by simp_all
  have uz: "unat (of_nat ?z :: byte) = ?z" using z by (simp add: unat_of_nat)
  have "decode_payload_bytes E (encode_payload_bytes p) =
      Some \<lparr> url_version = url_version p, url_private_key = url_private_key p, url_psi = Some psi,
             url_value = url_value p, url_referral_code = url_referral_code p \<rparr>"
    unfolding mid(1) decode_payload_bytes_def
    using z v uz assms(2)
    by (simp add: take_bytes_append mid(2) element_be.dec_enc string_bytes_inverse not_less)
  then show ?thesis by simp
qed

text \<open>
  note links: decoding an encoded payload of version 0, 1 or 2 returns it with the
  psi its version prescribes (explicit for 0, derived from the private key by Keccak for
  1 and by SHA-3 for 2) and every other field intact, including a zero or full-width
  value, whose leading zero bytes are dropped on the wire. An unknown version makes the
  decoder panic.
\<close>

theorem note_link_round_trip:
  assumes "\<And>b. bs58_decode E (bs58_encode E b) = Some b"
    and "payload_psi E p = Some psi" "utf8_valid (string_bytes (url_referral_code p))"
  shows "decode_activity_url_payload E (encode_activity_url_payload E p) = Some (p\<lparr> url_psi := Some psi \<rparr>) \<and>
    (2 < v \<longrightarrow> decode_payload_bytes E (v # rest) = None)"
proof -
  have "decode_payload_bytes E (v # rest) = None" if "2 < v"
  proof -
    have "v \<noteq> 0" "v \<noteq> 1" "v \<noteq> 2" using that by auto
    then show ?thesis by (auto simp: decode_payload_bytes_def decode_payload_psi_def Let_def bind_eq_None_conv)
  qed
  then show ?thesis
    using decode_encode_bytes [OF assms(2,3)]
    by (simp add: decode_activity_url_payload_def encode_activity_url_payload_def assms(1))
qed

theorem note_link_round_trip_witness:
  "decode_activity_url_payload toy_env (encode_activity_url_payload toy_env
      \<lparr> url_version = 0, url_private_key = 5, url_psi = Some 9, url_value = 300, url_referral_code = ''ab'' \<rparr>) =
   Some \<lparr> url_version = 0, url_private_key = 5, url_psi = Some 9, url_value = 300, url_referral_code = ''ab'' \<rparr>"
proof -
  have "string_bytes (bytes_string b) = b" for b
    by (induction b) (simp_all add: string_bytes_def bytes_string_def)
  then have bs: "\<And>b. bs58_decode toy_env (bs58_encode toy_env b) = Some b"
    by (simp add: toy_env_def)
  show ?thesis
    using note_link_round_trip [OF bs, of "\<lparr> url_version = 0, url_private_key = 5, url_psi = Some 9,
        url_value = 300, url_referral_code = ''ab'' \<rparr>" 9 3 "[]"]
    by (simp add: payload_psi_def string_bytes_def)
qed

text \<open>
  a link carries only the private key and the value. Reading the generated link of an
  input note returns the ephemeral note of that key and value, so it returns the same
  note exactly when the note was made from its private key; any other psi, contract, kind
  or address is lost.
\<close>

theorem link_keeps_ephemeral_notes:
  assumes "\<And>b. bs58_decode E (bs58_encode E b) = Some b"
    and "bridged_polygon_usdc_note_kind E = Some c"
  shows "input_note_new_from_link E (generate_link E n) =
      input_note_new_from_ephemeral_private_key E (in_secret_key n) (note_value (in_note n)) \<and>
    (input_note_new_from_link E (generate_link E n) = Some n \<longleftrightarrow>
      in_note n = \<lparr> note_kind = 2, note_contract = c,
        note_address = get_address_for_private_key E (in_secret_key n),
        note_psi = hash_private_key_for_psi E (in_secret_key n), note_value = note_value (in_note n) \<rparr>)"
proof -
  let ?p = "payload_from_input_note n"
  have "payload_psi E ?p = Some (hash_private_key_for_psi E (in_secret_key n))"
    by (simp add: payload_psi_def payload_from_input_note_def)
  moreover have "utf8_valid (string_bytes (url_referral_code ?p))"
    by (simp add: payload_from_input_note_def string_bytes_def)
  ultimately have "decode_activity_url_payload E (generate_link E n) =
      Some (?p\<lparr> url_psi := Some (hash_private_key_for_psi E (in_secret_key n)) \<rparr>)"
    using decode_encode_bytes [of E ?p]
    by (simp add: generate_link_def decode_activity_url_payload_def encode_activity_url_payload_def assms(1))
  then show ?thesis
    using assms(2)
    by (cases n, cases "in_note n")
      (auto simp: input_note_new_from_link_def input_note_from_payload_def payload_from_input_note_def
        input_note_new_from_ephemeral_private_key_def note_new_from_ephemeral_private_key_def element_new_def Let_def)
qed

theorem link_keeps_ephemeral_notes_witness:
  "\<exists>c. bridged_polygon_usdc_note_kind toy_env = Some c \<and>
     input_note_new_from_link toy_env (generate_link toy_env (input_note_new padding_note 4)) =
       input_note_new_from_ephemeral_private_key toy_env 4 0"
proof -
  have "string_bytes (bytes_string b) = b" for b
    by (induction b) (simp_all add: string_bytes_def bytes_string_def)
  then have bs: "\<And>b. bs58_decode toy_env (bs58_encode toy_env b) = Some b"
    by (simp add: toy_env_def)
  obtain c where c: "bridged_polygon_usdc_note_kind toy_env = Some c"
    by (simp add: bridged_polygon_usdc_note_kind_def toy_env_def hex_value_def)
  show ?thesis
    using link_keeps_ephemeral_notes [OF bs c, of "input_note_new padding_note 4"] c
    by (simp add: input_note_new_def padding_note_def ZERO_def)
qed

lemma note_commitment_less: "base_laws C \<Longrightarrow> note_commitment C n < MODULUS"
  using from_base_less [of C] by (simp add: note_commitment_def hash_merge_def word_less_nat_alt ZERO_def MODULUS_def)

end
