(* ===== verification/Utxo.thy ===== *)
theory Utxo
  imports Notes
begin

text \<open>
  UTXO transactions and their public inputs: \<^verbatim>\<open>pkg/zk-primitives/src/utxo.rs\<close>, the Hyli
  wrappers \<^verbatim>\<open>hyli_utxo.rs\<close> and \<^verbatim>\<open>hyli_smt_incl_proof.rs\<close>, and the small public-input
  records of \<^verbatim>\<open>points.rs\<close>, \<^verbatim>\<open>migrate.rs\<close> and \<^verbatim>\<open>signature.rs\<close>.  Fixed-size arrays are
  lists whose length the invariants \<^verbatim>\<open>utxo_wf\<close> and \<^verbatim>\<open>public_input_wf\<close> state; \<^term>\<open>None\<close> is a panic.
\<close>

section \<open>Transactions (utxo.rs)\<close>

datatype utxo_kind = Null | Send | Mint | Burn

record utxo =
  u_kind :: utxo_kind
  u_input_notes :: "input_note list"
  u_output_notes :: "zk_note list"
  u_burn_address :: "element option"

definition utxo_wf :: "utxo \<Rightarrow> bool" where
  "utxo_wf u \<longleftrightarrow> length (u_input_notes u) = 2 \<and> length (u_output_notes u) = 2"

definition utxo_new :: "utxo_kind \<Rightarrow> input_note list \<Rightarrow> zk_note list \<Rightarrow> element option \<Rightarrow> utxo" where
  "utxo_new k ins outs burn =
     \<lparr> u_kind = k, u_input_notes = ins, u_output_notes = outs, u_burn_address = burn \<rparr>"

definition utxo_new_send :: "input_note list \<Rightarrow> zk_note list \<Rightarrow> utxo" where
  "utxo_new_send ins outs =
     \<lparr> u_kind = Send, u_input_notes = ins, u_output_notes = outs, u_burn_address = None \<rparr>"

definition utxo_new_burn :: "input_note list \<Rightarrow> element \<Rightarrow> utxo" where
  "utxo_new_burn ins evm_address =
     \<lparr> u_kind = Burn, u_input_notes = ins, u_output_notes = [padding_note, padding_note],
       u_burn_address = Some evm_address \<rparr>"

definition utxo_new_mint :: "zk_note list \<Rightarrow> utxo" where
  "utxo_new_mint outs =
     \<lparr> u_kind = Mint, u_input_notes = [input_padding_note, input_padding_note],
       u_output_notes = outs, u_burn_address = None \<rparr>"

definition utxo_new_padding :: utxo where
  "utxo_new_padding =
     \<lparr> u_kind = Null, u_input_notes = [input_padding_note, input_padding_note],
       u_output_notes = [padding_note, padding_note], u_burn_address = None \<rparr>"

definition utxo_is_padding :: "utxo \<Rightarrow> bool" where
  "utxo_is_padding u \<longleftrightarrow> u_kind u = Null"

definition leaf_elements :: "('f, 'z) crypto_scheme \<Rightarrow> utxo \<Rightarrow> element list" where
  "leaf_elements C u =
     [note_commitment C (in_note (u_input_notes u ! 0)),
      note_commitment C (in_note (u_input_notes u ! 1)),
      note_commitment C (u_output_notes u ! 0),
      note_commitment C (u_output_notes u ! 1)]"

definition mint_hash :: "('f, 'z) crypto_scheme \<Rightarrow> utxo \<Rightarrow> element" where
  "mint_hash C u = hash_merge C [note_psi (u_output_notes u ! 0), note_psi (u_output_notes u ! 1)]"

definition burn_hash :: "('f, 'z) crypto_scheme \<Rightarrow> utxo \<Rightarrow> element" where
  "burn_hash C u = note_commitment C (in_note (u_input_notes u ! 0))"

definition input_value :: "bool \<Rightarrow> utxo \<Rightarrow> element option" where
  "input_value chk u =
     add_e chk (note_value (in_note (u_input_notes u ! 0))) (note_value (in_note (u_input_notes u ! 1)))"

definition output_value :: "bool \<Rightarrow> utxo \<Rightarrow> element option" where
  "output_value chk u =
     add_e chk (note_value (u_output_notes u ! 0)) (note_value (u_output_notes u ! 1))"

fun messages :: "bool \<Rightarrow> ('f, 'z) crypto_scheme \<Rightarrow> utxo \<Rightarrow> element list option" where
  "messages chk C u =
     (case u_kind u of
        Send \<Rightarrow> Some [element_new 1, ZERO, ZERO, ZERO, ZERO]
      | Mint \<Rightarrow>
          Option.bind (output_value chk u) (\<lambda>vout.
          Option.bind (input_value chk u) (\<lambda>vin.
          Option.bind (sub_e chk vout vin) (\<lambda>v.
          Some [element_new 2, note_contract (u_output_notes u ! 0), v, mint_hash C u, ZERO])))
      | Burn \<Rightarrow>
          Option.bind (input_value chk u) (\<lambda>vin.
          Option.bind (output_value chk u) (\<lambda>vout.
          Option.bind (sub_e chk vin vout) (\<lambda>v.
          Option.bind (u_burn_address u) (\<lambda>a.
          Some [element_new 3, note_contract (in_note (u_input_notes u ! 0)), v, burn_hash C u, a]))))
      | Null \<Rightarrow> Some [ZERO, ZERO, ZERO, ZERO, ZERO])"

declare messages.simps [simp del]

fun utxo_kind_to_u8 :: "utxo_kind \<Rightarrow> byte" where
  "utxo_kind_to_u8 Send = 1"
| "utxo_kind_to_u8 Mint = 2"
| "utxo_kind_to_u8 Burn = 3"
| "utxo_kind_to_u8 Null = 0"

definition utxo_kind_from_u8 :: "byte \<Rightarrow> utxo_kind" where
  "utxo_kind_from_u8 v = (if v = 1 then Send else if v = 2 then Mint else if v = 3 then Burn else Null)"

definition utxo_kind_to_element :: "utxo_kind \<Rightarrow> element" where
  "utxo_kind_to_element k = from_uint (utxo_kind_to_u8 k)"

definition utxo_kind_from_element :: "element \<Rightarrow> utxo_kind" where
  "utxo_kind_from_element e = utxo_kind_from_u8 (ucast e)"

section \<open>Public inputs (utxo.rs)\<close>

record utxo_public_input =
  pi_input_commitments :: "element list"
  pi_output_commitments :: "element list"
  pi_messages :: "element list"

definition public_input_wf :: "utxo_public_input \<Rightarrow> bool" where
  "public_input_wf p \<longleftrightarrow> length (pi_input_commitments p) = 2 \<and>
     length (pi_output_commitments p) = 2 \<and> length (pi_messages p) = 5"

definition public_inputs :: "bool \<Rightarrow> ('f, 'z) crypto_scheme \<Rightarrow> utxo \<Rightarrow> utxo_public_input option" where
  "public_inputs chk C u =
     map_option (\<lambda>ms.
       \<lparr> pi_input_commitments = [note_commitment C (in_note (u_input_notes u ! 0)),
                                note_commitment C (in_note (u_input_notes u ! 1))],
         pi_output_commitments = [note_commitment C (u_output_notes u ! 0),
                                 note_commitment C (u_output_notes u ! 1)],
         pi_messages = ms \<rparr>) (messages chk C u)"

definition pi_to_bytes :: "utxo_public_input \<Rightarrow> byte list" where
  "pi_to_bytes p = concat
     [to_be_bytes (pi_input_commitments p ! 0),
      to_be_bytes (pi_input_commitments p ! 1),
      to_be_bytes (pi_output_commitments p ! 0),
      to_be_bytes (pi_output_commitments p ! 1),
      to_be_bytes (pi_messages p ! 0),
      to_be_bytes (pi_messages p ! 1),
      to_be_bytes (pi_messages p ! 2),
      to_be_bytes (pi_messages p ! 3),
      to_be_bytes (pi_messages p ! 4)]"

definition pi_fields :: "utxo_public_input \<Rightarrow> element list" where
  "pi_fields p =
     [pi_input_commitments p ! 0, pi_input_commitments p ! 1,
      pi_output_commitments p ! 0, pi_output_commitments p ! 1,
      pi_messages p ! 0, pi_messages p ! 1, pi_messages p ! 2, pi_messages p ! 3, pi_messages p ! 4]"

definition pi_commitments :: "utxo_public_input \<Rightarrow> element list" where
  "pi_commitments p =
     [pi_input_commitments p ! 0, pi_input_commitments p ! 1,
      pi_output_commitments p ! 0, pi_output_commitments p ! 1]"

definition pi_commit_hash :: "('f, 'z) crypto_scheme \<Rightarrow> utxo_public_input \<Rightarrow> element" where
  "pi_commit_hash C p = hash_merge C (pi_commitments p)"

definition pi_hash :: "('f, 'z) crypto_scheme \<Rightarrow> utxo_public_input \<Rightarrow> element" where
  "pi_hash C p = hash_merge C (pi_fields p)"

definition pi_kind :: "utxo_public_input \<Rightarrow> utxo_kind" where
  "pi_kind p = (let msg_bytes = to_be_bytes (pi_messages p ! 0) in utxo_kind_from_u8 (msg_bytes ! 31))"

record mint_messages =
  mint_note_kind :: element
  mint_value :: element
  mint_hash_of :: element

record burn_messages =
  burn_note_kind :: element
  burn_value :: element
  burn_hash_of :: element
  burn_address_of :: element

datatype utxo_kind_messages = NoMessages | BurnMessages burn_messages | MintMessages mint_messages

definition pi_kind_messages :: "utxo_public_input \<Rightarrow> utxo_kind_messages" where
  "pi_kind_messages p =
     (case pi_kind p of
        Null \<Rightarrow> NoMessages
      | Send \<Rightarrow> NoMessages
      | Mint \<Rightarrow> MintMessages \<lparr> mint_note_kind = pi_messages p ! 1, mint_value = pi_messages p ! 2,
                               mint_hash_of = pi_messages p ! 3 \<rparr>
      | Burn \<Rightarrow> BurnMessages \<lparr> burn_note_kind = pi_messages p ! 1, burn_value = pi_messages p ! 2,
                               burn_hash_of = pi_messages p ! 3, burn_address_of = pi_messages p ! 4 \<rparr>)"

definition pi_mint_burn_hash :: "utxo_public_input \<Rightarrow> element option" where
  "pi_mint_burn_hash p =
     (case pi_kind_messages p of
        MintMessages m \<Rightarrow> Some (mint_hash_of m)
      | BurnMessages b \<Rightarrow> Some (burn_hash_of b)
      | NoMessages \<Rightarrow> None)"

definition UTXO_PUBLIC_INPUTS_COUNT :: nat where "UTXO_PUBLIC_INPUTS_COUNT = 9"
definition UTXO_PROOF_SIZE :: nat where "UTXO_PROOF_SIZE = 456"

record utxo_proof =
  up_proof :: "byte list"
  up_public_inputs :: utxo_public_input

definition utxo_proof_bytes_default :: "byte list" where
  "utxo_proof_bytes_default = replicate (32 * UTXO_PROOF_SIZE) 0"

definition utxo_proof_default :: utxo_proof where
  "utxo_proof_default =
     \<lparr> up_proof = utxo_proof_bytes_default,
       up_public_inputs = \<lparr> pi_input_commitments = replicate 2 ZERO,
         pi_output_commitments = replicate 2 ZERO, pi_messages = replicate 5 ZERO \<rparr> \<rparr>"

definition utxo_proof_to_fields :: "byte list \<Rightarrow> element list option" where
  "utxo_proof_to_fields proof = bytes_to_elements proof"

definition utxo_proof_eq :: "utxo_proof \<Rightarrow> utxo_proof \<Rightarrow> bool" where
  "utxo_proof_eq p q \<longleftrightarrow> up_public_inputs p = up_public_inputs q"

definition utxo_proof_to_bytes :: "utxo_proof \<Rightarrow> byte list" where
  "utxo_proof_to_bytes p = pi_to_bytes (up_public_inputs p) @ up_proof p"

definition utxo_proof_hash :: "('f, 'z) crypto_scheme \<Rightarrow> utxo_proof \<Rightarrow> element" where
  "utxo_proof_hash C p = pi_hash C (up_public_inputs p)"

definition utxo_proof_is_padding :: "utxo_proof \<Rightarrow> bool" where
  "utxo_proof_is_padding p \<longleftrightarrow> pi_kind (up_public_inputs p) = Null"

section \<open>The Hyli wrappers (hyli-utxo.rs, hyli-smt-incl-proof.rs)\<close>

definition HYLI_BLOB_HASH_COUNT :: nat where "HYLI_BLOB_HASH_COUNT = 4"
definition HYLI_BLOB_HASH_BYTE_LENGTH :: nat where "HYLI_BLOB_HASH_BYTE_LENGTH = 32"
definition HYLI_BLOB_LENGTH_BYTES :: nat where
  "HYLI_BLOB_LENGTH_BYTES = HYLI_BLOB_HASH_COUNT * HYLI_BLOB_HASH_BYTE_LENGTH"
definition HYLI_SMT_INCL_PAYLOAD_LENGTH_BYTES :: nat where "HYLI_SMT_INCL_PAYLOAD_LENGTH_BYTES = 96"
definition HYLI_SMT_INCL_BLOB_LENGTH_BYTES :: nat where "HYLI_SMT_INCL_BLOB_LENGTH_BYTES = 110"

record hyli_utxo =
  hy_version :: u32
  hy_initial_state :: "byte list"
  hy_next_state :: "byte list"
  hy_identity_len :: byte
  hy_identity :: string
  hy_tx_hash :: string
  hy_index :: u32
  hy_blob_number :: u32
  hy_blob_index :: u32
  hy_blob_contract_name_len :: byte
  hy_blob_contract_name :: string
  hy_blob_capacity :: u32
  hy_blob_len :: u32
  hy_blob :: "byte list"
  hy_tx_blob_count :: u32
  hy_success :: bool
  hy_utxo :: utxo

definition hyli_commitments :: "('f, 'z) crypto_scheme \<Rightarrow> hyli_utxo \<Rightarrow> element list" where
  "hyli_commitments C h =
     [note_commitment C (in_note (u_input_notes (hy_utxo h) ! 0)),
      note_commitment C (in_note (u_input_notes (hy_utxo h) ! 1)),
      note_commitment C (u_output_notes (hy_utxo h) ! 0),
      note_commitment C (u_output_notes (hy_utxo h) ! 1)]"

definition pad_string :: "string \<Rightarrow> nat \<Rightarrow> string option" where
  "pad_string s target_len =
     (if target_len < length s then None
      else
        (let padded = s in
         Some (if length s < target_len
               then padded @ replicate (target_len - length s) (char_of (0 :: nat)) else padded)))"

definition padded_identity :: "hyli_utxo \<Rightarrow> string option" where
  "padded_identity h = pad_string (hy_identity h) 256"

definition padded_tx_hash :: "hyli_utxo \<Rightarrow> string option" where
  "padded_tx_hash h = pad_string (hy_tx_hash h) 64"

definition padded_blob_contract_name :: "hyli_utxo \<Rightarrow> string option" where
  "padded_blob_contract_name h = pad_string (hy_blob_contract_name h) 256"

text \<open>The loop writes slot \<^verbatim>\<open>index\<close> of a two-element array for every input note.\<close>

definition nullifier_commitments :: "('f, 'z) crypto_scheme \<Rightarrow> hyli_utxo \<Rightarrow> element list" where
  "nullifier_commitments C h =
     foldl (\<lambda>cs (i, n). cs[i := hash_merge C [note_psi (in_note n), in_secret_key n]])
       [ZERO, ZERO] (enumerate 0 (u_input_notes (hy_utxo h)))"

definition write_field :: "byte list \<times> nat \<Rightarrow> element \<Rightarrow> byte list \<times> nat" where
  "write_field = (\<lambda>(blob, write_index) field.
     (copy_into write_index (to_be_bytes field) blob, write_index + HYLI_BLOB_HASH_BYTE_LENGTH))"

definition expected_blob :: "('f, 'z) crypto_scheme \<Rightarrow> hyli_utxo \<Rightarrow> byte list" where
  "expected_blob C h =
     (let commitments = hyli_commitments C h;
          nullifiers = nullifier_commitments C h;
          start = (replicate HYLI_BLOB_LENGTH_BYTES 0, 0);
          after_outputs = foldl write_field start (drop 2 commitments);
          after_nullifiers = foldl write_field after_outputs nullifiers
      in fst after_nullifiers)"

definition proof_with_inputs_to_bytes :: "element list \<Rightarrow> byte list \<Rightarrow> byte list" where
  "proof_with_inputs_to_bytes inputs proof =
     foldl (\<lambda>bytes e. bytes @ to_be_bytes e) [] inputs @ proof"

section \<open>Lemmas\<close>

lemma u8_of_kind: "utxo_kind_from_u8 (utxo_kind_to_u8 k) = k"
  by (cases k) (simp_all add: utxo_kind_from_u8_def)

lemma last_byte: "to_be_bytes e ! 31 = ucast e"
proof -
  have "to_be_bytes e ! 31 = to_le_bytes e ! 0"
    by (simp add: to_le_bytes_rev rev_nth)
  also have "\<dots> = of_nat (unat e mod 256)"
    by (simp add: to_le_bytes_def word_to_le_def le_bytes_def digits_le_0)
  also have "\<dots> = ucast e"
    by (rule word_unat_eq_iff [THEN iffD2]) (simp add: unat_ucast_mod unat_of_nat)
  finally show ?thesis .
qed

lemma kind_of_element: "utxo_kind_from_element (utxo_kind_to_element k) = k"
  by (cases k) (simp_all add: utxo_kind_from_element_def utxo_kind_to_element_def from_uint_def utxo_kind_from_u8_def)

lemma messages_length: "messages chk C u = Some ms \<Longrightarrow> length ms = 5"
  by (auto simp: messages.simps bind_eq_Some_conv split: utxo_kind.splits)

lemma messages_kind: "messages chk C u = Some ms \<Longrightarrow> utxo_kind_from_u8 (to_be_bytes (ms ! 0) ! 31) = u_kind u"
  unfolding last_byte
  by (auto simp: messages.simps bind_eq_Some_conv element_new_def ZERO_def utxo_kind_from_u8_def split: utxo_kind.splits)

text \<open>
  C13: the kind of a transaction is recoverable from its public inputs, through the last
  byte of the first message, and the structured messages read from the public inputs are
  the transaction's own: nothing for a send, the token, minted amount and mint hash for a
  mint, and the token, burnt amount, burn hash and burn address for a burn. The public
  inputs have two, two and five entries, and the byte and element forms of a kind are
  inverse to each other.
\<close>

theorem public_inputs_describe_utxo:
  assumes "public_inputs chk C u = Some p"
  shows "public_input_wf p \<and> pi_kind p = u_kind u \<and>
    pi_commitments p = leaf_elements C u \<and>
    (u_kind u = Send \<or> u_kind u = Null \<longrightarrow> pi_kind_messages p = NoMessages \<and> pi_mint_burn_hash p = None) \<and>
    (u_kind u = Mint \<longrightarrow> (\<exists>v. Option.bind (output_value chk u) (\<lambda>vo. Option.bind (input_value chk u) (sub_e chk vo)) = Some v \<and>
       pi_kind_messages p = MintMessages \<lparr> mint_note_kind = note_contract (u_output_notes u ! 0),
         mint_value = v, mint_hash_of = mint_hash C u \<rparr> \<and> pi_mint_burn_hash p = Some (mint_hash C u))) \<and>
    (u_kind u = Burn \<longrightarrow> (\<exists>v a. Option.bind (input_value chk u) (\<lambda>vi. Option.bind (output_value chk u) (sub_e chk vi)) = Some v \<and>
       u_burn_address u = Some a \<and>
       pi_kind_messages p = BurnMessages \<lparr> burn_note_kind = note_contract (in_note (u_input_notes u ! 0)),
         burn_value = v, burn_hash_of = burn_hash C u, burn_address_of = a \<rparr> \<and>
       pi_mint_burn_hash p = Some (burn_hash C u)))"
proof -
  obtain ms where ms: "messages chk C u = Some ms"
    and p: "p = \<lparr> pi_input_commitments = [note_commitment C (in_note (u_input_notes u ! 0)),
                                note_commitment C (in_note (u_input_notes u ! 1))],
         pi_output_commitments = [note_commitment C (u_output_notes u ! 0),
                                 note_commitment C (u_output_notes u ! 1)],
         pi_messages = ms \<rparr>"
    using assms by (auto simp: public_inputs_def)
  have k: "pi_kind p = u_kind u" using messages_kind [OF ms] by (simp add: pi_kind_def p)
  then show ?thesis
    using ms messages_length [OF ms]
    by (auto simp: public_input_wf_def pi_commitments_def leaf_elements_def pi_kind_messages_def
        pi_mint_burn_hash_def messages.simps bind_eq_Some_conv p)
qed

definition toy_mint :: utxo where
  "toy_mint = utxo_new_mint [\<lparr> note_kind = 2, note_contract = 7, note_address = 8, note_psi = 9, note_value = 10 \<rparr>, padding_note]"

theorem public_inputs_describe_utxo_witness:
  "\<exists>p. public_inputs True toy_env toy_mint = Some p \<and> pi_kind p = Mint \<and>
       pi_mint_burn_hash p = Some (mint_hash toy_env toy_mint)"
proof -
  have "messages True toy_env toy_mint \<noteq> None"
    by (simp add: messages.simps toy_mint_def utxo_new_mint_def output_value_def input_value_def add_e_def
        sub_e_def padding_note_def input_padding_note_def ZERO_def)
  then obtain p where p: "public_inputs True toy_env toy_mint = Some p"
    by (auto simp: public_inputs_def)
  have "u_kind toy_mint = Mint" by (simp add: toy_mint_def utxo_new_mint_def)
  then show ?thesis using public_inputs_describe_utxo [OF p] p by auto
qed

text \<open>
  the serialised public inputs of a transaction are the 9 fields, 32 big-endian bytes
  each, in order: decoding the 288 bytes gives the fields back, the proof bytes follow
  them, and equal bytes mean equal public inputs.
\<close>

theorem public_inputs_bytes:
  assumes "public_input_wf p" "public_input_wf q"
  shows "length (pi_to_bytes p) = 32 * UTXO_PUBLIC_INPUTS_COUNT \<and>
    bytes_to_elements (pi_to_bytes p) = Some (pi_fields p) \<and>
    (pi_to_bytes p = pi_to_bytes q \<longleftrightarrow> p = q) \<and>
    proof_with_inputs_to_bytes (pi_fields p) proof = pi_to_bytes p @ proof"
proof -
  have b: "pi_to_bytes r = concat (map to_be_bytes (pi_fields r))" for r
    by (simp add: pi_to_bytes_def pi_fields_def)
  have "pi_to_bytes p = pi_to_bytes q \<longleftrightarrow> pi_fields p = pi_fields q"
    unfolding b by (rule element_be.concat_inj)
  also have "\<dots> \<longleftrightarrow> p = q"
    using assms
    by (cases p; cases q)
      (auto simp: pi_fields_def public_input_wf_def numeral_2_eq_2 eval_nat_numeral length_Suc_conv)
  finally have "pi_to_bytes p = pi_to_bytes q \<longleftrightarrow> p = q" .
  moreover have "foldl (\<lambda>bytes e. bytes @ to_be_bytes e) acc es = acc @ concat (map to_be_bytes es)" for acc es
    by (induction es arbitrary: acc) simp_all
  ultimately show ?thesis
    using bytes_to_elements_concat [of "pi_fields p"] element_be.concat_length [of "pi_fields p"]
    by (simp add: b pi_fields_def UTXO_PUBLIC_INPUTS_COUNT_def proof_with_inputs_to_bytes_def)
qed

theorem public_inputs_bytes_witness:
  "public_input_wf (up_public_inputs utxo_proof_default) \<and>
   bytes_to_elements (pi_to_bytes (up_public_inputs utxo_proof_default)) =
     Some (pi_fields (up_public_inputs utxo_proof_default))"
proof -
  have "public_input_wf (up_public_inputs utxo_proof_default)"
    by (simp add: public_input_wf_def utxo_proof_default_def)
  then show ?thesis
    using public_inputs_bytes [of "up_public_inputs utxo_proof_default" "up_public_inputs utxo_proof_default" "[]"]
    by blast
qed

lemma nullifier_commitments_eq:
  assumes "utxo_wf (hy_utxo h)"
  shows "nullifier_commitments C h =
    [hash_merge C [note_psi (in_note (u_input_notes (hy_utxo h) ! 0)), in_secret_key (u_input_notes (hy_utxo h) ! 0)],
     hash_merge C [note_psi (in_note (u_input_notes (hy_utxo h) ! 1)), in_secret_key (u_input_notes (hy_utxo h) ! 1)]]"
  using assms by (auto simp: utxo_wf_def list_2 nullifier_commitments_def)

lemma write_fields:
  "length pre = 32 * k \<Longrightarrow>
   foldl write_field (pre @ replicate (32 * length es + r) 0, 32 * k) es =
   (pre @ concat (map to_be_bytes es) @ replicate r 0, 32 * (k + length es))"
proof (induction es arbitrary: pre k)
  case (Cons e es)
  have "pre @ replicate (32 * length (e # es) + r) (0 :: byte) =
      pre @ replicate 32 0 @ replicate (32 * length es + r) 0"
    by (simp flip: replicate_add add: algebra_simps)
  then have "write_field (pre @ replicate (32 * length (e # es) + r) 0, 32 * k) e =
      ((pre @ to_be_bytes e) @ replicate (32 * length es + r) 0, 32 * (k + 1))"
    using Cons.prems by (simp add: write_field_def copy_into_at HYLI_BLOB_HASH_BYTE_LENGTH_def)
  then show ?case
    using Cons.IH [of "pre @ to_be_bytes e" "k + 1"] Cons.prems by simp
qed simp

lemma expected_blob_eq:
  assumes "utxo_wf (hy_utxo h)"
  shows "expected_blob C h = concat (map to_be_bytes (drop 2 (hyli_commitments C h) @ nullifier_commitments C h))"
proof -
  let ?o = "drop 2 (hyli_commitments C h)" and ?n = "nullifier_commitments C h"
  have l: "length ?o = 2" "length ?n = 2"
    by (simp_all add: hyli_commitments_def nullifier_commitments_eq [OF assms])
  have "foldl write_field (replicate 128 0, 0) (?o @ ?n) = (concat (map to_be_bytes (?o @ ?n)), 128)"
    using write_fields [of "[]" 0 "?o @ ?n" 0] l by simp
  then show ?thesis
    by (simp add: expected_blob_def HYLI_BLOB_LENGTH_BYTES_def HYLI_BLOB_HASH_COUNT_def
        HYLI_BLOB_HASH_BYTE_LENGTH_def Let_def)
qed

text \<open>
  the blob of a Hyli transaction is 128 bytes: the two output-note commitments and
  then the two nullifiers (each the hash of an input note's psi and secret key), 32
  big-endian bytes apiece, so it decodes to exactly those four elements and never
  contains the commitments of the notes being spent.
\<close>

theorem expected_blob_layout:
  assumes "utxo_wf (hy_utxo h)"
  shows "length (expected_blob C h) = HYLI_BLOB_LENGTH_BYTES \<and>
    bytes_to_elements (expected_blob C h) = Some
      [note_commitment C (u_output_notes (hy_utxo h) ! 0),
       note_commitment C (u_output_notes (hy_utxo h) ! 1),
       hash_merge C [note_psi (in_note (u_input_notes (hy_utxo h) ! 0)), in_secret_key (u_input_notes (hy_utxo h) ! 0)],
       hash_merge C [note_psi (in_note (u_input_notes (hy_utxo h) ! 1)), in_secret_key (u_input_notes (hy_utxo h) ! 1)]]"
  unfolding expected_blob_eq [OF assms] bytes_to_elements_concat
  by (simp add: hyli_commitments_def nullifier_commitments_eq [OF assms] HYLI_BLOB_LENGTH_BYTES_def
      HYLI_BLOB_HASH_COUNT_def HYLI_BLOB_HASH_BYTE_LENGTH_def)

definition toy_hyli :: hyli_utxo where
  "toy_hyli = \<lparr> hy_version = 1, hy_initial_state = [0,0,0,0], hy_next_state = [0,0,0,0],
     hy_identity_len = 1, hy_identity = ''a'', hy_tx_hash = ''00'', hy_index = 0, hy_blob_number = 1,
     hy_blob_index = 1, hy_blob_contract_name_len = 1, hy_blob_contract_name = ''u'',
     hy_blob_capacity = 128, hy_blob_len = 128, hy_blob = replicate 128 0, hy_tx_blob_count = 3,
     hy_success = True, hy_utxo = toy_mint \<rparr>"

lemma toy_hyli_wf: "utxo_wf (hy_utxo toy_hyli)"
  by (simp add: toy_hyli_def toy_mint_def utxo_new_mint_def utxo_wf_def)

theorem expected_blob_layout_witness:
  "utxo_wf (hy_utxo toy_hyli) \<and> length (expected_blob toy_env toy_hyli) = HYLI_BLOB_LENGTH_BYTES"
  using expected_blob_layout [OF toy_hyli_wf, of toy_env] toy_hyli_wf by blast

lemma pad_string_cases:
  "pad_string s n = (if length s \<le> n then Some (s @ replicate (n - length s) (char_of (0 :: nat))) else None)"
  by (auto simp: pad_string_def)

text \<open>
  fixed-width strings: padding panics exactly when the string is too long; otherwise
  the result has the target width, starts with the string and continues with NUL
  characters, and for strings without NUL the original is recovered by cutting at the
  first NUL, so different names are padded differently.
\<close>

theorem pad_string_exact:
  assumes "char_of (0 :: nat) \<notin> set s"
  shows "(pad_string s n = None \<longleftrightarrow> n < length s) \<and>
    (case pad_string s n of None \<Rightarrow> True
     | Some t \<Rightarrow> length t = n \<and> takeWhile (\<lambda>c. c \<noteq> char_of (0 :: nat)) t = s) \<and>
    (padded_identity h \<noteq> None \<longleftrightarrow> length (hy_identity h) \<le> 256) \<and>
    (padded_tx_hash h \<noteq> None \<longleftrightarrow> length (hy_tx_hash h) \<le> 64)"
proof -
  have "takeWhile (\<lambda>c. c \<noteq> char_of (0 :: nat)) (s @ replicate k (char_of (0 :: nat))) = s" for k
    using assms by (subst takeWhile_append2) (auto simp: takeWhile_eq_Nil_iff)
  then show ?thesis
    by (simp add: pad_string_cases padded_identity_def padded_tx_hash_def not_le)
qed

theorem pad_string_exact_witness:
  "char_of (0 :: nat) \<notin> set ''ab'' \<and> (pad_string ''ab'' 1 = None \<longleftrightarrow> 1 < length ''ab'')"
proof -
  have nul: "char_of (0 :: nat) \<notin> set ''ab''" by (simp add: char_of_def)
  show ?thesis using pad_string_exact [OF nul, of 1 toy_hyli] nul by blast
qed

end
