(* ===== verification/Agg.thy ===== *)
theory Agg
  imports Utxo
begin

text \<open>
  Merkle paths of a fixed depth and the two aggregation levels of
  \<^verbatim>\<open>pkg/zk-primitives\<close> (\<^verbatim>\<open>merkle_path.rs\<close>, \<^verbatim>\<open>agg_utxo.rs\<close>, \<^verbatim>\<open>agg_agg.rs\<close>), with the
  small proof inputs of \<^verbatim>\<open>points.rs\<close>, \<^verbatim>\<open>migrate.rs\<close> and \<^verbatim>\<open>signature.rs\<close>.  The const
  generic \<^verbatim>\<open>DEPTH\<close> is an argument; \<^term>\<open>None\<close> is a panic.
\<close>

section \<open>Merkle paths (merkle-path.rs)\<close>

datatype merkle_path = MerklePath (mp_siblings: "element list")

definition merkle_path_default :: "nat \<Rightarrow> merkle_path option" where
  "merkle_path_default depth =
     (let siblings = map (\<lambda>_. ZERO) [1..<depth] in
      if depth = 0 \<or> length siblings \<noteq> depth - 1 then None else Some (MerklePath siblings))"

text \<open>For depth 0 the subtraction in the assertion overflows.\<close>

definition merkle_path_new :: "nat \<Rightarrow> element list \<Rightarrow> merkle_path option" where
  "merkle_path_new depth siblings =
     (if depth = 0 \<or> depth - 1 \<noteq> length siblings then None else Some (MerklePath siblings))"

definition compute_before_root :: "bool \<Rightarrow> ('f, 'z) crypto_scheme \<Rightarrow> merkle_path \<Rightarrow> element \<Rightarrow> element option" where
  "compute_before_root chk C p hash = compute_merkle_root chk C hash hash (mp_siblings p)"

definition compute_after_root :: "bool \<Rightarrow> ('f, 'z) crypto_scheme \<Rightarrow> merkle_path \<Rightarrow> element \<Rightarrow> element option" where
  "compute_after_root chk C p hash = compute_null_root chk C hash (mp_siblings p)"

definition apply_leaf :: "bool \<Rightarrow> ('f, 'z) crypto_scheme \<Rightarrow> merkle_path \<Rightarrow> element \<Rightarrow> merkle_path option" where
  "apply_leaf chk C p leaf = map_option MerklePath (compute_merkle_path_for_leaf chk C leaf (mp_siblings p))"

definition merkle_path_from_base :: "('f, 'z) crypto_scheme \<Rightarrow> nat \<Rightarrow> 'f list \<Rightarrow> merkle_path option" where
  "merkle_path_from_base C depth elements =
     (if depth = 0 \<or> length elements < depth - 1 then None
      else merkle_path_new depth (map (from_base C) (take (depth - 1) elements)))"

text \<open>\<^verbatim>\<open>try_into::<[Base; DEPTH]>().unwrap()\<close> panics unless there are exactly \<^verbatim>\<open>DEPTH\<close> entries.\<close>

definition merkle_path_to_base :: "('f, 'z) crypto_scheme \<Rightarrow> nat \<Rightarrow> merkle_path \<Rightarrow> 'f list option" where
  "merkle_path_to_base C depth p =
     (let v = map (to_base C) (mp_siblings p) in if length v \<noteq> depth then None else Some v)"

section \<open>Aggregation of UTXO proofs (agg-utxo.rs)\<close>

record utxo_proof_bundle =
  b_utxo_proof :: utxo_proof
  b_input_merkle_paths :: "merkle_path list"
  b_output_merkle_paths :: "merkle_path list"

definition utxo_proof_bundle_new :: "utxo_proof \<Rightarrow> merkle_path list \<Rightarrow> utxo_proof_bundle" where
  "utxo_proof_bundle_new p paths =
     \<lparr> b_utxo_proof = p, b_input_merkle_paths = [paths ! 0, paths ! 1],
       b_output_merkle_paths = [paths ! 2, paths ! 3] \<rparr>"

definition utxo_proof_bundle_default :: "utxo_proof_bundle option" where
  "utxo_proof_bundle_default =
     map_option (\<lambda>mp. \<lparr> b_utxo_proof = utxo_proof_default, b_input_merkle_paths = [mp, mp],
                        b_output_merkle_paths = [mp, mp] \<rparr>) (merkle_path_default 161)"

record agg_utxo =
  au_proofs :: "utxo_proof_bundle list"
  au_old_root :: element
  au_new_root :: element

definition agg_utxo_commit_hash :: "('f, 'z) crypto_scheme \<Rightarrow> agg_utxo \<Rightarrow> element" where
  "agg_utxo_commit_hash C a =
     hash_merge C [pi_commit_hash C (up_public_inputs (b_utxo_proof (au_proofs a ! 0))),
                   pi_commit_hash C (up_public_inputs (b_utxo_proof (au_proofs a ! 1))),
                   pi_commit_hash C (up_public_inputs (b_utxo_proof (au_proofs a ! 2)))]"

definition bundle_messages :: "utxo_proof_bundle \<Rightarrow> element list" where
  "bundle_messages b =
     (let p = up_public_inputs (b_utxo_proof b) in
      case pi_kind p of Null \<Rightarrow> [] | Send \<Rightarrow> [] | Mint \<Rightarrow> take 4 (pi_messages p) | Burn \<Rightarrow> pi_messages p)"

text \<open>The inner loop writes \<^verbatim>\<open>messages[index]\<close> and increments; an index past the array panics.\<close>

fun write_messages :: "element list \<Rightarrow> element list \<times> nat \<Rightarrow> (element list \<times> nat) option" where
  "write_messages [] (msgs, index) = Some (msgs, index)"
| "write_messages (m # ms) (msgs, index) =
     (if index < length msgs then write_messages ms (msgs[index := m], index + 1) else None)"

fun write_bundles :: "utxo_proof_bundle list \<Rightarrow> element list \<times> nat \<Rightarrow> (element list \<times> nat) option" where
  "write_bundles [] st = Some st"
| "write_bundles (b # bs) st = Option.bind (write_messages (bundle_messages b) st) (write_bundles bs)"

definition agg_utxo_messages :: "agg_utxo \<Rightarrow> element list option" where
  "agg_utxo_messages a = map_option fst (write_bundles (au_proofs a) (replicate 15 ZERO, 0))"

record agg_utxo_public_input =
  ap_messages :: "element list"
  ap_old_root :: element
  ap_new_root :: element
  ap_commit_hash :: element

definition agg_pi_to_bytes :: "agg_utxo_public_input \<Rightarrow> byte list" where
  "agg_pi_to_bytes p = concat
     (map (\<lambda>i. to_be_bytes (ap_messages p ! i)) [0, 1, 2, 3, 4, 5, 6, 7, 8, 9, 10, 11, 12, 13, 14] @
      [to_be_bytes (ap_old_root p), to_be_bytes (ap_new_root p), to_be_bytes (ap_commit_hash p)])"

definition agg_pi_is_padding :: "agg_utxo_public_input \<Rightarrow> bool" where
  "agg_pi_is_padding p \<longleftrightarrow> ap_old_root p = ZERO"

record agg_utxo_proof =
  aup_proof :: "byte list"
  aup_public_inputs :: agg_utxo_public_input

definition agg_utxo_proof_to_bytes :: "agg_utxo_proof \<Rightarrow> byte list" where
  "agg_utxo_proof_to_bytes p = agg_pi_to_bytes (aup_public_inputs p) @ aup_proof p"

section \<open>Aggregation of aggregations (agg-agg.rs)\<close>

datatype agg_agg = AggAgg (aa_proofs: "agg_utxo_proof list")

definition agg_agg_old_root :: "agg_agg \<Rightarrow> element" where
  "agg_agg_old_root a = ap_old_root (aup_public_inputs (aa_proofs a ! 0))"

definition agg_agg_new_root :: "agg_agg \<Rightarrow> element" where
  "agg_agg_new_root a =
     (if agg_pi_is_padding (aup_public_inputs (aa_proofs a ! 1))
      then ap_new_root (aup_public_inputs (aa_proofs a ! 0))
      else ap_new_root (aup_public_inputs (aa_proofs a ! 1)))"

definition agg_agg_messages :: "agg_agg \<Rightarrow> element list" where
  "agg_agg_messages a = concat (map (\<lambda>p. ap_messages (aup_public_inputs p)) (aa_proofs a))"

definition agg_agg_commit_hash :: "('f, 'z) crypto_scheme \<Rightarrow> agg_agg \<Rightarrow> element" where
  "agg_agg_commit_hash C a =
     hash_merge C [ap_commit_hash (aup_public_inputs (aa_proofs a ! 0)),
                   ap_commit_hash (aup_public_inputs (aa_proofs a ! 1))]"

record agg_agg_public_input =
  aap_old_root :: element
  aap_new_root :: element
  aap_commit_hash :: element
  aap_messages :: "element list"

definition agg_agg_public_inputs :: "('f, 'z) crypto_scheme \<Rightarrow> agg_agg \<Rightarrow> agg_agg_public_input" where
  "agg_agg_public_inputs C a =
     \<lparr> aap_old_root = agg_agg_old_root a, aap_new_root = agg_agg_new_root a,
       aap_commit_hash = agg_agg_commit_hash C a, aap_messages = agg_agg_messages a \<rparr>"

definition agg_agg_pi_to_bytes :: "agg_agg_public_input \<Rightarrow> byte list" where
  "agg_agg_pi_to_bytes p =
     foldl (\<lambda>bytes m. bytes @ to_be_bytes m)
       (to_be_bytes (aap_old_root p) @ to_be_bytes (aap_new_root p) @ to_be_bytes (aap_commit_hash p))
       (aap_messages p)"

record agg_agg_proof =
  aaf_proof :: "byte list"
  aaf_public_inputs :: agg_agg_public_input
  aaf_kzg :: "element list"

definition agg_agg_proof_to_bytes :: "agg_agg_proof \<Rightarrow> byte list" where
  "agg_agg_proof_to_bytes p =
     agg_agg_pi_to_bytes (aaf_public_inputs p) @ concat (map to_be_bytes (aaf_kzg p)) @ aaf_proof p"

section \<open>Points, migration and signature inputs\<close>

record points =
  pt_secret_keys :: "element list"
  pt_notes :: "zk_note list"
  pt_timestamp :: element
  pt_address :: element

definition points_value :: "bool \<Rightarrow> points \<Rightarrow> element option" where
  "points_value chk p = sum_e chk (map note_value (pt_notes p))"

definition points_hash :: "('f, 'z) crypto_scheme \<Rightarrow> points \<Rightarrow> element" where
  "points_hash C p = hash_merge C [pt_timestamp p, pt_address p]"

record points_public_input =
  ppi_value :: element
  ppi_timestamp :: element
  ppi_hash :: element
  ppi_commitments :: "element list"

definition points_pi_to_bytes :: "points_public_input \<Rightarrow> byte list" where
  "points_pi_to_bytes p =
     foldl (\<lambda>bytes c. bytes @ to_be_bytes c)
       (to_be_bytes (ppi_timestamp p) @ to_be_bytes (ppi_value p) @ to_be_bytes (ppi_hash p))
       (ppi_commitments p)"

definition migrate_pi_to_bytes :: "element \<Rightarrow> element \<Rightarrow> byte list" where
  "migrate_pi_to_bytes old_address new_address = concat [to_be_bytes old_address, to_be_bytes new_address]"

definition migrate_pi_to_fields :: "('f, 'z) crypto_scheme \<Rightarrow> element \<Rightarrow> element \<Rightarrow> 'f list" where
  "migrate_pi_to_fields C old_address new_address = [to_base C old_address, to_base C new_address]"

definition signature_message_hash :: "('f, 'z) crypto_scheme \<Rightarrow> element \<Rightarrow> element \<Rightarrow> element" where
  "signature_message_hash C secret_key message = hash_merge C [secret_key, message]"

definition signature_pi_to_bytes :: "element \<Rightarrow> element \<Rightarrow> byte list" where
  "signature_pi_to_bytes a message = concat [to_be_bytes a, to_be_bytes message]"

section \<open>Properties\<close>

lemma merkle_path_new_ok: "merkle_path_new depth ss = Some p \<Longrightarrow> length (mp_siblings p) = depth - 1 \<and> 1 \<le> depth"
  by (auto simp: merkle_path_new_def split: if_splits)

text \<open>
  every constructor of a Merkle path of depth \<^verbatim>\<open>DEPTH\<close> yields \<^verbatim>\<open>DEPTH - 1\<close> siblings (or
  panics), and the two root functions are those of the perfect tree: the "before" root
  has the leaf in place, the "after" root has it removed. \<^verbatim>\<open>apply_leaf\<close> leaves that
  invariant: it returns one hash per level including leaf and root, \<^verbatim>\<open>DEPTH\<close> entries.
  Converting a well-formed path to an array of \<^verbatim>\<open>DEPTH\<close> field elements always panics.
\<close>

theorem merkle_path_sizes:
  assumes "merkle_path_new depth ss = Some p" "depth \<le> 257"
  shows "length (mp_siblings p) = depth - 1 \<and>
    (\<exists>d. merkle_path_default depth = Some d \<and> length (mp_siblings d) = depth - 1) \<and>
    (length fs = depth \<longrightarrow> (\<exists>q. merkle_path_from_base C depth fs = Some q \<and> length (mp_siblings q) = depth - 1)) \<and>
    merkle_path_to_base C depth p = None \<and>
    (\<exists>q. apply_leaf chk C p leaf = Some q \<and> length (mp_siblings q) = depth) \<and>
    (\<forall>n f. ss = tree_siblings C n f (unat leaf mod 2 ^ n) \<longrightarrow>
       compute_before_root chk C p leaf = Some (tree_root C n (f(unat leaf mod 2 ^ n := leaf))) \<and>
       compute_after_root chk C p leaf = Some (tree_root C n (f(unat leaf mod 2 ^ n := NULL_HASH))))"
proof -
  have p: "p = MerklePath ss" "length ss = depth - 1" "1 \<le> depth"
    using assms(1) by (auto simp: merkle_path_new_def split: if_splits)
  have n: "length ss \<le> 256" using p(2) assms(2) by simp
  obtain path where path: "compute_merkle_path_for_leaf chk C leaf ss = Some path" "length path = length ss + 1"
    using n by (auto simp: compute_merkle_path_for_leaf_def bits_of_path path_loop)
  have "compute_before_root chk C p leaf = Some (tree_root C k (f(unat leaf mod 2 ^ k := leaf))) \<and>
      compute_after_root chk C p leaf = Some (tree_root C k (f(unat leaf mod 2 ^ k := NULL_HASH)))"
    if s: "ss = tree_siblings C k f (unat leaf mod 2 ^ k)" for k f
  proof -
    have k: "k = length ss" using s by simp
    then have "least_significant_bits chk leaf (length ss) = Some (map (bit (unat leaf mod 2 ^ k)) [0..<k])"
      using bits_of_path [OF n, of chk leaf] bit_mod_2p [of leaf k] by simp
    then show ?thesis
      using s root_of_siblings [of "unat leaf mod 2 ^ k" k C _ f]
      by (simp add: compute_before_root_def compute_after_root_def compute_merkle_root_def compute_null_root_def p(1) flip: k)
  qed
  then show ?thesis
    using p path
    by (auto simp: merkle_path_default_def merkle_path_from_base_def merkle_path_new_def
        merkle_path_to_base_def apply_leaf_def)
qed

theorem merkle_path_sizes_witness:
  "merkle_path_new 3 [4, 5] = Some (MerklePath [4, 5]) \<and>
   merkle_path_to_base toy_env 3 (MerklePath [4, 5]) = None"
proof -
  have "merkle_path_new 3 [4, 5] = Some (MerklePath [4, 5])" by (simp add: merkle_path_new_def)
  then show ?thesis using merkle_path_sizes [of 3 "[4, 5]" "MerklePath [4, 5]" "[]" toy_env True 9] by auto
qed

lemma write_messages_ok:
  "index + length ms \<le> length msgs \<Longrightarrow>
   write_messages ms (msgs, index) = Some (copy_into index ms msgs, index + length ms)"
proof (induction ms arbitrary: msgs index)
  case Nil
  then show ?case by (simp add: copy_into_def)
next
  case (Cons m ms)
  then show ?case
    by (simp add: copy_into_def take_Suc_conv_app_nth)
qed

lemma write_bundles_ok:
  assumes "index + length (concat (map bundle_messages bs)) \<le> length msgs"
  shows "write_bundles bs (msgs, index) =
    Some (copy_into index (concat (map bundle_messages bs)) msgs, index + length (concat (map bundle_messages bs)))"
  using assms
proof (induction bs arbitrary: msgs index)
  case Nil
  then show ?case by (simp add: copy_into_def)
next
  case (Cons b bs)
  let ?m = "bundle_messages b"
  have "write_messages ?m (msgs, index) = Some (copy_into index ?m msgs, index + length ?m)"
    using Cons.prems by (intro write_messages_ok) simp
  moreover have "length (copy_into index ?m msgs) = length msgs"
    using Cons.prems by (simp add: length_copy_into)
  ultimately show ?case
    using Cons.IH [of "index + length ?m" "copy_into index ?m msgs"] Cons.prems
    by (simp add: copy_into_def min_absorb2 ac_simps)
qed

lemma bundle_messages_le: "public_input_wf (up_public_inputs (b_utxo_proof b)) \<Longrightarrow> length (bundle_messages b) \<le> 5"
  by (simp add: bundle_messages_def public_input_wf_def Let_def split: utxo_kind.split)

lemma list_3: "length xs = 3 \<longleftrightarrow> (\<exists>a b c. xs = [a, b, c])"
  by (auto simp: numeral_3_eq_3 length_Suc_conv)

text \<open>
  aggregating three UTXO proofs collects their messages without overrunning the
  15-entry array: nothing for sends and padding, four messages for a mint, five for a
  burn, in the order of the proofs with no gaps, and zeroes after them. The aggregate of
  two such batches lists all 30 messages.
\<close>

theorem agg_messages_fit:
  assumes "length (au_proofs a) = 3"
    and "\<forall>b\<in>set (au_proofs a). public_input_wf (up_public_inputs (b_utxo_proof b))"
  shows "let ms = concat (map bundle_messages (au_proofs a)) in
    length ms \<le> 15 \<and> agg_utxo_messages a = Some (ms @ replicate (15 - length ms) ZERO)"
proof -
  let ?ms = "concat (map bundle_messages (au_proofs a))"
  obtain b c d where abc: "au_proofs a = [b, c, d]" using assms(1) by (auto simp: list_3)
  have len: "length ?ms \<le> 15"
    using bundle_messages_le [of b] bundle_messages_le [of c] bundle_messages_le [of d] assms(2) abc by simp
  then have "agg_utxo_messages a = Some (copy_into 0 ?ms (replicate 15 ZERO))"
    by (simp add: agg_utxo_messages_def write_bundles_ok)
  then show ?thesis using len by (simp add: Let_def copy_into_def)
qed

theorem agg_messages_fit_witness:
  "\<exists>b. utxo_proof_bundle_default = Some b \<and>
     agg_utxo_messages \<lparr> au_proofs = [b, b, b], au_old_root = 0, au_new_root = 0 \<rparr> = Some (replicate 15 ZERO)"
proof -
  obtain b where b: "utxo_proof_bundle_default = Some b" "b_utxo_proof b = utxo_proof_default"
    by (auto simp: utxo_proof_bundle_default_def merkle_path_default_def)
  have wf: "public_input_wf (up_public_inputs (b_utxo_proof b))"
    by (simp add: b(2) public_input_wf_def utxo_proof_default_def)
  have "to_be_bytes 0 ! 31 = 0" by (simp add: last_byte)
  then have "bundle_messages b = []"
    by (simp add: bundle_messages_def b(2) utxo_proof_default_def pi_kind_def utxo_kind_from_u8_def ZERO_def)
  then show ?thesis
    using agg_messages_fit [of "\<lparr> au_proofs = [b, b, b], au_old_root = 0, au_new_root = 0 \<rparr>"] wf b(1)
    by (intro exI [of _ b]) (simp add: Let_def)
qed

lemma fold_bytes: "foldl (\<lambda>bytes m. bytes @ to_be_bytes m) acc ms = acc @ concat (map to_be_bytes ms)"
  by (induction ms arbitrary: acc) simp_all

lemma pi_bytes_concat:
  "length (ap_messages p) = 15 \<Longrightarrow>
     agg_pi_to_bytes p = concat (map to_be_bytes (ap_messages p @ [ap_old_root p, ap_new_root p, ap_commit_hash p]))"
  "agg_agg_pi_to_bytes q =
     concat (map to_be_bytes (aap_old_root q # aap_new_root q # aap_commit_hash q # aap_messages q))"
  "points_pi_to_bytes r =
     concat (map to_be_bytes (ppi_timestamp r # ppi_value r # ppi_hash r # ppi_commitments r))"
  "migrate_pi_to_bytes x y = concat (map to_be_bytes [x, y])"
  "signature_pi_to_bytes x y = concat (map to_be_bytes [x, y])"
proof -
  show "agg_pi_to_bytes p = concat (map to_be_bytes (ap_messages p @ [ap_old_root p, ap_new_root p, ap_commit_hash p]))"
    if l: "length (ap_messages p) = 15"
  proof -
    have "[0, 1, 2, 3, 4, 5, 6, 7, 8, 9, 10, 11, 12, 13, 14] = [0..<length (ap_messages p)]"
      using l by (simp add: upt_rec)
    moreover have "map (\<lambda>i. to_be_bytes (ap_messages p ! i)) [0..<length (ap_messages p)] = map to_be_bytes (ap_messages p)"
      by (rule nth_equalityI) simp_all
    ultimately have "map (\<lambda>i. to_be_bytes (ap_messages p ! i)) [0, 1, 2, 3, 4, 5, 6, 7, 8, 9, 10, 11, 12, 13, 14] =
        map to_be_bytes (ap_messages p)" by simp
    then show ?thesis unfolding agg_pi_to_bytes_def by simp
  qed
qed (simp_all add: agg_agg_pi_to_bytes_def points_pi_to_bytes_def migrate_pi_to_bytes_def
    signature_pi_to_bytes_def fold_bytes)

text \<open>
  the public inputs of both aggregation circuits, of points, migration and signature
  proofs serialise as whole 32-byte elements in the documented order, so the verifier can
  cut every one of them into elements again.
\<close>

theorem aggregate_inputs_bytes:
  assumes "length (ap_messages p) = 15"
  shows "bytes_to_elements (agg_pi_to_bytes p) =
      Some (ap_messages p @ [ap_old_root p, ap_new_root p, ap_commit_hash p]) \<and>
    bytes_to_elements (agg_agg_pi_to_bytes q) =
      Some (aap_old_root q # aap_new_root q # aap_commit_hash q # aap_messages q) \<and>
    bytes_to_elements (points_pi_to_bytes r) =
      Some (ppi_timestamp r # ppi_value r # ppi_hash r # ppi_commitments r) \<and>
    bytes_to_elements (migrate_pi_to_bytes x y) = Some [x, y] \<and>
    bytes_to_elements (signature_pi_to_bytes x y) = Some [x, y]"
  unfolding pi_bytes_concat(1) [OF assms] pi_bytes_concat(2-) bytes_to_elements_concat by (intro conjI refl)

theorem aggregate_inputs_bytes_witness:
  "length (replicate 15 (3 :: element)) = 15 \<and>
   bytes_to_elements (agg_pi_to_bytes
     \<lparr> ap_messages = replicate 15 3, ap_old_root = 1, ap_new_root = 2, ap_commit_hash = 4 \<rparr>) =
   Some (replicate 15 3 @ [1, 2, 4])"
  using aggregate_inputs_bytes [of "\<lparr> ap_messages = replicate 15 3, ap_old_root = 1, ap_new_root = 2, ap_commit_hash = 4 \<rparr>"]
  by simp

end
