(* ===== verification/ElementPg.thy ===== *)
theory ElementPg
  imports Element
begin

text \<open>
  The PostgreSQL \<^verbatim>\<open>NUMERIC\<close> codec of elements (\<^verbatim>\<open>pkg/element/src/diesel_pg.rs\<close>): the
  decimal digits are grouped by four into base-10000 digits with an 8-byte header;
  reading multiplies back, with the overflow behaviour of the 256-bit operators.
  A decimal string is the list of its digits' values, most significant first.
\<close>

section \<open>Writing\<close>

text \<open>\<^verbatim>\<open>to_string\<close> of an unsigned integer.\<close>

fun dec_digits :: "nat \<Rightarrow> nat list" where
  "dec_digits n = (if n < 10 then [n] else dec_digits (n div 10) @ [n mod 10])"

declare dec_digits.simps [simp del]

definition dec_value :: "nat list \<Rightarrow> nat" where
  "dec_value ds = foldl (\<lambda>a d. a * 10 + d) 0 ds"

text \<open>\<^verbatim>\<open>parse::<u16>\<close> fails on an empty string and on values above 65535.\<close>

definition parse_u16 :: "nat list \<Rightarrow> u16 option" where
  "parse_u16 ds = (if ds = [] \<or> 65535 < dec_value ds then None else Some (of_nat (dec_value ds)))"

datatype pg_error =
    InvalidNumericConversion
  | NumberTooLargePg
  | TooShort
  | ExpectedPositive
  | TruncatedDigits
  | PgPanic

text \<open>The \<^verbatim>\<open>while remaining.len() > 4\<close> loop: digits are pushed least significant first.\<close>

function pg_group :: "nat list \<Rightarrow> u16 list \<Rightarrow> pg_error + (nat list \<times> u16 list)" where
  "pg_group remaining digits =
     (if length remaining > 4 then
        (case parse_u16 (drop (length remaining - 4) remaining) of
           None \<Rightarrow> Inl InvalidNumericConversion
         | Some d \<Rightarrow> pg_group (take (length remaining - 4) remaining) (digits @ [d]))
      else Inr (remaining, digits))"
  by pat_completeness auto
termination by (relation "measure (length \<circ> fst)") auto

declare pg_group.simps [simp del]

definition pg_digits :: "element \<Rightarrow> pg_error + u16 list" where
  "pg_digits e =
     andThen (pg_group (dec_digits (unat e)) []) (\<lambda>(remaining, digits).
       if remaining = [] then Inr (rev digits)
       else (case parse_u16 remaining of
               None \<Rightarrow> Inl InvalidNumericConversion
             | Some d \<Rightarrow> Inr (rev (digits @ [d]))))"

definition pg_to_sql :: "element \<Rightarrow> pg_error + byte list" where
  "pg_to_sql e =
     andThen (pg_digits e) (\<lambda>digits.
       if 65535 < length digits then Inl NumberTooLargePg
       else
         (let digit_count = (of_nat (length digits) :: u16);
              weight = digit_count - 1
          in Inr (word_to_be digit_count @ word_to_be weight @ [0, 0] @ [0, 0] @
                  concat (map word_to_be digits))))"

section \<open>Reading\<close>

definition mul_pg :: "bool \<Rightarrow> element \<Rightarrow> element \<Rightarrow> pg_error + element" where
  "mul_pg chk a b = okOr PgPanic (mul_e chk a b)"

definition add_pg :: "bool \<Rightarrow> element \<Rightarrow> element \<Rightarrow> pg_error + element" where
  "add_pg chk a b = okOr PgPanic (add_e chk a b)"

fun pow_pg :: "bool \<Rightarrow> element \<Rightarrow> nat \<Rightarrow> pg_error + element" where
  "pow_pg chk b 0 = Inr 1"
| "pow_pg chk b (Suc n) = andThen (pow_pg chk b n) (\<lambda>r. mul_pg chk r b)"

text \<open>The \<^verbatim>\<open>for i in 0..ndigits\<close> loop: \<^term>\<open>n\<close> digits are left, the next is at index \<^term>\<open>i\<close>.\<close>

fun pg_read :: "bool \<Rightarrow> byte list \<Rightarrow> nat \<Rightarrow> nat \<Rightarrow> element \<Rightarrow> pg_error + element" where
  "pg_read chk bytes i 0 acc = Inr acc"
| "pg_read chk bytes i (Suc n) acc =
     (let start = 8 + i * 2 in
      if length bytes < start + 2 then Inl TruncatedDigits
      else
        (let digit = (word_from_be [bytes ! start, bytes ! (start + 1)] :: u16) in
         andThen (mul_pg chk acc (from_uint (10000 :: u32))) (\<lambda>r.
         andThen (add_pg chk r (from_uint digit)) (\<lambda>r'.
         pg_read chk bytes (i + 1) n r'))))"

definition pg_from_sql :: "bool \<Rightarrow> byte list \<Rightarrow> pg_error + element" where
  "pg_from_sql chk bytes =
     (if length bytes < 8 then Inl TooShort
      else
        (let ndigits = unat (word_from_be [bytes ! 0, bytes ! 1] :: u16);
             weight = sint (word_from_be [bytes ! 2, bytes ! 3] :: u16);
             sign = (word_from_be [bytes ! 4, bytes ! 5] :: u16)
         in if sign \<noteq> 0 then Inl ExpectedPositive
            else andThen (pg_read chk bytes 0 ndigits 0) (\<lambda>result.
              let weight_adjustment = weight - (int ndigits - 1) in
              if weight_adjustment > 0
              then andThen (pow_pg chk (from_uint (10000 :: u32)) (nat weight_adjustment)) (\<lambda>p.
                     mul_pg chk result p)
              else Inr result)))"

section \<open>Lemmas\<close>

lemma dec_value_append: "dec_value (ds @ [d]) = dec_value ds * 10 + d"
  by (simp add: dec_value_def)

lemma dec_value_append2: "dec_value (xs @ ys) = dec_value xs * 10 ^ length ys + dec_value ys"
  by (induction ys rule: rev_induct)
    (auto simp: dec_value_append append_assoc [symmetric] algebra_simps simp del: append_assoc,
      simp add: dec_value_def)

lemma dec_value_dec_digits: "dec_value (dec_digits n) = n"
  by (induction n rule: dec_digits.induct)
    (subst dec_digits.simps, auto simp: dec_value_append, simp add: dec_value_def)

lemma dec_digits_nonempty: "dec_digits n \<noteq> []"
  by (subst dec_digits.simps) auto

lemma dec_digits_less: "d \<in> set (dec_digits n) \<Longrightarrow> d < 10"
proof (induction n rule: dec_digits.induct)
  case (1 n)
  then show ?case by (subst (asm) (2) dec_digits.simps) (auto split: if_splits)
qed

lemma length_dec_digits: "n < 10 ^ Suc k \<Longrightarrow> length (dec_digits n) \<le> Suc k"
proof (induction k arbitrary: n)
  case 0
  then show ?case by (subst dec_digits.simps) simp
next
  case (Suc k)
  then have "n div 10 < 10 ^ Suc k" by (simp add: less_mult_imp_div_less mult.commute)
  then show ?case using Suc.IH by (subst dec_digits.simps) simp
qed

lemma dec_value_less: "\<forall>d\<in>set ds. d < 10 \<Longrightarrow> dec_value ds < 10 ^ length ds"
proof (induction ds rule: rev_induct)
  case Nil
  then show ?case by (simp add: dec_value_def)
next
  case (snoc d ds)
  then show ?case by (simp add: dec_value_append)
qed

lemma parse_u16_group:
  assumes "ds \<noteq> []" "length ds \<le> 4" "\<forall>d\<in>set ds. d < 10"
  shows "parse_u16 ds = Some (of_nat (dec_value ds)) \<and> dec_value ds < 10000 \<and>
         unat (of_nat (dec_value ds) :: u16) = dec_value ds"
proof -
  have "(10::nat) ^ length ds \<le> 10 ^ 4" using assms(2) by (rule power_increasing) simp
  then have "dec_value ds < 10000" using dec_value_less [OF assms(3)] by simp
  then show ?thesis using assms(1) by (simp add: parse_u16_def unat_of_nat)
qed

definition be10k :: "u16 list \<Rightarrow> nat" where
  "be10k ds = foldl (\<lambda>a d. a * 10000 + unat d) 0 ds"

lemma be10k_Cons: "foldl (\<lambda>a d. a * 10000 + unat d) a ds = a * 10000 ^ length ds + be10k (ds :: u16 list)"
proof (induction ds arbitrary: a)
  case (Cons d ds)
  have "be10k (d # ds) = unat d * 10000 ^ length ds + be10k ds"
    using Cons [of "unat d"] by (simp add: be10k_def)
  then show ?case using Cons [of "a * 10000 + unat d"] by (simp add: algebra_simps)
qed (simp add: be10k_def)

lemma pg_group_ok:
  "\<forall>d\<in>set remaining. d < 10 \<Longrightarrow>
   \<exists>r ds. pg_group remaining digits = Inr (r, ds) \<and> length r \<le> 4 \<and> (remaining \<noteq> [] \<longrightarrow> r \<noteq> []) \<and>
     (\<forall>d\<in>set r. d < 10) \<and>
     dec_value r * 10000 ^ length ds + be10k (rev ds) =
       dec_value remaining * 10000 ^ length digits + be10k (rev digits) \<and>
     4 * length ds + length r = 4 * length digits + length remaining"
proof (induction remaining digits rule: pg_group.induct)
  case (1 remaining digits)
  show ?case
  proof (cases "length remaining > 4")
    case False
    then show ?thesis using 1(2) by (subst pg_group.simps) auto
  next
    case True
    let ?t = "take (length remaining - 4) remaining" and ?c = "drop (length remaining - 4) remaining"
    have cs: "?c \<noteq> []" "length ?c \<le> 4" "\<forall>d\<in>set ?c. d < 10"
      using True 1(2) by (auto dest: in_set_dropD)
    have c: "parse_u16 ?c = Some (of_nat (dec_value ?c))" "unat (of_nat (dec_value ?c) :: u16) = dec_value ?c"
      using parse_u16_group [OF cs] by simp_all
    have t: "\<forall>d\<in>set ?t. d < 10" "?t \<noteq> []" using 1(2) True by (auto dest: in_set_takeD)
    have "dec_value remaining = dec_value (?t @ ?c)" by simp
    also have "\<dots> = dec_value ?t * 10000 + dec_value ?c"
      unfolding dec_value_append2 using True by simp
    finally have v: "dec_value remaining = dec_value ?t * 10000 + dec_value ?c" .
    have b: "be10k (rev (digits @ [of_nat (dec_value ?c)])) =
        dec_value ?c * 10000 ^ length digits + be10k (rev digits)"
      using be10k_Cons [of "dec_value ?c" "rev digits"] c(2) by (simp add: be10k_def)
    obtain r ds where ih: "pg_group ?t (digits @ [of_nat (dec_value ?c)]) = Inr (r, ds)" "length r \<le> 4" "r \<noteq> []"
      "\<forall>d\<in>set r. d < 10"
      "dec_value r * 10000 ^ length ds + be10k (rev ds) =
        dec_value ?t * 10000 ^ Suc (length digits) + be10k (rev (digits @ [of_nat (dec_value ?c)]))"
      "4 * length ds + length r = 4 * Suc (length digits) + length ?t"
      using 1(1) [OF True c(1) t(1)] t(2) by auto
    have "pg_group remaining digits = Inr (r, ds)"
      using ih(1) True c(1) by (subst pg_group.simps) simp
    then show ?thesis using ih True v b by (auto simp: algebra_simps)
  qed
qed

lemma pg_digits_ok:
  "\<exists>ds. pg_digits e = Inr ds \<and> be10k ds = unat e \<and> 1 \<le> length ds \<and> length ds \<le> 20"
proof -
  have "\<forall>d\<in>set (dec_digits (unat e)). d < 10" using dec_digits_less by auto
  then obtain r ds where g: "pg_group (dec_digits (unat e)) [] = Inr (r, ds)" "length r \<le> 4" "r \<noteq> []"
    "\<forall>d\<in>set r. d < 10" "dec_value r * 10000 ^ length ds + be10k (rev ds) = unat e"
    "4 * length ds + length r = length (dec_digits (unat e))"
    using pg_group_ok [of "dec_digits (unat e)" "[]"]
    by (auto simp: dec_value_dec_digits dec_digits_nonempty be10k_def)
  have "unat e < 10 ^ Suc 77" using unat_element_less [of e] by simp
  then have "length (dec_digits (unat e)) \<le> 78" using length_dec_digits [of "unat e" 77] by simp
  then have len: "length ds \<le> 19" using g(3,6) by (cases r) auto
  have p: "parse_u16 r = Some (of_nat (dec_value r))" "unat (of_nat (dec_value r) :: u16) = dec_value r"
    using parse_u16_group [OF g(3,2,4)] by auto
  have "pg_digits e = Inr (of_nat (dec_value r) # rev ds)"
    using g(1,3) p(1) by (simp add: pg_digits_def)
  moreover have "be10k (of_nat (dec_value r) # rev ds) = unat e"
    using be10k_Cons [of "dec_value r" "rev ds"] p(2) g(5) by (simp add: be10k_def)
  ultimately show ?thesis using len by (intro exI) auto
qed

lemma be10k_take_le: "a * 10000 + unat d \<le> foldl (\<lambda>a d. a * 10000 + unat (d :: u16)) a (d # ds)"
proof -
  have "x \<le> foldl (\<lambda>a d. a * 10000 + unat (d :: u16)) x ds" for x
  proof (induction ds arbitrary: x)
    case (Cons d ds)
    have "x \<le> x * 10000 + unat d" by simp
    then show ?case using Cons [of "x * 10000 + unat d"] by simp
  qed simp
  then show ?thesis by simp
qed

lemma word_from_be_2 [simp]: "(word_from_be (word_to_be (d :: u16)) :: u16) = d"
  by (simp add: word_from_to_be)

lemma word_to_be_2: "\<exists>x y. word_to_be (d :: u16) = [x, y]"
  by (rule list_2 [THEN iffD1]) simp

lemma mul_pg_no_overflow:
  "unat a * unat b < 2 ^ 256 \<Longrightarrow> mul_pg chk a b = Inr (a * b) \<and> unat (a * b) = unat a * unat b"
  by (simp add: mul_pg_def mul_e_def unat_word_ariths(2))

lemma add_pg_no_overflow:
  "unat a + unat b < 2 ^ 256 \<Longrightarrow> add_pg chk a b = Inr (a + b) \<and> unat (a + b) = unat a + unat b"
  by (simp add: add_pg_def add_e_def unat_word_ariths(1))

lemma pg_read_ok:
  assumes "length pre = 8 + 2 * i"
    and "foldl (\<lambda>a d. a * 10000 + unat d) (unat acc) ds < 2 ^ 256"
  shows "\<exists>r. pg_read chk (pre @ concat (map word_to_be (ds :: u16 list))) i (length ds) acc = Inr r \<and>
    unat r = foldl (\<lambda>a d. a * 10000 + unat d) (unat acc) ds"
  using assms
proof (induction ds arbitrary: pre i acc)
  case (Cons d ds)
  obtain x y where xy: "word_to_be d = [x, y]" using word_to_be_2 by blast
  let ?bs = "pre @ concat (map word_to_be (d # ds))"
  have at: "?bs ! (8 + i * 2) = x" "?bs ! (8 + i * 2 + 1) = y" "\<not> length ?bs < 8 + i * 2 + 2"
    using Cons.prems(1) xy by (simp_all add: nth_append)
  have d: "(word_from_be [x, y] :: u16) = d" using word_from_be_2 [of d] xy by simp
  have small: "unat acc * 10000 + unat d < 2 ^ 256"
    using Cons.prems(2) be10k_take_le [of "unat acc" d ds] by simp
  have u: "unat (from_uint (10000 :: u32)) = 10000" "unat (from_uint d) = unat d"
    by (simp_all add: from_uint_def unat_ucast_widen)
  have m: "mul_pg chk acc (from_uint (10000 :: u32)) = Inr (acc * from_uint (10000 :: u32))"
    "unat (acc * from_uint (10000 :: u32)) = unat acc * 10000"
    using mul_pg_no_overflow [of acc "from_uint (10000 :: u32)" chk] small u by auto
  let ?a = "acc * from_uint (10000 :: u32) + from_uint d"
  have a: "add_pg chk (acc * from_uint (10000 :: u32)) (from_uint d) = Inr ?a"
    "unat ?a = unat acc * 10000 + unat d"
    using add_pg_no_overflow [of "acc * from_uint (10000 :: u32)" "from_uint d" chk] small u(2) m(2) by auto
  have "\<exists>r. pg_read chk ((pre @ [x, y]) @ concat (map word_to_be ds)) (i + 1) (length ds) ?a = Inr r \<and>
    unat r = foldl (\<lambda>a d. a * 10000 + unat d) (unat ?a) ds"
    using Cons.prems a(2) by (intro Cons.IH) auto
  then show ?case
    using at d m a xy by (simp add: Let_def)
qed simp

text \<open>
  the PostgreSQL form of an element always exists (at most twenty base-10000 digits, no
  error branch is reached), and reading it gives the element back, with or without
  overflow checks: no intermediate product or sum leaves 256 bits.
\<close>

theorem pg_round_trip: "\<exists>bytes. pg_to_sql e = Inr bytes \<and> length bytes \<le> 48 \<and> pg_from_sql chk bytes = Inr e"
proof -
  obtain ds where ds: "pg_digits e = Inr ds" "be10k ds = unat e" "1 \<le> length ds" "length ds \<le> 20"
    using pg_digits_ok by blast
  let ?n = "of_nat (length ds) :: u16"
  obtain a b where ab: "word_to_be ?n = [a, b]" using word_to_be_2 by blast
  obtain c d where cd: "word_to_be (?n - 1) = [c, d]" using word_to_be_2 by blast
  let ?bs = "[a, b, c, d, 0, 0, 0, 0] @ concat (map word_to_be ds)"
  have w: "pg_to_sql e = Inr ?bs" using ds ab cd by (simp add: pg_to_sql_def Let_def)
  have n: "(word_from_be [a, b] :: u16) = ?n" "(word_from_be [c, d] :: u16) = ?n - 1"
    using word_from_be_2 [of ?n] word_from_be_2 [of "?n - 1"] ab cd by simp_all
  have un: "unat ?n = length ds" using ds(4) by (simp add: unat_of_nat)
  have n1: "?n - 1 = of_nat (length ds - 1)" using ds(3) by (simp add: of_nat_diff)
  have "sint (of_nat (length ds - 1) :: u16) = int (length ds - 1)"
    using ds(4) by (simp only: signed_of_nat) (simp add: signed_take_bit_int_eq_self)
  then have sw: "sint (?n - 1) = int (length ds) - 1"
    unfolding n1 using ds(3) by (simp add: of_nat_diff)
  have s0: "(word_from_be [0, 0] :: u16) = 0"
    by (simp add: word_from_be_def be_val_def le_val_def)
  obtain r where r: "pg_read chk ?bs 0 (length ds) 0 = Inr r" "unat r = unat e"
    using pg_read_ok [of "[a, b, c, d, 0, 0, 0, 0]" 0 0 ds chk] ds(2) unat_element_less [of e]
    by (auto simp: be10k_def)
  have "r = e" using r(2) by (simp add: word_unat_eq_iff)
  moreover have "length (concat (map word_to_be ds)) = 2 * length ds"
    using u16_be.concat_length [of ds] by simp
  ultimately show ?thesis
    using w n un sw s0 r(1) ds(4) by (simp add: pg_from_sql_def Let_def)
qed

end
