(* ===== verification/SignedElement.thy ===== *)
theory SignedElement
  imports Element
begin

text \<open>
  The signed 256-bit integer of \<^verbatim>\<open>pkg/element/src/signed_element.rs\<close>: a magnitude and
  a sign.  Its two fields are public, so a negative zero can be built by hand; \<^verbatim>\<open>se_new\<close>
  normalises it, and the normal form is the invariant \<^verbatim>\<open>se_wf\<close>.  As for elements, a
  panic is \<^term>\<open>None\<close> and the first argument of the arithmetic is the overflow-check
  setting.
\<close>

datatype signed_element = SignedElement (se_value: element) (se_negative: bool)

datatype ordering = Less | Equal | Greater

definition cmp_e :: "'a::linorder \<Rightarrow> 'a \<Rightarrow> ordering" where
  "cmp_e a b = (if a < b then Less else if a = b then Equal else Greater)"

fun reverse_ord :: "ordering \<Rightarrow> ordering" where
  "reverse_ord Less = Greater"
| "reverse_ord Equal = Equal"
| "reverse_ord Greater = Less"

definition se_new :: "element \<Rightarrow> bool \<Rightarrow> signed_element" where
  "se_new v neg = (if is_zero v then SignedElement v False else SignedElement v neg)"

definition se_positive :: "element \<Rightarrow> signed_element" where
  "se_positive v = se_new v False"

definition se_negative_of :: "element \<Rightarrow> signed_element" where
  "se_negative_of v = se_new v True"

definition SE_ZERO :: signed_element where "SE_ZERO = SignedElement ZERO False"
definition SE_ONE :: signed_element where "SE_ONE = SignedElement ONE False"
definition SE_NEG_ONE :: signed_element where "SE_NEG_ONE = SignedElement ONE True"

definition se_abs :: "signed_element \<Rightarrow> element" where "se_abs s = se_value s"

definition se_is_negative :: "signed_element \<Rightarrow> bool" where "se_is_negative s = se_negative s"

definition se_is_positive :: "signed_element \<Rightarrow> bool" where
  "se_is_positive s \<longleftrightarrow> \<not> se_negative s \<and> \<not> is_zero (se_value s)"

definition se_is_zero :: "signed_element \<Rightarrow> bool" where
  "se_is_zero s = is_zero (se_value s)"

definition se_signum :: "signed_element \<Rightarrow> signed_element" where
  "se_signum s = (if se_is_zero s then SE_ZERO else if se_negative s then SE_NEG_ONE else SE_ONE)"

definition se_to_u256_with_sign :: "signed_element \<Rightarrow> u256 \<times> bool" where
  "se_to_u256_with_sign s = (se_value s, se_negative s)"

section \<open>Conversions\<close>

definition se_from_element :: "element \<Rightarrow> signed_element" where
  "se_from_element v = se_new v False"

definition se_from_u64 :: "u64 \<Rightarrow> signed_element" where
  "se_from_u64 v = se_new (element_new v) False"

definition unsigned_abs :: "i64 \<Rightarrow> u64" where
  "unsigned_abs v = (if sint v < 0 then - v else v)"

definition se_from_i64 :: "i64 \<Rightarrow> signed_element" where
  "se_from_i64 v =
     (if sint v < 0 then se_new (element_new (unsigned_abs v)) True
      else se_new (element_new (unsigned_abs v)) False)"

section \<open>Arithmetic\<close>

definition se_neg :: "signed_element \<Rightarrow> signed_element" where
  "se_neg s = (if se_is_zero s then s else se_new (se_value s) (\<not> se_negative s))"

definition se_add :: "bool \<Rightarrow> signed_element \<Rightarrow> signed_element \<Rightarrow> signed_element option" where
  "se_add chk a b =
     (if se_negative a = se_negative b
      then map_option (\<lambda>v. se_new v (se_negative a)) (add_e chk (se_value a) (se_value b))
      else (case cmp_e (se_value a) (se_value b) of
              Equal \<Rightarrow> Some SE_ZERO
            | Greater \<Rightarrow> map_option (\<lambda>v. se_new v (se_negative a)) (sub_e chk (se_value a) (se_value b))
            | Less \<Rightarrow> map_option (\<lambda>v. se_new v (se_negative b)) (sub_e chk (se_value b) (se_value a))))"

definition se_sub :: "bool \<Rightarrow> signed_element \<Rightarrow> signed_element \<Rightarrow> signed_element option" where
  "se_sub chk a b = se_add chk a (se_neg b)"

definition se_mul :: "bool \<Rightarrow> signed_element \<Rightarrow> signed_element \<Rightarrow> signed_element option" where
  "se_mul chk a b =
     map_option (\<lambda>v. se_new v (se_negative a \<noteq> se_negative b)) (mul_e chk (se_value a) (se_value b))"

definition se_div :: "signed_element \<Rightarrow> signed_element \<Rightarrow> signed_element option" where
  "se_div a b =
     (if se_is_zero b then None
      else map_option (\<lambda>v. se_new v (se_negative a \<noteq> se_negative b)) (div_e (se_value a) (se_value b)))"

text \<open>The operators whose right operand is an element, a \<^verbatim>\<open>u64\<close> or an \<^verbatim>\<open>i64\<close> convert it first.\<close>

definition se_op_element ::
  "(signed_element \<Rightarrow> signed_element \<Rightarrow> signed_element option) \<Rightarrow> signed_element \<Rightarrow> element \<Rightarrow> signed_element option" where
  "se_op_element oper a r = oper a (se_from_element r)"

definition se_op_u64 ::
  "(signed_element \<Rightarrow> signed_element \<Rightarrow> signed_element option) \<Rightarrow> signed_element \<Rightarrow> u64 \<Rightarrow> signed_element option" where
  "se_op_u64 oper a r = oper a (se_from_u64 r)"

definition se_op_i64 ::
  "(signed_element \<Rightarrow> signed_element \<Rightarrow> signed_element option) \<Rightarrow> signed_element \<Rightarrow> i64 \<Rightarrow> signed_element option" where
  "se_op_i64 oper a r = oper a (se_from_i64 r)"

definition se_display :: "(element \<Rightarrow> string) \<Rightarrow> signed_element \<Rightarrow> string" where
  "se_display show_e s = (if se_negative s then ''-'' @ show_e (se_value s) else show_e (se_value s))"

section \<open>Comparisons\<close>

definition se_eq_element :: "signed_element \<Rightarrow> element \<Rightarrow> bool" where
  "se_eq_element s e \<longleftrightarrow> \<not> se_negative s \<and> se_value s = e"

definition se_eq_u64 :: "signed_element \<Rightarrow> u64 \<Rightarrow> bool" where
  "se_eq_u64 s v \<longleftrightarrow> \<not> se_negative s \<and> eq_uint (se_value s) v"

definition se_eq_i64 :: "signed_element \<Rightarrow> i64 \<Rightarrow> bool" where
  "se_eq_i64 s v =
     (if sint v < 0 then se_negative s \<and> se_value s = element_new (unsigned_abs v)
      else \<not> se_negative s \<and> se_value s = element_new v)"

definition I64_MAX :: u64 where "I64_MAX = 0x7FFFFFFFFFFFFFFF"

text \<open>\<^verbatim>\<open>as_u64\<close> truncates; \<^verbatim>\<open>i64::try_from\<close> fails above \<^verbatim>\<open>i64::MAX\<close>, and the code panics then.\<close>

definition se_to_i64 :: "signed_element \<Rightarrow> i64 option panics" where
  "se_to_i64 s =
     (if element_new I64_MAX < se_value s then Returns None
      else
        (let unsigned_val = (ucast (se_value s) :: u64) in
         if \<not> se_negative s \<and> I64_MAX < unsigned_val then Returns None
         else if I64_MAX < unsigned_val then Panics
         else Returns (Some (if se_negative s then - unsigned_val else unsigned_val))))"

definition se_fits_in_i64 :: "signed_element \<Rightarrow> bool panics" where
  "se_fits_in_i64 s = (case se_to_i64 s of Panics \<Rightarrow> Panics | Returns r \<Rightarrow> Returns (r \<noteq> None))"

definition se_cmp :: "signed_element \<Rightarrow> signed_element \<Rightarrow> ordering" where
  "se_cmp a b =
     (case (se_negative a, se_negative b) of
        (False, False) \<Rightarrow> cmp_e (se_value a) (se_value b)
      | (True, True) \<Rightarrow> cmp_e (se_value b) (se_value a)
      | (True, False) \<Rightarrow> Less
      | (False, True) \<Rightarrow> Greater)"

definition se_partial_cmp :: "signed_element \<Rightarrow> signed_element \<Rightarrow> ordering option" where
  "se_partial_cmp a b = Some (se_cmp a b)"

definition se_partial_cmp_element :: "signed_element \<Rightarrow> element \<Rightarrow> ordering option" where
  "se_partial_cmp_element s e = (if se_negative s then Some Less else Some (cmp_e (se_value s) e))"

definition se_partial_cmp_u64 :: "signed_element \<Rightarrow> u64 \<Rightarrow> ordering option" where
  "se_partial_cmp_u64 s v =
     (if se_negative s then Some Less else Some (cmp_e (se_value s) (from_uint v)))"

definition se_partial_cmp_i64 :: "signed_element \<Rightarrow> i64 \<Rightarrow> ordering option" where
  "se_partial_cmp_i64 s v =
     (if sint v < 0 then
        (if se_negative s
         then Some (reverse_ord (cmp_e (ucast (se_value s) :: u64) (unsigned_abs v)))
         else Some Greater)
      else
        (if se_negative s then Some Less
         else Some (cmp_e (se_value s) (from_uint v))))"

section \<open>The integer denoted, and the normal form\<close>

definition se_int :: "signed_element \<Rightarrow> int" where
  "se_int s = (if se_negative s then - uint (se_value s) else uint (se_value s))"

definition se_wf :: "signed_element \<Rightarrow> bool" where
  "se_wf s \<longleftrightarrow> (se_negative s \<longrightarrow> se_value s \<noteq> 0)"

named_theorems se_simps "unfolding of signed elements to their integer"

lemma se_new_wf [simp]: "se_wf (se_new v n)"
  by (simp add: se_wf_def se_new_def is_zero_def ZERO_def)

lemma se_new_int [se_simps]: "se_int (se_new v n) = (if n then - uint v else uint v)"
  by (simp add: se_int_def se_new_def is_zero_def ZERO_def)

lemma uint_pos: "uint (v :: 'a::len word) \<noteq> 0 \<longleftrightarrow> 0 < uint v"
  using uint_ge_0 [of v] by linarith

lemma se_negative_iff: "se_wf s \<Longrightarrow> se_negative s \<longleftrightarrow> se_int s < 0"
  using uint_pos [of "se_value s"] by (auto simp: se_wf_def se_int_def word_uint_eq_iff)

lemma se_wf_inj:
  assumes "se_wf a" "se_wf b"
  shows "se_int a = se_int b \<longleftrightarrow> a = b"
proof
  assume eq: "se_int a = se_int b"
  then have "se_negative a = se_negative b"
    using assms by (simp add: se_negative_iff)
  then show "a = b"
    using eq by (cases a; cases b) (auto simp: se_int_def word_uint_eq_iff split: if_splits)
qed simp

lemma uint_element_new [se_simps]: "uint (element_new v) = uint v"
proof -
  have "unat (element_new v) = unat v" by (simp add: element_new_def unat_ucast_widen)
  then show ?thesis by (simp only: uint_nat)
qed

lemma sint_u64: "sint (v :: i64) = (if sint v < 0 then uint v - 2 ^ 64 else uint v)"
  using uint_lt2p [of v] uint_ge_0 [of v]
  by (simp add: sint_uint signed_take_bit_eq_take_bit_minus take_bit_int_eq_self of_bool_def)

lemma sint_u64_range: "- (2 ^ 63) \<le> sint (v :: i64)" "sint v < 2 ^ 63"
  using sint_greater_eq [of v] sint_less [of v] by simp_all

lemma u64_nonneg: "\<not> sint (v :: i64) < 0 \<Longrightarrow> uint v = sint v"
  using sint_u64 [of v] by simp

lemma u64_small:
  assumes "uint (v :: i64) < 2 ^ 63"
  shows "sint v = uint v"
proof (cases "sint v < 0")
  case True
  then have "sint v = uint v - 2 ^ 64" using sint_u64 [of v] by simp
  then show ?thesis using assms sint_u64_range(1) [of v] by simp
qed (simp add: u64_nonneg)

lemma uint_unsigned_abs: "uint (unsigned_abs v) = \<bar>sint v\<bar>"
proof (cases "sint v < 0")
  case True
  then have u: "uint v = sint v + 2 ^ 64" using sint_u64 [of v] by simp
  have "uint (- v) = (- uint v) mod 2 ^ 64" by (simp add: uint_word_ariths)
  also have "\<dots> = 2 ^ 64 - uint v"
  proof -
    have "0 < uint v" "uint v < 2 ^ 64" using u sint_u64_range(1) [of v] True by simp_all
    then have "uint v mod 2 ^ 64 = uint v" by (intro mod_pos_pos_trivial) auto
    then show ?thesis using \<open>0 < uint v\<close> by (simp only: zmod_zminus1_eq_if) simp
  qed
  also have "\<dots> = - sint v" using u by simp
  finally show ?thesis using True by (simp add: unsigned_abs_def)
next
  case False
  then show ?thesis using sint_u64 [of v] by (simp add: unsigned_abs_def)
qed

lemma add_e_int: "add_e True a b = Some c \<longleftrightarrow> uint c = uint a + uint b"
  by (simp only: add_e_Some_iff flip: of_nat_eq_iff [where 'a = int]) simp

lemma mul_e_int: "mul_e True a b = Some c \<longleftrightarrow> uint c = uint a * uint b"
  by (simp only: mul_e_Some_iff flip: of_nat_eq_iff [where 'a = int]) simp

lemma int_le_2p256: "2 ^ 256 \<le> m \<longleftrightarrow> (2 :: int) ^ 256 \<le> int m"
  by (metis of_nat_le_iff of_nat_power of_nat_numeral)

lemma add_e_None_int: "add_e True a b = None \<longleftrightarrow> 2 ^ 256 \<le> uint a + uint b"
  using int_le_2p256 [of "unat a + unat b"] by (simp add: add_e_def)

lemma mul_e_None_int: "mul_e True a b = None \<longleftrightarrow> 2 ^ 256 \<le> uint a * uint b"
  using int_le_2p256 [of "unat a * unat b"] by (simp add: mul_e_def)

lemma sub_e_int: "b \<le> a \<Longrightarrow> sub_e chk a b = Some (a - b) \<and> uint (a - b) = uint a - uint b"
  by (simp add: sub_e_def not_less word_le_def flip: uint_sub_lem)

lemma uint_element_less: "uint (e :: element) < 2 ^ 256"
  using uint_lt2p [of e] by simp

section \<open>Properties\<close>

lemma se_neg_int [se_simps]: "se_int (se_neg s) = - se_int s"
  by (cases s) (simp add: se_neg_def se_new_def se_is_zero_def is_zero_def ZERO_def se_int_def)

lemma se_neg_wf [simp]: "se_wf s \<Longrightarrow> se_wf (se_neg s)"
  by (simp add: se_neg_def)

lemma se_ZERO_facts [simp]: "se_wf SE_ZERO" "se_int SE_ZERO = 0"
  by (simp_all add: SE_ZERO_def se_wf_def se_int_def ZERO_def)

lemma se_add_wf: "se_add chk a b = Some c \<Longrightarrow> se_wf c"
  by (auto simp: se_add_def split: if_splits ordering.splits)

lemma se_add_int: "se_add True a b = Some c \<Longrightarrow> se_int c = se_int a + se_int b"
  using sub_e_int [of "se_value b" "se_value a" True] sub_e_int [of "se_value a" "se_value b" True]
  by (auto simp: se_add_def cmp_e_def se_simps add_e_int se_int_def [of a] se_int_def [of b] split: if_splits)

lemma se_add_None: "se_add True a b = None \<longleftrightarrow> 2 ^ 256 \<le> \<bar>se_int a + se_int b\<bar>"
proof (cases "se_negative a = se_negative b")
  case True
  then have "\<bar>se_int a + se_int b\<bar> = uint (se_value a) + uint (se_value b)"
    using uint_ge_0 [of "se_value a"] uint_ge_0 [of "se_value b"]
    by (simp only: se_int_def split: if_split) linarith
  then show ?thesis using True by (simp add: se_add_def add_e_None_int)
next
  case False
  then have "se_add True a b \<noteq> None"
    using sub_e_int [of "se_value b" "se_value a" True] sub_e_int [of "se_value a" "se_value b" True]
    by (auto simp: se_add_def cmp_e_def)
  moreover have "\<bar>se_int a + se_int b\<bar> < 2 ^ 256"
    using False uint_element_less [of "se_value a"] uint_element_less [of "se_value b"]
      uint_ge_0 [of "se_value a"] uint_ge_0 [of "se_value b"]
    by (simp only: se_int_def split: if_split) linarith
  ultimately show ?thesis by linarith
qed

lemma se_mul_None: "se_mul True a b = None \<longleftrightarrow> 2 ^ 256 \<le> \<bar>se_int a * se_int b\<bar>"
proof -
  have "\<bar>se_int a * se_int b\<bar> = uint (se_value a) * uint (se_value b)"
    by (simp add: se_int_def abs_mult)
  then show ?thesis by (simp add: se_mul_def mul_e_None_int)
qed

lemma se_mul_int: "se_mul True a b = Some c \<Longrightarrow> se_int c = se_int a * se_int b"
  by (auto simp: se_mul_def se_simps mul_e_int se_int_def [of a] se_int_def [of b])

lemma se_div_int: "se_div a b = Some c \<Longrightarrow>
   se_int c = sgn (se_int a) * sgn (se_int b) * (\<bar>se_int a\<bar> div \<bar>se_int b\<bar>)"
  by (auto simp: se_div_def se_simps div_e_def se_int_def [of a] se_int_def [of b] se_is_zero_def is_zero_def ZERO_def
      uint_div_distrib sgn_if uint_pos split: if_splits)

text \<open>
  C39: signed arithmetic is integer arithmetic. With overflow checks, addition,
  subtraction and multiplication return a value exactly when the magnitude of the true
  result fits in 256 bits, and the returned element denotes that result; division
  truncates toward zero and panics exactly on a zero divisor. Every result is in normal
  form (no negative zero), whatever the operands.
\<close>

theorem signed_arithmetic_exact:
  assumes "se_wf a" "se_wf b"
  shows "(case se_add True a b of Some c \<Rightarrow> se_wf c \<and> se_int c = se_int a + se_int b
          | None \<Rightarrow> 2 ^ 256 \<le> \<bar>se_int a + se_int b\<bar>) \<and>
    (case se_sub True a b of Some c \<Rightarrow> se_wf c \<and> se_int c = se_int a - se_int b
          | None \<Rightarrow> 2 ^ 256 \<le> \<bar>se_int a - se_int b\<bar>) \<and>
    (case se_mul True a b of Some c \<Rightarrow> se_wf c \<and> se_int c = se_int a * se_int b
          | None \<Rightarrow> 2 ^ 256 \<le> \<bar>se_int a * se_int b\<bar>) \<and>
    (case se_div a b of
       Some c \<Rightarrow> se_wf c \<and> se_int c = sgn (se_int a) * sgn (se_int b) * (\<bar>se_int a\<bar> div \<bar>se_int b\<bar>)
     | None \<Rightarrow> se_int b = 0)"
proof (intro conjI)
  show "case se_add True a b of Some c \<Rightarrow> se_wf c \<and> se_int c = se_int a + se_int b
          | None \<Rightarrow> 2 ^ 256 \<le> \<bar>se_int a + se_int b\<bar>"
    using se_add_None [of a b] by (auto split: option.split dest: se_add_wf se_add_int)
  show "case se_sub True a b of Some c \<Rightarrow> se_wf c \<and> se_int c = se_int a - se_int b
          | None \<Rightarrow> 2 ^ 256 \<le> \<bar>se_int a - se_int b\<bar>"
    using se_add_None [of a "se_neg b"] unfolding se_sub_def
    by (auto split: option.split dest: se_add_wf se_add_int simp: se_simps)
  show "case se_mul True a b of Some c \<Rightarrow> se_wf c \<and> se_int c = se_int a * se_int b
          | None \<Rightarrow> 2 ^ 256 \<le> \<bar>se_int a * se_int b\<bar>"
    using se_mul_None [of a b] by (auto split: option.split dest: se_mul_int) (auto simp: se_mul_def)
  show "case se_div a b of
       Some c \<Rightarrow> se_wf c \<and> se_int c = sgn (se_int a) * sgn (se_int b) * (\<bar>se_int a\<bar> div \<bar>se_int b\<bar>)
     | None \<Rightarrow> se_int b = 0"
    by (auto split: option.split dest: se_div_int)
      (auto simp: se_div_def se_int_def se_is_zero_def is_zero_def ZERO_def div_e_def split: if_splits)
qed

theorem signed_arithmetic_exact_witness:
  "se_wf (se_new 5 True) \<and> se_wf (se_new 3 False) \<and>
   (case se_add True (se_new 5 True) (se_new 3 False) of
      Some c \<Rightarrow> se_wf c \<and> se_int c = se_int (se_new 5 True) + se_int (se_new 3 False)
    | None \<Rightarrow> 2 ^ 256 \<le> \<bar>se_int (se_new 5 True) + se_int (se_new 3 False)\<bar>)"
  using signed_arithmetic_exact [of "se_new 5 True" "se_new 3 False"] by simp

section \<open>Order\<close>

instantiation signed_element :: linorder
begin

definition less_eq_signed_element :: "signed_element \<Rightarrow> signed_element \<Rightarrow> bool" where
  "less_eq_signed_element a b \<longleftrightarrow> se_cmp a b \<noteq> Greater"

definition less_signed_element :: "signed_element \<Rightarrow> signed_element \<Rightarrow> bool" where
  "less_signed_element a b \<longleftrightarrow> se_cmp a b = Less"

instance
proof
  fix x y z :: signed_element
  show "x < y \<longleftrightarrow> x \<le> y \<and> \<not> y \<le> x"
    by (auto simp: less_eq_signed_element_def less_signed_element_def se_cmp_def cmp_e_def split: bool.splits if_splits)
  show "x \<le> x"
    by (auto simp: less_eq_signed_element_def se_cmp_def cmp_e_def split: bool.splits)
  show "x \<le> y \<Longrightarrow> y \<le> z \<Longrightarrow> x \<le> z"
    by (auto simp: less_eq_signed_element_def se_cmp_def cmp_e_def split: bool.splits if_splits)
  show "x \<le> y \<Longrightarrow> y \<le> x \<Longrightarrow> x = y"
    by (cases x; cases y)
      (auto simp: less_eq_signed_element_def se_cmp_def cmp_e_def split: bool.splits if_splits)
  show "x \<le> y \<or> y \<le> x"
    by (auto simp: less_eq_signed_element_def se_cmp_def cmp_e_def split: bool.splits if_splits)
qed

end

lemma cmp_e_uint: "cmp_e a b = cmp_e (uint a) (uint (b :: 'a::len word))"
  by (simp add: cmp_e_def word_less_def word_uint_eq_iff)

lemma cmp_e_neg: "cmp_e (- a) (- b :: int) = cmp_e b a"
  by (simp add: cmp_e_def)

text \<open>
  \<^verbatim>\<open>Ord\<close> for signed elements agrees with equality (\<^verbatim>\<open>cmp\<close> is \<^verbatim>\<open>Equal\<close> exactly for
  equal values, also for the denormal negative zero) and, on normal forms, is the order
  of the integers denoted.
\<close>

theorem signed_order:
  assumes "se_wf a" "se_wf b"
  shows "se_partial_cmp a b = Some (cmp_e (se_int a) (se_int b)) \<and>
    (se_cmp x y = Equal \<longleftrightarrow> x = y) \<and> se_cmp y x = reverse_ord (se_cmp x y)"
proof -
  have "se_cmp a b = cmp_e (se_int a) (se_int b)"
    using assms uint_pos [of "se_value a"] uint_pos [of "se_value b"]
      uint_ge_0 [of "se_value a"] uint_ge_0 [of "se_value b"]
    by (auto simp: se_cmp_def se_int_def cmp_e_uint [of "se_value a" "se_value b"] cmp_e_uint [of "se_value b" "se_value a"]
        cmp_e_neg se_wf_def word_uint_eq_iff split: bool.splits)
      (auto simp: cmp_e_def)
  moreover have "se_cmp x y = Equal \<longleftrightarrow> x = y"
    by (cases x; cases y) (auto simp: se_cmp_def cmp_e_def split: bool.splits if_splits)
  moreover have "se_cmp y x = reverse_ord (se_cmp x y)"
    by (auto simp: se_cmp_def cmp_e_def split: bool.splits)
  ultimately show ?thesis by (simp add: se_partial_cmp_def)
qed

theorem signed_order_witness:
  "se_wf (se_new 5 True) \<and> se_wf (se_new 3 True) \<and>
   se_partial_cmp (se_new 5 True) (se_new 3 True) = Some (cmp_e (se_int (se_new 5 True)) (se_int (se_new 3 True)))"
  using signed_order [of "se_new 5 True" "se_new 3 True"] by simp

section \<open>Conversions from and comparisons with 64-bit integers\<close>

lemma uint_I64_MAX: "uint I64_MAX = 2 ^ 63 - 1"
  by (simp add: I64_MAX_def)

lemma se_from_i64_int: "se_int (se_from_i64 v) = sint v \<and> se_wf (se_from_i64 v)"
  by (auto simp: se_from_i64_def se_simps uint_unsigned_abs)

lemma se_eq_i64_iff:
  assumes "se_wf s"
  shows "se_eq_i64 s v \<longleftrightarrow> se_int s = sint v"
proof -
  have "se_value s = element_new u \<longleftrightarrow> uint (se_value s) = uint u" for u
    by (simp add: word_uint_eq_iff uint_element_new)
  then have "se_eq_i64 s v \<longleftrightarrow>
      (if sint v < 0 then se_negative s \<and> uint (se_value s) = - sint v
       else \<not> se_negative s \<and> uint (se_value s) = sint v)"
    by (simp add: se_eq_i64_def uint_unsigned_abs u64_nonneg)
  also have "\<dots> \<longleftrightarrow> se_int s = sint v"
    using se_negative_iff [OF assms] by (cases "sint v < 0") (auto simp: se_int_def)
  finally show ?thesis .
qed

lemma ucast_u64_small: "uint (e :: element) < 2 ^ 64 \<Longrightarrow> uint (ucast e :: u64) = uint e"
  by (simp add: unsigned_ucast_eq take_bit_int_eq_self)

lemma element_new_less_iff: "element_new v < e \<longleftrightarrow> uint v < uint e"
  by (simp add: word_less_def uint_element_new)

lemma se_to_i64_some:
  assumes "\<bar>se_int s\<bar> \<le> 2 ^ 63 - 1"
  shows "\<exists>v. se_to_i64 s = Returns (Some v) \<and> sint v = se_int s"
proof -
  have le: "uint (se_value s) \<le> 2 ^ 63 - 1"
    using assms by (auto simp: se_int_def split: if_splits)
  let ?u = "ucast (se_value s) :: u64"
  have u: "uint ?u = uint (se_value s)" using le by (intro ucast_u64_small) simp
  have n: "\<not> element_new I64_MAX < se_value s" "\<not> I64_MAX < ?u"
    using le u by (simp_all add: uint_I64_MAX word_less_def uint_element_new)
  have su: "sint ?u = uint (se_value s)" using u64_small [of ?u] u le by simp
  have "sint (- ?u) = - sint ?u"
  proof -
    have "signed_take_bit 63 (- uint (se_value s)) = - uint (se_value s)"
      by (rule signed_take_bit_int_eq_self) (use le uint_ge_0 [of "se_value s"] in linarith)+
    then show ?thesis using su by (simp add: sint_word_ariths)
  qed
  then show ?thesis using n su by (simp add: se_to_i64_def Let_def se_int_def)
qed

lemma se_to_i64_none:
  assumes "2 ^ 63 - 1 < \<bar>se_int s\<bar>"
  shows "se_to_i64 s = Returns None"
proof -
  have "2 ^ 63 - 1 < uint (se_value s)"
    using assms by (auto simp: se_int_def split: if_splits)
  then show ?thesis by (simp add: se_to_i64_def element_new_less_iff uint_I64_MAX)
qed

text \<open>
  64-bit signed integers embed exactly and equality with one is equality of the
  integers; \<^verbatim>\<open>to_i64\<close> never panics and returns the integer exactly when its magnitude is
  at most \<^verbatim>\<open>i64::MAX\<close>. The bound is symmetric: \<^verbatim>\<open>i64::MIN\<close> converts to a signed element
  but \<^verbatim>\<open>to_i64\<close> and \<^verbatim>\<open>fits_in_i64\<close> deny that it fits.
\<close>

theorem signed_i64_conversions:
  assumes "se_wf s"
  shows "se_wf (se_from_i64 v) \<and> se_int (se_from_i64 v) = sint v \<and>
    (se_eq_i64 s v \<longleftrightarrow> se_int s = sint v) \<and>
    (case se_to_i64 s of
       Panics \<Rightarrow> False
     | Returns (Some w) \<Rightarrow> sint w = se_int s \<and> \<bar>se_int s\<bar> \<le> 2 ^ 63 - 1
     | Returns None \<Rightarrow> 2 ^ 63 - 1 < \<bar>se_int s\<bar>) \<and>
    se_fits_in_i64 (se_from_i64 (push_bit 63 1)) = Returns False"
proof -
  have "(case se_to_i64 s of
       Panics \<Rightarrow> False
     | Returns (Some w) \<Rightarrow> sint w = se_int s \<and> \<bar>se_int s\<bar> \<le> 2 ^ 63 - 1
     | Returns None \<Rightarrow> 2 ^ 63 - 1 < \<bar>se_int s\<bar>)"
  proof (cases "\<bar>se_int s\<bar> \<le> 2 ^ 63 - 1")
    case True
    then show ?thesis using se_to_i64_some [OF True] by auto
  next
    case False
    then show ?thesis using se_to_i64_none [of s] by simp
  qed
  moreover have "se_fits_in_i64 (se_from_i64 (push_bit 63 1)) = Returns False"
  proof -
    have "sint (push_bit 63 1 :: i64) = - (2 ^ 63)" by (simp add: push_bit_eq_mult)
    then have "se_int (se_from_i64 (push_bit 63 1)) = - (2 ^ 63)" using se_from_i64_int by simp
    then show ?thesis using se_to_i64_none [of "se_from_i64 (push_bit 63 1)"] by (simp add: se_fits_in_i64_def)
  qed
  ultimately show ?thesis using assms se_from_i64_int se_eq_i64_iff by blast
qed

theorem signed_i64_conversions_witness:
  "se_wf (se_new 7 True) \<and> (se_eq_i64 (se_new 7 True) (- 7) \<longleftrightarrow> se_int (se_new 7 True) = sint (- 7 :: i64))"
  using signed_i64_conversions [of "se_new 7 True" "- 7"] by simp

lemma cmp_i64_nonneg:
  assumes "se_wf s" "\<not> sint v < 0"
  shows "se_partial_cmp_i64 s v = Some (cmp_e (se_int s) (sint v))"
proof (cases "se_negative s")
  case True
  then have "se_int s < sint v" using assms by (simp add: se_negative_iff)
  then show ?thesis using True assms(2) by (simp add: se_partial_cmp_i64_def cmp_e_def)
next
  case False
  have "uint (from_uint v) = sint v"
    using u64_nonneg [OF assms(2)] uint_element_new [of v] by (simp add: from_uint_def element_new_def)
  then show ?thesis
    using False assms(2) by (simp add: se_partial_cmp_i64_def cmp_e_uint [of "se_value s"] se_int_def)
qed

lemma cmp_i64_neg:
  assumes "se_wf s" "sint v < 0" "uint (se_value s) < 2 ^ 64"
  shows "se_partial_cmp_i64 s v = Some (cmp_e (se_int s) (sint v))"
proof (cases "se_negative s")
  case True
  have "cmp_e (ucast (se_value s) :: u64) (unsigned_abs v) = cmp_e (uint (se_value s)) (- sint v)"
    using assms by (simp add: cmp_e_uint [of "ucast (se_value s) :: u64"] ucast_u64_small uint_unsigned_abs)
  then show ?thesis
    using True assms(2) by (auto simp: se_partial_cmp_i64_def se_int_def cmp_e_def)
next
  case False
  then have "sint v < se_int s"
    using assms(2) uint_ge_0 [of "se_value s"] by (simp only: se_int_def if_False)
  then show ?thesis using False assms(2) by (simp add: se_partial_cmp_i64_def cmp_e_def)
qed

text \<open>
  comparison with a 64-bit integer is comparison of the integers as long as the
  magnitude is below \<^term>\<open>2 ^ 64\<close>; beyond, the magnitude is truncated: the negative number
  with magnitude \<^term>\<open>2 ^ 64 + 1\<close> compares greater than -2.
\<close>

theorem signed_compare_i64:
  assumes "se_wf s"
  shows "(uint (se_value s) < 2 ^ 64 \<longrightarrow> se_partial_cmp_i64 s v = Some (cmp_e (se_int s) (sint v))) \<and>
    (0 \<le> sint v \<longrightarrow> se_partial_cmp_i64 s v = Some (cmp_e (se_int s) (sint v))) \<and>
    se_partial_cmp_i64 (se_new (2 ^ 64 + 1) True) (- 2) = Some Greater \<and>
    se_int (se_new (2 ^ 64 + 1) True) < sint (- 2 :: i64)"
proof -
  have "se_partial_cmp_i64 (se_new (2 ^ 64 + 1) True) (- 2) = Some Greater"
    by (simp add: se_partial_cmp_i64_def se_new_def is_zero_def ZERO_def cmp_e_def unsigned_abs_def
        word_less_def unsigned_ucast_eq take_bit_eq_mod)
  moreover have "se_int (se_new (2 ^ 64 + 1) True) < sint (- 2 :: i64)"
    by (simp add: se_simps)
  ultimately show ?thesis
    using cmp_i64_nonneg [OF assms, of v] cmp_i64_neg [OF assms, of v] not_less by blast
qed

theorem signed_compare_i64_witness:
  "se_wf (se_new 7 True) \<and> uint (se_value (se_new 7 True)) < 2 ^ 64 \<and>
   se_partial_cmp_i64 (se_new 7 True) (- 2) = Some (cmp_e (se_int (se_new 7 True)) (sint (- 2 :: i64)))"
proof -
  have "uint (se_value (se_new 7 True)) < 2 ^ 64" by (simp add: se_new_def is_zero_def ZERO_def)
  then show ?thesis using signed_compare_i64 [of "se_new 7 True" "- 2"] se_new_wf by blast
qed

end
