(* ===== verification/Circuits.thy ===== *)
theory Circuits
  imports Agg
begin

text \<open>
  \<^verbatim>\<open>pkg/barretenberg\<close>: how each transaction becomes the input map of its Noir circuit,
  how the backend's bytes are cut into public inputs and proof, and how proofs are handed
  to the verifier.  Executing a compiled circuit, the \<^verbatim>\<open>bb\<close> program and the circuits' keys
  are parameters; \<^term>\<open>None\<close> and \<^term>\<open>Panics\<close> are panics.
\<close>

section \<open>Input values (noirc-abi)\<close>

datatype 'f noir_value =
    Field 'f
  | Text string
  | Items "'f noir_value list"
  | Struct "string \<Rightarrow> 'f noir_value option"

type_synonym 'f input_map = "string \<rightharpoonup> 'f noir_value"

text \<open>
  \<^verbatim>\<open>Base::from(u64)\<close> and \<^verbatim>\<open>Base::default()\<close> belong to the field, which is a parameter.
\<close>

record 'f circuit_ops = "'f crypto" +
  fe_of_u64 :: "u64 \<Rightarrow> 'f"
  fe_default :: 'f

datatype circuit =
    UtxoCircuit | AggUtxoCircuit | AggAggCircuit | PointsCircuit | SignatureCircuit | MigrateCircuit
  | HyliUtxoCircuit | HyliSmtInclCircuit

text \<open>
  \<^term>\<open>bb_prove\<close> is \<^verbatim>\<open>prove::<DefaultBackend>\<close> with the circuit's program and key: it solves the
  witness and returns the public inputs followed by the proof.  \<^term>\<open>bb_verify\<close> is the
  \<^verbatim>\<open>bb verify\<close> command with a public-inputs file and a proof file.
\<close>

record ('f, 'e) backend =
  bb_prove :: "circuit \<Rightarrow> 'f input_map \<Rightarrow> bool \<Rightarrow> bool \<Rightarrow> 'e + byte list"
  bb_verify :: "circuit \<Rightarrow> byte list \<Rightarrow> byte list \<Rightarrow> bool \<Rightarrow> 'e + unit"
  vk_fields :: "circuit \<Rightarrow> 'f list"

definition vk_hash :: "('f, 'z) crypto_scheme \<Rightarrow> ('f, 'e) backend \<Rightarrow> circuit \<Rightarrow> 'f" where
  "vk_hash C B c = poseidon C (vk_fields B c)"

section \<open>Notes (circuits/note.rs)\<close>

record 'f b_note =
  bn_kind :: 'f
  bn_value :: 'f
  bn_address :: 'f
  bn_psi :: 'f

definition b_note_from :: "('f, 'z) crypto_scheme \<Rightarrow> zk_note \<Rightarrow> 'f b_note" where
  "b_note_from C n = \<lparr> bn_kind = to_base C (note_contract n), bn_value = to_base C (note_value n),
     bn_address = to_base C (note_address n), bn_psi = to_base C (note_psi n) \<rparr>"

definition b_note_value :: "'f b_note \<Rightarrow> 'f noir_value" where
  "b_note_value n = Struct [''kind'' \<mapsto> Field (bn_kind n), ''value'' \<mapsto> Field (bn_value n),
     ''address'' \<mapsto> Field (bn_address n), ''psi'' \<mapsto> Field (bn_psi n)]"

record 'f b_input_note =
  bi_note :: "'f b_note"
  bi_secret_key :: 'f

definition b_input_note_from :: "('f, 'z) crypto_scheme \<Rightarrow> input_note \<Rightarrow> 'f b_input_note" where
  "b_input_note_from C n = \<lparr> bi_note = b_note_from C (in_note n), bi_secret_key = to_base C (in_secret_key n) \<rparr>"

definition b_input_note_value :: "'f b_input_note \<Rightarrow> 'f noir_value" where
  "b_input_note_value n = Struct [''note'' \<mapsto> b_note_value (bi_note n), ''secret_key'' \<mapsto> Field (bi_secret_key n)]"

text \<open>\<^verbatim>\<open>From<&Note> for InputValue\<close> (note.rs of zk-primitives).\<close>

section \<open>Cutting the backend's bytes\<close>

definition split_proof :: "nat \<Rightarrow> byte list \<Rightarrow> (element list \<times> byte list) panics" where
  "split_proof n proof_bytes =
     (if length proof_bytes < n * 32 then Panics
      else case bytes_to_elements (take (n * 32) proof_bytes) of
        None \<Rightarrow> Panics
      | Some pis \<Rightarrow> Returns (pis, drop (n * 32) proof_bytes))"

section \<open>Verification (backend/bb_cli.rs, verify.rs)\<close>

datatype 'e verify_error = ProofTooShort | ProofNotFields | VerifierSays 'e

text \<open>
  The command-line backend: whatever the circuit, the first \<^verbatim>\<open>UTXO_PUBLIC_INPUTS_COUNT\<close>
  words are written to the public-inputs file.
\<close>

definition cli_verify :: "('f, 'e) backend \<Rightarrow> circuit \<Rightarrow> byte list \<Rightarrow> bool \<Rightarrow> 'e verify_error + unit" where
  "cli_verify B c proof oracle_hash_keccak =
     (let public_inputs_len = UTXO_PUBLIC_INPUTS_COUNT * 32 in
      if length proof < public_inputs_len then Inl ProofTooShort
      else
        (let public_inputs_bytes = take public_inputs_len proof;
             proof_bytes = drop public_inputs_len proof
         in if length proof_bytes mod 32 \<noteq> 0 then Inl ProofNotFields
            else mapErr VerifierSays (bb_verify B c public_inputs_bytes proof_bytes oracle_hash_keccak)))"

section \<open>UTXO transactions (circuits/utxo.rs)\<close>

record 'f utxo_input =
  ui_input_notes :: "'f b_input_note list"
  ui_output_notes :: "'f b_note list"
  ui_pmessage4 :: 'f
  ui_commitments :: "'f list"
  ui_messages :: "'f list"

definition utxo_input_from :: "bool \<Rightarrow> ('f, 'z) crypto_scheme \<Rightarrow> utxo \<Rightarrow> 'f utxo_input option" where
  "utxo_input_from chk C u =
     map_option (\<lambda>ms. \<lparr>
         ui_input_notes = map (b_input_note_from C) (u_input_notes u),
         ui_output_notes = map (b_note_from C) (u_output_notes u),
         ui_pmessage4 = to_base C (ms ! 4),
         ui_commitments = [to_base C (note_commitment C (in_note (u_input_notes u ! 0))),
                           to_base C (note_commitment C (in_note (u_input_notes u ! 1))),
                           to_base C (note_commitment C (u_output_notes u ! 0)),
                           to_base C (note_commitment C (u_output_notes u ! 1))],
         ui_messages = map (to_base C) ms \<rparr>)
       (messages chk C u)"

definition utxo_input_map :: "'f utxo_input \<Rightarrow> 'f input_map" where
  "utxo_input_map i =
     [''input_notes'' \<mapsto> Items (map b_input_note_value (ui_input_notes i)),
      ''output_notes'' \<mapsto> Items (map b_note_value (ui_output_notes i)),
      ''pmessage4'' \<mapsto> Field (ui_pmessage4 i),
      ''commitments'' \<mapsto> Items (map Field (ui_commitments i)),
      ''messages'' \<mapsto> Items (map Field (ui_messages i))]"

definition utxo_prove ::
  "bool \<Rightarrow> ('f, 'z) crypto_scheme \<Rightarrow> ('f, 'e) backend \<Rightarrow> utxo \<Rightarrow> ('e + utxo_proof) panics" where
  "utxo_prove chk C B u =
     (case utxo_input_from chk C u of
        None \<Rightarrow> Panics
      | Some inputs \<Rightarrow>
     case bb_prove B UtxoCircuit (utxo_input_map inputs) True False of
        Inl e \<Rightarrow> Returns (Inl e)
      | Inr proof_bytes \<Rightarrow>
     ifReturns (split_proof UTXO_PUBLIC_INPUTS_COUNT proof_bytes) (\<lambda>(pis, raw_proof).
       if length raw_proof \<noteq> UTXO_PROOF_SIZE * 32 then Panics
       else Returns (Inr \<lparr> up_proof = raw_proof, up_public_inputs =
         \<lparr> pi_input_commitments = [pis ! 0, pis ! 1], pi_output_commitments = [pis ! 2, pis ! 3],
           pi_messages = [pis ! 4, pis ! 5, pis ! 6, pis ! 7, pis ! 8] \<rparr> \<rparr>)))"

definition utxo_verify :: "('f, 'e) backend \<Rightarrow> utxo_proof \<Rightarrow> 'e verify_error + unit" where
  "utxo_verify B p = cli_verify B UtxoCircuit (utxo_proof_to_bytes p) False"

section \<open>Aggregation of UTXO proofs (circuits/agg_utxo.rs)\<close>

definition AGG_UTXO_PUBLIC_INPUTS_COUNT :: nat where
  "AGG_UTXO_PUBLIC_INPUTS_COUNT = 18"

record 'f agg_utxo_proof_input =
  ai_proof :: "'f list"
  ai_input_merkle_paths :: "'f list list"
  ai_output_merkle_paths :: "'f list list"
  ai_input_commitments :: "'f list"
  ai_output_commitments :: "'f list"
  ai_utxo_kind :: 'f

text \<open>\<^verbatim>\<open>paths[i][j] = sibling\<close> into an array of 160: a longer path panics.\<close>

definition convert_merkle_path :: "('f, 'z) circuit_ops_scheme \<Rightarrow> merkle_path \<Rightarrow> 'f list option" where
  "convert_merkle_path C p =
     (if 160 < length (mp_siblings p) then None
      else Some (copy_into 0 (map (to_base C) (mp_siblings p)) (replicate 160 (fe_default C))))"

text \<open>\<^verbatim>\<open>try_into::<[Base; n]>().unwrap()\<close>\<close>

definition array_of :: "nat \<Rightarrow> 'a list \<Rightarrow> 'a list option" where
  "array_of n xs = (if length xs = n then Some xs else None)"

definition agg_utxo_proof_input_from ::
  "('f, 'z) circuit_ops_scheme \<Rightarrow> utxo_proof_bundle \<Rightarrow> 'f agg_utxo_proof_input option" where
  "agg_utxo_proof_input_from C b =
     Option.bind (utxo_proof_to_fields (up_proof (b_utxo_proof b))) (\<lambda>fields.
     Option.bind (array_of 508 (map (to_base C) fields)) (\<lambda>proof.
     Option.bind (those (map (convert_merkle_path C) (b_input_merkle_paths b))) (\<lambda>ins.
     Option.bind (those (map (convert_merkle_path C) (b_output_merkle_paths b))) (\<lambda>outs.
     let p = up_public_inputs (b_utxo_proof b) in
     Some \<lparr> ai_proof = proof, ai_input_merkle_paths = ins, ai_output_merkle_paths = outs,
       ai_input_commitments = map (to_base C) (pi_input_commitments p),
       ai_output_commitments = map (to_base C) (pi_output_commitments p),
       ai_utxo_kind = to_base C (utxo_kind_to_element (pi_kind p)) \<rparr>))))"

definition agg_utxo_proof_input_value :: "'f agg_utxo_proof_input \<Rightarrow> 'f noir_value" where
  "agg_utxo_proof_input_value i = Struct
     [''proof'' \<mapsto> Items (map Field (ai_proof i)),
      ''input_merkle_paths'' \<mapsto> Items (map (\<lambda>mp. Items (map Field mp)) (ai_input_merkle_paths i)),
      ''output_merkle_paths'' \<mapsto> Items (map (\<lambda>mp. Items (map Field mp)) (ai_output_merkle_paths i)),
      ''input_commitments'' \<mapsto> Items (map Field (ai_input_commitments i)),
      ''output_commitments'' \<mapsto> Items (map Field (ai_output_commitments i)),
      ''utxo_kind'' \<mapsto> Field (ai_utxo_kind i)]"

record 'f agg_utxo_input =
  aui_proofs :: "'f agg_utxo_proof_input list"
  aui_messages :: "'f list"
  aui_old_root :: 'f
  aui_new_root :: 'f
  aui_commit_hash :: 'f

definition agg_utxo_input_from :: "('f, 'z) circuit_ops_scheme \<Rightarrow> agg_utxo \<Rightarrow> 'f agg_utxo_input option" where
  "agg_utxo_input_from C a =
     Option.bind (those (map (agg_utxo_proof_input_from C) (au_proofs a))) (\<lambda>proofs.
     Option.bind (agg_utxo_messages a) (\<lambda>ms.
     Some \<lparr> aui_proofs = proofs, aui_messages = map (to_base C) ms, aui_old_root = to_base C (au_old_root a),
       aui_new_root = to_base C (au_new_root a), aui_commit_hash = to_base C (agg_utxo_commit_hash C a) \<rparr>))"

definition agg_utxo_input_map ::
  "('f, 'z) circuit_ops_scheme \<Rightarrow> ('f, 'e) backend \<Rightarrow> 'f agg_utxo_input \<Rightarrow> 'f input_map" where
  "agg_utxo_input_map C B i =
     [''verification_key'' \<mapsto> Items (map Field (vk_fields B UtxoCircuit)),
      ''verification_key_hash'' \<mapsto> Field (vk_hash C B UtxoCircuit),
      ''proofs'' \<mapsto> Items (map agg_utxo_proof_input_value (aui_proofs i)),
      ''messages'' \<mapsto> Items (map Field (aui_messages i)),
      ''old_root'' \<mapsto> Field (aui_old_root i),
      ''new_root'' \<mapsto> Field (aui_new_root i),
      ''commit_hash'' \<mapsto> Field (aui_commit_hash i)]"

definition agg_utxo_prove ::
  "('f, 'z) circuit_ops_scheme \<Rightarrow> ('f, 'e) backend \<Rightarrow> agg_utxo \<Rightarrow> ('e + agg_utxo_proof) panics" where
  "agg_utxo_prove C B a =
     (case agg_utxo_input_from C a of
        None \<Rightarrow> Panics
      | Some inputs \<Rightarrow>
     case bb_prove B AggUtxoCircuit (agg_utxo_input_map C B inputs) True False of
        Inl e \<Rightarrow> Returns (Inl e)
      | Inr proof_bytes \<Rightarrow>
     ifReturns (split_proof AGG_UTXO_PUBLIC_INPUTS_COUNT proof_bytes) (\<lambda>(pis, raw_proof).
       if length pis \<noteq> AGG_UTXO_PUBLIC_INPUTS_COUNT \<or> length raw_proof \<noteq> 508 * 32 then Panics
       else Returns (Inr \<lparr> aup_proof = raw_proof, aup_public_inputs =
         \<lparr> ap_messages = map ((!) pis) [0, 1, 2, 3, 4, 5, 6, 7, 8, 9, 10, 11, 12, 13, 14],
           ap_old_root = pis ! 15, ap_new_root = pis ! 16, ap_commit_hash = pis ! 17 \<rparr> \<rparr>)))"

definition agg_utxo_verify :: "('f, 'e) backend \<Rightarrow> agg_utxo_proof \<Rightarrow> 'e verify_error + unit" where
  "agg_utxo_verify B p = cli_verify B AggUtxoCircuit (agg_utxo_proof_to_bytes p) False"

section \<open>Aggregation of aggregations (circuits/agg_agg.rs)\<close>

definition AGG_AGG_PUBLIC_INPUTS_COUNT :: nat where
  "AGG_AGG_PUBLIC_INPUTS_COUNT = 1 + 1 + 1 + 30"

record 'f utxo_agg_proof =
  ua_proof :: "'f list"
  ua_old_root :: 'f
  ua_new_root :: 'f
  ua_commit_hash :: 'f

definition utxo_agg_proof_from :: "('f, 'z) crypto_scheme \<Rightarrow> agg_utxo_proof \<Rightarrow> 'f utxo_agg_proof option" where
  "utxo_agg_proof_from C p =
     Option.bind (bytes_to_elements (aup_proof p)) (\<lambda>fields.
     Option.bind (array_of 508 (map (to_base C) fields)) (\<lambda>proof.
     Some \<lparr> ua_proof = proof, ua_old_root = to_base C (ap_old_root (aup_public_inputs p)),
       ua_new_root = to_base C (ap_new_root (aup_public_inputs p)),
       ua_commit_hash = to_base C (ap_commit_hash (aup_public_inputs p)) \<rparr>))"

definition utxo_agg_proof_value :: "'f utxo_agg_proof \<Rightarrow> 'f noir_value" where
  "utxo_agg_proof_value p = Struct
     [''proof'' \<mapsto> Items (map Field (ua_proof p)), ''old_root'' \<mapsto> Field (ua_old_root p),
      ''new_root'' \<mapsto> Field (ua_new_root p), ''commit_hash'' \<mapsto> Field (ua_commit_hash p)]"

definition extract_messages :: "('f, 'z) crypto_scheme \<Rightarrow> agg_utxo_proof list \<Rightarrow> 'f list option" where
  "extract_messages C ps =
     array_of (2 * 15) (concat (map (\<lambda>p. map (to_base C) (ap_messages (aup_public_inputs p))) ps))"

record 'f agg_agg_input =
  agi_proofs :: "'f utxo_agg_proof list"
  agi_messages :: "'f list"
  agi_old_root :: 'f
  agi_new_root :: 'f
  agi_commit_hash :: 'f

definition agg_agg_input_from :: "('f, 'z) crypto_scheme \<Rightarrow> agg_agg \<Rightarrow> 'f agg_agg_input option" where
  "agg_agg_input_from C a =
     Option.bind (utxo_agg_proof_from C (aa_proofs a ! 0)) (\<lambda>p0.
     Option.bind (utxo_agg_proof_from C (aa_proofs a ! 1)) (\<lambda>p1.
     Option.bind (extract_messages C (aa_proofs a)) (\<lambda>ms.
     Some \<lparr> agi_proofs = [p0, p1], agi_messages = ms, agi_old_root = to_base C (agg_agg_old_root a),
       agi_new_root = to_base C (agg_agg_new_root a), agi_commit_hash = to_base C (agg_agg_commit_hash C a) \<rparr>)))"

definition agg_agg_input_map :: "('f, 'z) crypto_scheme \<Rightarrow> ('f, 'e) backend \<Rightarrow> 'f agg_agg_input \<Rightarrow> 'f input_map" where
  "agg_agg_input_map C B i =
     [''verification_key'' \<mapsto> Items (map Field (vk_fields B AggUtxoCircuit)),
      ''verification_key_hash'' \<mapsto> Field (vk_hash C B AggUtxoCircuit),
      ''utxo_agg_proofs'' \<mapsto> Items (map utxo_agg_proof_value (agi_proofs i)),
      ''messages'' \<mapsto> Items (map Field (agi_messages i)),
      ''old_root'' \<mapsto> Field (agi_old_root i),
      ''new_root'' \<mapsto> Field (agi_new_root i),
      ''commit_hash'' \<mapsto> Field (agi_commit_hash i)]"

definition agg_agg_prove ::
  "('f, 'z) crypto_scheme \<Rightarrow> ('f, 'e) backend \<Rightarrow> agg_agg \<Rightarrow> ('e + agg_agg_proof) panics" where
  "agg_agg_prove C B a =
     (case agg_agg_input_from C a of
        None \<Rightarrow> Panics
      | Some inputs \<Rightarrow>
     case bb_prove B AggAggCircuit (agg_agg_input_map C B inputs) False True of
        Inl e \<Rightarrow> Returns (Inl e)
      | Inr proof_bytes \<Rightarrow>
     ifReturns (split_proof AGG_AGG_PUBLIC_INPUTS_COUNT proof_bytes) (\<lambda>(pis, raw_proof).
       if length pis \<noteq> AGG_AGG_PUBLIC_INPUTS_COUNT \<or> length raw_proof \<noteq> 508 * 32 then Panics
       else Returns (Inr \<lparr> aaf_proof = raw_proof, aaf_public_inputs =
         \<lparr> aap_old_root = pis ! 0, aap_new_root = pis ! 1, aap_commit_hash = pis ! 2,
           aap_messages = take (6 * 5) (drop 3 pis) \<rparr>, aaf_kzg = [] \<rparr>)))"

definition agg_agg_verify :: "('f, 'e) backend \<Rightarrow> agg_agg_proof \<Rightarrow> 'e verify_error + unit" where
  "agg_agg_verify B p = cli_verify B AggAggCircuit (agg_agg_proof_to_bytes p) True"

section \<open>Points (circuits/points.rs)\<close>

definition POINTS_PUBLIC_INPUTS_COUNT :: nat where
  "POINTS_PUBLIC_INPUTS_COUNT = 13"

datatype 'e proof_error = ProofNotWords | BackendError 'e

record points_proof =
  pop_proof :: "byte list"
  pop_public_inputs :: points_public_input

definition points_proof_to_bytes :: "points_proof \<Rightarrow> byte list" where
  "points_proof_to_bytes p = points_pi_to_bytes (pop_public_inputs p) @ pop_proof p"

record 'f points_input =
  pin_secret_keys :: "'f list"
  pin_notes :: "'f b_note list"
  pin_timestamp :: 'f
  pin_address :: 'f
  pin_value :: 'f
  pin_hash :: 'f
  pin_commitments :: "'f list"

definition points_input_from :: "bool \<Rightarrow> ('f, 'z) crypto_scheme \<Rightarrow> points \<Rightarrow> 'f points_input option" where
  "points_input_from chk C p =
     map_option (\<lambda>v. \<lparr> pin_secret_keys = map (to_base C) (pt_secret_keys p),
         pin_notes = map (b_note_from C) (pt_notes p), pin_timestamp = to_base C (pt_timestamp p),
         pin_address = to_base C (pt_address p), pin_value = to_base C v,
         pin_hash = to_base C (points_hash C p),
         pin_commitments = map (\<lambda>n. to_base C (note_commitment C n)) (pt_notes p) \<rparr>)
       (points_value chk p)"

definition points_input_map :: "'f points_input \<Rightarrow> 'f input_map" where
  "points_input_map i =
     [''notes'' \<mapsto> Items (map b_note_value (pin_notes i)),
      ''secret_keys'' \<mapsto> Items (map Field (pin_secret_keys i)),
      ''address'' \<mapsto> Field (pin_address i), ''timestamp'' \<mapsto> Field (pin_timestamp i),
      ''value'' \<mapsto> Field (pin_value i), ''hash'' \<mapsto> Field (pin_hash i),
      ''commitments'' \<mapsto> Items (map Field (pin_commitments i))]"

definition points_prove ::
  "bool \<Rightarrow> ('f, 'z) crypto_scheme \<Rightarrow> ('f, 'e) backend \<Rightarrow> points \<Rightarrow> ('e proof_error + points_proof) panics" where
  "points_prove chk C B p =
     (case points_input_from chk C p of
        None \<Rightarrow> Panics
      | Some inputs \<Rightarrow>
     case bb_prove B PointsCircuit (points_input_map inputs) False False of
        Inl e \<Rightarrow> Returns (Inl (BackendError e))
      | Inr proof_bytes \<Rightarrow>
     ifReturns (split_proof POINTS_PUBLIC_INPUTS_COUNT proof_bytes) (\<lambda>(pis, raw_proof).
       if length raw_proof mod 32 \<noteq> 0 then Returns (Inl ProofNotWords)
       else (case array_of 10 (drop 3 pis) of
           None \<Rightarrow> Panics
         | Some commitments \<Rightarrow> Returns (Inr \<lparr> pop_proof = raw_proof, pop_public_inputs =
             \<lparr> ppi_value = pis ! 1, ppi_timestamp = pis ! 0, ppi_hash = pis ! 2,
               ppi_commitments = commitments \<rparr> \<rparr>))))"

definition points_verify :: "('f, 'e) backend \<Rightarrow> points_proof \<Rightarrow> 'e verify_error + unit" where
  "points_verify B p = cli_verify B PointsCircuit (points_proof_to_bytes p) False"

section \<open>Signatures (circuits/signature.rs)\<close>

definition SIGNATURE_PUBLIC_INPUTS_COUNT :: nat where
  "SIGNATURE_PUBLIC_INPUTS_COUNT = 2"

record signature =
  sg_secret_key :: element
  sg_message :: element

record signature_proof =
  sgp_proof :: "byte list"
  sgp_address :: element
  sgp_message :: element

definition signature_proof_to_bytes :: "signature_proof \<Rightarrow> byte list" where
  "signature_proof_to_bytes p = signature_pi_to_bytes (sgp_address p) (sgp_message p) @ sgp_proof p"

record 'f signature_input =
  sgi_secret_key :: 'f
  sgi_message :: 'f
  sgi_message_hash :: 'f
  sgi_address :: 'f

definition signature_input_from :: "('f, 'z) crypto_scheme \<Rightarrow> signature \<Rightarrow> 'f signature_input" where
  "signature_input_from C s =
     \<lparr> sgi_secret_key = to_base C (sg_secret_key s), sgi_message = to_base C (sg_message s),
       sgi_message_hash = to_base C (signature_message_hash C (sg_secret_key s) (sg_message s)),
       sgi_address = to_base C (get_address_for_private_key C (sg_secret_key s)) \<rparr>"

definition signature_input_map :: "'f signature_input \<Rightarrow> 'f input_map" where
  "signature_input_map i =
     [''owner_pk'' \<mapsto> Field (sgi_secret_key i), ''message_hash'' \<mapsto> Field (sgi_message_hash i),
      ''address'' \<mapsto> Field (sgi_address i), ''message'' \<mapsto> Field (sgi_message i)]"

definition signature_prove ::
  "('f, 'z) crypto_scheme \<Rightarrow> ('f, 'e) backend \<Rightarrow> signature \<Rightarrow> ('e proof_error + signature_proof) panics" where
  "signature_prove C B s =
     (case bb_prove B SignatureCircuit (signature_input_map (signature_input_from C s)) False False of
        Inl e \<Rightarrow> Returns (Inl (BackendError e))
      | Inr proof_bytes \<Rightarrow>
     ifReturns (split_proof SIGNATURE_PUBLIC_INPUTS_COUNT proof_bytes) (\<lambda>(pis, raw_proof).
       if length raw_proof mod 32 \<noteq> 0 then Returns (Inl ProofNotWords)
       else Returns (Inr \<lparr> sgp_proof = raw_proof, sgp_address = pis ! 0, sgp_message = pis ! 1 \<rparr>)))"

definition signature_verify :: "('f, 'e) backend \<Rightarrow> signature_proof \<Rightarrow> 'e verify_error + unit" where
  "signature_verify B p = cli_verify B SignatureCircuit (signature_proof_to_bytes p) False"

section \<open>Address migration (circuits/migrate.rs)\<close>

record migrate =
  mg_owner_pk :: element
  mg_old_address :: element
  mg_new_address :: element

record migrate_proof =
  mgp_proof :: "byte list"
  mgp_old_address :: element
  mgp_new_address :: element

definition migrate_proof_to_bytes :: "migrate_proof \<Rightarrow> byte list" where
  "migrate_proof_to_bytes p = migrate_pi_to_bytes (mgp_old_address p) (mgp_new_address p) @ mgp_proof p"

record 'f migrate_input =
  mgi_owner_pk :: 'f
  mgi_old_address :: 'f
  mgi_new_address :: 'f

definition migrate_input_from :: "('f, 'z) crypto_scheme \<Rightarrow> migrate \<Rightarrow> 'f migrate_input" where
  "migrate_input_from C m =
     \<lparr> mgi_owner_pk = to_base C (mg_owner_pk m), mgi_old_address = to_base C (mg_old_address m),
       mgi_new_address = to_base C (mg_new_address m) \<rparr>"

definition migrate_input_map :: "'f migrate_input \<Rightarrow> 'f input_map" where
  "migrate_input_map i =
     [''owner_pk'' \<mapsto> Field (mgi_owner_pk i), ''old_address'' \<mapsto> Field (mgi_old_address i),
      ''new_address'' \<mapsto> Field (mgi_new_address i)]"

definition migrate_prove ::
  "('f, 'z) crypto_scheme \<Rightarrow> ('f, 'e) backend \<Rightarrow> migrate \<Rightarrow> ('e + migrate_proof) panics" where
  "migrate_prove C B m =
     (case bb_prove B MigrateCircuit (migrate_input_map (migrate_input_from C m)) False False of
        Inl e \<Rightarrow> Returns (Inl e)
      | Inr proof_bytes \<Rightarrow>
     ifReturns (split_proof 2 proof_bytes) (\<lambda>(pis, raw_proof).
       Returns (Inr \<lparr> mgp_proof = raw_proof, mgp_old_address = pis ! 0, mgp_new_address = pis ! 1 \<rparr>)))"

definition migrate_verify :: "('f, 'e) backend \<Rightarrow> migrate_proof \<Rightarrow> 'e verify_error + unit" where
  "migrate_verify B p = cli_verify B MigrateCircuit (migrate_proof_to_bytes p) False"

section \<open>Cutting and joining\<close>

lemma split_proof_cases:
  "split_proof n bytes = (if length bytes < n * 32 then Panics
     else Returns (map from_be_bytes (chunks_exact 32 (take (n * 32) bytes)), drop (n * 32) bytes))"
  by (simp add: split_proof_def bytes_to_elements_def min_absorb2)

lemma split_proof_Returns:
  assumes "split_proof n bytes = Returns (pis, raw)"
  shows "length pis = n" "concat (map to_be_bytes pis) @ raw = bytes"
proof -
  let ?t = "take (n * 32) bytes"
  have l: "n * 32 \<le> length bytes" and pis: "pis = map from_be_bytes (chunks_exact 32 ?t)"
    and raw: "raw = drop (n * 32) bytes"
    using assms by (auto simp: split_proof_cases split: if_splits)
  have "map (\<lambda>x. to_be_bytes (from_be_bytes x)) (chunks_exact 32 ?t) = chunks_exact 32 ?t"
    by (rule map_idI) (auto simp: element_be.enc_dec dest: chunks_exact_lengths)
  then have "concat (map to_be_bytes pis) = ?t"
    using l concat_chunks_exact [of 32 ?t] by (simp add: pis comp_def)
  then show "concat (map to_be_bytes pis) @ raw = bytes" using raw by simp
  show "length pis = n" using l by (simp add: pis length_chunks_exact)
qed

lemma list_nth_9: "length xs = 9 \<Longrightarrow> [xs ! 0, xs ! 1, xs ! 2, xs ! 3, xs ! 4, xs ! 5, xs ! 6, xs ! 7, xs ! 8] = xs"
  by (auto simp: eval_nat_numeral length_Suc_conv)

lemma list_nth_3: "length xs = n + 3 \<Longrightarrow> xs ! 0 # xs ! 1 # xs ! 2 # drop 3 xs = xs"
  by (auto simp: eval_nat_numeral length_Suc_conv)

lemma list_nth_18:
  "length xs = 18 \<Longrightarrow> map ((!) xs) [0, 1, 2, 3, 4, 5, 6, 7, 8, 9, 10, 11, 12, 13, 14] @ [xs ! 15, xs ! 16, xs ! 17] = xs"
  by (auto simp: eval_nat_numeral length_Suc_conv)

lemma list_nth_2: "length xs = 2 \<Longrightarrow> [xs ! 0, xs ! 1] = xs"
  by (auto simp: list_2)

lemma ifReturns_Returns: "ifReturns r f = Returns y \<longleftrightarrow> (\<exists>x. r = Returns x \<and> f x = Returns y)"
  by (cases r) simp_all

lemma map_list_nth_2: "length xs = 2 \<Longrightarrow> f (xs ! 0) @ f (xs ! 1) = concat (map f xs)"
  by (auto simp: list_2)

lemma utxo_pis_bytes:
  assumes "length pis = 9"
  shows "pi_to_bytes \<lparr> pi_input_commitments = [pis ! 0, pis ! 1], pi_output_commitments = [pis ! 2, pis ! 3],
      pi_messages = [pis ! 4, pis ! 5, pis ! 6, pis ! 7, pis ! 8] \<rparr> = concat (map to_be_bytes pis)"
  by (subst (10) list_nth_9 [OF assms, symmetric]) (simp add: pi_to_bytes_def del: List.nth.simps)

lemma utxo_prove_bytes:
  assumes "utxo_prove chk C B u = Returns (Inr up)"
  shows "\<exists>i. utxo_input_from chk C u = Some i \<and> bb_prove B UtxoCircuit (utxo_input_map i) True False = Inr (utxo_proof_to_bytes up)"
proof -
  obtain i bytes pis raw where i: "utxo_input_from chk C u = Some i"
    and b: "bb_prove B UtxoCircuit (utxo_input_map i) True False = Inr bytes"
    and s: "split_proof UTXO_PUBLIC_INPUTS_COUNT bytes = Returns (pis, raw)"
    and up: "up = \<lparr> up_proof = raw, up_public_inputs =
         \<lparr> pi_input_commitments = [pis ! 0, pis ! 1], pi_output_commitments = [pis ! 2, pis ! 3],
           pi_messages = [pis ! 4, pis ! 5, pis ! 6, pis ! 7, pis ! 8] \<rparr> \<rparr>"
    using assms by (auto simp: utxo_prove_def ifReturns_Returns split: option.splits sum.splits if_splits)
  have "length pis = 9" "concat (map to_be_bytes pis) @ raw = bytes"
    using split_proof_Returns [OF s] by (simp_all add: UTXO_PUBLIC_INPUTS_COUNT_def)
  then show ?thesis using i b unfolding up utxo_proof_to_bytes_def utxo_proof.select_convs by (auto simp only: utxo_pis_bytes)
qed

lemma agg_utxo_prove_bytes:
  assumes "agg_utxo_prove C B a = Returns (Inr p)"
  shows "\<exists>i. agg_utxo_input_from C a = Some i \<and> bb_prove B AggUtxoCircuit (agg_utxo_input_map C B i) True False = Inr (agg_utxo_proof_to_bytes p)"
proof -
  obtain i bytes pis raw where i: "agg_utxo_input_from C a = Some i"
    and b: "bb_prove B AggUtxoCircuit (agg_utxo_input_map C B i) True False = Inr bytes"
    and s: "split_proof AGG_UTXO_PUBLIC_INPUTS_COUNT bytes = Returns (pis, raw)"
    and p: "p = \<lparr> aup_proof = raw, aup_public_inputs =
         \<lparr> ap_messages = map ((!) pis) [0, 1, 2, 3, 4, 5, 6, 7, 8, 9, 10, 11, 12, 13, 14],
           ap_old_root = pis ! 15, ap_new_root = pis ! 16, ap_commit_hash = pis ! 17 \<rparr> \<rparr>"
    using assms by (auto simp: agg_utxo_prove_def ifReturns_Returns split: option.splits sum.splits if_splits)
  have l: "length pis = 18" "concat (map to_be_bytes pis) @ raw = bytes"
    using split_proof_Returns [OF s] by (simp_all add: AGG_UTXO_PUBLIC_INPUTS_COUNT_def)
  have "agg_pi_to_bytes (aup_public_inputs p) =
      concat (map to_be_bytes (map ((!) pis) [0, 1, 2, 3, 4, 5, 6, 7, 8, 9, 10, 11, 12, 13, 14] @ [pis ! 15, pis ! 16, pis ! 17]))"
    unfolding p by (subst pi_bytes_concat(1)) simp_all
  then show ?thesis using i b l unfolding list_nth_18 [OF l(1)] by (simp add: p agg_utxo_proof_to_bytes_def)
qed

lemma agg_agg_prove_bytes:
  assumes "agg_agg_prove C B a = Returns (Inr p)"
  shows "\<exists>i. agg_agg_input_from C a = Some i \<and> bb_prove B AggAggCircuit (agg_agg_input_map C B i) False True = Inr (agg_agg_proof_to_bytes p)"
proof -
  obtain i bytes pis raw where i: "agg_agg_input_from C a = Some i"
    and b: "bb_prove B AggAggCircuit (agg_agg_input_map C B i) False True = Inr bytes"
    and s: "split_proof AGG_AGG_PUBLIC_INPUTS_COUNT bytes = Returns (pis, raw)"
    and p: "p = \<lparr> aaf_proof = raw, aaf_public_inputs =
         \<lparr> aap_old_root = pis ! 0, aap_new_root = pis ! 1, aap_commit_hash = pis ! 2,
           aap_messages = take (6 * 5) (drop 3 pis) \<rparr>, aaf_kzg = [] \<rparr>"
    using assms by (auto simp: agg_agg_prove_def ifReturns_Returns split: option.splits sum.splits if_splits)
  have l: "length pis = 30 + 3" "concat (map to_be_bytes pis) @ raw = bytes"
    using split_proof_Returns [OF s] by (simp_all add: AGG_AGG_PUBLIC_INPUTS_COUNT_def)
  have "take (6 * 5) (drop 3 pis) = drop 3 pis" using l(1) by simp
  then have "agg_agg_pi_to_bytes (aaf_public_inputs p) = concat (map to_be_bytes (pis ! 0 # pis ! 1 # pis ! 2 # drop 3 pis))"
    unfolding p by (simp only: pi_bytes_concat(2) agg_agg_proof.select_convs agg_agg_public_input.select_convs)
  then show ?thesis using i b l unfolding list_nth_3 [OF l(1)] by (simp add: p agg_agg_proof_to_bytes_def)
qed

lemma points_prove_bytes:
  assumes "points_prove chk C B p = Returns (Inr q)"
  shows "\<exists>i. points_input_from chk C p = Some i \<and> bb_prove B PointsCircuit (points_input_map i) False False = Inr (points_proof_to_bytes q)"
proof -
  obtain i bytes pis raw where i: "points_input_from chk C p = Some i"
    and b: "bb_prove B PointsCircuit (points_input_map i) False False = Inr bytes"
    and s: "split_proof POINTS_PUBLIC_INPUTS_COUNT bytes = Returns (pis, raw)"
    and q: "q = \<lparr> pop_proof = raw, pop_public_inputs =
             \<lparr> ppi_value = pis ! 1, ppi_timestamp = pis ! 0, ppi_hash = pis ! 2, ppi_commitments = drop 3 pis \<rparr> \<rparr>"
    using assms by (auto simp: points_prove_def array_of_def ifReturns_Returns split: option.splits sum.splits if_splits)
  have l: "length pis = 10 + 3" "concat (map to_be_bytes pis) @ raw = bytes"
    using split_proof_Returns [OF s] by (simp_all add: POINTS_PUBLIC_INPUTS_COUNT_def)
  have "points_pi_to_bytes (pop_public_inputs q) = concat (map to_be_bytes (pis ! 0 # pis ! 1 # pis ! 2 # drop 3 pis))"
    unfolding q by (simp only: pi_bytes_concat(3) points_proof.select_convs points_public_input.select_convs)
  then show ?thesis using i b l unfolding list_nth_3 [OF l(1)] by (simp add: q points_proof_to_bytes_def)
qed

lemma signature_prove_bytes:
  assumes "signature_prove C B s = Returns (Inr p)"
  shows "bb_prove B SignatureCircuit (signature_input_map (signature_input_from C s)) False False = Inr (signature_proof_to_bytes p)"
proof -
  obtain bytes pis raw where b: "bb_prove B SignatureCircuit (signature_input_map (signature_input_from C s)) False False = Inr bytes"
    and s: "split_proof SIGNATURE_PUBLIC_INPUTS_COUNT bytes = Returns (pis, raw)"
    and p: "p = \<lparr> sgp_proof = raw, sgp_address = pis ! 0, sgp_message = pis ! 1 \<rparr>"
    using assms by (auto simp: signature_prove_def ifReturns_Returns split: sum.splits if_splits)
  have "length pis = 2" "concat (map to_be_bytes pis) @ raw = bytes"
    using split_proof_Returns [OF s] by (simp_all add: SIGNATURE_PUBLIC_INPUTS_COUNT_def)
  then show ?thesis using b by (auto simp: p signature_proof_to_bytes_def pi_bytes_concat(5) list_2)
qed

lemma migrate_prove_bytes:
  assumes "migrate_prove C B m = Returns (Inr p)"
  shows "bb_prove B MigrateCircuit (migrate_input_map (migrate_input_from C m)) False False = Inr (migrate_proof_to_bytes p)"
proof -
  obtain bytes pis raw where b: "bb_prove B MigrateCircuit (migrate_input_map (migrate_input_from C m)) False False = Inr bytes"
    and s: "split_proof 2 bytes = Returns (pis, raw)"
    and p: "p = \<lparr> mgp_proof = raw, mgp_old_address = pis ! 0, mgp_new_address = pis ! 1 \<rparr>"
    using assms by (auto simp: migrate_prove_def ifReturns_Returns split: sum.splits if_splits)
  have "length pis = 2" "concat (map to_be_bytes pis) @ raw = bytes"
    using split_proof_Returns [OF s] by simp_all
  then show ?thesis using b by (auto simp: p migrate_proof_to_bytes_def pi_bytes_concat(4) list_2)
qed

text \<open>
  every proof returned by a prover serialises back to the backend's bytes. For each of
  the six circuits whose public inputs are a structure, a proof that is returned has
  exactly the bytes the backend produced: the words of the public inputs end up in the
  fields that the serialisation writes at the same places.
\<close>

theorem proofs_serialise_back:
  "(utxo_prove chk C B u = Returns (Inr up) \<longrightarrow>
      (\<exists>i. utxo_input_from chk C u = Some i \<and> bb_prove B UtxoCircuit (utxo_input_map i) True False = Inr (utxo_proof_to_bytes up))) \<and>
   (agg_utxo_prove D B a = Returns (Inr ap) \<longrightarrow>
      (\<exists>i. agg_utxo_input_from D a = Some i \<and> bb_prove B AggUtxoCircuit (agg_utxo_input_map D B i) True False = Inr (agg_utxo_proof_to_bytes ap))) \<and>
   (agg_agg_prove C B g = Returns (Inr gp) \<longrightarrow>
      (\<exists>i. agg_agg_input_from C g = Some i \<and> bb_prove B AggAggCircuit (agg_agg_input_map C B i) False True = Inr (agg_agg_proof_to_bytes gp))) \<and>
   (points_prove chk C B p = Returns (Inr pp) \<longrightarrow>
      (\<exists>i. points_input_from chk C p = Some i \<and> bb_prove B PointsCircuit (points_input_map i) False False = Inr (points_proof_to_bytes pp))) \<and>
   (signature_prove C B s = Returns (Inr sp) \<longrightarrow>
      bb_prove B SignatureCircuit (signature_input_map (signature_input_from C s)) False False = Inr (signature_proof_to_bytes sp)) \<and>
   (migrate_prove C B m = Returns (Inr mp) \<longrightarrow>
      bb_prove B MigrateCircuit (migrate_input_map (migrate_input_from C m)) False False = Inr (migrate_proof_to_bytes mp))"
  using utxo_prove_bytes agg_utxo_prove_bytes agg_agg_prove_bytes points_prove_bytes signature_prove_bytes migrate_prove_bytes
  by (intro conjI impI) blast+

lemma cli_verify_long:
  assumes "288 \<le> length bytes" "length bytes mod 32 = 0"
  shows "cli_verify B c bytes keccak = mapErr VerifierSays (bb_verify B c (take 288 bytes) (drop 288 bytes) keccak)"
proof -
  have "(length bytes - 288) mod 32 = 0" using assms by (simp add: mod_0_imp_dvd)
  then show ?thesis using assms(1) by (simp add: cli_verify_def UTXO_PUBLIC_INPUTS_COUNT_def)
qed

text \<open>
  the verifier cuts every proof at nine words. For a proof whose words after the public
  inputs are whole, the command-line backend verifies 288 bytes of public inputs and the
  rest as the proof, whichever circuit it is for: these are the proof's own public inputs
  exactly when there are nine of them, and anything shorter than 288 bytes is refused
  before the verifier is asked.
\<close>

theorem cli_verify_cuts_at_nine:
  assumes "length raw mod 32 = 0"
  shows "if 32 * length pis + length raw < 288
    then cli_verify B c (concat (map to_be_bytes pis) @ raw) keccak = Inl ProofTooShort
    else \<exists>pub rest. pub @ rest = concat (map to_be_bytes pis) @ raw \<and> length pub = 288 \<and>
      cli_verify B c (concat (map to_be_bytes pis) @ raw) keccak =
        mapErr VerifierSays (bb_verify B c pub rest keccak) \<and>
      (pub = concat (map to_be_bytes pis) \<longleftrightarrow> length pis = 9)"
proof -
  let ?p = "concat (map to_be_bytes pis)"
  let ?bytes = "?p @ raw"
  have lp: "length ?p = 32 * length pis" by (induction pis) simp_all
  show ?thesis
  proof (cases "length ?bytes < 288")
    case True
    then show ?thesis using lp by (simp add: cli_verify_def UTXO_PUBLIC_INPUTS_COUNT_def)
  next
    case False
    have "length ?bytes mod 32 = 0" using lp assms by simp
    note v = cli_verify_long [OF _ this, of B c keccak]
    have iff: "take 288 ?bytes = ?p \<longleftrightarrow> length pis = 9"
    proof
      assume "take 288 ?bytes = ?p"
      then have "length (take 288 ?bytes) = length ?p" by simp
      then show "length pis = 9" using False lp by simp
    qed (use lp in simp)
    have l: "288 \<le> length ?bytes" "length (take 288 ?bytes) = 288" using False by simp_all
    have "\<exists>pub rest. pub @ rest = ?bytes \<and> length pub = 288 \<and>
        cli_verify B c ?bytes keccak = mapErr VerifierSays (bb_verify B c pub rest keccak) \<and>
        (pub = ?p \<longleftrightarrow> length pis = 9)"
      by (rule exI [of _ "take 288 ?bytes"], rule exI [of _ "drop 288 ?bytes"])
        (intro conjI append_take_drop_id l iff v)
    moreover have "\<not> 32 * length pis + length raw < 288" using False lp by simp
    ultimately show ?thesis by (simp only: if_False)
  qed
qed

lemma utxo_prove_proof_length:
  assumes "utxo_prove chk C B u = Returns (Inr p)"
  shows "length (up_proof p) = UTXO_PROOF_SIZE * 32"
  using assms by (auto simp: utxo_prove_def ifReturns_Returns split: option.splits sum.splits if_splits)

lemma agg_input_needs_508_words:
  assumes "length (up_proof (b_utxo_proof b)) = UTXO_PROOF_SIZE * 32"
  shows "agg_utxo_proof_input_from C b = None"
proof -
  have "length fields = UTXO_PROOF_SIZE" if "utxo_proof_to_fields (up_proof (b_utxo_proof b)) = Some fields" for fields
    using that assms by (auto simp: utxo_proof_to_fields_def bytes_to_elements_def length_chunks_exact split: if_splits)
  then show ?thesis
    by (cases "utxo_proof_to_fields (up_proof (b_utxo_proof b))")
      (auto simp: agg_utxo_proof_input_from_def array_of_def UTXO_PROOF_SIZE_def)
qed

lemma those_None: "None \<in> set xs \<Longrightarrow> those xs = None"
  by (induction xs) (auto split: option.splits)

text \<open>
  aggregating proved transactions panics. The aggregation circuit's input wants 508
  words per UTXO proof, while the prover of UTXO transactions returns, and the padding
  proof has, 456: as soon as one of the proofs to aggregate is of either kind, making the
  aggregation proof panics before the backend is called.
\<close>

theorem agg_of_proved_utxos_panics:
  assumes "b \<in> set (au_proofs a)"
    and "b_utxo_proof b = utxo_proof_default \<or> utxo_prove chk D B' u = Returns (Inr (b_utxo_proof b))"
  shows "agg_utxo_prove C B a = Panics"
proof -
  have "length (up_proof (b_utxo_proof b)) = UTXO_PROOF_SIZE * 32"
    using assms(2) utxo_prove_proof_length
    by (auto simp: utxo_proof_default_def utxo_proof_bytes_default_def)
  then have "None \<in> set (map (agg_utxo_proof_input_from C) (au_proofs a))"
    using agg_input_needs_508_words assms(1) by (metis image_eqI set_map)
  then show ?thesis by (simp add: agg_utxo_prove_def agg_utxo_input_from_def those_None)
qed


definition toy_circuit_ops :: "nat circuit_ops" where
  "toy_circuit_ops = crypto.extend const_crypto \<lparr> fe_of_u64 = unat, fe_default = 0 \<rparr>"

definition toy_backend :: "(nat, unit) backend" where
  "toy_backend = \<lparr> bb_prove = (\<lambda>_ _ _ _. Inr (replicate (32 * 9 + 32 * 456) 1)),
     bb_verify = (\<lambda>_ _ _ _. Inr ()), vk_fields = (\<lambda>_. []) \<rparr>"

theorem proofs_serialise_back_witness:
  "\<exists>p. signature_prove toy_circuit_ops toy_backend \<lparr> sg_secret_key = 1, sg_message = 2 \<rparr> = Returns (Inr p) \<and>
     signature_proof_to_bytes p = replicate (32 * 9 + 32 * 456) 1"
proof -
  let ?s = "\<lparr> sg_secret_key = 1, sg_message = 2 \<rparr>"
  obtain p where p: "signature_prove toy_circuit_ops toy_backend ?s = Returns (Inr p)"
    by (auto simp: signature_prove_def toy_backend_def split_proof_cases SIGNATURE_PUBLIC_INPUTS_COUNT_def)
  have "bb_prove toy_backend SignatureCircuit (signature_input_map (signature_input_from toy_circuit_ops ?s)) False False =
      Inr (signature_proof_to_bytes p)"
    using proofs_serialise_back [of undefined toy_circuit_ops toy_backend undefined undefined toy_circuit_ops
        undefined undefined undefined undefined undefined undefined ?s p undefined undefined] p by blast
  then show ?thesis using p by (auto simp: toy_backend_def)
qed

theorem cli_verify_cuts_at_nine_witness:
  "\<exists>pub rest. pub @ rest = concat (map to_be_bytes [1, 2]) @ replicate 320 0 \<and> length pub = 288 \<and>
     pub \<noteq> concat (map to_be_bytes [1, 2]) \<and>
     cli_verify toy_backend SignatureCircuit (concat (map to_be_bytes [1, 2]) @ replicate 320 0) False =
       mapErr VerifierSays (bb_verify toy_backend SignatureCircuit pub rest False)"
  using cli_verify_cuts_at_nine [of "replicate 320 0" "[1, 2]" toy_backend SignatureCircuit False]
  by (simp only: length_replicate list.size) auto

theorem agg_of_proved_utxos_panics_witness:
  "\<exists>b. utxo_proof_bundle_default = Some b \<and>
     agg_utxo_prove toy_circuit_ops toy_backend \<lparr> au_proofs = [b, b, b], au_old_root = 0, au_new_root = 0 \<rparr> = Panics"
proof -
  obtain b where b: "utxo_proof_bundle_default = Some b" "b_utxo_proof b = utxo_proof_default"
    by (auto simp: utxo_proof_bundle_default_def merkle_path_default_def)
  then show ?thesis
    using agg_of_proved_utxos_panics [of b "\<lparr> au_proofs = [b, b, b], au_old_root = 0, au_new_root = 0 \<rparr>"
        undefined undefined undefined undefined toy_circuit_ops toy_backend] by auto
qed

end
