(* ===== verification/Strings.thy ===== *)
theory Strings
  imports ElementExt
begin

text \<open>
  The standard library's \<^verbatim>\<open>str\<close> methods used by the server: a string is the list of its
  UTF-8 bytes as characters.  Trimming, lines and the ASCII mappings are computed; the
  Unicode tables behind \<^verbatim>\<open>is_alphanumeric\<close> and \<^verbatim>\<open>to_lowercase\<close> are a parameter of which
  only the ASCII part is known.
\<close>

section \<open>White space and trimming\<close>

text \<open>The UTF-8 forms of the characters with the Unicode property White Space.\<close>

definition white_space :: "string list" where
  "white_space = map (map char_of)
     ([[9], [10], [11], [12], [13], [32], [194, 133], [194, 160], [225, 154, 128]] @
      map (\<lambda>b. [226, 128, b]) ([128..<139] @ [168, 169, 175]) @
      [[226, 129, 159], [227, 128, 128 :: nat]])"

fun strip_any :: "string list \<Rightarrow> string \<Rightarrow> string option" where
  "strip_any [] s = None"
| "strip_any (w # ws) s = (case strip_prefix w s of Some r \<Rightarrow> Some r | None \<Rightarrow> strip_any ws s)"

fun trim_start_any :: "string list \<Rightarrow> string \<Rightarrow> string" where
  "trim_start_any ws s =
     (case strip_any ws s of
        None \<Rightarrow> s
      | Some r \<Rightarrow> if length r < length s then trim_start_any ws r else s)"

declare trim_start_any.simps [simp del]

definition str_trim_start :: "string \<Rightarrow> string" where
  "str_trim_start s = trim_start_any white_space s"

definition str_trim_end :: "string \<Rightarrow> string" where
  "str_trim_end s = rev (trim_start_any (map rev white_space) (rev s))"

definition str_trim :: "string \<Rightarrow> string" where
  "str_trim s = str_trim_end (str_trim_start s)"

text \<open>\<^verbatim>\<open>trim_end_matches\<close> and \<^verbatim>\<open>trim_start_matches\<close> of a character.\<close>

definition trim_end_char :: "char \<Rightarrow> string \<Rightarrow> string" where
  "trim_end_char c s = rev (dropWhile (\<lambda>d. d = c) (rev s))"

definition trim_start_char :: "char \<Rightarrow> string \<Rightarrow> string" where
  "trim_start_char c s = dropWhile (\<lambda>d. d = c) s"

text \<open>The first of the \<^verbatim>\<open>lines\<close>, without its line ending.\<close>

definition first_line :: "string \<Rightarrow> string option" where
  "first_line s =
     (if s = [] then None
      else
        (let line = takeWhile (\<lambda>c. c \<noteq> CHR 0x0A) s in
         if length line = length s then Some line
         else if line \<noteq> [] \<and> last line = CHR 0x0D then Some (butlast line)
         else Some line))"

definition starts_with :: "string \<Rightarrow> string \<Rightarrow> bool" where
  "starts_with p s \<longleftrightarrow> strip_prefix p s \<noteq> None"

definition ends_with :: "string \<Rightarrow> string \<Rightarrow> bool" where
  "ends_with p s \<longleftrightarrow> starts_with (rev p) (rev s)"

fun contains_str :: "string \<Rightarrow> string \<Rightarrow> bool" where
  "contains_str p [] = starts_with p []"
| "contains_str p (c # s) = (starts_with p (c # s) \<or> contains_str p s)"

text \<open>\<^verbatim>\<open>strip_prefix(p).unwrap_or(s)\<close>\<close>

definition without_prefix :: "string \<Rightarrow> string \<Rightarrow> string" where
  "without_prefix p s = (case strip_prefix p s of Some r \<Rightarrow> r | None \<Rightarrow> s)"

section \<open>Characters\<close>

definition ascii :: "string \<Rightarrow> bool" where
  "ascii s \<longleftrightarrow> list_all (\<lambda>c. of_char c < (128 :: nat)) s"

definition ascii_lower_char :: "char \<Rightarrow> char" where
  "ascii_lower_char c = (let n = of_char c :: nat in if 65 \<le> n \<and> n \<le> 90 then char_of (n + 32) else c)"

definition to_ascii_lowercase :: "string \<Rightarrow> string" where
  "to_ascii_lowercase s = map ascii_lower_char s"

definition ascii_alphanumeric :: "nat \<Rightarrow> bool" where
  "ascii_alphanumeric n \<longleftrightarrow> (48 \<le> n \<and> n \<le> 57) \<or> (65 \<le> n \<and> n \<le> 90) \<or> (97 \<le> n \<and> n \<le> 122)"

text \<open>The scalar values of a valid UTF-8 text.\<close>

fun utf8_chars :: "nat list \<Rightarrow> nat list" where
  "utf8_chars [] = []"
| "utf8_chars (a # bs) =
     (if a < 128 then a # utf8_chars bs
      else if a < 224 then
        (case bs of b # r \<Rightarrow> ((a mod 32) * 64 + b mod 64) # utf8_chars r | _ \<Rightarrow> [])
      else if a < 240 then
        (case bs of b # c # r \<Rightarrow> ((a mod 16) * 4096 + (b mod 64) * 64 + c mod 64) # utf8_chars r | _ \<Rightarrow> [])
      else
        (case bs of b # c # d # r \<Rightarrow>
           ((a mod 8) * 262144 + (b mod 64) * 4096 + (c mod 64) * 64 + d mod 64) # utf8_chars r | _ \<Rightarrow> []))"

definition str_chars :: "string \<Rightarrow> nat list" where
  "str_chars s = utf8_chars (map of_char s)"

record unicode_tables =
  is_alphanumeric :: "nat \<Rightarrow> bool"
  to_lowercase :: "string \<Rightarrow> string"

definition unicode_laws :: "unicode_tables \<Rightarrow> bool" where
  "unicode_laws U \<longleftrightarrow>
     (\<forall>n<128. is_alphanumeric U n = ascii_alphanumeric n) \<and>
     (\<forall>s. ascii s \<longrightarrow> to_lowercase U s = to_ascii_lowercase s)"

definition ascii_tables :: unicode_tables where
  "ascii_tables = \<lparr> is_alphanumeric = ascii_alphanumeric, to_lowercase = to_ascii_lowercase \<rparr>"

lemma ascii_tables_laws: "unicode_laws ascii_tables"
  by (simp add: unicode_laws_def ascii_tables_def)

section \<open>Lemmas\<close>

lemma str_chars_ascii: "ascii s \<Longrightarrow> str_chars s = map of_char s"
  by (induction s) (simp_all add: ascii_def str_chars_def)

lemma starts_with_iff: "starts_with p s \<longleftrightarrow> (\<exists>r. s = p @ r)"
  by (auto simp: starts_with_def strip_prefix_Some_iff)

lemma ends_with_iff: "ends_with p s \<longleftrightarrow> (\<exists>r. s = r @ p)"
  unfolding ends_with_def starts_with_iff by (metis rev_append rev_rev_ident)

lemma ascii_lower_idem [simp]: "ascii_lower_char (ascii_lower_char c) = ascii_lower_char c"
  by (simp add: ascii_lower_char_def Let_def)

lemma to_ascii_lowercase_idem [simp]: "to_ascii_lowercase (to_ascii_lowercase s) = to_ascii_lowercase s"
  by (simp add: to_ascii_lowercase_def comp_def)

lemma length_to_ascii_lowercase [simp]: "length (to_ascii_lowercase s) = length s"
  by (simp add: to_ascii_lowercase_def)

lemma strip_any_None_iff: "strip_any ws s = None \<longleftrightarrow> (\<forall>w\<in>set ws. \<not> starts_with w s)"
  by (induction ws) (auto simp: starts_with_def split: option.splits)

lemma trim_start_any_clean:
  assumes "\<forall>w\<in>set ws. \<not> starts_with w s"
  shows "trim_start_any ws s = s"
  using assms strip_any_None_iff [of ws s] by (simp add: trim_start_any.simps [of _ s])

text \<open>A text of printable ASCII characters without blanks is not trimmed.\<close>

lemma trim_graphic:
  assumes "list_all (\<lambda>c. 33 \<le> (of_char c :: nat) \<and> of_char c < (128 :: nat)) s"
  shows "str_trim s = s"
proof -
  have ne: "\<not> starts_with w s \<and> \<not> starts_with (rev w) (rev s)" if w: "w \<in> set white_space" for w
  proof -
    have b: "list_all (\<lambda>w. w \<noteq> [] \<and> (of_char (hd w) < (33 :: nat) \<or> (128 :: nat) \<le> of_char (hd w))) white_space"
      by (simp add: white_space_def list.pred_map upt_rec)
    then obtain c r where wc: "w = c # r" "of_char c < (33 :: nat) \<or> (128 :: nat) \<le> of_char c"
      using w by (cases w) (auto simp: list_all_iff)
    then have "c \<notin> set s" using assms by (auto simp: list_all_iff)
    moreover have "c \<in> set s" if "starts_with w s" using that by (auto simp: starts_with_iff wc(1))
    moreover have "c \<in> set (rev s)" if "starts_with (rev w) (rev s)"
      using that unfolding starts_with_iff by (metis UnI1 list.set_intros(1) set_append set_rev wc(1))
    ultimately show ?thesis by auto
  qed
  then show ?thesis
    by (simp add: str_trim_def str_trim_start_def str_trim_end_def trim_start_any_clean)
qed

end
