(* ===== verification/HyliCircuits.thy ===== *)
theory HyliCircuits
  imports Circuits Hex Strings
begin

text \<open>
  \<^verbatim>\<open>pkg/barretenberg/src/circuits/hyli_utxo.rs\<close> and \<^verbatim>\<open>hyli_smt_incl_proof.rs\<close>: the input
  maps of the two circuits whose proofs go to the Hyli node, with the assertions the code
  makes on the way (\<^term>\<open>None\<close> is a panic), proving and verifying.
\<close>

section \<open>Transaction hashes\<close>

definition hex_nibble :: "byte \<Rightarrow> byte option" where
  "hex_nibble v =
     (if 48 \<le> v \<and> v \<le> 57 then Some (v - 48)
      else if 97 \<le> v \<and> v \<le> 102 then Some (v - 97 + 10)
      else if 65 \<le> v \<and> v \<le> 70 then Some (v - 65 + 10)
      else None)"

definition decode_pair :: "byte list \<Rightarrow> nat \<Rightarrow> byte option" where
  "decode_pair bs i =
     Option.bind (hex_nibble (bs ! (i * 2))) (\<lambda>hi.
     Option.bind (hex_nibble (bs ! (i * 2 + 1))) (\<lambda>lo.
     Some (push_bit 4 hi OR lo)))"

definition decode_tx_hash_32 :: "string \<Rightarrow> byte list option" where
  "decode_tx_hash_32 value =
     (let normalized = trim_start_matches ''0x'' (trim_end_char (char_of (0 :: nat)) value) in
      if length normalized \<noteq> 64 then None
      else
        (let bytes_slice = string_bytes normalized
         in those (map (decode_pair bytes_slice) [0..<32])))"

section \<open>The UTXO circuit of the Hyli contract\<close>

definition HYLI_UTXO_PUBLIC_INPUTS_COUNT :: nat where
  "HYLI_UTXO_PUBLIC_INPUTS_COUNT = 713"

definition HYLI_SMT_INCL_PUBLIC_INPUTS_COUNT :: nat where
  "HYLI_SMT_INCL_PUBLIC_INPUTS_COUNT = 705"

definition fe_byte :: "('f, 'z) circuit_ops_scheme \<Rightarrow> byte \<Rightarrow> 'f noir_value" where
  "fe_byte C b = Field (fe_of_u64 C (ucast b))"

definition fe_u32 :: "('f, 'z) circuit_ops_scheme \<Rightarrow> u32 \<Rightarrow> 'f noir_value" where
  "fe_u32 C n = Field (fe_of_u64 C (ucast n))"

definition fe_len :: "('f, 'z) circuit_ops_scheme \<Rightarrow> 'a list \<Rightarrow> 'f noir_value" where
  "fe_len C xs = Field (fe_of_u64 C (of_nat (length xs)))"

definition hyli_blob_value :: "('f, 'z) circuit_ops_scheme \<Rightarrow> hyli_utxo \<Rightarrow> string \<Rightarrow> 'f noir_value" where
  "hyli_blob_value C v contract_name = Struct
     [''index'' \<mapsto> fe_u32 C (hy_blob_index v),
      ''contract_name_len'' \<mapsto> fe_byte C (hy_blob_contract_name_len v),
      ''contract_name'' \<mapsto> Text contract_name,
      ''data_len'' \<mapsto> fe_u32 C (hy_blob_len v),
      ''data'' \<mapsto> Items (map (fe_byte C) (expected_blob C v))]"

definition hyli_output_value ::
  "('f, 'z) circuit_ops_scheme \<Rightarrow> hyli_utxo \<Rightarrow> string \<Rightarrow> 'f noir_value \<Rightarrow> byte list \<Rightarrow> 'f noir_value" where
  "hyli_output_value C v identity blob tx_hash_bytes = Struct
     [''version'' \<mapsto> fe_u32 C (hy_version v),
      ''initial_state_len'' \<mapsto> fe_len C (hy_initial_state v),
      ''initial_state_max'' \<mapsto> fe_len C (hy_initial_state v),
      ''initial_state'' \<mapsto> Items (map (fe_byte C) (hy_initial_state v)),
      ''next_state_len'' \<mapsto> fe_len C (hy_next_state v),
      ''next_state_max'' \<mapsto> fe_len C (hy_next_state v),
      ''next_state'' \<mapsto> Items (map (fe_byte C) (hy_next_state v)),
      ''identity_len'' \<mapsto> fe_byte C (hy_identity_len v),
      ''identity_max'' \<mapsto> Field (fe_of_u64 C 256),
      ''identity'' \<mapsto> Text identity,
      ''index'' \<mapsto> fe_u32 C (hy_index v),
      ''blob_count'' \<mapsto> fe_u32 C (hy_blob_number v),
      ''blob_slots'' \<mapsto> Field (fe_of_u64 C 1),
      ''blob_name_max'' \<mapsto> Field (fe_of_u64 C 256),
      ''blob_data_max'' \<mapsto> Field (fe_of_u64 C (of_nat HYLI_BLOB_LENGTH_BYTES)),
      ''blobs'' \<mapsto> Items [blob],
      ''tx_blob_count'' \<mapsto> fe_u32 C (hy_tx_blob_count v),
      ''tx_hash'' \<mapsto> Items (map (fe_byte C) tx_hash_bytes),
      ''success'' \<mapsto> Field (fe_of_u64 C (of_bool (hy_success v))),
      ''program_outputs_max'' \<mapsto> Field (fe_of_u64 C 5),
      ''program_outputs_len'' \<mapsto> Field (fe_of_u64 C 0),
      ''program_outputs'' \<mapsto> Items (map (fe_byte C) [0, 0, 0, 0, 0])]"

definition build_hyli_input_map ::
  "bool \<Rightarrow> ('f, 'z) circuit_ops_scheme \<Rightarrow> hyli_utxo \<Rightarrow> 'f input_map option" where
  "build_hyli_input_map chk C v =
     Option.bind (decode_tx_hash_32 (hy_tx_hash v)) (\<lambda>tx_hash_bytes.
     if unat (hy_blob_capacity v) \<noteq> HYLI_BLOB_LENGTH_BYTES then None
     else if unat (hy_blob_len v) \<noteq> HYLI_BLOB_LENGTH_BYTES then None
     else if hy_blob v \<noteq> expected_blob C v then None
     else
     Option.bind (padded_blob_contract_name v) (\<lambda>contract_name.
     Option.bind (padded_identity v) (\<lambda>identity.
     Option.bind (array_of 2 (map (b_input_note_from C) (u_input_notes (hy_utxo v)))) (\<lambda>input_notes.
     Option.bind (array_of 2 (map (b_note_from C) (u_output_notes (hy_utxo v)))) (\<lambda>output_notes.
     Option.bind (messages chk C (hy_utxo v)) (\<lambda>ms.
     Some
       [''hyli_output'' \<mapsto> hyli_output_value C v identity (hyli_blob_value C v contract_name) tx_hash_bytes,
        ''input_notes'' \<mapsto> Items (map b_input_note_value input_notes),
        ''output_notes'' \<mapsto> Items (map b_note_value output_notes),
        ''pmessage4'' \<mapsto> Field (to_base C (ms ! 4)),
        ''commitments'' \<mapsto> Items (map (\<lambda>c. Field (to_base C c)) (hyli_commitments C v)),
        ''messages'' \<mapsto> Items (map (\<lambda>m. Field (to_base C m)) ms)]))))))"

record hyli_utxo_proof =
  hup_proof :: "byte list"
  hup_public_inputs :: "element list"

definition hyli_utxo_proof_to_bytes :: "hyli_utxo_proof \<Rightarrow> byte list" where
  "hyli_utxo_proof_to_bytes p = proof_with_inputs_to_bytes (hup_public_inputs p) (hup_proof p)"

definition hyli_utxo_prove ::
  "bool \<Rightarrow> ('f, 'z) circuit_ops_scheme \<Rightarrow> ('f, 'e) backend \<Rightarrow> hyli_utxo \<Rightarrow> ('e + hyli_utxo_proof) panics" where
  "hyli_utxo_prove chk C B v =
     (case build_hyli_input_map chk C v of
        None \<Rightarrow> Panics
      | Some inputs \<Rightarrow>
     case bb_prove B HyliUtxoCircuit inputs False False of
        Inl e \<Rightarrow> Returns (Inl e)
      | Inr proof_bytes \<Rightarrow>
     ifReturns (split_proof HYLI_UTXO_PUBLIC_INPUTS_COUNT proof_bytes) (\<lambda>(pis, raw_proof).
       Returns (Inr \<lparr> hup_proof = raw_proof, hup_public_inputs = pis \<rparr>)))"

definition verify_with_bb :: "('f, 'e) backend \<Rightarrow> byte list \<Rightarrow> 'e verify_error + unit" where
  "verify_with_bb B proof_with_inputs =
     (let public_inputs_len = HYLI_UTXO_PUBLIC_INPUTS_COUNT * 32 in
      if length proof_with_inputs < public_inputs_len then Inl ProofTooShort
      else
        (let public_inputs_bytes = take public_inputs_len proof_with_inputs;
             proof_bytes = drop public_inputs_len proof_with_inputs
         in if length proof_bytes mod 32 \<noteq> 0 then Inl ProofNotFields
            else mapErr VerifierSays (bb_verify B HyliUtxoCircuit public_inputs_bytes proof_bytes False)))"

definition hyli_utxo_verify :: "('f, 'e) backend \<Rightarrow> hyli_utxo_proof \<Rightarrow> 'e verify_error + unit" where
  "hyli_utxo_verify B p = verify_with_bb B (hyli_utxo_proof_to_bytes p)"

section \<open>The inclusion-proof circuit\<close>

record 'f hyli_smt_incl =
  hs_version :: u32
  hs_initial_state :: "byte list"
  hs_next_state :: "byte list"
  hs_identity_len :: byte
  hs_identity :: string
  hs_tx_hash :: string
  hs_index :: u32
  hs_blob_number :: u32
  hs_blob_index :: u32
  hs_blob_contract_name_len :: byte
  hs_blob_contract_name :: string
  hs_blob_capacity :: u32
  hs_blob_len :: u32
  hs_blob :: "byte list"
  hs_tx_blob_count :: u32
  hs_success :: bool
  hs_input_notes :: "input_note list"
  hs_siblings_0 :: "'f list"
  hs_siblings_1 :: "'f list"

definition incl_padded_identity :: "'f hyli_smt_incl \<Rightarrow> string option" where
  "incl_padded_identity h = pad_string (hs_identity h) 256"

definition incl_padded_tx_hash :: "'f hyli_smt_incl \<Rightarrow> string option" where
  "incl_padded_tx_hash h = pad_string (hs_tx_hash h) 64"

definition incl_padded_blob_contract_name :: "'f hyli_smt_incl \<Rightarrow> string option" where
  "incl_padded_blob_contract_name h = pad_string (hs_blob_contract_name h) 256"

text \<open>\<^verbatim>\<open>From<&Note> for InputValue\<close> (note.rs of zk-primitives).\<close>

definition note_input_value :: "('f, 'z) crypto_scheme \<Rightarrow> zk_note \<Rightarrow> 'f noir_value" where
  "note_input_value C n = Struct
     [''address'' \<mapsto> Field (to_base C (note_address n)),
      ''kind'' \<mapsto> Field (to_base C (note_contract n)),
      ''psi'' \<mapsto> Field (to_base C (note_psi n)),
      ''value'' \<mapsto> Field (to_base C (note_value n))]"

definition incl_blob_value :: "('f, 'z) circuit_ops_scheme \<Rightarrow> 'f hyli_smt_incl \<Rightarrow> string \<Rightarrow> 'f noir_value" where
  "incl_blob_value C v contract_name = Struct
     [''index'' \<mapsto> fe_u32 C (hs_blob_index v),
      ''contract_name_len'' \<mapsto> fe_byte C (hs_blob_contract_name_len v),
      ''contract_name'' \<mapsto> Text contract_name,
      ''data_len'' \<mapsto> fe_u32 C (hs_blob_len v),
      ''data'' \<mapsto> Items (map (fe_byte C) (hs_blob v))]"

definition incl_output_value ::
  "('f, 'z) circuit_ops_scheme \<Rightarrow> 'f hyli_smt_incl \<Rightarrow> string \<Rightarrow> 'f noir_value \<Rightarrow> byte list \<Rightarrow> 'f noir_value" where
  "incl_output_value C v identity blob tx_hash_bytes = Struct
     [''version'' \<mapsto> fe_u32 C (hs_version v),
      ''initial_state_len'' \<mapsto> fe_len C (hs_initial_state v),
      ''initial_state_max'' \<mapsto> Field (fe_of_u64 C 4),
      ''initial_state'' \<mapsto> Items (map (fe_byte C) (hs_initial_state v)),
      ''next_state_len'' \<mapsto> fe_len C (hs_next_state v),
      ''next_state_max'' \<mapsto> Field (fe_of_u64 C 4),
      ''next_state'' \<mapsto> Items (map (fe_byte C) (hs_next_state v)),
      ''identity_len'' \<mapsto> fe_byte C (hs_identity_len v),
      ''identity_max'' \<mapsto> Field (fe_of_u64 C 256),
      ''identity'' \<mapsto> Text identity,
      ''index'' \<mapsto> fe_u32 C (hs_index v),
      ''blob_count'' \<mapsto> fe_u32 C (hs_blob_number v),
      ''blob_slots'' \<mapsto> Field (fe_of_u64 C 1),
      ''blob_name_max'' \<mapsto> Field (fe_of_u64 C 256),
      ''blob_data_max'' \<mapsto> Field (fe_of_u64 C (of_nat HYLI_SMT_INCL_BLOB_LENGTH_BYTES)),
      ''blobs'' \<mapsto> Items [blob],
      ''tx_blob_count'' \<mapsto> fe_u32 C (hs_tx_blob_count v),
      ''tx_hash'' \<mapsto> Items (map (fe_byte C) tx_hash_bytes),
      ''success'' \<mapsto> Field (fe_of_u64 C (of_bool (hs_success v))),
      ''program_outputs_max'' \<mapsto> Field (fe_of_u64 C 5),
      ''program_outputs_len'' \<mapsto> Field (fe_of_u64 C 0),
      ''program_outputs'' \<mapsto> Items (map (fe_byte C) [0, 0, 0, 0, 0])]"

definition build_smt_incl_input_map ::
  "('f, 'z) circuit_ops_scheme \<Rightarrow> 'f hyli_smt_incl \<Rightarrow> 'f input_map option" where
  "build_smt_incl_input_map C v =
     Option.bind (decode_tx_hash_32 (hs_tx_hash v)) (\<lambda>tx_hash_bytes.
     if unat (hs_blob_capacity v) \<noteq> HYLI_SMT_INCL_BLOB_LENGTH_BYTES then None
     else if unat (hs_blob_len v) \<noteq> HYLI_SMT_INCL_BLOB_LENGTH_BYTES then None
     else
     Option.bind (incl_padded_blob_contract_name v) (\<lambda>contract_name.
     Option.bind (incl_padded_identity v) (\<lambda>identity.
     Some
       [''hyli_output'' \<mapsto> incl_output_value C v identity (incl_blob_value C v contract_name) tx_hash_bytes,
        ''input_notes'' \<mapsto> Items (map (\<lambda>input_note. Struct
           [''note'' \<mapsto> note_input_value C (in_note input_note),
            ''secret_key'' \<mapsto> Field (to_base C (in_secret_key input_note))]) (hs_input_notes v)),
        ''siblings_0'' \<mapsto> Items (map Field (hs_siblings_0 v)),
        ''siblings_1'' \<mapsto> Items (map Field (hs_siblings_1 v))])))"

record hyli_smt_incl_proof =
  hsp_proof :: "byte list"
  hsp_public_inputs :: "element list"

definition hyli_smt_incl_proof_to_bytes :: "hyli_smt_incl_proof \<Rightarrow> byte list" where
  "hyli_smt_incl_proof_to_bytes p = proof_with_inputs_to_bytes (hsp_public_inputs p) (hsp_proof p)"

definition hyli_smt_incl_prove ::
  "('f, 'z) circuit_ops_scheme \<Rightarrow> ('f, 'e) backend \<Rightarrow> 'f hyli_smt_incl \<Rightarrow> ('e + hyli_smt_incl_proof) panics" where
  "hyli_smt_incl_prove C B v =
     (case build_smt_incl_input_map C v of
        None \<Rightarrow> Panics
      | Some inputs \<Rightarrow>
     case bb_prove B HyliSmtInclCircuit inputs False False of
        Inl e \<Rightarrow> Returns (Inl e)
      | Inr proof_bytes \<Rightarrow>
     ifReturns (split_proof HYLI_SMT_INCL_PUBLIC_INPUTS_COUNT proof_bytes) (\<lambda>(pis, raw_proof).
       Returns (Inr \<lparr> hsp_proof = raw_proof, hsp_public_inputs = pis \<rparr>)))"

definition hyli_smt_incl_verify :: "('f, 'e) backend \<Rightarrow> hyli_smt_incl_proof \<Rightarrow> 'e verify_error + unit" where
  "hyli_smt_incl_verify B p =
     (let proof_with_inputs = hyli_smt_incl_proof_to_bytes p;
          public_inputs_len = HYLI_SMT_INCL_PUBLIC_INPUTS_COUNT * 32
      in if length proof_with_inputs < public_inputs_len then Inl ProofTooShort
         else mapErr VerifierSays (bb_verify B HyliSmtInclCircuit (take public_inputs_len proof_with_inputs)
                (drop public_inputs_len proof_with_inputs) False))"

section \<open>Transaction hashes are hexadecimal\<close>

lemma hex_nibble_value: "hex_nibble (of_nat (of_char c)) = map_option of_nat (hex_value c)"
proof -
  define n where "n = (of_char c :: nat)"
  have n: "n < 256" unfolding n_def by (rule nat_of_char_less_256)
  have le: "of_nat m \<le> (of_nat n :: byte) \<longleftrightarrow> m \<le> n" "(of_nat n :: byte) \<le> of_nat m \<longleftrightarrow> n \<le> m" if "m < 256" for m
    using that n by (simp_all add: word_le_nat_alt unat_of_nat)
  note le = le [of 48, simplified] le [of 57, simplified] le [of 97, simplified] le [of 102, simplified]
    le [of 65, simplified] le [of 70, simplified]
  have d: "of_nat (n - 48) = (of_nat n :: byte) - 48" if "48 \<le> n" using that by (simp add: of_nat_diff)
  have e: "of_nat (n - 87) = (of_nat n :: byte) - 97 + 10" if "97 \<le> n" using that by (simp add: of_nat_diff)
  have f: "of_nat (n - 55) = (of_nat n :: byte) - 65 + 10" if "65 \<le> n" using that by (simp add: of_nat_diff)
  show ?thesis
    unfolding hex_nibble_def hex_value_def n_def [symmetric] Let_def le
    by (simp only: d e f option.map cong: if_cong split: if_splits) simp
qed

lemma nibbles_join:
  assumes "h < 16" "l < 16"
  shows "push_bit 4 (of_nat h) OR of_nat l = (of_nat (16 * h + l) :: byte)"
proof -
  have "(\<forall>h\<in>set [0..<16]. \<forall>l\<in>set [0..<16]. push_bit 4 (of_nat h) OR of_nat l = (of_nat (16 * h + l) :: byte))"
    by code_simp
  then show ?thesis using assms by simp
qed

lemma hex_value_less: "hex_value c = Some h \<Longrightarrow> h < 16"
  by (auto simp: hex_value_def Let_def split: if_splits)

lemma decode_pair_Suc: "decode_pair (a # b # bs) (Suc i) = decode_pair bs i"
  by (simp add: decode_pair_def)

lemma decode_pair_0:
  "decode_pair (string_bytes (c # d # s)) 0 =
     (case (hex_value c, hex_value d) of (Some h, Some l) \<Rightarrow> Some (of_nat (16 * h + l)) | _ \<Rightarrow> None)"
  using nibbles_join hex_value_less
  by (auto simp: decode_pair_def string_bytes_def hex_nibble_value simp del: of_nat_add of_nat_mult split: option.splits)

lemma decode_pairs:
  "length s = 2 * k \<Longrightarrow> those (map (decode_pair (string_bytes s)) [0..<k]) = hex_dec s"
proof (induction k arbitrary: s)
  case (Suc k)
  then obtain c d t where s: "s = c # d # t" "length t = 2 * k" by (auto simp: length_Suc_conv)
  have "map (decode_pair (string_bytes s)) [0..<Suc k] =
      decode_pair (string_bytes s) 0 # map (decode_pair (string_bytes t)) [0..<k]"
    by (simp only: upt_conv_Cons [of 0 "Suc k"] map_Suc_upt [symmetric] list.map map_map zero_less_Suc simp_thms
        comp_def s string_bytes_def decode_pair_Suc)
  then show ?case
    using Suc.IH [OF s(2)] s(1) decode_pair_0 [of c d t] by (auto split: option.splits)
qed simp

text \<open>
  reading a transaction hash is hexadecimal decoding. The hand-written decoder of the
  circuits agrees with the reference decoder on the text left after trailing null
  characters and leading \<^verbatim>\<open>0x\<close> are removed: it returns 32 bytes when that text is 64
  hexadecimal digits and panics otherwise.
\<close>

theorem decode_tx_hash_reference:
  "decode_tx_hash_32 s =
     (let t = trim_start_matches ''0x'' (trim_end_char (char_of (0 :: nat)) s) in
      if length t = 64 then hex_dec t else None)"
  using decode_pairs [of "trim_start_matches ''0x'' (trim_end_char (char_of (0 :: nat)) s)" 32]
  by (simp add: decode_tx_hash_32_def Let_def del: upt_rec_numeral)

lemma trim_lower_hex:
  assumes "list_all lower_hex_char s"
  shows "trim_start_matches ''0x'' (trim_end_char (char_of (0 :: nat)) s) = s"
proof -
  have "\<not> lower_hex_char (char_of (0 :: nat))" by (simp add: lower_hex_char_def)
  then have "dropWhile (\<lambda>d. d = char_of (0 :: nat)) (rev s) = rev s"
    using assms by (cases "rev s") (auto simp: list_all_iff)
  moreover have "strip_prefix ''0x'' s = None"
    using assms by (cases "strip_prefix ''0x'' s") (auto simp: strip_prefix_Some_iff)
  ultimately show ?thesis by (simp add: trim_end_char_def trim_start_matches.simps [of _ s])
qed

lemma decode_tx_hash_encoded: "length h = 32 \<Longrightarrow> decode_tx_hash_32 (hex_enc h) = Some h"
  using hex_laws_concrete trim_lower_hex [of "hex_enc h"]
  by (simp add: decode_tx_hash_reference hex_laws_def)

section \<open>When the input maps exist\<close>

lemma array_of_Some_iff: "array_of n xs = Some ys \<longleftrightarrow> ys = xs \<and> length xs = n"
  by (auto simp: array_of_def)

lemma hyli_input_map_exists_iff:
  assumes "utxo_wf (hy_utxo v)"
  shows "(\<exists>i. build_hyli_input_map chk C v = Some i) \<longleftrightarrow>
    (\<exists>h. decode_tx_hash_32 (hy_tx_hash v) = Some h) \<and> unat (hy_blob_capacity v) = HYLI_BLOB_LENGTH_BYTES \<and>
    unat (hy_blob_len v) = HYLI_BLOB_LENGTH_BYTES \<and> hy_blob v = expected_blob C v \<and>
    length (hy_blob_contract_name v) \<le> 256 \<and> length (hy_identity v) \<le> 256 \<and>
    (\<exists>ms. messages chk C (hy_utxo v) = Some ms)"
  using assms
  by (auto simp: build_hyli_input_map_def bind_eq_Some_conv padded_blob_contract_name_def padded_identity_def
      pad_string_cases array_of_def utxo_wf_def)

text \<open>
  C27: the circuit proves the blob it is given. The input map of a Hyli transaction exists,
  that is none of the prover's assertions fails, exactly when the transaction hash is 32
  bytes of hexadecimal text, both lengths are 128, the names fit, the messages can be
  computed and the blob is the concatenation of the output commitments and nullifiers;
  then the blob's bytes inside the map are the blob of the transaction.
\<close>

theorem hyli_prover_checks_blob:
  assumes "utxo_wf (hy_utxo v)"
  shows "((\<exists>i. build_hyli_input_map chk C v = Some i) \<longleftrightarrow>
      (\<exists>h. decode_tx_hash_32 (hy_tx_hash v) = Some h) \<and> unat (hy_blob_capacity v) = HYLI_BLOB_LENGTH_BYTES \<and>
      unat (hy_blob_len v) = HYLI_BLOB_LENGTH_BYTES \<and> hy_blob v = expected_blob C v \<and>
      length (hy_blob_contract_name v) \<le> 256 \<and> length (hy_identity v) \<le> 256 \<and>
      (\<exists>ms. messages chk C (hy_utxo v) = Some ms)) \<and>
    (\<forall>i. build_hyli_input_map chk C v = Some i \<longrightarrow> (\<exists>out blob name.
       i ''hyli_output'' = Some (Struct out) \<and> out ''blobs'' = Some (Items [Struct blob]) \<and>
       blob ''data'' = Some (Items (map (fe_byte C) (hy_blob v))) \<and>
       blob ''contract_name'' = Some (Text name) \<and> length name = 256 \<and>
       take (length (hy_blob_contract_name v)) name = hy_blob_contract_name v))"
  using hyli_input_map_exists_iff [OF assms, of chk C]
  by (auto simp: build_hyli_input_map_def bind_eq_Some_conv padded_blob_contract_name_def padded_identity_def
      pad_string_cases hyli_output_value_def hyli_blob_value_def split: if_splits)

lemma mint_messages:
  "messages chk C (utxo_new_mint [n, padding_note]) =
     Some [element_new 2, note_contract n, note_value n, mint_hash C (utxo_new_mint [n, padding_note]), ZERO]"
  using unsigned_less [of "note_value n", where 'a = nat]
  by (simp add: messages.simps utxo_new_mint_def output_value_def input_value_def add_e_def sub_e_def
      padding_note_def input_padding_note_def ZERO_def)

definition toy_hyli_job :: hyli_utxo where
  "toy_hyli_job = toy_hyli\<lparr> hy_tx_hash := hex_enc (replicate 32 7), hy_blob := expected_blob toy_circuit_ops toy_hyli \<rparr>"

theorem hyli_prover_checks_blob_witness:
  "utxo_wf (hy_utxo toy_hyli_job) \<and> (\<exists>i. build_hyli_input_map True toy_circuit_ops toy_hyli_job = Some i)"
proof -
  have w: "utxo_wf (hy_utxo toy_hyli_job)" using toy_hyli_wf by (simp add: toy_hyli_job_def)
  have "expected_blob toy_circuit_ops toy_hyli_job = expected_blob toy_circuit_ops toy_hyli"
    by (simp add: toy_hyli_job_def expected_blob_def hyli_commitments_def nullifier_commitments_def)
  moreover have "messages True toy_circuit_ops toy_mint \<noteq> None"
    by (simp add: toy_mint_def mint_messages)
  ultimately show ?thesis
    using hyli_prover_checks_blob [OF w, of True toy_circuit_ops] w decode_tx_hash_encoded [of "replicate 32 7"]
    by (auto simp: toy_hyli_job_def toy_hyli_def HYLI_BLOB_LENGTH_BYTES_def HYLI_BLOB_HASH_COUNT_def
        HYLI_BLOB_HASH_BYTE_LENGTH_def)
qed

end
