(* ===== verification/SmtTree.thy ===== *)
theory SmtTree
  imports Hash
begin

text \<open>
  The sparse Merkle tree of the state contract: \<^verbatim>\<open>contracts/hyli-utxo-state/src/zk/smt.rs\<close>
  and the witness vector of \<^verbatim>\<open>zk/mod.rs\<close>.  The tree itself is the \<^verbatim>\<open>sparse_merkle_tree\<close>
  crate, a parameter: a record of its operations over an abstract tree type \<^typ>\<open>'t\<close> and
  proof type \<^typ>\<open>'p\<close>.  What the code relies on is stated by \<^verbatim>\<open>smt_laws\<close>.
\<close>

type_synonym h256 = "byte list"

definition H256_ZERO :: h256 where "H256_ZERO = replicate 32 0"

section \<open>The hasher (smt.rs)\<close>

record 'f smt_crypto = "'f crypto" +
  fe_of_u128 :: "u128 \<Rightarrow> 'f"
  fe_to_le_bytes :: "'f \<Rightarrow> byte list"
  fe_zero_elem :: 'f

definition hasher_default :: "'f list" where
  "hasher_default = []"

definition hasher_write_byte :: "('f, 'z) smt_crypto_scheme \<Rightarrow> 'f list \<Rightarrow> byte \<Rightarrow> 'f list" where
  "hasher_write_byte C buffer b = buffer @ [fe_of_u128 C (ucast b)]"

text \<open>The loop \<^verbatim>\<open>for i in 0..32 { be[31 - i] = le[i]; }\<close>.\<close>

definition le_to_be_loop :: "byte list \<Rightarrow> byte list" where
  "le_to_be_loop le = foldl (\<lambda>be i. be[31 - i := le ! i]) (replicate 32 0) [0..<32]"

definition hasher_write_h256 :: "('f, 'z) smt_crypto_scheme \<Rightarrow> 'f list \<Rightarrow> h256 \<Rightarrow> 'f list" where
  "hasher_write_h256 C buffer h = buffer @ [fe_from_be_bytes_reduce C (le_to_be_loop h)]"

definition hasher_finish :: "('f, 'z) smt_crypto_scheme \<Rightarrow> 'f list \<Rightarrow> h256" where
  "hasher_finish C buffer = (let result = poseidon C buffer in fe_to_le_bytes C result)"

definition h256_to_field :: "('f, 'z) smt_crypto_scheme \<Rightarrow> h256 \<Rightarrow> 'f" where
  "h256_to_field C h = fe_from_be_bytes_reduce C (le_to_be_loop h)"

definition borshable_hash :: "h256 \<Rightarrow> u64" where
  "borshable_hash h = word_from_le (take 8 h)"

record witness_leaf =
  leaf_key :: h256
  leaf_value :: h256

definition witness_leaf_new :: "h256 \<Rightarrow> h256 \<Rightarrow> witness_leaf" where
  "witness_leaf_new k v = \<lparr> leaf_key = k, leaf_value = v \<rparr>"

section \<open>The tree wrapper (smt.rs)\<close>

text \<open>
  The operations of the crate the code calls. An update returns the tree after the call
  and the error, if any; \<^verbatim>\<open>smt_leaves\<close> is the leaf map in its iteration order;
  \<^verbatim>\<open>proof_root\<close> is \<^verbatim>\<open>MerkleProof::compute_root\<close> with the Poseidon hasher, and
  \<^verbatim>\<open>proof_bit\<close>, \<^verbatim>\<open>proof_path\<close> are the first leaf's bitmap and the hashed path entries.
\<close>

record ('t, 'p) smt_ops =
  smt_empty :: 't
  smt_update :: "'t \<Rightarrow> h256 \<Rightarrow> h256 \<Rightarrow> 't \<times> string option"
  smt_update_many :: "'t \<Rightarrow> (h256 \<times> h256) list \<Rightarrow> 't \<times> string option"
  smt_root :: "'t \<Rightarrow> h256"
  smt_leaves :: "'t \<Rightarrow> (h256 \<times> h256) list"
  smt_proof :: "'t \<Rightarrow> h256 list \<Rightarrow> string + 'p"
  proof_root :: "'p \<Rightarrow> (h256 \<times> h256) list \<Rightarrow> string + h256"
  proof_bit :: "'p \<Rightarrow> byte \<Rightarrow> bool"
  proof_path :: "'p \<Rightarrow> h256 list"

definition tree_zero :: "('t, 'p) smt_ops \<Rightarrow> 't" where
  "tree_zero T = smt_empty T"

definition update_leaf :: "('t, 'p) smt_ops \<Rightarrow> 't \<Rightarrow> h256 \<Rightarrow> h256 \<Rightarrow> 't \<times> (string + h256)" where
  "update_leaf T t k v =
     (case smt_update T t k v of
        (t', Some e) \<Rightarrow> (t', Inl e)
      | (t', None) \<Rightarrow> (t', Inr (smt_root T t')))"

definition update_all_leaves :: "('t, 'p) smt_ops \<Rightarrow> 't \<Rightarrow> witness_leaf list \<Rightarrow> 't \<times> (string + h256)" where
  "update_all_leaves T t leaves =
     (case smt_update_many T t (map (\<lambda>l. (leaf_key l, leaf_value l)) leaves) of
        (t', Some e) \<Rightarrow> (t', Inl e)
      | (t', None) \<Rightarrow> (t', Inr (smt_root T t')))"

definition tree_contains :: "('t, 'p) smt_ops \<Rightarrow> 't \<Rightarrow> h256 \<Rightarrow> bool" where
  "tree_contains T t k \<longleftrightarrow> k \<in> set (map fst (smt_leaves T t))"

definition tree_merkle_proof :: "('t, 'p) smt_ops \<Rightarrow> 't \<Rightarrow> witness_leaf list \<Rightarrow> string + 'p" where
  "tree_merkle_proof T t keys = smt_proof T t (map leaf_key keys)"

text \<open>
  The flat sibling array for the circuit: entry \<^verbatim>\<open>h\<close> is the next path hash where the
  bitmap has bit \<^verbatim>\<open>h\<close> set, and zero elsewhere; indexing past the path panics.
\<close>

fun siblings_loop ::
  "('f, 'z) smt_crypto_scheme \<Rightarrow> (byte \<Rightarrow> bool) \<Rightarrow> h256 list \<Rightarrow> nat list \<Rightarrow> 'f list \<Rightarrow> nat \<Rightarrow> 'f list option" where
  "siblings_loop C bitmap path [] siblings path_idx = Some siblings"
| "siblings_loop C bitmap path (h # hs) siblings path_idx =
     (if bitmap (of_nat h) then
        (if path_idx < length path
         then siblings_loop C bitmap path hs (siblings[h := h256_to_field C (path ! path_idx)]) (path_idx + 1)
         else None)
      else siblings_loop C bitmap path hs siblings path_idx)"

definition build_siblings ::
  "('f, 'z) smt_crypto_scheme \<Rightarrow> ('t, 'p) smt_ops \<Rightarrow> 't \<Rightarrow> h256 \<Rightarrow> 'f list option" where
  "build_siblings C T t commitment =
     (case smt_proof T t [commitment] of
        Inl _ \<Rightarrow> None
      | Inr p \<Rightarrow> siblings_loop C (proof_bit T p) (proof_path T p) [0..<256]
                   (replicate 256 (fe_zero_elem C)) 0)"

section \<open>Serialisation of the tree (smt.rs)\<close>

definition h256_serialize :: "h256 \<Rightarrow> byte list" where
  "h256_serialize h = h"

definition h256_deserialize :: "byte list \<Rightarrow> (h256 \<times> byte list) option" where
  "h256_deserialize r = read_exact 32 r"

definition tree_serialize :: "('t, 'p) smt_ops \<Rightarrow> 't \<Rightarrow> byte list" where
  "tree_serialize T t =
     (let leaves = smt_leaves T t;
          len = (of_nat (length leaves) :: u32)
      in h256_serialize (smt_root T t) @ word_to_le len @
         concat (map (\<lambda>(k, v). h256_serialize k @ h256_serialize v) leaves))"

datatype io_error = UnexpectedEof | RebuildingSmt string | RootMismatch

fun tree_read_leaves ::
  "('t, 'p) smt_ops \<Rightarrow> nat \<Rightarrow> 't \<Rightarrow> byte list \<Rightarrow> io_error + ('t \<times> byte list)" where
  "tree_read_leaves T 0 t r = Inr (t, r)"
| "tree_read_leaves T (Suc n) t r =
     andThen (okOr UnexpectedEof (h256_deserialize r)) (\<lambda>(k, r).
     andThen (okOr UnexpectedEof (h256_deserialize r)) (\<lambda>(v, r).
     case update_leaf T t k v of
       (t', Inl e) \<Rightarrow> Inl (RebuildingSmt e)
     | (t', Inr _) \<Rightarrow> tree_read_leaves T n t' r))"

definition tree_deserialize :: "('t, 'p) smt_ops \<Rightarrow> byte list \<Rightarrow> io_error + ('t \<times> byte list)" where
  "tree_deserialize T r =
     andThen (okOr UnexpectedEof (h256_deserialize r)) (\<lambda>(expected_root, r).
     andThen (okOr UnexpectedEof (read_exact 4 r)) (\<lambda>(len, r).
     andThen (tree_read_leaves T (unat (word_from_le len :: u32)) (tree_zero T) r) (\<lambda>(t, r).
     if smt_root T t \<noteq> expected_root then Inl RootMismatch else Inr (t, r))))"

section \<open>The witness vector (mod.rs)\<close>

datatype 'p witness_proof = SomeProof 'p | CurrentRootHash h256

definition witness_proof_default :: "'p witness_proof" where
  "witness_proof_default = CurrentRootHash H256_ZERO"

record 'p witness_vec =
  wv_values :: "witness_leaf list"
  wv_proof :: "'p witness_proof"

definition wv_default :: "'p witness_vec" where
  "wv_default = \<lparr> wv_values = [], wv_proof = witness_proof_default \<rparr>"

definition wv_with_root :: "h256 \<Rightarrow> 'p witness_vec" where
  "wv_with_root root = \<lparr> wv_values = [], wv_proof = CurrentRootHash root \<rparr>"

definition wv_contains_key :: "'p witness_vec \<Rightarrow> h256 \<Rightarrow> bool" where
  "wv_contains_key w k \<longleftrightarrow> list_ex (\<lambda>c. leaf_key c = k) (wv_values w)"

definition wv_contains :: "'p witness_vec \<Rightarrow> witness_leaf \<Rightarrow> bool" where
  "wv_contains w v = (let key = leaf_key v in list_ex (\<lambda>c. leaf_key c = key) (wv_values w))"

definition wv_insert :: "'p witness_vec \<Rightarrow> witness_leaf \<Rightarrow> 'p witness_vec \<times> bool" where
  "wv_insert w v =
     (case position (\<lambda>c. leaf_key c = leaf_key v) (wv_values w) of
        Some i \<Rightarrow> (w\<lparr> wv_values := (wv_values w)[i := v] \<rparr>, False)
      | None \<Rightarrow> (w\<lparr> wv_values := wv_values w @ [v] \<rparr>, True))"

datatype witness_error = EmptyWithProof | ComputeRootFailed string | NotAllZero

definition wv_compute_root :: "('t, 'p) smt_ops \<Rightarrow> 'p witness_vec \<Rightarrow> witness_error + h256" where
  "wv_compute_root T w =
     (case wv_proof w of
        CurrentRootHash root \<Rightarrow> Inr root
      | SomeProof p \<Rightarrow>
          (let leaves = map (\<lambda>v. (leaf_key v, leaf_value v)) (wv_values w) in
           if leaves = [] then Inl EmptyWithProof
           else mapErr ComputeRootFailed (proof_root T p leaves)))"

definition wv_ensure_all_zero :: "'p witness_vec \<Rightarrow> witness_error + unit" where
  "wv_ensure_all_zero w =
     (if list_ex (\<lambda>v. leaf_value v \<noteq> H256_ZERO) (wv_values w) then Inl NotAllZero else Inr ())"

section \<open>What the code relies on\<close>

text \<open>
  The documented behaviour of the tree: the leaf map has one entry per key and no zero
  values; writing a non-zero value never fails and maps the key to it; equal leaf maps
  have equal 32-byte roots; and a proof for distinct keys computes, for any new values,
  the root of the tree in which those keys have those values (a zero value removes).
\<close>

definition leaf_map :: "('t, 'p) smt_ops \<Rightarrow> 't \<Rightarrow> h256 \<Rightarrow> h256 option" where
  "leaf_map T t = map_of (smt_leaves T t)"

definition write_leaves :: "(h256 \<times> h256) list \<Rightarrow> (h256 \<Rightarrow> h256 option) \<Rightarrow> h256 \<Rightarrow> h256 option" where
  "write_leaves kvs m = foldl (\<lambda>m (k, v). m(k := (if v = H256_ZERO then None else Some v))) m kvs"

definition law_leaves :: "('t, 'p) smt_ops \<Rightarrow> bool" where
  "law_leaves T \<longleftrightarrow> smt_leaves T (smt_empty T) = [] \<and>
     (\<forall>t. distinct (map fst (smt_leaves T t))) \<and>
     (\<forall>t k v. (k, v) \<in> set (smt_leaves T t) \<longrightarrow> v \<noteq> H256_ZERO)"

definition law_update :: "('t, 'p) smt_ops \<Rightarrow> bool" where
  "law_update T \<longleftrightarrow>
     (\<forall>t k v. v \<noteq> H256_ZERO \<longrightarrow>
        (\<exists>t'. smt_update T t k v = (t', None) \<and> leaf_map T t' = (leaf_map T t)(k \<mapsto> v)))"

definition law_root :: "('t, 'p) smt_ops \<Rightarrow> bool" where
  "law_root T \<longleftrightarrow> (\<forall>t. length (smt_root T t) = 32) \<and>
     (\<forall>t u. leaf_map T t = leaf_map T u \<longrightarrow> smt_root T t = smt_root T u)"

definition law_proof :: "('t, 'p) smt_ops \<Rightarrow> bool" where
  "law_proof T \<longleftrightarrow>
     (\<forall>t ks. distinct ks \<longrightarrow> ks \<noteq> [] \<longrightarrow> (\<exists>p. smt_proof T t ks = Inr p \<and>
        (\<forall>vs u. length vs = length ks \<longrightarrow> leaf_map T u = write_leaves (zip ks vs) (leaf_map T t) \<longrightarrow>
           proof_root T p (zip ks vs) = Inr (smt_root T u))))"

definition smt_laws :: "('t, 'p) smt_ops \<Rightarrow> bool" where
  "smt_laws T \<longleftrightarrow> law_leaves T \<and> law_update T \<and> law_root T \<and> law_proof T"

lemma smt_empty_leaves: "smt_laws T \<Longrightarrow> smt_leaves T (smt_empty T) = []"
  by (simp add: smt_laws_def law_leaves_def)

lemma smt_distinct: "smt_laws T \<Longrightarrow> distinct (map fst (smt_leaves T t))"
  by (simp add: smt_laws_def law_leaves_def)

lemma smt_nonzero: "smt_laws T \<Longrightarrow> (k, v) \<in> set (smt_leaves T t) \<Longrightarrow> v \<noteq> H256_ZERO"
  by (auto simp: smt_laws_def law_leaves_def)

lemma smt_root_length: "smt_laws T \<Longrightarrow> length (smt_root T t) = 32"
proof -
  assume "smt_laws T"
  then have "\<forall>t. length (smt_root T t) = 32"
    unfolding smt_laws_def law_root_def by (elim conjE)
  then show ?thesis ..
qed

lemma smt_update_ok:
  "smt_laws T \<Longrightarrow> v \<noteq> H256_ZERO \<Longrightarrow>
   \<exists>t'. smt_update T t k v = (t', None) \<and> leaf_map T t' = (leaf_map T t)(k \<mapsto> v)"
  by (simp add: smt_laws_def law_update_def)

lemma smt_root_cong: "smt_laws T \<Longrightarrow> leaf_map T t = leaf_map T u \<Longrightarrow> smt_root T t = smt_root T u"
proof -
  assume "smt_laws T" and eq: "leaf_map T t = leaf_map T u"
  then have "\<forall>t u. leaf_map T t = leaf_map T u \<longrightarrow> smt_root T t = smt_root T u"
    unfolding smt_laws_def law_root_def by (elim conjE)
  then show ?thesis using eq by (elim allE impE)
qed

lemma smt_proof_ok:
  assumes "smt_laws T" "distinct ks" "ks \<noteq> []"
  obtains p where "smt_proof T t ks = Inr p"
    and "\<And>vs u. length vs = length ks \<Longrightarrow> leaf_map T u = write_leaves (zip ks vs) (leaf_map T t) \<Longrightarrow>
        proof_root T p (zip ks vs) = Inr (smt_root T u)"
proof -
  have "\<forall>t ks. distinct ks \<longrightarrow> ks \<noteq> [] \<longrightarrow> (\<exists>p. smt_proof T t ks = Inr p \<and>
        (\<forall>vs u. length vs = length ks \<longrightarrow> leaf_map T u = write_leaves (zip ks vs) (leaf_map T t) \<longrightarrow>
           proof_root T p (zip ks vs) = Inr (smt_root T u)))"
    using assms(1) unfolding smt_laws_def law_proof_def by (elim conjE)
  from this [rule_format, OF assms(2,3)] show ?thesis using that by blast
qed

lemma update_leaf_ok:
  "smt_laws T \<Longrightarrow> v \<noteq> H256_ZERO \<Longrightarrow>
   \<exists>t'. update_leaf T t k v = (t', Inr (smt_root T t')) \<and> leaf_map T t' = (leaf_map T t)(k \<mapsto> v)"
  using smt_update_ok [of T v t k] by (auto simp: update_leaf_def)

lemma tree_contains_iff: "tree_contains T t k \<longleftrightarrow> k \<in> dom (leaf_map T t)"
  by (simp add: tree_contains_def leaf_map_def dom_map_of_conv_image_fst)

section \<open>A concrete tree for the witnesses\<close>

text \<open>
  Association lists with distinct keys and non-zero values; the root sums the entries, so
  it depends on the leaf map only; a proof is the tree it was made from.
\<close>

typedef toy_tree = "{xs :: (h256 \<times> h256) list. distinct (map fst xs) \<and> (\<forall>(k, v)\<in>set xs. v \<noteq> H256_ZERO)}"
  by (rule exI [of _ "[]"]) simp

definition toy_leaves :: "toy_tree \<Rightarrow> (h256 \<times> h256) list" where
  "toy_leaves t = Rep_toy_tree t"

definition toy_empty :: toy_tree where
  "toy_empty = Abs_toy_tree []"

definition toy_write :: "toy_tree \<Rightarrow> h256 \<Rightarrow> h256 \<Rightarrow> toy_tree" where
  "toy_write t k v = Abs_toy_tree
     ((if v = H256_ZERO then [] else [(k, v)]) @ filter (\<lambda>e. fst e \<noteq> k) (toy_leaves t))"

lemma toy_leaves_distinct: "distinct (map fst (toy_leaves t))" "(k, v) \<in> set (toy_leaves t) \<Longrightarrow> v \<noteq> H256_ZERO"
  using Rep_toy_tree [of t] by (auto simp: toy_leaves_def)

lemma toy_leaves_empty [simp]: "toy_leaves toy_empty = []"
  by (simp add: toy_leaves_def toy_empty_def Abs_toy_tree_inverse)

lemma toy_leaves_write:
  "toy_leaves (toy_write t k v) =
   (if v = H256_ZERO then [] else [(k, v)]) @ filter (\<lambda>e. fst e \<noteq> k) (toy_leaves t)"
  unfolding toy_write_def toy_leaves_def [of "Abs_toy_tree _"]
  using toy_leaves_distinct(1) [of t] toy_leaves_distinct(2)
  by (intro Abs_toy_tree_inverse) (auto simp: distinct_map inj_on_def)

definition toy_root :: "toy_tree \<Rightarrow> h256" where
  "toy_root t = be_bytes 32 (sum_list (map (\<lambda>(k, v). be_val (k @ v)) (toy_leaves t)))"

definition toy_smt :: "(toy_tree, toy_tree) smt_ops" where
  "toy_smt = \<lparr> smt_empty = toy_empty, smt_update = (\<lambda>t k v. (toy_write t k v, None)),
     smt_update_many = (\<lambda>t kvs. (foldl (\<lambda>t (k, v). toy_write t k v) t kvs, None)),
     smt_root = toy_root, smt_leaves = toy_leaves, smt_proof = (\<lambda>t ks. Inr t),
     proof_root = (\<lambda>t kvs. Inr (toy_root (foldl (\<lambda>t (k, v). toy_write t k v) t kvs))),
     proof_bit = (\<lambda>t b. False), proof_path = (\<lambda>t. []) \<rparr>"

lemma toy_leaf_map: "leaf_map toy_smt t = map_of (toy_leaves t)"
  by (simp add: leaf_map_def toy_smt_def)

lemma map_of_filter_key: "map_of (filter (\<lambda>e. fst e \<noteq> k) xs) = (map_of xs)(k := None)"
  by (induction xs) auto

lemma toy_write_map:
  "map_of (toy_leaves (toy_write t k v)) =
   (map_of (toy_leaves t))(k := (if v = H256_ZERO then None else Some v))"
  by (auto simp: toy_leaves_write map_of_filter_key)

lemma toy_writes_map:
  "map_of (toy_leaves (foldl (\<lambda>t (k, v). toy_write t k v) t kvs)) = write_leaves kvs (map_of (toy_leaves t))"
  by (induction kvs arbitrary: t) (auto simp: write_leaves_def toy_write_map)

lemma toy_root_cong: "map_of (toy_leaves t) = map_of (toy_leaves u) \<Longrightarrow> toy_root t = toy_root u"
proof -
  assume eq: "map_of (toy_leaves t) = map_of (toy_leaves u)"
  have "e \<in> set (toy_leaves x) \<longleftrightarrow> map_of (toy_leaves x) (fst e) = Some (snd e)" for x e
    using map_of_eq_Some_iff [OF toy_leaves_distinct(1), of x "fst e" "snd e"] by simp
  then have "set (toy_leaves t) = set (toy_leaves u)" using eq by (simp add: set_eq_iff)
  moreover have "distinct (toy_leaves x)" for x using toy_leaves_distinct(1) [of x] by (simp add: distinct_map)
  ultimately show ?thesis by (simp add: toy_root_def sum_list_distinct_conv_sum_set)
qed

lemma toy_smt_laws: "smt_laws toy_smt"
proof -
  have "law_leaves toy_smt"
    using toy_leaves_distinct by (auto simp: law_leaves_def toy_smt_def)
  moreover have "law_update toy_smt"
    unfolding law_update_def toy_leaf_map by (simp add: toy_smt_def toy_write_map)
  moreover have "law_root toy_smt"
    unfolding law_root_def toy_leaf_map
    by (intro conjI allI impI) (simp add: toy_smt_def toy_root_def, simp add: toy_smt_def, erule toy_root_cong)
  moreover have "law_proof toy_smt"
    unfolding law_proof_def toy_leaf_map
  proof (intro allI impI exI conjI)
    fix t u ks vs
    show "smt_proof toy_smt t ks = Inr t" by (simp add: toy_smt_def)
    assume "map_of (toy_leaves u) = write_leaves (zip ks vs) (map_of (toy_leaves t))"
    then have "toy_root (foldl (\<lambda>t (k, v). toy_write t k v) t (zip ks vs)) = toy_root u"
      by (intro toy_root_cong) (simp only: toy_writes_map)
    then show "proof_root toy_smt t (zip ks vs) = Inr (smt_root toy_smt u)"
      by (simp add: toy_smt_def)
  qed
  ultimately show ?thesis by (simp add: smt_laws_def)
qed

section \<open>Properties\<close>

lemma le_to_be_loop_eq: "length le = 32 \<Longrightarrow> le_to_be_loop le = rev le"
proof -
  assume l: "length le = 32"
  have "n \<le> 32 \<Longrightarrow> foldl (\<lambda>be i. be[31 - i := le ! i]) (replicate 32 0) [0..<n] =
      replicate (32 - n) 0 @ rev (take n le)" for n
  proof (induction n)
    case (Suc n)
    then have "replicate (32 - n) (0 :: byte) = replicate (31 - n) 0 @ [0]"
      by (simp add: replicate_append_same Suc_diff_le flip: replicate_Suc)
    then show ?case
      using Suc l by (simp add: list_update_append take_Suc_conv_app_nth)
  qed simp
  from this [of 32] show ?thesis using l by (simp add: le_to_be_loop_def)
qed

text \<open>
  the hasher reads and writes little-endian: absorbing a 32-byte hash pushes the field
  element of its little-endian value, and reading a hash back into the field is the same
  conversion, so the node hash of two children is Poseidon of their two field values.
\<close>

theorem hasher_little_endian:
  assumes "base_laws C" "length h = 32" "length g = 32"
  shows "hasher_write_h256 C buffer h = buffer @ [h256_to_field C h] \<and>
    h256_to_field C h = fe_from_be_bytes_reduce C (rev h) \<and>
    unat (from_base C (h256_to_field C h)) = le_val h mod unat MODULUS \<and>
    hasher_finish C (hasher_write_h256 C (hasher_write_h256 C hasher_default h) g) =
      fe_to_le_bytes C (poseidon C [h256_to_field C h, h256_to_field C g])"
proof -
  have "unat (from_base C (h256_to_field C h)) = be_val (rev h) mod unat MODULUS"
    using assms by (simp add: h256_to_field_def le_to_be_loop_eq unat_from_base_reduce)
  then show ?thesis
    using assms by (simp add: hasher_write_h256_def h256_to_field_def le_to_be_loop_eq hasher_finish_def
        hasher_default_def Let_def be_val_def)
qed

definition toy_smt_crypto :: "nat smt_crypto" where
  "toy_smt_crypto = \<lparr> fe_from_be_bytes_reduce = (\<lambda>bs. be_val bs mod unat MODULUS),
     fe_to_be_bytes = (\<lambda>n. be_bytes 32 (n mod unat MODULUS)),
     poseidon = foldl (\<lambda>a x. (a * 7 + x + 1) mod unat MODULUS) 3,
     fe_of_u128 = unat, fe_to_le_bytes = (\<lambda>n. le_bytes 32 (n mod unat MODULUS)), fe_zero_elem = 0 \<rparr>"

lemma toy_smt_crypto_laws: "base_laws toy_smt_crypto"
  unfolding base_laws_def toy_smt_crypto_def
  using mod_MODULUS_fits MODULUS_pos by (simp add: be_val_be_bytes del: power_numeral)

theorem hasher_little_endian_witness:
  "unat (from_base toy_smt_crypto (h256_to_field toy_smt_crypto (replicate 32 1))) =
     le_val (replicate 32 1) mod unat MODULUS"
proof -
  have l: "length (replicate 32 (1 :: byte)) = 32" by simp
  show ?thesis using hasher_little_endian [OF toy_smt_crypto_laws l l, of "[]"] by blast
qed

lemma siblings_loop_eq:
  "siblings_loop C bm path [n..<m] sib k =
   (if k + length (filter (\<lambda>h. bm (of_nat h)) [n..<m]) \<le> length path \<or> filter (\<lambda>h. bm (of_nat h)) [n..<m] = []
    then Some (map (\<lambda>i. if n \<le> i \<and> i < m \<and> bm (of_nat i)
                 then h256_to_field C (path ! (k + length (filter (\<lambda>h. bm (of_nat h)) [n..<i]))) else sib ! i)
           [0..<length sib])
    else None)"
  if "m \<le> length sib"
  using that
proof (induction "m - n" arbitrary: n sib k)
  case 0
  then have e: "[n..<m] = []" by simp
  have "map (\<lambda>i. if n \<le> i \<and> i < m \<and> bm (of_nat i)
      then h256_to_field C (path ! (k + length (filter (\<lambda>h. bm (of_nat h)) [n..<i]))) else sib ! i) [0..<length sib] = sib"
    using 0 by (intro nth_equalityI) auto
  then show ?case unfolding e by simp
next
  case (Suc d)
  then have nm: "n < m" "d = m - Suc n" by simp_all
  have up: "i > n \<Longrightarrow> [n..<i] = n # [Suc n..<i]" for i by (rule upt_conv_Cons)
  let ?sib = "if bm (of_nat n) then sib[n := h256_to_field C (path ! k)] else sib"
  let ?k = "if bm (of_nat n) then k + 1 else k"
  have m: "m \<le> length ?sib" using Suc.prems by simp
  note ih = Suc.hyps(1) [OF nm(2) m, of ?k]
  have "map (\<lambda>i. if Suc n \<le> i \<and> i < m \<and> bm (of_nat i)
        then h256_to_field C (path ! (?k + length (filter (\<lambda>h. bm (of_nat h)) [Suc n..<i]))) else ?sib ! i) [0..<length ?sib] =
      map (\<lambda>i. if n \<le> i \<and> i < m \<and> bm (of_nat i)
        then h256_to_field C (path ! (k + length (filter (\<lambda>h. bm (of_nat h)) [n..<i]))) else sib ! i) [0..<length sib]"
    using nm(1) Suc.prems by (intro nth_equalityI) (auto simp: up nth_list_update less_Suc_eq_le le_less)
  then show ?case using ih nm(1) by (auto simp: up)
qed

text \<open>
  the sibling array for the circuit: for every proof, \<^verbatim>\<open>build_siblings\<close> panics exactly
  when the bitmap marks more levels than the proof has path entries; otherwise it returns
  256 field elements, zero at the unmarked levels and, at the marked ones, the path hashes
  in order, each used once.
\<close>

theorem build_siblings_exact:
  assumes "smt_proof T t [c] = Inr p"
  shows "build_siblings C T t c =
    (if length (filter (\<lambda>h. proof_bit T p (of_nat h)) [0..<256]) \<le> length (proof_path T p)
     then Some (map (\<lambda>h. if proof_bit T p (of_nat h)
             then h256_to_field C (proof_path T p ! length (filter (\<lambda>h. proof_bit T p (of_nat h)) [0..<h]))
             else fe_zero_elem C) [0..<256])
     else None)"
proof -
  have "map (\<lambda>i. if i < 256 \<and> proof_bit T p (of_nat i)
             then h256_to_field C (proof_path T p ! length (filter (\<lambda>h. proof_bit T p (of_nat h)) [0..<i]))
             else replicate 256 (fe_zero_elem C) ! i) [0..<256] =
        map (\<lambda>h. if proof_bit T p (of_nat h)
             then h256_to_field C (proof_path T p ! length (filter (\<lambda>h. proof_bit T p (of_nat h)) [0..<h]))
             else fe_zero_elem C) [0..<256]"
    by (rule map_cong) auto
  then show ?thesis
    using siblings_loop_eq [of 256 "replicate 256 (fe_zero_elem C)" C "proof_bit T p" "proof_path T p" 0 0] assms
    by (auto simp: build_siblings_def)
qed

theorem build_siblings_exact_witness:
  "smt_proof toy_smt toy_empty [[1]] = Inr toy_empty \<and>
   build_siblings toy_smt_crypto toy_smt toy_empty [1] = Some (replicate 256 0)"
proof -
  have p: "smt_proof toy_smt toy_empty [[1]] = Inr toy_empty" by (simp add: toy_smt_def)
  have b: "proof_bit toy_smt toy_empty = (\<lambda>b. False)" "fe_zero_elem toy_smt_crypto = 0"
    by (simp_all add: toy_smt_def toy_smt_crypto_def)
  show ?thesis using build_siblings_exact [OF p, of toy_smt_crypto] p by (simp add: b map_replicate_const)
qed

lemma h256_read: "length k = 32 \<Longrightarrow> h256_deserialize (h256_serialize k @ r) = Some (k, r)"
  by (simp add: h256_deserialize_def h256_serialize_def read_exact_def)

lemma tree_read_leaves_ok:
  assumes "smt_laws T" "\<forall>(k, v)\<in>set kvs. length k = 32 \<and> length v = 32 \<and> v \<noteq> H256_ZERO"
  shows "\<exists>t'. tree_read_leaves T (length kvs) t
        (concat (map (\<lambda>(k, v). h256_serialize k @ h256_serialize v) kvs) @ r) = Inr (t', r) \<and>
      leaf_map T t' = foldl (\<lambda>m (k, v). m(k \<mapsto> v)) (leaf_map T t) kvs"
  using assms(2)
proof (induction kvs arbitrary: t)
  case (Cons kv kvs)
  obtain k v where kv: "kv = (k, v)" by (cases kv)
  have l: "length k = 32" "length v = 32" "v \<noteq> H256_ZERO" using Cons.prems kv by auto
  obtain t1 where t1: "update_leaf T t k v = (t1, Inr (smt_root T t1))" "leaf_map T t1 = (leaf_map T t)(k \<mapsto> v)"
    using update_leaf_ok [OF assms(1) l(3)] by blast
  have "\<forall>(k, v)\<in>set kvs. length k = 32 \<and> length v = 32 \<and> v \<noteq> H256_ZERO" using Cons.prems by simp
  from Cons.IH [OF this, of t1] show ?case
    using t1 l by (simp add: kv h256_read)
qed simp

lemma foldl_upd_map_of:
  "distinct (map fst kvs) \<Longrightarrow> foldl (\<lambda>m (k, v). m(k \<mapsto> v)) m kvs = m ++ map_of kvs"
proof (induction kvs arbitrary: m)
  case (Cons kv kvs)
  obtain k v where kv: "kv = (k, v)" by (cases kv)
  have "foldl (\<lambda>m (k, v). m(k \<mapsto> v)) (m(k \<mapsto> v)) kvs = m(k \<mapsto> v) ++ map_of kvs"
    by (rule Cons.IH) (use Cons.prems in simp)
  also have "\<dots> = m ++ map_of (kv # kvs)"
    using Cons.prems by (simp add: kv map_add_upd_left dom_map_of_conv_image_fst)
  finally show ?case by (simp only: kv foldl_Cons prod.case)
qed simp

lemma tree_deserialize_ok:
  assumes "smt_laws T" "length (smt_leaves T t) < 2 ^ 32"
    and "\<forall>(k, v)\<in>set (smt_leaves T t). length k = 32 \<and> length v = 32" "length s = 32"
  obtains t' where "leaf_map T t' = leaf_map T t" "smt_root T t' = smt_root T t"
    and "tree_deserialize T (s @ drop 32 (tree_serialize T t) @ x) =
      (if smt_root T t \<noteq> s then Inl RootMismatch else Inr (t', x))"
proof -
  let ?kvs = "smt_leaves T t"
  let ?body = "concat (map (\<lambda>(k, v). h256_serialize k @ h256_serialize v) ?kvs)"
  let ?len = "of_nat (length ?kvs) :: u32"
  have ok: "\<forall>(k, v)\<in>set ?kvs. length k = 32 \<and> length v = 32 \<and> v \<noteq> H256_ZERO"
    using assms(3) smt_nonzero [OF assms(1)] by fastforce
  have n: "unat (word_from_le (word_to_le ?len) :: u32) = length ?kvs"
    using assms(2) by (simp add: u32_le.dec_enc unat_of_nat)
  obtain t' where t': "tree_read_leaves T (length ?kvs) (tree_zero T) (?body @ x) = Inr (t', x)"
    "leaf_map T t' = foldl (\<lambda>m (k, v). m(k \<mapsto> v)) (leaf_map T (tree_zero T)) ?kvs"
    using tree_read_leaves_ok [OF assms(1) ok, of "tree_zero T" x] by blast
  have m: "leaf_map T t' = leaf_map T t"
    using t'(2) foldl_upd_map_of [OF smt_distinct [OF assms(1), of t]] smt_empty_leaves [OF assms(1)]
    by (simp add: tree_zero_def leaf_map_def)
  have h: "h256_deserialize (s @ y) = Some (s, y)" for y
    using h256_read [OF assms(4)] by (simp add: h256_serialize_def)
  have "read_exact 4 (word_to_le ?len @ ?body @ x) = Some (word_to_le ?len, ?body @ x)"
    by (simp add: read_exact_def)
  then have "tree_deserialize T (s @ word_to_le ?len @ ?body @ x) =
      (if smt_root T t' \<noteq> s then Inl RootMismatch else Inr (t', x))"
    using t'(1) n by (simp add: tree_deserialize_def h)
  moreover have "drop 32 (tree_serialize T t) = word_to_le ?len @ ?body"
    using smt_root_length [OF assms(1)] by (simp add: tree_serialize_def h256_serialize_def Let_def)
  ultimately show ?thesis using that [OF m smt_root_cong [OF assms(1) m]] smt_root_cong [OF assms(1) m] by simp
qed

lemma tree_serialize_split:
  "smt_laws T \<Longrightarrow> tree_serialize T t = smt_root T t @ drop 32 (tree_serialize T t)"
  by (simp add: tree_serialize_def h256_serialize_def Let_def smt_root_length)

lemma tree_round_trip:
  assumes "smt_laws T" "length (smt_leaves T t) < 2 ^ 32"
    and "\<forall>(k, v)\<in>set (smt_leaves T t). length k = 32 \<and> length v = 32"
  obtains t' where "leaf_map T t' = leaf_map T t" "smt_root T t' = smt_root T t"
    and "tree_deserialize T (tree_serialize T t @ x) = Inr (t', x)"
proof -
  obtain t' where "leaf_map T t' = leaf_map T t" "smt_root T t' = smt_root T t"
    "tree_deserialize T (smt_root T t @ drop 32 (tree_serialize T t) @ x) = Inr (t', x)"
    using tree_deserialize_ok [OF assms smt_root_length [OF assms(1)], of t x] by auto
  then show ?thesis using that tree_serialize_split [OF assms(1), of t] by (metis append.assoc)
qed

text \<open>
  C16: the tree survives its serialisation (which is also how the executor clones its
  state): a tree of fewer than \<^term>\<open>2 ^ 32\<close> leaves with 32-byte keys and values is rebuilt,
  leaving the rest of the input unread, with the same leaf map and the same root; with
  another root in front the reader reports a mismatch.
\<close>

theorem smt_serialisation_round_trip:
  assumes "smt_laws T" "length (smt_leaves T t) < 2 ^ 32"
    and "\<forall>(k, v)\<in>set (smt_leaves T t). length k = 32 \<and> length v = 32"
  shows "(\<exists>t'. tree_deserialize T (tree_serialize T t @ rest) = Inr (t', rest) \<and>
      leaf_map T t' = leaf_map T t \<and> smt_root T t' = smt_root T t) \<and>
    (length r = 32 \<longrightarrow> r \<noteq> smt_root T t \<longrightarrow>
      tree_deserialize T (r @ drop 32 (tree_serialize T t)) = Inl RootMismatch)"
proof (intro conjI impI)
  show "\<exists>t'. tree_deserialize T (tree_serialize T t @ rest) = Inr (t', rest) \<and>
      leaf_map T t' = leaf_map T t \<and> smt_root T t' = smt_root T t"
    by (rule tree_round_trip [OF assms]) blast
  show "tree_deserialize T (r @ drop 32 (tree_serialize T t)) = Inl RootMismatch"
    if "length r = 32" "r \<noteq> smt_root T t"
    by (rule tree_deserialize_ok [OF assms that(1), of "[]"]) (use that(2) in auto)
qed

theorem smt_serialisation_round_trip_witness:
  "smt_laws toy_smt \<and> length (smt_leaves toy_smt (toy_write toy_empty (replicate 32 1) (replicate 32 2))) < 2 ^ 32 \<and>
   (\<exists>t'. tree_deserialize toy_smt (tree_serialize toy_smt (toy_write toy_empty (replicate 32 1) (replicate 32 2)) @ [9]) = Inr (t', [9]))"
proof -
  let ?t = "toy_write toy_empty (replicate 32 1) (replicate 32 2)"
  have "replicate 32 2 \<noteq> H256_ZERO" by (simp add: H256_ZERO_def)
  then have l: "smt_leaves toy_smt ?t = [(replicate 32 1, replicate 32 2)]"
    by (simp add: toy_smt_def toy_leaves_write)
  then have a: "length (smt_leaves toy_smt ?t) < 2 ^ 32"
    "\<forall>(k, v)\<in>set (smt_leaves toy_smt ?t). length k = 32 \<and> length v = 32" by simp_all
  show ?thesis
    using smt_serialisation_round_trip [OF toy_smt_laws a, of "[9]" "[]"] toy_smt_laws a(1) by blast
qed

lemma wv_keys_insert:
  "set (map leaf_key (wv_values (fst (wv_insert w v)))) = insert (leaf_key v) (set (map leaf_key (wv_values w)))"
proof (cases "position (\<lambda>c. leaf_key c = leaf_key v) (wv_values w)")
  case None
  then show ?thesis by (simp add: wv_insert_def)
next
  case (Some i)
  then have i: "i < length (wv_values w)" "leaf_key (wv_values w ! i) = leaf_key v"
    using position_Some by blast+
  then have "map leaf_key ((wv_values w)[i := v]) = map leaf_key (wv_values w)"
    by (simp add: map_update list_update_same_conv)
  then show ?thesis using Some i by (simp add: wv_insert_def) (metis i image_eqI insert_absorb nth_mem)
qed

end
