(* ===== verification/Interfaces.thy ===== *)
theory Interfaces
  imports Prelude
begin

text \<open>
  Interfaces between the components that keep sets of spent keys, bounded histories and
  first-in-first-out work, as locales.  Each client lemma is proved here once; the
  component theories interpret the locales on the code's own operations.
\<close>

section \<open>Sets that absorb fresh keys\<close>

text \<open>
  The abstract effect of recording a list of keys: keys are taken in order, the first one
  already present stops the recording, and what was recorded before it stays.
\<close>

fun absorb_keys :: "'k set \<Rightarrow> 'k list \<Rightarrow> 'k set \<times> bool" where
  "absorb_keys A [] = (A, True)"
| "absorb_keys A (k # ks) = (if k \<in> A then (A, False) else absorb_keys (insert k A) ks)"

lemma absorb_keys_ok_iff: "snd (absorb_keys A ks) \<longleftrightarrow> distinct ks \<and> set ks \<inter> A = {}"
  by (induction ks arbitrary: A) auto

lemma absorb_keys_ok: "snd (absorb_keys A ks) \<Longrightarrow> fst (absorb_keys A ks) = A \<union> set ks"
  by (induction ks arbitrary: A) (auto split: if_splits)

lemma absorb_keys_grows: "A \<subseteq> fst (absorb_keys A ks)"
proof (induction ks arbitrary: A)
  case (Cons k ks)
  show ?case using Cons.IH [of "insert k A"] by auto
qed simp

lemma absorb_keys_within: "fst (absorb_keys A ks) \<subseteq> A \<union> set ks"
proof (induction ks arbitrary: A)
  case (Cons k ks)
  show ?case using Cons.IH [of "insert k A"] by auto
qed simp

lemma absorb_keys_append:
  "absorb_keys A (ks @ ls) = (if snd (absorb_keys A ks) then absorb_keys (fst (absorb_keys A ks)) ls else absorb_keys A ks)"
  by (induction ks arbitrary: A) auto

text \<open>Recording several batches, stopping at the first one that fails.\<close>

fun record_batches ::
  "('s \<Rightarrow> 'k list \<Rightarrow> 's \<times> ('e + unit)) \<Rightarrow> 's \<Rightarrow> 'k list list \<Rightarrow> 's \<times> ('e + unit)" where
  "record_batches add s [] = (s, Inr ())"
| "record_batches add s (b # bs) =
     (case add s b of (s', Inl e) \<Rightarrow> (s', Inl e) | (s', Inr _) \<Rightarrow> record_batches add s' bs)"

text \<open>
  The contract of a spend set: \<^verbatim>\<open>add\<close> absorbs the keys it does not skip and reports an
  error exactly when a key was already there.
\<close>

locale spend_set =
  fixes good :: "'s \<Rightarrow> bool"
    and elems :: "'s \<Rightarrow> 'k set"
    and keep :: "'k \<Rightarrow> bool"
    and add :: "'s \<Rightarrow> 'k list \<Rightarrow> 's \<times> ('e + unit)"
  assumes add_good: "good s \<Longrightarrow> good (fst (add s ks))"
    and add_elems: "good s \<Longrightarrow> elems (fst (add s ks)) = fst (absorb_keys (elems s) (filter keep ks))"
    and add_ok: "good s \<Longrightarrow> isOk (snd (add s ks)) = snd (absorb_keys (elems s) (filter keep ks))"
begin

lemma add_ok_iff:
  "good s \<Longrightarrow> isOk (snd (add s ks)) \<longleftrightarrow> distinct (filter keep ks) \<and> set (filter keep ks) \<inter> elems s = {}"
  by (simp only: add_ok absorb_keys_ok_iff)

lemma add_grows: "good s \<Longrightarrow> elems s \<subseteq> elems (fst (add s ks))"
  by (simp only: add_elems absorb_keys_grows)

lemma add_within: "good s \<Longrightarrow> elems (fst (add s ks)) \<subseteq> elems s \<union> set (filter keep ks)"
  by (simp only: add_elems absorb_keys_within)

lemma add_result:
  "good s \<Longrightarrow> isOk (snd (add s ks)) \<Longrightarrow> elems (fst (add s ks)) = elems s \<union> set (filter keep ks)"
  using absorb_keys_ok [of "elems s" "filter keep ks"] by (simp add: add_ok add_elems)

lemma add_same_key_fails:
  assumes "good s" "isOk (snd (add s ks))" "k \<in> set ks" "keep k" "k \<in> set ls"
  shows "\<not> isOk (snd (add (fst (add s ks)) ls))"
  using assms add_good [of s ks] by (auto simp: add_ok_iff add_result)

lemma batches_good: "good s \<Longrightarrow> good (fst (record_batches add s bs))"
proof (induction bs arbitrary: s)
  case (Cons b bs)
  then show ?case using add_good [of s b] by (auto split: prod.split sum.split)
qed simp

lemma batches_absorb:
  assumes "good s"
  shows "elems (fst (record_batches add s bs)) = fst (absorb_keys (elems s) (filter keep (concat bs))) \<and>
    isOk (snd (record_batches add s bs)) = snd (absorb_keys (elems s) (filter keep (concat bs)))"
  using assms
proof (induction bs arbitrary: s)
  case (Cons b bs)
  obtain s' r where a: "add s b = (s', r)" by fastforce
  then have "good s'" "elems s' = fst (absorb_keys (elems s) (filter keep b))"
      "isOk r = snd (absorb_keys (elems s) (filter keep b))"
    using add_good [OF Cons.prems, of b] add_elems [OF Cons.prems, of b] add_ok [OF Cons.prems, of b] by simp_all
  then show ?case using Cons.IH [of s'] a by (cases r) (simp_all add: absorb_keys_append)
qed simp

text \<open>No key is ever recorded twice: not within a batch, not across batches.\<close>

lemma no_key_twice:
  assumes "good s" "isOk (snd (record_batches add s bs))"
  shows "distinct (filter keep (concat bs)) \<and> set (filter keep (concat bs)) \<inter> elems s = {}"
  using batches_absorb [OF assms(1), of bs] assms(2) by (simp only: absorb_keys_ok_iff)

end

section \<open>Bounded histories\<close>

text \<open>A history keeps the newest \<^verbatim>\<open>cap\<close> items, newest first; \<^verbatim>\<open>pushed\<close> lists what a
  sequence of pushes adds.\<close>

primrec pushed :: "('x \<Rightarrow> 's \<Rightarrow> 's) \<Rightarrow> ('x \<Rightarrow> 's \<Rightarrow> 'a) \<Rightarrow> 'x list \<Rightarrow> 's \<Rightarrow> 'a list" where
  "pushed push item [] s = []"
| "pushed push item (x # xs) s = item x s # pushed push item xs (push x s)"

lemma length_pushed [simp]: "length (pushed push item xs s) = length xs"
  by (induction xs arbitrary: s) auto

locale bounded_history =
  fixes good :: "'s \<Rightarrow> bool"
    and items :: "'s \<Rightarrow> 'a list"
    and push :: "'x \<Rightarrow> 's \<Rightarrow> 's"
    and item :: "'x \<Rightarrow> 's \<Rightarrow> 'a"
    and cap :: nat
  assumes push_good: "good s \<Longrightarrow> good (push x s)"
    and push_items: "good s \<Longrightarrow> items (push x s) = take cap (item x s # items s)"
begin

lemma items_fold:
  "good s \<Longrightarrow> length (items s) \<le> cap \<Longrightarrow>
   items (fold push xs s) = take cap (rev (pushed push item xs s) @ items s)"
proof (induction xs arbitrary: s)
  case (Cons x xs)
  have "items (fold push xs (push x s)) = take cap (rev (pushed push item xs (push x s)) @ items (push x s))"
    using Cons.prems by (intro Cons.IH push_good) (simp_all add: push_items)
  then show ?case using Cons.prems by (simp add: push_items take_append take_take)
qed simp

lemma length_items: "good s \<Longrightarrow> length (items (push x s)) \<le> cap"
  by (simp add: push_items)

lemma recent_item_kept:
  assumes "good s" "length (items s) \<le> cap" "length xs < cap"
  shows "item x s \<in> set (items (fold push xs (push x s)))"
proof -
  have "items (fold push (x # xs) s) = take cap (rev (pushed push item (x # xs) s) @ items s)"
    using assms by (intro items_fold)
  then show ?thesis using assms(3) by (cases "cap - length xs") simp_all
qed

lemma old_item_forgotten:
  assumes "good s" "length (items s) \<le> cap" "cap \<le> length xs" "a \<notin> set (pushed push item xs s)"
  shows "a \<notin> set (items (fold push xs s))"
  using assms by (auto simp: items_fold dest: in_set_takeD)

end

section \<open>First in, first out\<close>

text \<open>
  A queue that is never empty: its front is the item being worked on, joining appends, and
  moving on past the last item leaves a fresh one.
\<close>

locale work_queue =
  fixes items :: "'q \<Rightarrow> 'a list"
    and front :: "'q \<Rightarrow> 'a"
    and join :: "'q \<Rightarrow> 'q \<Rightarrow> 'q"
    and advance :: "'q \<Rightarrow> 'q"
    and fresh :: "'a \<Rightarrow> 'a"
  assumes items_nonempty: "items q \<noteq> []"
    and front_items: "front q = hd (items q)"
    and join_items: "items (join q r) = items q @ items r"
    and advance_items:
      "items (advance q) = (if tl (items q) = [] then [fresh (hd (items q))] else tl (items q))"
begin

lemma join_all_items: "items (foldl join q rs) = items q @ concat (map items rs)"
  by (induction rs arbitrary: q) (simp_all add: join_items)

lemma advance_drop: "n < length (items q) \<Longrightarrow> items ((advance ^^ n) q) = drop n (items q)"
proof (induction n)
  case (Suc n)
  then have "tl (drop n (items q)) \<noteq> []" by (simp add: tl_drop drop_Suc)
  then show ?case using Suc by (simp add: advance_items drop_Suc tl_drop)
qed simp

lemma served_in_order:
  "n < length (items q @ concat (map items rs)) \<Longrightarrow>
   front ((advance ^^ n) (foldl join q rs)) = (items q @ concat (map items rs)) ! n"
  by (simp only: front_items advance_drop join_all_items hd_drop_conv_nth)

lemma exhausted_is_fresh:
  "front ((advance ^^ length (items q)) q) = fresh (last (items q))"
proof -
  have "items q \<noteq> []" by (rule items_nonempty)
  then obtain n where n: "length (items q) = Suc n" by (cases "items q") auto
  then have "items ((advance ^^ n) q) = [last (items q)]"
    using advance_drop [of n q] by (metis append_butlast_last_id append_eq_conv_conj diff_Suc_1 items_nonempty length_butlast lessI)
  then show ?thesis using n by (simp add: front_items advance_items)
qed

end

end
