(* ===== verification/UtxoState.thy ===== *)
theory UtxoState
  imports SmtTree Interfaces
begin

text \<open>
  The off-chain side of the state contract: \<^verbatim>\<open>HyliUtxoState\<close> of
  \<^verbatim>\<open>contracts/hyli-utxo-state/src/state.rs\<close>, the two sparse Merkle trees and the window of
  recent root fingerprints, and the construction of the guest's input from them.  The
  trees are those of \<^verbatim>\<open>smt_ops\<close>; error strings are the constructors of a datatype, and
  a panic is \<^term>\<open>None\<close>.
\<close>

section \<open>State (state.rs)\<close>

definition MAX_ROOTS :: nat where "MAX_ROOTS = 1000"

record contract_config =
  utxo_contract_name :: string
  smt_incl_proof_contract_name :: string
  smt_contract_name :: string

record 't hyli_utxo_state =
  notes_tree :: 't
  nullified_tree :: 't
  roots :: "byte list list"

record 'p zkvm_state =
  created_notes :: "'p witness_vec"
  nullified_notes :: "'p witness_vec"
  config :: contract_config
  zk_roots :: "byte list list"

datatype state_error =
    CreatedNoteExists
  | InsertNote string
  | AlreadyNullified nat h256
  | InsertNullified string
  | MerkleProofFailed string
  | RootsLength

definition state_default :: "('t, 'p) smt_ops \<Rightarrow> 't hyli_utxo_state" where
  "state_default T = \<lparr> notes_tree = tree_zero T, nullified_tree = tree_zero T, roots = [] \<rparr>"

text \<open>The newest fingerprint is pushed to the front and the oldest one falls off the end.\<close>

definition update_roots :: "('t, 'p) smt_ops \<Rightarrow> 't hyli_utxo_state \<Rightarrow> 't hyli_utxo_state" where
  "update_roots T s =
     (let new_root = take 8 (smt_root T (notes_tree s));
          rs = new_root # roots s
      in s\<lparr> roots := (if MAX_ROOTS < length rs then butlast rs else rs) \<rparr>)"

fun record_created ::
  "('t, 'p) smt_ops \<Rightarrow> 't hyli_utxo_state \<Rightarrow> h256 list \<Rightarrow> 't hyli_utxo_state \<times> (state_error + unit)" where
  "record_created T s [] = (s, Inr ())"
| "record_created T s (c # cs) =
     (if c = H256_ZERO then record_created T s cs
      else if tree_contains T (notes_tree s) c then (s, Inl CreatedNoteExists)
      else case update_leaf T (notes_tree s) c c of
             (t', Inl e) \<Rightarrow> (s\<lparr> notes_tree := t' \<rparr>, Inl (InsertNote e))
           | (t', Inr _) \<Rightarrow> record_created T (s\<lparr> notes_tree := t' \<rparr>) cs)"

definition PADDING_NULLIFIER :: "byte list" where
  "PADDING_NULLIFIER =
     [0x0b, 0x63, 0xa5, 0x37, 0x87, 0x02, 0x1a, 0x4a, 0x96, 0x2a, 0x45, 0x2c, 0x29, 0x21, 0xb3,
      0x66, 0x3a, 0xff, 0x1f, 0xfd, 0x8d, 0x55, 0x10, 0x54, 0x0f, 0x8e, 0x65, 0x9e, 0x78, 0x29,
      0x56, 0xf1]"

definition filter_keys :: "h256 list \<Rightarrow> bool \<Rightarrow> h256 list" where
  "filter_keys ks is_nullifier =
     filter (\<lambda>k. if k = H256_ZERO then False
                 else if is_nullifier then k \<noteq> PADDING_NULLIFIER
                 else True) ks"

text \<open>The loop counts the nullifiers from \<^term>\<open>i\<close> for its error message.\<close>

fun record_nullified_from ::
  "('t, 'p) smt_ops \<Rightarrow> nat \<Rightarrow> 't hyli_utxo_state \<Rightarrow> h256 list \<Rightarrow> 't hyli_utxo_state \<times> (state_error + unit)" where
  "record_nullified_from T i s [] = (s, Inr ())"
| "record_nullified_from T i s (c # cs) =
     (if c = H256_ZERO then record_nullified_from T (i + 1) s cs
      else if c = PADDING_NULLIFIER then record_nullified_from T (i + 1) s cs
      else if tree_contains T (nullified_tree s) c then (s, Inl (AlreadyNullified i c))
      else case update_leaf T (nullified_tree s) c c of
             (t', Inl e) \<Rightarrow> (s\<lparr> nullified_tree := t' \<rparr>, Inl (InsertNullified e))
           | (t', Inr _) \<Rightarrow> record_nullified_from T (i + 1) (s\<lparr> nullified_tree := t' \<rparr>) cs)"

definition record_nullified ::
  "('t, 'p) smt_ops \<Rightarrow> 't hyli_utxo_state \<Rightarrow> h256 list \<Rightarrow> 't hyli_utxo_state \<times> (state_error + unit)" where
  "record_nullified T s cs = record_nullified_from T 0 s cs"

section \<open>The guest's input (state.rs)\<close>

definition build_witness ::
  "('t, 'p) smt_ops \<Rightarrow> 't \<Rightarrow> h256 list \<Rightarrow> state_error + 'p witness_vec" where
  "build_witness T tree ks =
     (if ks = [] then Inr (wv_with_root (smt_root T tree))
      else
        let proof_inputs = map (\<lambda>key. witness_leaf_new key H256_ZERO) ks in
        andThen (mapErr MerkleProofFailed (tree_merkle_proof T tree proof_inputs)) (\<lambda>p.
        Inr \<lparr> wv_values = map (\<lambda>key. witness_leaf_new key
                (case map_of (smt_leaves T tree) key of Some v \<Rightarrow> v | None \<Rightarrow> H256_ZERO)) ks,
              wv_proof = SomeProof p \<rparr>))"

definition to_zkvm_state ::
  "('t, 'p) smt_ops \<Rightarrow> 't hyli_utxo_state \<Rightarrow> contract_config \<Rightarrow> h256 list \<Rightarrow> h256 list
   \<Rightarrow> state_error + 'p zkvm_state" where
  "to_zkvm_state T s cfg created_note_keys nullified_keys =
     (let filtered_created = filter_keys created_note_keys False;
          filtered_nullified = filter_keys nullified_keys True in
      andThen (build_witness T (notes_tree s) filtered_created) (\<lambda>created.
      andThen (build_witness T (nullified_tree s) filtered_nullified) (\<lambda>nullified.
      let roots_vec = resize MAX_ROOTS (replicate 8 0) (roots s) in
      andThen (guardR (length roots_vec = MAX_ROOTS) RootsLength) (\<lambda>_.
      Inr \<lparr> created_notes = created, nullified_notes = nullified, config = cfg,
            zk_roots = roots_vec \<rparr>))))"

definition state_notes_root :: "('t, 'p) smt_ops \<Rightarrow> 't hyli_utxo_state \<Rightarrow> h256" where
  "state_notes_root T s = smt_root T (notes_tree s)"

definition build_smt_witnesses ::
  "('f, 'z) smt_crypto_scheme \<Rightarrow> ('t, 'p) smt_ops \<Rightarrow> 't hyli_utxo_state \<Rightarrow> h256 \<Rightarrow> h256
   \<Rightarrow> ('f list \<times> 'f list) option" where
  "build_smt_witnesses C T s commitment0 commitment1 =
     Option.bind (build_siblings C T (notes_tree s) commitment0) (\<lambda>a.
     Option.bind (build_siblings C T (notes_tree s) commitment1) (\<lambda>b. Some (a, b)))"

record commitment_snapshot =
  cs_notes_root :: h256
  cs_nullified_notes_root :: h256

definition snapshot_to_vec :: "commitment_snapshot \<Rightarrow> byte list" where
  "snapshot_to_vec c = h256_serialize (cs_notes_root c) @ h256_serialize (cs_nullified_notes_root c)"

definition state_commitment :: "('t, 'p) smt_ops \<Rightarrow> 't hyli_utxo_state \<Rightarrow> byte list" where
  "state_commitment T s = snapshot_to_vec
     \<lparr> cs_notes_root = smt_root T (notes_tree s),
       cs_nullified_notes_root = smt_root T (nullified_tree s) \<rparr>"

section \<open>Abstraction and invariant\<close>

text \<open>
  What the state means: the set of notes ever created, the set of nullifiers ever spent
  and the recent fingerprints.  The invariant: every leaf holds its own key, and the
  window is not over-full and holds fingerprints of 8 bytes.
\<close>

definition created_set :: "('t, 'p) smt_ops \<Rightarrow> 't hyli_utxo_state \<Rightarrow> h256 set" where
  "created_set T s = dom (leaf_map T (notes_tree s))"

definition nullified_set :: "('t, 'p) smt_ops \<Rightarrow> 't hyli_utxo_state \<Rightarrow> h256 set" where
  "nullified_set T s = dom (leaf_map T (nullified_tree s))"

definition self_keyed :: "('t, 'p) smt_ops \<Rightarrow> 't \<Rightarrow> bool" where
  "self_keyed T t \<longleftrightarrow> list_all (\<lambda>(k, v). v = k) (smt_leaves T t)"

definition state_inv :: "('t, 'p) smt_ops \<Rightarrow> 't hyli_utxo_state \<Rightarrow> bool" where
  "state_inv T s \<longleftrightarrow> self_keyed T (notes_tree s) \<and> self_keyed T (nullified_tree s) \<and>
     length (roots s) \<le> MAX_ROOTS \<and> (\<forall>r\<in>set (roots s). length r = 8)"

definition keep_created :: "h256 \<Rightarrow> bool" where
  "keep_created k \<longleftrightarrow> k \<noteq> H256_ZERO"

definition keep_nullified :: "h256 \<Rightarrow> bool" where
  "keep_nullified k \<longleftrightarrow> k \<noteq> H256_ZERO \<and> k \<noteq> PADDING_NULLIFIER"

section \<open>Recording keys is set insertion\<close>

definition good_state :: "('t, 'p) smt_ops \<Rightarrow> 't hyli_utxo_state \<Rightarrow> bool" where
  "good_state T s \<longleftrightarrow> smt_laws T \<and> state_inv T s"

lemma self_keyed_iff:
  "smt_laws T \<Longrightarrow> self_keyed T t \<longleftrightarrow> (\<forall>k v. leaf_map T t k = Some v \<longrightarrow> v = k)"
  using map_of_eq_Some_iff [OF smt_distinct, of T t]
  by (force simp: self_keyed_def leaf_map_def list_all_iff)

lemma self_keyed_upd:
  "smt_laws T \<Longrightarrow> self_keyed T t \<Longrightarrow> leaf_map T t' = (leaf_map T t)(k \<mapsto> k) \<Longrightarrow> self_keyed T t'"
  by (simp add: self_keyed_iff)

lemma filter_keys_created: "filter_keys ks False = filter keep_created ks"
  unfolding filter_keys_def by (rule filter_cong) (auto simp: keep_created_def)

lemma filter_keys_nullified: "filter_keys ks True = filter keep_nullified ks"
  unfolding filter_keys_def by (rule filter_cong) (auto simp: keep_nullified_def)

lemma record_created_absorb:
  assumes "good_state T s"
  shows "good_state T (fst (record_created T s cs)) \<and>
    created_set T (fst (record_created T s cs)) = fst (absorb_keys (created_set T s) (filter keep_created cs)) \<and>
    isOk (snd (record_created T s cs)) = snd (absorb_keys (created_set T s) (filter keep_created cs)) \<and>
    (\<exists>t. fst (record_created T s cs) = s\<lparr> notes_tree := t \<rparr>)"
  using assms
proof (induction cs arbitrary: s)
  case (Cons c cs)
  have laws: "smt_laws T" using Cons.prems by (simp add: good_state_def)
  show ?case
  proof (cases "c = H256_ZERO \<or> c \<in> created_set T s")
    case True
    then show ?thesis using Cons
      by (auto simp: keep_created_def created_set_def tree_contains_iff intro: exI [of _ "notes_tree s"])
  next
    case False
    then obtain t' where t': "update_leaf T (notes_tree s) c c = (t', Inr (smt_root T t'))"
      "leaf_map T t' = (leaf_map T (notes_tree s))(c \<mapsto> c)"
      using update_leaf_ok [OF laws] by blast
    let ?s = "s\<lparr> notes_tree := t' \<rparr>"
    have "good_state T ?s" "created_set T ?s = insert c (created_set T s)"
      using Cons.prems t'(2) self_keyed_upd [OF laws _ t'(2)]
      by (auto simp: good_state_def state_inv_def created_set_def)
    then show ?thesis using Cons.IH [of ?s] t'(1) False
      by (auto simp: keep_created_def tree_contains_iff created_set_def)
  qed
next
  case Nil
  then show ?case by (auto intro: exI [of _ "notes_tree s"])
qed

lemma record_nullified_absorb:
  assumes "good_state T s"
  shows "good_state T (fst (record_nullified_from T i s cs)) \<and>
    nullified_set T (fst (record_nullified_from T i s cs)) =
      fst (absorb_keys (nullified_set T s) (filter keep_nullified cs)) \<and>
    isOk (snd (record_nullified_from T i s cs)) = snd (absorb_keys (nullified_set T s) (filter keep_nullified cs)) \<and>
    (\<exists>t. fst (record_nullified_from T i s cs) = s\<lparr> nullified_tree := t \<rparr>)"
  using assms
proof (induction cs arbitrary: s i)
  case (Cons c cs)
  have laws: "smt_laws T" using Cons.prems by (simp add: good_state_def)
  show ?case
  proof (cases "\<not> keep_nullified c \<or> c \<in> nullified_set T s")
    case True
    then show ?thesis using Cons
      by (auto simp: keep_nullified_def nullified_set_def tree_contains_iff intro: exI [of _ "nullified_tree s"])
  next
    case False
    then have z: "c \<noteq> H256_ZERO" "c \<noteq> PADDING_NULLIFIER" by (simp_all add: keep_nullified_def)
    obtain t' where t': "update_leaf T (nullified_tree s) c c = (t', Inr (smt_root T t'))"
      "leaf_map T t' = (leaf_map T (nullified_tree s))(c \<mapsto> c)"
      using update_leaf_ok [OF laws z(1)] by blast
    let ?s = "s\<lparr> nullified_tree := t' \<rparr>"
    have "good_state T ?s" "nullified_set T ?s = insert c (nullified_set T s)"
      using Cons.prems t'(2) self_keyed_upd [OF laws _ t'(2)]
      by (auto simp: good_state_def state_inv_def nullified_set_def)
    then show ?thesis using Cons.IH [of ?s "i + 1"] t'(1) False z
      by (auto simp: tree_contains_iff nullified_set_def)
  qed
next
  case Nil
  then show ?case by (auto intro: exI [of _ "nullified_tree s"])
qed

interpretation created: spend_set "good_state T" "created_set T" keep_created "record_created T"
  by unfold_locales (simp_all add: record_created_absorb)

interpretation nullified: spend_set "good_state T" "nullified_set T" keep_nullified "record_nullified T"
  by unfold_locales (simp_all add: record_nullified_absorb record_nullified_def)

section \<open>The window of recent roots\<close>

definition push_root :: "('t, 'p) smt_ops \<Rightarrow> 't \<Rightarrow> 't hyli_utxo_state \<Rightarrow> 't hyli_utxo_state" where
  "push_root T t s = update_roots T (s\<lparr> notes_tree := t \<rparr>)"

definition root_fingerprint :: "('t, 'p) smt_ops \<Rightarrow> 't \<Rightarrow> byte list" where
  "root_fingerprint T t = take 8 (smt_root T t)"

lemma update_roots_window:
  assumes "length (roots s) \<le> MAX_ROOTS"
  shows "roots (update_roots T s) = take MAX_ROOTS (root_fingerprint T (notes_tree s) # roots s)"
proof (cases "length (roots s) = MAX_ROOTS")
  case True
  then have "roots s \<noteq> []" by (auto simp: MAX_ROOTS_def)
  then show ?thesis using True
    by (simp add: update_roots_def Let_def root_fingerprint_def butlast_conv_take MAX_ROOTS_def take_Cons')
next
  case False
  then show ?thesis using assms by (simp add: update_roots_def Let_def root_fingerprint_def)
qed

lemma update_roots_keeps [simp]:
  "notes_tree (update_roots T s) = notes_tree s" "nullified_tree (update_roots T s) = nullified_tree s"
  by (simp_all add: update_roots_def Let_def)

lemma update_roots_good: "good_state T s \<Longrightarrow> good_state T (update_roots T s)"
  using smt_root_length [of T "notes_tree s"]
  by (auto simp: good_state_def state_inv_def update_roots_window root_fingerprint_def dest!: in_set_takeD)

interpretation root_window: bounded_history
  "\<lambda>s. length (roots s) \<le> MAX_ROOTS" roots "push_root T" "\<lambda>t s. root_fingerprint T t" MAX_ROOTS
  by unfold_locales (simp_all add: push_root_def update_roots_window)

section \<open>Witnesses agree with the trees\<close>

lemma build_witness_ok:
  assumes "smt_laws T" "distinct ks"
  shows "\<exists>w. build_witness T t ks = Inr w \<and> map leaf_key (wv_values w) = ks \<and>
    (\<forall>l\<in>set (wv_values w). leaf_value l = (case leaf_map T t (leaf_key l) of Some v \<Rightarrow> v | None \<Rightarrow> H256_ZERO)) \<and>
    (\<forall>vs u. length vs = length ks \<longrightarrow> leaf_map T u = write_leaves (zip ks vs) (leaf_map T t) \<longrightarrow>
       wv_compute_root T (w\<lparr> wv_values := map (\<lambda>(k, v). witness_leaf_new k v) (zip ks vs) \<rparr>) = Inr (smt_root T u))"
proof (cases "ks = []")
  case True
  then show ?thesis
    by (auto simp: build_witness_def wv_with_root_def wv_compute_root_def write_leaves_def intro: smt_root_cong [OF assms(1)])
next
  case False
  obtain p where p: "smt_proof T t ks = Inr p"
    "\<And>vs u. length vs = length ks \<Longrightarrow> leaf_map T u = write_leaves (zip ks vs) (leaf_map T t) \<Longrightarrow>
        proof_root T p (zip ks vs) = Inr (smt_root T u)"
    using smt_proof_ok [OF assms False] by blast
  have m: "map leaf_key (map (\<lambda>key. witness_leaf_new key (f key)) ks) = ks" for f
    by (simp add: witness_leaf_new_def comp_def)
  have z: "map (\<lambda>v. (leaf_key v, leaf_value v)) (map (\<lambda>(k, v). witness_leaf_new k v) kvs) = kvs" for kvs
    by (simp add: witness_leaf_new_def comp_def case_prod_unfold)
  have "zip ks vs \<noteq> []" if "length vs = length ks" for vs using that False by (cases ks; cases vs) auto
  then show ?thesis using False p
    by (auto simp: build_witness_def tree_merkle_proof_def m z leaf_map_def witness_leaf_new_def wv_compute_root_def
        comp_def case_prod_unfold)
qed

section \<open>Properties\<close>

lemma state_default_good: "smt_laws T \<Longrightarrow> good_state T (state_default T)"
  by (simp add: good_state_def state_inv_def state_default_def tree_zero_def self_keyed_def smt_empty_leaves)

lemma state_default_sets: "smt_laws T \<Longrightarrow> created_set T (state_default T) = {} \<and> nullified_set T (state_default T) = {}"
  by (simp add: created_set_def nullified_set_def state_default_def tree_zero_def leaf_map_def smt_empty_leaves)

lemma record_created_frame:
  "good_state T s \<Longrightarrow> nullified_tree (fst (record_created T s ks)) = nullified_tree s \<and>
     roots (fst (record_created T s ks)) = roots s"
  using record_created_absorb [of T s ks] by auto

lemma record_nullified_frame:
  "good_state T s \<Longrightarrow> notes_tree (fst (record_nullified T s ks)) = notes_tree s \<and>
     roots (fst (record_nullified T s ks)) = roots s"
  using record_nullified_absorb [of T s 0 ks] by (auto simp: record_nullified_def)

text \<open>
  C7: recording notes and nullifiers is set insertion. From a state satisfying the
  invariant, both operations keep the invariant and leave the other tree and the root
  window alone; they succeed exactly when the listed keys (zero and, for nullifiers, the
  padding nullifier left out) are pairwise distinct and new; on success the set grows by
  exactly those keys, and on failure it keeps what it had and at most gains listed keys.
\<close>

theorem recording_is_set_insertion:
  assumes "smt_laws T" "state_inv T s"
  shows "(case record_created T s ks of (s', r) \<Rightarrow>
      state_inv T s' \<and> nullified_tree s' = nullified_tree s \<and> roots s' = roots s \<and>
      (isOk r \<longleftrightarrow> distinct (filter_keys ks False) \<and> set (filter_keys ks False) \<inter> created_set T s = {}) \<and>
      (isOk r \<longrightarrow> created_set T s' = created_set T s \<union> set (filter_keys ks False)) \<and>
      created_set T s \<subseteq> created_set T s' \<and> created_set T s' \<subseteq> created_set T s \<union> set (filter_keys ks False)) \<and>
    (case record_nullified T s ks of (s', r) \<Rightarrow>
      state_inv T s' \<and> notes_tree s' = notes_tree s \<and> roots s' = roots s \<and>
      (isOk r \<longleftrightarrow> distinct (filter_keys ks True) \<and> set (filter_keys ks True) \<inter> nullified_set T s = {}) \<and>
      (isOk r \<longrightarrow> nullified_set T s' = nullified_set T s \<union> set (filter_keys ks True)) \<and>
      nullified_set T s \<subseteq> nullified_set T s' \<and> nullified_set T s' \<subseteq> nullified_set T s \<union> set (filter_keys ks True))"
proof -
  have g: "good_state T s" using assms by (simp add: good_state_def)
  note c = created.add_good [OF g, of ks] created.add_ok_iff [OF g, of ks] created.add_result [OF g, of ks]
    created.add_elems [OF g, of ks] record_created_frame [OF g, of ks]
  note n = nullified.add_good [OF g, of ks] nullified.add_ok_iff [OF g, of ks] nullified.add_result [OF g, of ks]
    nullified.add_elems [OF g, of ks] record_nullified_frame [OF g, of ks]
  show ?thesis
    unfolding filter_keys_created filter_keys_nullified case_prod_unfold
    using c n absorb_keys_grows absorb_keys_within
    by (intro conjI impI) (simp_all only: good_state_def)
qed

lemma toy_state_inv: "state_inv toy_smt (state_default toy_smt)"
  using state_default_good [OF toy_smt_laws] by (simp add: good_state_def)

theorem recording_is_set_insertion_witness:
  "isOk (snd (record_nullified toy_smt (state_default toy_smt) [replicate 32 1, PADDING_NULLIFIER, PADDING_NULLIFIER])) \<and>
   \<not> isOk (snd (record_nullified toy_smt (state_default toy_smt) [replicate 32 1, H256_ZERO, replicate 32 1]))"
proof -
  have e: "nullified_set toy_smt (state_default toy_smt) = {}" using state_default_sets [OF toy_smt_laws] by simp
  have "filter_keys [replicate 32 1, PADDING_NULLIFIER, PADDING_NULLIFIER] True = [replicate 32 1]"
    "filter_keys [replicate 32 1, H256_ZERO, replicate 32 1] True = [replicate 32 1, replicate 32 1]"
    by code_simp+
  then show ?thesis
    using recording_is_set_insertion [OF toy_smt_laws toy_state_inv, of "[replicate 32 1, PADDING_NULLIFIER, PADDING_NULLIFIER]"]
      recording_is_set_insertion [OF toy_smt_laws toy_state_inv, of "[replicate 32 1, H256_ZERO, replicate 32 1]"]
    by (simp add: e case_prod_unfold)
qed

lemma pushed_fingerprints: "pushed (push_root T) (\<lambda>t s. root_fingerprint T t) ts s = map (root_fingerprint T) ts"
  by (induction ts arbitrary: s) simp_all

text \<open>
  C11: the window of recent roots. After any sequence of updates the window holds the
  fingerprints (the first 8 bytes) of the last 1000 notes roots, newest first, so a
  fingerprint recorded before stays acceptable exactly until 1000 newer roots with
  other fingerprints have been recorded.
\<close>

theorem root_window_holds_last_roots:
  assumes "length (roots s) \<le> MAX_ROOTS"
  shows "roots (fold (push_root T) ts s) = take MAX_ROOTS (rev (map (root_fingerprint T) ts) @ roots s) \<and>
    (length ts < MAX_ROOTS \<longrightarrow> root_fingerprint T t \<in> set (roots (fold (push_root T) ts (push_root T t s)))) \<and>
    (MAX_ROOTS \<le> length ts \<longrightarrow> root_fingerprint T t \<notin> root_fingerprint T ` set ts \<longrightarrow>
       root_fingerprint T t \<notin> set (roots (fold (push_root T) ts (push_root T t s))))"
proof (intro conjI impI)
  show "roots (fold (push_root T) ts s) = take MAX_ROOTS (rev (map (root_fingerprint T) ts) @ roots s)"
    using root_window.items_fold [OF assms assms, of T ts] by (simp add: pushed_fingerprints)
  show "root_fingerprint T t \<in> set (roots (fold (push_root T) ts (push_root T t s)))" if "length ts < MAX_ROOTS"
    by (rule root_window.recent_item_kept [OF assms assms that])
  have p: "length (roots (push_root T t s)) \<le> MAX_ROOTS" using root_window.push_good [OF assms] .
  show "root_fingerprint T t \<notin> set (roots (fold (push_root T) ts (push_root T t s)))"
    if "MAX_ROOTS \<le> length ts" "root_fingerprint T t \<notin> root_fingerprint T ` set ts"
    using that(2) by (intro root_window.old_item_forgotten [OF p p that(1)]) (simp add: pushed_fingerprints)
qed

theorem root_window_holds_last_roots_witness:
  "roots (fold (push_root toy_smt) [toy_empty, toy_empty] (state_default toy_smt)) =
     [root_fingerprint toy_smt toy_empty, root_fingerprint toy_smt toy_empty]"
  using root_window_holds_last_roots [of "state_default toy_smt" toy_smt "[toy_empty, toy_empty]"]
  by (simp add: state_default_def MAX_ROOTS_def)

end
