(* ===== verification/ZkContract.thy ===== *)
theory ZkContract
  imports UtxoState
begin

text \<open>
  The zero-knowledge contract of \<^verbatim>\<open>contracts/hyli-utxo-state/src/state.rs\<close>: the guest
  state \<^verbatim>\<open>HyliUtxoZkVmState\<close>, its checks on the transaction's blobs, the witness update,
  the commitment, and the batch of guest states.  The Hyli SDK is a parameter:
  \<^verbatim>\<open>parse_calldata\<close>, which yields the callee blobs, and the decoding of structured blobs.
  Error strings are the constructors of a datatype; a panic is \<^term>\<open>None\<close>.
\<close>

section \<open>Transactions as the SDK presents them\<close>

record blob =
  blob_contract_name :: string
  blob_data :: "byte list"

record calldata =
  cd_blobs :: "(nat \<times> blob) list"
  cd_index :: nat
  cd_identity :: string
  cd_tx_blob_count :: nat

record exec_ctx =
  callees_blobs :: "blob list"

record sdk_ops =
  parse_calldata :: "calldata \<Rightarrow> string + exec_ctx"
  structured_parameters :: "byte list \<Rightarrow> byte list option"

datatype zk_error =
    CalldataError string
  | WitnessNotZero witness_error
  | UtxoBlobMissing
  | SmtInclBlobMissing
  | NotStructured
  | SmtBlobSize nat
  | NotesRootUnknown
  | UtxoBlobSize nat
  | UtxoBlobChunk
  | Nullifier0Mismatch
  | Nullifier1Mismatch
  | MultipleWithdraw
  | UnexpectedCallees "blob list"
  | UtxoBlobNotFound
  | UtxoBlobUnreadable zk_error
  | NotesWitnessCount nat nat
  | NullifiedWitnessCount nat nat

section \<open>Blob formats (state.rs)\<close>

definition parse_hyli_utxo_blob :: "byte list \<Rightarrow> zk_error + (h256 list \<times> h256 list)" where
  "parse_hyli_utxo_blob bytes =
     andThen (guardR (length bytes = 128) (UtxoBlobSize (length bytes))) (\<lambda>_.
     andThen (mapM (\<lambda>chunk. if length chunk = 32 then Inr chunk else Inl UtxoBlobChunk)
                (chunks_exact 32 bytes)) (\<lambda>commitments.
     let output_notes = [commitments ! 0, commitments ! 1];
         nullifiers = [commitments ! 2, commitments ! 3]
     in Inr (output_notes, nullifiers)))"

definition parse_hyli_smt_incl_blob :: "byte list \<Rightarrow> zk_error + (h256 \<times> h256 \<times> byte list)" where
  "parse_hyli_smt_incl_blob bytes =
     andThen (guardR (length bytes = 96) (SmtBlobSize (length bytes))) (\<lambda>_.
     let nullifier0 = take 32 bytes;
         nullifier1 = take 32 (drop 32 bytes);
         notes_root_fingerprint = take 8 (drop 64 bytes)
     in Inr (nullifier0, nullifier1, notes_root_fingerprint))"

section \<open>The guest state (state.rs)\<close>

definition zkvm_state_new :: "contract_config \<Rightarrow> 'p zkvm_state" where
  "zkvm_state_new cfg = \<lparr> created_notes = wv_default, nullified_notes = wv_default, config = cfg,
     zk_roots = replicate MAX_ROOTS (replicate 8 0) \<rparr>"

definition parse_smt_incl_blob_payload :: "sdk_ops \<Rightarrow> blob \<Rightarrow> zk_error + byte list" where
  "parse_smt_incl_blob_payload S b = okOr NotStructured (structured_parameters S (blob_data b))"

definition check_withdraw_callees :: "contract_config \<Rightarrow> exec_ctx \<Rightarrow> exec_ctx \<times> (zk_error + unit)" where
  "check_withdraw_callees cfg ctx =
     (let withdraw_callees = filter (\<lambda>(_, b). blob_contract_name b = smt_contract_name cfg)
            (enumerate 0 (callees_blobs ctx)) in
      if 1 < length withdraw_callees then (ctx, Inl MultipleWithdraw)
      else
        let ctx = (case withdraw_callees of
              [] \<Rightarrow> ctx
            | (i, _) # _ \<Rightarrow> ctx\<lparr> callees_blobs := remove_nth i (callees_blobs ctx) \<rparr>) in
        if callees_blobs ctx \<noteq> [] then (ctx, Inl (UnexpectedCallees (callees_blobs ctx)))
        else (ctx, Inr ()))"

text \<open>
  The execution context is mutated, so it is returned beside the result.
\<close>

definition check_noir_blobs ::
  "sdk_ops \<Rightarrow> 'p zkvm_state \<Rightarrow> calldata \<Rightarrow> exec_ctx \<Rightarrow> exec_ctx \<times> (zk_error + unit)" where
  "check_noir_blobs S z cd ctx =
     (case find (\<lambda>(_, b). blob_contract_name b = utxo_contract_name (config z)) (cd_blobs cd) of
        None \<Rightarrow> (ctx, Inl UtxoBlobMissing)
      | Some (_, hyli_utxo_blob) \<Rightarrow>
     case position (\<lambda>b. blob_contract_name b = smt_incl_proof_contract_name (config z)) (callees_blobs ctx) of
        None \<Rightarrow> (ctx, Inl SmtInclBlobMissing)
      | Some i \<Rightarrow>
     let smt_incl_blob = callees_blobs ctx ! i;
         ctx = ctx\<lparr> callees_blobs := remove_nth i (callees_blobs ctx) \<rparr> in
     case andThen (parse_smt_incl_blob_payload S smt_incl_blob) parse_hyli_smt_incl_blob of
        Inl e \<Rightarrow> (ctx, Inl e)
      | Inr (smt_nullifier0, smt_nullifier1, smt_blob_notes_root) \<Rightarrow>
     if smt_blob_notes_root \<notin> set (zk_roots z) then (ctx, Inl NotesRootUnknown)
     else
     case parse_hyli_utxo_blob (blob_data hyli_utxo_blob) of
        Inl e \<Rightarrow> (ctx, Inl e)
      | Inr (_, utxo_nullifiers) \<Rightarrow>
     if utxo_nullifiers ! 0 \<noteq> smt_nullifier0 then (ctx, Inl Nullifier0Mismatch)
     else if utxo_nullifiers ! 1 \<noteq> smt_nullifier1 then (ctx, Inl Nullifier1Mismatch)
     else check_withdraw_callees (config z) ctx)"

text \<open>The loop over \<^verbatim>\<open>values.iter_mut().zip(keys)\<close>: only the values are written.\<close>

fun set_leaf_values :: "witness_leaf list \<Rightarrow> h256 list \<Rightarrow> witness_leaf list" where
  "set_leaf_values (l # ls) (c # cs) = l\<lparr> leaf_value := c \<rparr> # set_leaf_values ls cs"
| "set_leaf_values ls _ = ls"

text \<open>The two loops of \<^verbatim>\<open>apply_action\<close> over the witnesses.\<close>

definition write_values :: "'p zkvm_state \<Rightarrow> h256 list \<Rightarrow> h256 list \<Rightarrow> 'p zkvm_state" where
  "write_values z cs ns =
     z\<lparr> created_notes := (created_notes z)\<lparr> wv_values := set_leaf_values (wv_values (created_notes z)) cs \<rparr>,
        nullified_notes := (nullified_notes z)\<lparr> wv_values := set_leaf_values (wv_values (nullified_notes z)) ns \<rparr> \<rparr>"

definition apply_action :: "'p zkvm_state \<Rightarrow> calldata \<Rightarrow> 'p zkvm_state \<times> (zk_error + unit)" where
  "apply_action z cd =
     (case find (\<lambda>(_, b). blob_contract_name b = utxo_contract_name (config z)) (cd_blobs cd) of
        None \<Rightarrow> (z, Inl UtxoBlobNotFound)
      | Some (_, hyli_utxo_blob) \<Rightarrow>
     case mapErr UtxoBlobUnreadable (parse_hyli_utxo_blob (blob_data hyli_utxo_blob)) of
        Inl e \<Rightarrow> (z, Inl e)
      | Inr (created, nullified) \<Rightarrow>
     let filtered_created = filter_keys created False;
         filtered_nullified = filter_keys nullified True in
     if length (wv_values (created_notes z)) \<noteq> length filtered_created
     then (z, Inl (NotesWitnessCount (length (wv_values (created_notes z))) (length filtered_created)))
     else if length (wv_values (nullified_notes z)) \<noteq> length filtered_nullified
     then (z, Inl (NullifiedWitnessCount (length (wv_values (nullified_notes z))) (length filtered_nullified)))
     else (write_values z filtered_created filtered_nullified,
           Inr ()))"

definition zk_execute ::
  "sdk_ops \<Rightarrow> 'p zkvm_state \<Rightarrow> calldata \<Rightarrow> 'p zkvm_state \<times> (zk_error + byte list \<times> exec_ctx)" where
  "zk_execute S z cd =
     (case mapErr CalldataError (parse_calldata S cd) of
        Inl e \<Rightarrow> (z, Inl e)
      | Inr ctx \<Rightarrow>
     case andThen (mapErr WitnessNotZero (wv_ensure_all_zero (created_notes z)))
            (\<lambda>_. mapErr WitnessNotZero (wv_ensure_all_zero (nullified_notes z))) of
        Inl e \<Rightarrow> (z, Inl e)
      | Inr _ \<Rightarrow>
     case check_noir_blobs S z cd ctx of
        (ctx, Inl e) \<Rightarrow> (z, Inl e)
      | (ctx, Inr _) \<Rightarrow>
     case apply_action z cd of
        (z', Inl e) \<Rightarrow> (z', Inl e)
      | (z', Inr _) \<Rightarrow> (z', Inr ([], ctx)))"

definition zk_commit :: "('t, 'p) smt_ops \<Rightarrow> 'p zkvm_state \<Rightarrow> byte list option" where
  "zk_commit T z =
     (case wv_compute_root T (created_notes z) of
        Inl _ \<Rightarrow> None
      | Inr notes_root \<Rightarrow>
     case wv_compute_root T (nullified_notes z) of
        Inl _ \<Rightarrow> None
      | Inr nullified_root \<Rightarrow> Some (snapshot_to_vec
          \<lparr> cs_notes_root = notes_root, cs_nullified_notes_root = nullified_root \<rparr>))"

section \<open>The batch (state.rs)\<close>

record 'p zkvm_batch =
  bt_current :: "'p zkvm_state"
  bt_remaining :: "'p zkvm_state list"

definition batch_from_state :: "'p zkvm_state \<Rightarrow> 'p zkvm_batch" where
  "batch_from_state z = \<lparr> bt_current = z, bt_remaining = [] \<rparr>"

text \<open>The remaining states are a stack: the next one is at the end of the vector.\<close>

definition extend_with :: "'p zkvm_batch \<Rightarrow> 'p zkvm_batch \<Rightarrow> 'p zkvm_batch" where
  "extend_with b next_batch =
     (let merged = bt_remaining next_batch @ [bt_current next_batch] @ bt_remaining b
      in b\<lparr> bt_remaining := merged \<rparr>)"

definition advance_step :: "'p zkvm_batch \<Rightarrow> 'p zkvm_batch" where
  "advance_step b =
     (if bt_remaining b \<noteq> []
      then b\<lparr> bt_current := last (bt_remaining b), bt_remaining := butlast (bt_remaining b) \<rparr>
      else b\<lparr> bt_current := zkvm_state_new (config (bt_current b)) \<rparr>)"

definition batch_execute ::
  "sdk_ops \<Rightarrow> 'p zkvm_batch \<Rightarrow> calldata \<Rightarrow> 'p zkvm_batch \<times> (zk_error + byte list \<times> exec_ctx)" where
  "batch_execute S b cd =
     (case zk_execute S (bt_current b) cd of (z, r) \<Rightarrow> (b\<lparr> bt_current := z \<rparr>, r))"

definition batch_commit :: "('t, 'p) smt_ops \<Rightarrow> 'p zkvm_batch \<Rightarrow> byte list option" where
  "batch_commit T b = zk_commit T (bt_current b)"

definition batch_initial_state :: "'p zkvm_batch \<Rightarrow> 'p zkvm_batch" where
  "batch_initial_state b = b"

definition batch_revert :: "'p zkvm_batch \<Rightarrow> 'p zkvm_batch \<Rightarrow> 'p zkvm_batch" where
  "batch_revert b initial_state = initial_state"

definition batch_on_success :: "('t, 'p) smt_ops \<Rightarrow> 'p zkvm_batch \<Rightarrow> ('p zkvm_batch \<times> byte list) option" where
  "batch_on_success T b = map_option (\<lambda>commitment. (advance_step b, commitment)) (zk_commit T (bt_current b))"

section \<open>Lemmas on the blob formats\<close>

lemma chunks_of_128:
  "length bytes = 128 \<Longrightarrow> chunks_exact 32 bytes =
     [take 32 bytes, take 32 (drop 32 bytes), take 32 (drop 64 bytes), drop 96 bytes]"
  by (simp add: chunks_exact.simps)

lemma parse_hyli_utxo_blob_ok:
  "length bytes = 128 \<Longrightarrow> parse_hyli_utxo_blob bytes =
     Inr ([take 32 bytes, take 32 (drop 32 bytes)], [take 32 (drop 64 bytes), drop 96 bytes])"
  by (simp add: parse_hyli_utxo_blob_def chunks_of_128 Let_def)

lemma parse_hyli_utxo_blob_Inr_iff:
  "parse_hyli_utxo_blob bytes = Inr (created, nullified) \<longleftrightarrow>
     length bytes = 128 \<and> created = [take 32 bytes, take 32 (drop 32 bytes)] \<and>
     nullified = [take 32 (drop 64 bytes), drop 96 bytes]"
proof (cases "length bytes = 128")
  case True
  then show ?thesis unfolding parse_hyli_utxo_blob_ok [OF True] by auto
qed (simp add: parse_hyli_utxo_blob_def)

lemma parse_hyli_utxo_blob_bad:
  "length bytes \<noteq> 128 \<Longrightarrow> parse_hyli_utxo_blob bytes = Inl (UtxoBlobSize (length bytes))"
  by (simp add: parse_hyli_utxo_blob_def)

lemma parse_hyli_utxo_blob_concat:
  "length a = 32 \<Longrightarrow> length b = 32 \<Longrightarrow> length c = 32 \<Longrightarrow> length d = 32 \<Longrightarrow>
   parse_hyli_utxo_blob (a @ b @ c @ d) = Inr ([a, b], [c, d])"
  by (simp add: parse_hyli_utxo_blob_ok)

lemma parse_hyli_smt_incl_blob_Inr_iff:
  "parse_hyli_smt_incl_blob bytes = Inr (n0, n1, r) \<longleftrightarrow>
     length bytes = 96 \<and> n0 = take 32 bytes \<and> n1 = take 32 (drop 32 bytes) \<and> r = take 8 (drop 64 bytes)"
  by (auto simp: parse_hyli_smt_incl_blob_def Let_def result_simps)

section \<open>Accepting a transaction\<close>

text \<open>
  When the guest accepts: the shape of the transaction (\<^verbatim>\<open>blobs_accepted\<close>) in terms of the
  blobs' contents, and of the witness (\<^verbatim>\<open>witness_matches\<close>).
\<close>

definition callees_accepted :: "contract_config \<Rightarrow> blob list \<Rightarrow> bool" where
  "callees_accepted cfg bs \<longleftrightarrow> bs = [] \<or> (\<exists>b. bs = [b] \<and> blob_contract_name b = smt_contract_name cfg)"

lemma filter_enumerate_single:
  "filter (\<lambda>(_, b). P b) (enumerate n [b]) = (if P b then [(n, b)] else [])"
  by simp

lemma length_filter_enumerate: "length (filter (\<lambda>(_, b). P b) (enumerate n bs)) = length (filter P bs)"
  by (induction bs arbitrary: n) auto

lemma check_withdraw_callees_iff:
  "isOk (snd (check_withdraw_callees cfg ctx)) \<longleftrightarrow> callees_accepted cfg (callees_blobs ctx)"
proof -
  let ?P = "\<lambda>b. blob_contract_name b = smt_contract_name cfg"
  let ?bs = "callees_blobs ctx"
  let ?w = "filter (\<lambda>(_, b). ?P b) (enumerate 0 ?bs)"
  consider "?bs = []" | b where "?bs = [b]" | b c ds where "?bs = b # c # ds"
    by (cases ?bs; cases "tl ?bs") auto
  then show ?thesis
  proof cases
    case 3
    have "i < length ?bs" if "(i, x) \<in> set ?w" for i x
      using that by (auto simp: in_set_enumerate_eq)
    then have "remove_nth i ?bs \<noteq> []" if "?w = (i, x) # r" for i x r
      using that 3 length_remove_nth [of i ?bs] by (metis diff_Suc_1 length_0_conv length_Cons list.set_intros(1) nat.distinct(1))
    then show ?thesis using 3
      by (auto simp: check_withdraw_callees_def Let_def callees_accepted_def split: list.splits)
  qed (auto simp: check_withdraw_callees_def Let_def callees_accepted_def remove_nth_def)
qed

definition blobs_accepted :: "sdk_ops \<Rightarrow> 'p zkvm_state \<Rightarrow> calldata \<Rightarrow> blob list \<Rightarrow> bool" where
  "blobs_accepted S z cd callees \<longleftrightarrow>
     (\<exists>i u j smt payload. find (\<lambda>(_, b). blob_contract_name b = utxo_contract_name (config z)) (cd_blobs cd) = Some (i, u) \<and>
        position (\<lambda>b. blob_contract_name b = smt_incl_proof_contract_name (config z)) callees = Some j \<and>
        smt = callees ! j \<and> structured_parameters S (blob_data smt) = Some payload \<and>
        length payload = 96 \<and> length (blob_data u) = 128 \<and>
        take 8 (drop 64 payload) \<in> set (zk_roots z) \<and>
        take 64 payload = drop 64 (blob_data u) \<and>
        callees_accepted (config z) (remove_nth j callees))"

lemma take_64_split: "64 \<le> length xs \<Longrightarrow> 64 \<le> length ys \<Longrightarrow>
  take 64 xs = take 64 ys \<longleftrightarrow> take 32 xs = take 32 ys \<and> take 32 (drop 32 xs) = take 32 (drop 32 ys)"
  using append_eq_append_conv [of "take 32 xs" "take 32 ys" "take 32 (drop 32 xs)" "take 32 (drop 32 ys)"]
    take_add [of 32 32 xs] take_add [of 32 32 ys] by simp

lemma check_noir_blobs_iff:
  "isOk (snd (check_noir_blobs S z cd ctx)) \<longleftrightarrow> blobs_accepted S z cd (callees_blobs ctx)"
proof (cases "find (\<lambda>(_, b). blob_contract_name b = utxo_contract_name (config z)) (cd_blobs cd)")
  case None
  then show ?thesis by (simp add: check_noir_blobs_def blobs_accepted_def)
next
  case (Some iu)
  obtain i u where iu: "iu = (i, u)" by fastforce
  note u = Some [unfolded iu]
  show ?thesis
  proof (cases "position (\<lambda>b. blob_contract_name b = smt_incl_proof_contract_name (config z)) (callees_blobs ctx)")
    case None
    then show ?thesis using u by (simp add: check_noir_blobs_def blobs_accepted_def)
  next
    case (Some j)
    let ?smt = "callees_blobs ctx ! j"
    show ?thesis
    proof (cases "structured_parameters S (blob_data ?smt)")
      case None
      then show ?thesis using u Some
        by (simp add: check_noir_blobs_def blobs_accepted_def parse_smt_incl_blob_payload_def Let_def)
    next
      case (Some payload)
      let ?ctx = "ctx\<lparr> callees_blobs := remove_nth j (callees_blobs ctx) \<rparr>"
      let ?ok = "length payload = 96 \<and> take 8 (drop 64 payload) \<in> set (zk_roots z) \<and> length (blob_data u) = 128"
      have "isOk (snd (check_noir_blobs S z cd ctx)) \<longleftrightarrow> ?ok \<and>
          take 32 (drop 64 (blob_data u)) = take 32 payload \<and>
          drop 96 (blob_data u) = take 32 (drop 32 payload) \<and> isOk (snd (check_withdraw_callees (config z) ?ctx))"
        using u \<open>position _ _ = Some j\<close> Some parse_hyli_utxo_blob_ok [of "blob_data u"]
          parse_hyli_utxo_blob_bad [of "blob_data u"]
        by (cases "length payload = 96"; cases "length (blob_data u) = 128")
          (simp_all add: check_noir_blobs_def parse_smt_incl_blob_payload_def Let_def parse_hyli_smt_incl_blob_def)
      also have "\<dots> \<longleftrightarrow> ?ok \<and> take 64 payload = drop 64 (blob_data u) \<and>
          callees_accepted (config z) (remove_nth j (callees_blobs ctx))"
        using take_64_split [of payload "drop 64 (blob_data u)"] by (auto simp: check_withdraw_callees_iff)
      also have "\<dots> \<longleftrightarrow> blobs_accepted S z cd (callees_blobs ctx)"
        using u \<open>position _ _ = Some j\<close> Some by (auto simp: blobs_accepted_def)
      finally show ?thesis .
    qed
  qed
qed

lemma set_leaf_values_zip:
  "length ls = length cs \<Longrightarrow>
   set_leaf_values ls cs = map (\<lambda>(k, c). witness_leaf_new k c) (zip (map leaf_key ls) cs)"
proof (induction ls cs rule: set_leaf_values.induct)
  case (1 l ls c cs)
  have "l\<lparr> leaf_value := c \<rparr> = witness_leaf_new (leaf_key l) c" by (cases l) (simp add: witness_leaf_new_def)
  then show ?case using 1 by simp
qed auto

lemma length_set_leaf_values [simp]: "length (set_leaf_values ls cs) = length ls"
  by (induction ls cs rule: set_leaf_values.induct) auto

lemma wv_ensure_all_zero_iff:
  "wv_ensure_all_zero w = Inr u \<longleftrightarrow> (\<forall>l\<in>set (wv_values w). leaf_value l = H256_ZERO)"
  by (auto simp: wv_ensure_all_zero_def list_ex_iff)

lemma apply_action_ok:
  assumes "find (\<lambda>(_, b). blob_contract_name b = utxo_contract_name (config z)) (cd_blobs cd) = Some (i, b)"
    and "parse_hyli_utxo_blob (blob_data b) = Inr (created, nullified)"
    and "length (wv_values (created_notes z)) = length (filter_keys created False)"
    and "length (wv_values (nullified_notes z)) = length (filter_keys nullified True)"
  shows "apply_action z cd =
    (write_values z (filter_keys created False) (filter_keys nullified True),
     Inr ())"
  using assms by (simp add: apply_action_def Let_def)

section \<open>A witness computes the roots of its tree\<close>

lemma write_leaves_Nil [simp]: "write_leaves [] m = m"
  by (simp add: write_leaves_def)

lemma write_leaves_Cons:
  "write_leaves ((k, v) # kvs) m = write_leaves kvs (m(k := (if v = H256_ZERO then None else Some v)))"
  by (simp only: write_leaves_def foldl_Cons prod.case)

lemma write_leaves_zip:
  assumes "distinct ks" "length vs = length ks"
  shows "write_leaves (zip ks vs) m k =
     (case map_of (zip ks vs) k of None \<Rightarrow> m k | Some v \<Rightarrow> if v = H256_ZERO then None else Some v)"
  using assms
proof (induction ks arbitrary: vs m)
  case (Cons x xs)
  then obtain v ws where v: "vs = v # ws" "length ws = length xs" by (cases vs) auto
  have n: "map_of (zip xs ws) x = None" using Cons.prems v by (auto simp: map_of_eq_None_iff dest: set_zip_leftD)
  have "write_leaves (zip (x # xs) vs) m k =
      write_leaves (zip xs ws) (m(x := (if v = H256_ZERO then None else Some v))) k"
    unfolding v(1) zip_Cons_Cons write_leaves_Cons ..
  also have "\<dots> = (case map_of (zip xs ws) k of None \<Rightarrow> (m(x := (if v = H256_ZERO then None else Some v))) k
      | Some v \<Rightarrow> if v = H256_ZERO then None else Some v)"
    using Cons.prems v by (intro Cons.IH) simp_all
  finally show ?case using n v(1) by (cases "k = x"; cases "map_of (zip xs ws) k") simp_all
qed simp

lemma write_leaves_self:
  assumes "distinct ks" "H256_ZERO \<notin> set ks"
  shows "write_leaves (zip ks ks) m k = (if k \<in> set ks then Some k else m k)"
proof -
  have "map_of (zip ks ks) k = (if k \<in> set ks then Some k else None)"
    by (induction ks) auto
  then show ?thesis using assms by (auto simp: write_leaves_zip)
qed

lemma tree_with_leaves_exists:
  assumes "smt_laws T" "length vs = length ks" "H256_ZERO \<notin> set vs"
  shows "\<exists>u. leaf_map T u = write_leaves (zip ks vs) (leaf_map T t)"
  using assms(2,3)
proof (induction ks arbitrary: vs t)
  case (Cons k ks)
  then obtain v ws where v: "vs = v # ws" "length ws = length ks" "v \<noteq> H256_ZERO" by (cases vs) auto
  obtain t' where t': "leaf_map T t' = (leaf_map T t)(k \<mapsto> v)"
    using update_leaf_ok [OF assms(1) v(3)] by blast
  have "write_leaves (zip (k # ks) vs) (leaf_map T t) = write_leaves (zip ks ws) (leaf_map T t')"
    unfolding t' using v by (simp add: write_leaves_def)
  then show ?case using Cons.IH [of ws t'] Cons.prems v by simp
qed (auto simp: write_leaves_def)

lemma witness_roots:
  assumes "smt_laws T" "self_keyed T t" "distinct ks"
  obtains w where "build_witness T t ks = Inr w" "map leaf_key (wv_values w) = ks"
    and "wv_compute_root T w = Inr (smt_root T t)"
    and "wv_ensure_all_zero w = Inr () \<longleftrightarrow> set ks \<inter> dom (leaf_map T t) = {}"
    and "\<And>cs u. length cs = length ks \<Longrightarrow> leaf_map T u = write_leaves (zip ks cs) (leaf_map T t) \<Longrightarrow>
       wv_compute_root T (w\<lparr> wv_values := set_leaf_values (wv_values w) cs \<rparr>) = Inr (smt_root T u)"
proof -
  obtain w where w: "build_witness T t ks = Inr w" "map leaf_key (wv_values w) = ks"
    "\<forall>l\<in>set (wv_values w). leaf_value l = (case leaf_map T t (leaf_key l) of Some v \<Rightarrow> v | None \<Rightarrow> H256_ZERO)"
    "\<And>vs u. length vs = length ks \<Longrightarrow> leaf_map T u = write_leaves (zip ks vs) (leaf_map T t) \<Longrightarrow>
       wv_compute_root T (w\<lparr> wv_values := map (\<lambda>(k, v). witness_leaf_new k v) (zip ks vs) \<rparr>) = Inr (smt_root T u)"
    using build_witness_ok [OF assms(1,3), of t] by blast
  have l: "length (wv_values w) = length ks" using w(2) by auto
  have s: "set_leaf_values (wv_values w) cs = map (\<lambda>(k, v). witness_leaf_new k v) (zip ks cs)"
    if "length cs = length ks" for cs
    using set_leaf_values_zip [of "wv_values w" cs] that l w(2) by simp
  let ?val = "\<lambda>k. case leaf_map T t k of Some v \<Rightarrow> v | None \<Rightarrow> H256_ZERO"
  have "leaf_value l = ?val (leaf_key l)" if "l \<in> set (wv_values w)" for l using w(3) that by blast
  then have "map (\<lambda>l. witness_leaf_new (leaf_key l) (?val (leaf_key l))) (wv_values w) = wv_values w"
    by (intro map_idI) (simp add: witness_leaf_new_def)
  then have "map (\<lambda>k. witness_leaf_new k (?val k)) ks = wv_values w"
    using w(2) by (metis (no_types, lifting) comp_apply list.map_comp map_eq_conv)
  then have vals: "map (\<lambda>(k, v). witness_leaf_new k v) (zip ks (map ?val ks)) = wv_values w"
    by (simp add: zip_map2 zip_same_conv_map comp_def)
  have nz: "v \<noteq> H256_ZERO" if "leaf_map T t k = Some v" for k v
    using that smt_nonzero [OF assms(1)] by (auto simp: leaf_map_def dest: map_of_SomeD)
  have "map_of (zip ks (map ?val ks)) k = (if k \<in> set ks then Some (?val k) else None)" for k
    by (induction ks) auto
  then have "leaf_map T t = write_leaves (zip ks (map ?val ks)) (leaf_map T t)"
    using nz by (auto simp: fun_eq_iff write_leaves_zip [OF assms(3)] split: option.splits)
  then have r: "wv_compute_root T w = Inr (smt_root T t)"
    using w(4) [of "map ?val ks" t] by (simp add: vals)
  have "wv_ensure_all_zero w = Inr () \<longleftrightarrow> (\<forall>k\<in>set ks. ?val k = H256_ZERO)"
    unfolding wv_ensure_all_zero_iff w(2) [symmetric] using w(3) by auto
  also have "\<dots> \<longleftrightarrow> set ks \<inter> dom (leaf_map T t) = {}"
    using nz by (force split: option.splits)
  finally show ?thesis using that [OF w(1,2) r] w(4) s by simp
qed

lemma guest_input:
  assumes "smt_laws T" "state_inv T s"
    and "distinct (filter_keys ck False)" "distinct (filter_keys nk True)"
  obtains g where "to_zkvm_state T s cfg ck nk = Inr g" "config g = cfg"
    and "zk_roots g = resize MAX_ROOTS (replicate 8 0) (roots s)"
    and "map leaf_key (wv_values (created_notes g)) = filter_keys ck False"
    and "map leaf_key (wv_values (nullified_notes g)) = filter_keys nk True"
    and "zk_commit T g = Some (state_commitment T s)"
    and "wv_ensure_all_zero (created_notes g) = Inr () \<longleftrightarrow> set (filter_keys ck False) \<inter> created_set T s = {}"
    and "wv_ensure_all_zero (nullified_notes g) = Inr () \<longleftrightarrow> set (filter_keys nk True) \<inter> nullified_set T s = {}"
    and "\<And>cs ns u v. length cs = length (filter_keys ck False) \<Longrightarrow> length ns = length (filter_keys nk True) \<Longrightarrow>
       leaf_map T u = write_leaves (zip (filter_keys ck False) cs) (leaf_map T (notes_tree s)) \<Longrightarrow>
       leaf_map T v = write_leaves (zip (filter_keys nk True) ns) (leaf_map T (nullified_tree s)) \<Longrightarrow>
       zk_commit T (write_values g cs ns) =
       Some (state_commitment T (s\<lparr> notes_tree := u, nullified_tree := v \<rparr>))"
proof -
  let ?c = "filter_keys ck False" and ?n = "filter_keys nk True"
  have sk: "self_keyed T (notes_tree s)" "self_keyed T (nullified_tree s)"
    using assms(2) by (simp_all add: state_inv_def)
  obtain w where w: "build_witness T (notes_tree s) ?c = Inr w" "map leaf_key (wv_values w) = ?c"
      "wv_compute_root T w = Inr (smt_root T (notes_tree s))"
      "wv_ensure_all_zero w = Inr () \<longleftrightarrow> set ?c \<inter> dom (leaf_map T (notes_tree s)) = {}"
      "\<And>cs u. length cs = length ?c \<Longrightarrow> leaf_map T u = write_leaves (zip ?c cs) (leaf_map T (notes_tree s)) \<Longrightarrow>
       wv_compute_root T (w\<lparr> wv_values := set_leaf_values (wv_values w) cs \<rparr>) = Inr (smt_root T u)"
    by (rule witness_roots [OF assms(1) sk(1) assms(3)]) (rule that)
  obtain x where x: "build_witness T (nullified_tree s) ?n = Inr x" "map leaf_key (wv_values x) = ?n"
      "wv_compute_root T x = Inr (smt_root T (nullified_tree s))"
      "wv_ensure_all_zero x = Inr () \<longleftrightarrow> set ?n \<inter> dom (leaf_map T (nullified_tree s)) = {}"
      "\<And>cs u. length cs = length ?n \<Longrightarrow> leaf_map T u = write_leaves (zip ?n cs) (leaf_map T (nullified_tree s)) \<Longrightarrow>
       wv_compute_root T (x\<lparr> wv_values := set_leaf_values (wv_values x) cs \<rparr>) = Inr (smt_root T u)"
    by (rule witness_roots [OF assms(1) sk(2) assms(4)]) (rule that)
  show ?thesis
    by (rule that [of "\<lparr> created_notes = w, nullified_notes = x, config = cfg,
          zk_roots = resize MAX_ROOTS (replicate 8 0) (roots s) \<rparr>"])
      (simp_all add: w x to_zkvm_state_def Let_def length_resize zk_commit_def state_commitment_def write_values_def
        created_set_def nullified_set_def)
qed

section \<open>Properties\<close>

lemma recorded_map:
  assumes "smt_laws T" "self_keyed T t" "self_keyed T u" "distinct ks" "H256_ZERO \<notin> set ks"
    and "dom (leaf_map T u) = dom (leaf_map T t) \<union> set ks"
  shows "leaf_map T u = write_leaves (zip ks ks) (leaf_map T t)"
proof
  fix k
  have sk: "leaf_map T x k = (if k \<in> dom (leaf_map T x) then Some k else None)" if "self_keyed T x" for x
    using that assms(1) by (auto simp: self_keyed_iff)
  show "leaf_map T u k = write_leaves (zip ks ks) (leaf_map T t) k"
    unfolding write_leaves_self [OF assms(4,5)] sk [OF assms(2)] sk [OF assms(3)] assms(6) by simp
qed

text \<open>
  C4: the guest's witness tracks the executor's trees. For a state satisfying the
  invariant and a transaction whose kept keys are distinct, the executor can build the
  guest's input; the guest commits to the executor's state before the transaction; its
  check that all witness values are zero passes exactly when the executor records both
  key lists without error; and then, after \<^verbatim>\<open>apply_action\<close>, the guest commits to the
  executor's state after the transaction.
\<close>

theorem guest_tracks_executor:
  assumes "smt_laws T" "state_inv T s"
    and "find (\<lambda>(_, b). blob_contract_name b = utxo_contract_name cfg) (cd_blobs cd) = Some (i, b)"
    and "parse_hyli_utxo_blob (blob_data b) = Inr (created, nullified)"
    and "distinct (filter_keys created False)" "distinct (filter_keys nullified True)"
  shows "\<exists>g g'. to_zkvm_state T s cfg created nullified = Inr g \<and>
    zk_commit T g = Some (state_commitment T s) \<and>
    apply_action g cd = (g', Inr ()) \<and>
    (wv_ensure_all_zero (created_notes g) = Inr () \<and> wv_ensure_all_zero (nullified_notes g) = Inr () \<longleftrightarrow>
       isOk (snd (record_nullified T s nullified)) \<and> isOk (snd (record_created T s created))) \<and>
    (isOk (snd (record_nullified T s nullified)) \<and> isOk (snd (record_created T s created)) \<longrightarrow>
       zk_commit T g' = Some (state_commitment T (fst (record_created T (fst (record_nullified T s nullified)) created))))"
proof -
  let ?c = "filter_keys created False" and ?n = "filter_keys nullified True"
  have good: "good_state T s" using assms(1,2) by (simp add: good_state_def)
  have sk: "self_keyed T (notes_tree s)" "self_keyed T (nullified_tree s)"
    using assms(2) by (simp_all add: state_inv_def)
  obtain g where g: "to_zkvm_state T s cfg created nullified = Inr g" "config g = cfg"
      "map leaf_key (wv_values (created_notes g)) = ?c" "map leaf_key (wv_values (nullified_notes g)) = ?n"
      "zk_commit T g = Some (state_commitment T s)"
      "wv_ensure_all_zero (created_notes g) = Inr () \<longleftrightarrow> set ?c \<inter> created_set T s = {}"
      "wv_ensure_all_zero (nullified_notes g) = Inr () \<longleftrightarrow> set ?n \<inter> nullified_set T s = {}"
    and upd: "\<And>cs ns u v. length cs = length ?c \<Longrightarrow> length ns = length ?n \<Longrightarrow>
       leaf_map T u = write_leaves (zip ?c cs) (leaf_map T (notes_tree s)) \<Longrightarrow>
       leaf_map T v = write_leaves (zip ?n ns) (leaf_map T (nullified_tree s)) \<Longrightarrow>
       zk_commit T (write_values g cs ns) =
       Some (state_commitment T (s\<lparr> notes_tree := u, nullified_tree := v \<rparr>))"
    by (rule guest_input [OF assms(1,2,5,6)]) (rule that)
  let ?g' = "write_values g ?c ?n"
  let ?s1 = "fst (record_nullified T s nullified)"
  let ?s2 = "fst (record_created T ?s1 created)"
  have "length (wv_values (created_notes g)) = length ?c" "length (wv_values (nullified_notes g)) = length ?n"
    using g(3,4) by (metis length_map)+
  then have t3: "apply_action g cd = (?g', Inr ())"
    using assms(3,4) g(2) by (subst apply_action_ok) simp_all
  have t4: "wv_ensure_all_zero (created_notes g) = Inr () \<and> wv_ensure_all_zero (nullified_notes g) = Inr () \<longleftrightarrow>
      isOk (snd (record_nullified T s nullified)) \<and> isOk (snd (record_created T s created))"
    using g(6,7) created.add_ok_iff [OF good, of created] nullified.add_ok_iff [OF good, of nullified] assms(5,6)
    by (auto simp: filter_keys_created filter_keys_nullified)
  have t5: "zk_commit T ?g' = Some (state_commitment T ?s2)"
    if ok: "isOk (snd (record_nullified T s nullified)) \<and> isOk (snd (record_created T s created))"
  proof -
    have g1: "good_state T ?s1" and f1: "notes_tree ?s1 = notes_tree s"
      using nullified.add_good [OF good] record_nullified_frame [OF good] by simp_all
    have ok2: "isOk (snd (record_created T ?s1 created))"
      using ok created.add_ok_iff [OF good, of created] created.add_ok_iff [OF g1, of created] f1
      by (simp add: created_set_def)
    have g2: "good_state T ?s2" and f2: "nullified_tree ?s2 = nullified_tree ?s1"
      using created.add_good [OF g1] record_created_frame [OF g1] by simp_all
    have d: "dom (leaf_map T (notes_tree ?s2)) = dom (leaf_map T (notes_tree s)) \<union> set ?c"
      "dom (leaf_map T (nullified_tree ?s2)) = dom (leaf_map T (nullified_tree s)) \<union> set ?n"
      using created.add_result [OF g1 ok2] nullified.add_result [OF good, of nullified] ok f1 f2
      by (simp_all add: created_set_def nullified_set_def filter_keys_created filter_keys_nullified)
    have sk2: "self_keyed T (notes_tree ?s2)" "self_keyed T (nullified_tree ?s2)"
      using g2 by (simp_all add: good_state_def state_inv_def)
    have z: "H256_ZERO \<notin> set ?c" "H256_ZERO \<notin> set ?n" by (simp_all add: filter_keys_def)
    have "zk_commit T ?g' = Some (state_commitment T (s\<lparr> notes_tree := notes_tree ?s2, nullified_tree := nullified_tree ?s2 \<rparr>))"
      by (intro upd recorded_map assms(1,5,6) sk sk2 z d refl)
    then show ?thesis by (simp add: state_commitment_def)
  qed
  show ?thesis using g(1,5) t3 t4 t5 by (intro exI [of _ g] exI [of _ ?g']) simp
qed

definition toy_config :: contract_config where
  "toy_config = \<lparr> utxo_contract_name = ''utxo'', smt_incl_proof_contract_name = ''smt'', smt_contract_name = ''token'' \<rparr>"

definition toy_blob :: "byte \<Rightarrow> blob" where
  "toy_blob x = \<lparr> blob_contract_name = ''utxo'',
     blob_data = replicate 32 1 @ replicate 32 2 @ replicate 32 x @ PADDING_NULLIFIER \<rparr>"

definition toy_smt_blob :: "byte \<Rightarrow> blob" where
  "toy_smt_blob x = \<lparr> blob_contract_name = ''smt'',
     blob_data = replicate 32 x @ PADDING_NULLIFIER @ replicate 32 0 \<rparr>"

definition toy_calldata :: "byte \<Rightarrow> calldata" where
  "toy_calldata x = \<lparr> cd_blobs = [(0, \<lparr> blob_contract_name = ''state'', blob_data = [0] \<rparr>), (1, toy_blob x),
     (2, toy_smt_blob x)], cd_index = 0, cd_identity = ''alice'', cd_tx_blob_count = 3 \<rparr>"

definition toy_sdk :: sdk_ops where
  "toy_sdk = \<lparr> parse_calldata = (\<lambda>cd. Inr \<lparr> callees_blobs = map snd (drop 2 (cd_blobs cd)) \<rparr>),
     structured_parameters = Some \<rparr>"

lemma toy_calldata_find:
  "find (\<lambda>(_, b). blob_contract_name b = utxo_contract_name toy_config) (cd_blobs (toy_calldata x)) = Some (1, toy_blob x)"
  by (simp add: toy_calldata_def toy_config_def toy_blob_def)

lemma length_PADDING_NULLIFIER [simp]: "length PADDING_NULLIFIER = 32"
  by (simp add: PADDING_NULLIFIER_def)

lemma toy_blob_parse:
  "parse_hyli_utxo_blob (blob_data (toy_blob x)) =
     Inr ([replicate 32 1, replicate 32 2], [replicate 32 x, PADDING_NULLIFIER])"
  by (simp add: toy_blob_def parse_hyli_utxo_blob_concat)

lemma toy_keys:
  "filter_keys [replicate 32 1, replicate 32 2] False = [replicate 32 1, replicate 32 2]"
  "filter_keys [replicate 32 3, PADDING_NULLIFIER] True = [replicate 32 3]"
  "replicate 32 (1 :: byte) \<noteq> replicate 32 2"
  by code_simp+

theorem guest_tracks_executor_witness:
  "\<exists>g. to_zkvm_state toy_smt (state_default toy_smt) toy_config [replicate 32 1, replicate 32 2]
       [replicate 32 3, PADDING_NULLIFIER] = Inr g \<and>
     zk_commit toy_smt g = Some (state_commitment toy_smt (state_default toy_smt))"
proof -
  have d: "distinct (filter_keys [replicate 32 1, replicate 32 2] False)"
    "distinct (filter_keys [replicate 32 3, PADDING_NULLIFIER] True)"
    unfolding toy_keys using toy_keys(3) by simp_all
  show ?thesis
    using guest_tracks_executor [OF toy_smt_laws toy_state_inv toy_calldata_find toy_blob_parse d] by blast
qed

lemma zk_execute_ok_iff:
  "isOk (snd (zk_execute S z cd)) \<longleftrightarrow>
     (\<exists>ctx. parse_calldata S cd = Inr ctx \<and> wv_ensure_all_zero (created_notes z) = Inr () \<and>
        wv_ensure_all_zero (nullified_notes z) = Inr () \<and> isOk (snd (check_noir_blobs S z cd ctx)) \<and>
        isOk (snd (apply_action z cd)))"
  by (cases "parse_calldata S cd"; cases "wv_ensure_all_zero (created_notes z)";
      cases "wv_ensure_all_zero (nullified_notes z)")
    (auto simp: zk_execute_def split: prod.splits sum.splits)

lemma apply_action_unchanged: "\<not> isOk (snd (apply_action z cd)) \<Longrightarrow> fst (apply_action z cd) = z"
  by (auto simp: apply_action_def Let_def split: option.splits prod.splits sum.splits if_splits)

lemma apply_action_ok_iff:
  assumes "find (\<lambda>(_, b). blob_contract_name b = utxo_contract_name (config z)) (cd_blobs cd) = Some (i, b)"
    and "parse_hyli_utxo_blob (blob_data b) = Inr (created, nullified)"
  shows "isOk (snd (apply_action z cd)) \<longleftrightarrow>
    length (wv_values (created_notes z)) = length (filter_keys created False) \<and>
    length (wv_values (nullified_notes z)) = length (filter_keys nullified True)"
  using assms by (simp add: apply_action_def Let_def)

text \<open>
  C5: the guest accepts a transaction exactly when the SDK can parse it, every witness
  value is zero, the blobs are the accepted ones (the first UTXO blob has 128 bytes, the
  first inclusion-proof callee carries a structured payload of 96 bytes whose nullifiers
  equal those of the UTXO blob and whose root fingerprint is in the window, and besides it
  the callees hold at most one token blob and nothing else), and the witness has as many
  entries as the blob has kept keys. A rejected transaction leaves the guest unchanged.
\<close>

theorem guest_accepts_iff:
  "(isOk (snd (zk_execute S z cd)) \<longleftrightarrow>
     (\<exists>ctx i b. parse_calldata S cd = Inr ctx \<and>
        list_all (\<lambda>l. leaf_value l = H256_ZERO) (wv_values (created_notes z) @ wv_values (nullified_notes z)) \<and>
        blobs_accepted S z cd (callees_blobs ctx) \<and>
        find (\<lambda>(_, b). blob_contract_name b = utxo_contract_name (config z)) (cd_blobs cd) = Some (i, b) \<and>
        length (wv_values (created_notes z)) =
          length (filter_keys [take 32 (blob_data b), take 32 (drop 32 (blob_data b))] False) \<and>
        length (wv_values (nullified_notes z)) =
          length (filter_keys [take 32 (drop 64 (blob_data b)), drop 96 (blob_data b)] True))) \<and>
   (isOk (snd (zk_execute S z cd)) \<or> fst (zk_execute S z cd) = z)"
proof (intro conjI)
  have "isOk (snd (apply_action z cd)) \<longleftrightarrow>
      length (wv_values (created_notes z)) =
          length (filter_keys [take 32 (blob_data b), take 32 (drop 32 (blob_data b))] False) \<and>
      length (wv_values (nullified_notes z)) =
          length (filter_keys [take 32 (drop 64 (blob_data b)), drop 96 (blob_data b)] True)"
    if "find (\<lambda>(_, b). blob_contract_name b = utxo_contract_name (config z)) (cd_blobs cd) = Some (i, b)"
      "length (blob_data b) = 128" for i b
    using apply_action_ok_iff [OF that(1)] parse_hyli_utxo_blob_ok [OF that(2)] by blast
  then show "isOk (snd (zk_execute S z cd)) \<longleftrightarrow>
     (\<exists>ctx i b. parse_calldata S cd = Inr ctx \<and>
        list_all (\<lambda>l. leaf_value l = H256_ZERO) (wv_values (created_notes z) @ wv_values (nullified_notes z)) \<and>
        blobs_accepted S z cd (callees_blobs ctx) \<and>
        find (\<lambda>(_, b). blob_contract_name b = utxo_contract_name (config z)) (cd_blobs cd) = Some (i, b) \<and>
        length (wv_values (created_notes z)) =
          length (filter_keys [take 32 (blob_data b), take 32 (drop 32 (blob_data b))] False) \<and>
        length (wv_values (nullified_notes z)) =
          length (filter_keys [take 32 (drop 64 (blob_data b)), drop 96 (blob_data b)] True))"
    unfolding zk_execute_ok_iff check_noir_blobs_iff wv_ensure_all_zero_iff list_all_iff
    by (auto simp: blobs_accepted_def; blast)
  show "isOk (snd (zk_execute S z cd)) \<or> fst (zk_execute S z cd) = z"
    using apply_action_unchanged [of z cd] by (auto simp: zk_execute_def split: sum.splits prod.splits)
qed

text \<open>
  C8: the guest never looks at the keys of its witness. Take a spent state and a
  transaction whose created notes are new, but build the witness for other, unspent
  keys in place of the transaction's nullifiers: the guest still commits to the right
  state before, accepts the same transactions as far as the blobs go, and commits to a
  state whose nullified tree has the nullifiers stored under those other keys, even
  when the executor rejects the transaction because a nullifier is already spent.
\<close>

theorem guest_ignores_witness_keys:
  assumes "smt_laws T" "state_inv T s"
    and "find (\<lambda>(_, b). blob_contract_name b = utxo_contract_name cfg) (cd_blobs cd) = Some (i, b)"
    and "parse_hyli_utxo_blob (blob_data b) = Inr (created, nullified)"
    and "distinct (filter_keys created False)" "set (filter_keys created False) \<inter> created_set T s = {}"
    and "distinct (filter_keys others True)" "set (filter_keys others True) \<inter> nullified_set T s = {}"
    and "length (filter_keys others True) = length (filter_keys nullified True)"
    and "n \<in> set (filter_keys nullified True)" "n \<in> nullified_set T s"
  shows "\<exists>g g' u. to_zkvm_state T s cfg created others = Inr g \<and>
    zk_commit T g = Some (state_commitment T s) \<and>
    (\<forall>S ctx. parse_calldata S cd = Inr ctx \<longrightarrow>
       isOk (snd (zk_execute S g cd)) = blobs_accepted S g cd (callees_blobs ctx)) \<and>
    apply_action g cd = (g', Inr ()) \<and>
    leaf_map T (nullified_tree u) =
      write_leaves (zip (filter_keys others True) (filter_keys nullified True)) (leaf_map T (nullified_tree s)) \<and>
    zk_commit T g' = Some (state_commitment T u) \<and>
    \<not> isOk (snd (record_nullified T s nullified))"
proof -
  let ?c = "filter_keys created False" and ?n = "filter_keys nullified True" and ?o = "filter_keys others True"
  have good: "good_state T s" using assms(1,2) by (simp add: good_state_def)
  obtain g where g: "to_zkvm_state T s cfg created others = Inr g" "config g = cfg"
      "map leaf_key (wv_values (created_notes g)) = ?c" "map leaf_key (wv_values (nullified_notes g)) = ?o"
      "zk_commit T g = Some (state_commitment T s)"
      "wv_ensure_all_zero (created_notes g) = Inr () \<longleftrightarrow> set ?c \<inter> created_set T s = {}"
      "wv_ensure_all_zero (nullified_notes g) = Inr () \<longleftrightarrow> set ?o \<inter> nullified_set T s = {}"
    and upd: "\<And>cs ns u v. length cs = length ?c \<Longrightarrow> length ns = length ?o \<Longrightarrow>
       leaf_map T u = write_leaves (zip ?c cs) (leaf_map T (notes_tree s)) \<Longrightarrow>
       leaf_map T v = write_leaves (zip ?o ns) (leaf_map T (nullified_tree s)) \<Longrightarrow>
       zk_commit T (write_values g cs ns) =
       Some (state_commitment T (s\<lparr> notes_tree := u, nullified_tree := v \<rparr>))"
    by (rule guest_input [OF assms(1,2,5,7)]) (rule that)
  let ?g' = "write_values g ?c ?n"
  have "length (wv_values (created_notes g)) = length ?c" "length (wv_values (nullified_notes g)) = length ?n"
    using g(3,4) assms(9) by (metis length_map)+
  then have act: "apply_action g cd = (?g', Inr ())"
    using assms(3,4) g(2) by (subst apply_action_ok) simp_all
  have z: "H256_ZERO \<notin> set ?c" "H256_ZERO \<notin> set ?n" by (simp_all add: filter_keys_def)
  obtain u v where u: "leaf_map T u = write_leaves (zip ?c ?c) (leaf_map T (notes_tree s))"
      and v: "leaf_map T v = write_leaves (zip ?o ?n) (leaf_map T (nullified_tree s))"
    using tree_with_leaves_exists [OF assms(1) refl z(1)] tree_with_leaves_exists [OF assms(1) assms(9) [symmetric] z(2)] by blast
  have "zk_commit T ?g' = Some (state_commitment T (s\<lparr> notes_tree := u, nullified_tree := v \<rparr>))"
    using assms(9) by (intro upd u v) simp_all
  moreover have "\<not> isOk (snd (record_nullified T s nullified))"
    using nullified.add_ok_iff [OF good, of nullified] assms(10,11) by (auto simp: filter_keys_nullified)
  moreover have "isOk (snd (zk_execute S g cd)) = blobs_accepted S g cd (callees_blobs ctx)"
    if "parse_calldata S cd = Inr ctx" for S ctx
    using that g(6,7) assms(6,8) act by (simp add: zk_execute_ok_iff check_noir_blobs_iff)
  ultimately show ?thesis
    using g(1,5) act v by (intro exI [of _ g] exI [of _ ?g'] exI [of _ "s\<lparr> notes_tree := u, nullified_tree := v \<rparr>"]) simp
qed

lemma spent_toy_state:
  "state_inv toy_smt (fst (record_nullified toy_smt (state_default toy_smt) [replicate 32 3, PADDING_NULLIFIER]))"
  "created_set toy_smt (fst (record_nullified toy_smt (state_default toy_smt) [replicate 32 3, PADDING_NULLIFIER])) = {}"
  "nullified_set toy_smt (fst (record_nullified toy_smt (state_default toy_smt) [replicate 32 3, PADDING_NULLIFIER])) = {replicate 32 3}"
proof -
  have g: "good_state toy_smt (state_default toy_smt)" by (rule state_default_good [OF toy_smt_laws])
  note e = state_default_sets [OF toy_smt_laws]
  show "state_inv toy_smt (fst (record_nullified toy_smt (state_default toy_smt) [replicate 32 3, PADDING_NULLIFIER]))"
    using nullified.add_good [OF g] by (simp add: good_state_def)
  show "created_set toy_smt (fst (record_nullified toy_smt (state_default toy_smt) [replicate 32 3, PADDING_NULLIFIER])) = {}"
    using record_nullified_frame [OF g] e by (simp add: created_set_def)
  have k: "filter keep_nullified [replicate 32 3, PADDING_NULLIFIER] = [replicate 32 3]"
    using toy_keys(2) by (simp only: filter_keys_nullified)
  then show "nullified_set toy_smt (fst (record_nullified toy_smt (state_default toy_smt) [replicate 32 3, PADDING_NULLIFIER])) = {replicate 32 3}"
    using nullified.add_elems [OF g, of "[replicate 32 3, PADDING_NULLIFIER]"] e by (simp only: k) simp
qed

theorem guest_ignores_witness_keys_witness:
  "\<exists>g g'. to_zkvm_state toy_smt (fst (record_nullified toy_smt (state_default toy_smt) [replicate 32 3, PADDING_NULLIFIER]))
       toy_config [replicate 32 1, replicate 32 2] [replicate 32 4, PADDING_NULLIFIER] = Inr g \<and>
     apply_action g (toy_calldata 3) = (g', Inr ())"
proof -
  have o: "filter_keys [replicate 32 4, PADDING_NULLIFIER] True = [replicate 32 4]"
    and ne: "replicate 32 (4 :: byte) \<noteq> replicate 32 3" by code_simp+
  note t = spent_toy_state
  show ?thesis
    using guest_ignores_witness_keys [OF toy_smt_laws t(1) toy_calldata_find [of 3] toy_blob_parse [of 3],
        of "[replicate 32 4, PADDING_NULLIFIER]" "replicate 32 3"] toy_keys(3) ne
    unfolding toy_keys(1,2) o t(2,3) by simp blast
qed

section \<open>Batches\<close>

definition batch_items :: "'p zkvm_batch \<Rightarrow> 'p zkvm_state list" where
  "batch_items b = bt_current b # rev (bt_remaining b)"

interpretation batch: work_queue batch_items bt_current extend_with advance_step "\<lambda>z. zkvm_state_new (config z)"
proof unfold_locales
  fix b :: "'p zkvm_batch"
  show "batch_items (advance_step b) =
      (if tl (batch_items b) = [] then [zkvm_state_new (config (hd (batch_items b)))] else tl (batch_items b))"
    by (cases "bt_remaining b" rule: rev_cases) (simp_all add: batch_items_def advance_step_def)
qed (simp_all add: batch_items_def extend_with_def Let_def)

lemma batch_items_from_state [simp]: "batch_items (batch_from_state z) = [z]"
  by (simp add: batch_items_def batch_from_state_def)

text \<open>Settling \<^term>\<open>n\<close> transactions in a row: the commitments reported, in order.\<close>

fun settle_all :: "('t, 'p) smt_ops \<Rightarrow> nat \<Rightarrow> 'p zkvm_batch \<Rightarrow> ('p zkvm_batch \<times> byte list list) option" where
  "settle_all T 0 b = Some (b, [])"
| "settle_all T (Suc n) b =
     Option.bind (batch_on_success T b) (\<lambda>(b', c).
     map_option (\<lambda>(b'', cs). (b'', c # cs)) (settle_all T n b'))"

lemma settle_all_eq:
  "n \<le> length (batch_items b) \<Longrightarrow> list_all2 (\<lambda>z c. zk_commit T z = Some c) (take n (batch_items b)) cs \<Longrightarrow>
   settle_all T n b = Some ((advance_step ^^ n) b, cs)"
proof (induction n arbitrary: b cs)
  case (Suc n)
  have h: "batch_items b = bt_current b # rev (bt_remaining b)" by (simp add: batch_items_def)
  obtain c ds where cs: "cs = c # ds" "zk_commit T (bt_current b) = Some c"
    "list_all2 (\<lambda>z c. zk_commit T z = Some c) (take n (rev (bt_remaining b))) ds"
    using Suc.prems(2) by (auto simp: h list_all2_Cons1)
  have t: "n \<le> length (batch_items (advance_step b))"
    "take n (batch_items (advance_step b)) = take n (rev (bt_remaining b))"
    using Suc.prems(1) by (auto simp: batch.advance_items h)
  have "settle_all T n (advance_step b) = Some ((advance_step ^^ n) (advance_step b), ds)"
    using t cs(3) by (intro Suc.IH) simp_all
  then show ?case using cs by (simp add: batch_on_success_def funpow_swap1)
qed simp

text \<open>
  batches are served first in, first out. Extending a batch step by step and then
  settling as many transactions reports the commitments of the steps in the order they
  were added; after the last one the batch holds an empty guest state with the same
  configuration; and reverting after an execution restores the batch.
\<close>

theorem batch_settles_in_order:
  assumes "list_all2 (\<lambda>z c. zk_commit T z = Some c) (z # zs) cs"
  shows "\<exists>b. settle_all T (length (z # zs)) (foldl extend_with (batch_from_state z) (map batch_from_state zs)) = Some (b, cs) \<and>
    bt_current b = zkvm_state_new (config (last (z # zs))) \<and>
    batch_revert (fst (batch_execute S b cd)) (batch_initial_state b) = b"
proof -
  let ?b = "foldl extend_with (batch_from_state z) (map batch_from_state zs)"
  have i: "batch_items ?b = z # zs"
    by (simp add: batch.join_all_items comp_def concat_map_singleton)
  then have "settle_all T (length (z # zs)) ?b = Some ((advance_step ^^ length (batch_items ?b)) ?b, cs)"
    using settle_all_eq [of "length (z # zs)" ?b T cs] assms by simp
  then show ?thesis using batch.exhausted_is_fresh [of ?b] i
    by (simp add: batch_revert_def batch_initial_state_def)
qed

theorem batch_settles_in_order_witness:
  "\<exists>b. settle_all toy_smt 2 (extend_with (batch_from_state (zkvm_state_new toy_config))
      (batch_from_state (zkvm_state_new toy_config))) =
    Some (b, [replicate 64 0, replicate 64 0])"
proof -
  have c: "zk_commit toy_smt (zkvm_state_new toy_config) = Some (replicate 64 0)"
    by (simp add: zk_commit_def zkvm_state_new_def wv_default_def witness_proof_default_def wv_compute_root_def
        snapshot_to_vec_def h256_serialize_def H256_ZERO_def flip: replicate_add)
  show ?thesis
    using batch_settles_in_order [of toy_smt "zkvm_state_new toy_config" "[zkvm_state_new toy_config]"
        "[replicate 64 0, replicate 64 0]"] c by (auto simp: numeral_2_eq_2)
qed

text \<open>
  the fingerprints the guest accepts. The window handed to the guest has 1000 entries:
  the executor's recent fingerprints, and zero fingerprints in the unused places. While
  fewer than 1000 roots have been recorded, an inclusion proof against a root that starts
  with eight zero bytes passes the root check.
\<close>

theorem guest_window:
  assumes "length (roots s) \<le> MAX_ROOTS" "to_zkvm_state T s cfg ck nk = Inr g"
  shows "length (zk_roots g) = MAX_ROOTS \<and> take (length (roots s)) (zk_roots g) = roots s \<and>
    set (zk_roots g) = set (roots s) \<union> (if length (roots s) < MAX_ROOTS then {replicate 8 0} else {}) \<and>
    config g = cfg"
  using assms set_resize [OF assms(1), of "replicate 8 0"]
  by (auto simp: to_zkvm_state_def Let_def result_simps length_resize) (auto simp: resize_def)

theorem guest_window_witness:
  "\<exists>g. to_zkvm_state toy_smt (state_default toy_smt) toy_config [] [] = Inr g \<and> replicate 8 0 \<in> set (zk_roots g)"
proof -
  obtain g where g: "to_zkvm_state toy_smt (state_default toy_smt) toy_config [] [] = Inr g"
    by (rule guest_input [OF toy_smt_laws toy_state_inv, of "[]" "[]" toy_config]) (simp_all add: filter_keys_def)
  have "length (roots (state_default toy_smt)) < MAX_ROOTS" by (simp add: state_default_def MAX_ROOTS_def)
  then show ?thesis using g guest_window [OF less_imp_le g] by auto
qed

end
