(* ===== verification/Borsh.thy ===== *)
theory Borsh
  imports Notes
begin

text \<open>
  The derived Borsh codecs the program uses for what it stores and sends: fields in
  order, sequences with a 32-bit little-endian length, strings as their bytes.  The
  locale \<^verbatim>\<open>stream_codec\<close> is the contract of every such codec: reading what was written
  returns the value and leaves the rest of the stream.
\<close>

section \<open>The contract\<close>

locale stream_codec =
  fixes enc :: "'a \<Rightarrow> byte list"
    and dec :: "byte list \<Rightarrow> ('a \<times> byte list) option"
    and fits :: "'a \<Rightarrow> bool"
  assumes dec_enc: "fits x \<Longrightarrow> dec (enc x @ r) = Some (x, r)"
begin

lemma enc_inj: "fits x \<Longrightarrow> fits y \<Longrightarrow> enc x = enc y \<Longrightarrow> x = y"
  using dec_enc [of x "[]"] dec_enc [of y "[]"] by (metis option.inject prod.inject)

lemma enc_prefix: "fits x \<Longrightarrow> fits y \<Longrightarrow> enc x @ r = enc y @ q \<Longrightarrow> x = y \<and> r = q"
  using dec_enc [of x r] dec_enc [of y q] by (metis option.inject prod.inject)

end

section \<open>Sequences\<close>

definition borsh_seq :: "('a \<Rightarrow> byte list) \<Rightarrow> 'a list \<Rightarrow> byte list" where
  "borsh_seq enc xs = word_to_le (of_nat (length xs) :: u32) @ concat (map enc xs)"

fun read_items :: "(byte list \<Rightarrow> ('a \<times> byte list) option) \<Rightarrow> nat \<Rightarrow> byte list \<Rightarrow> ('a list \<times> byte list) option" where
  "read_items dec 0 r = Some ([], r)"
| "read_items dec (Suc n) r =
     Option.bind (dec r) (\<lambda>(x, r).
     Option.bind (read_items dec n r) (\<lambda>(xs, r). Some (x # xs, r)))"

definition read_seq :: "(byte list \<Rightarrow> ('a \<times> byte list) option) \<Rightarrow> byte list \<Rightarrow> ('a list \<times> byte list) option" where
  "read_seq dec r =
     Option.bind (read_exact 4 r) (\<lambda>(len, r). read_items dec (unat (word_from_le len :: u32)) r)"

lemma read_exact_append [simp]: "length a = n \<Longrightarrow> read_exact n (a @ r) = Some (a, r)"
  by (simp add: read_exact_def)

context stream_codec
begin

lemma read_items_ok: "\<forall>x\<in>set xs. fits x \<Longrightarrow> read_items dec (length xs) (concat (map enc xs) @ r) = Some (xs, r)"
  by (induction xs) (simp_all add: dec_enc)

lemma read_array: "\<forall>x\<in>set xs. fits x \<Longrightarrow> length xs = n \<Longrightarrow> read_items dec n (concat (map enc xs) @ r) = Some (xs, r)"
  using read_items_ok by blast

lemma sequences: "stream_codec (borsh_seq enc) (read_seq dec) (\<lambda>xs. (\<forall>x\<in>set xs. fits x) \<and> length xs < 2 ^ 32)"
proof
  fix xs r
  assume "(\<forall>x\<in>set xs. fits x) \<and> length xs < 2 ^ 32"
  then show "read_seq dec (borsh_seq enc xs @ r) = Some (xs, r)"
    by (simp add: read_seq_def borsh_seq_def u32_le.dec_enc unat_of_nat read_items_ok)
qed

end

section \<open>Fixed arrays, bytes and strings\<close>

definition borsh_bytes :: "byte list \<Rightarrow> byte list" where
  "borsh_bytes b = b"

interpretation bytes8: stream_codec borsh_bytes "read_exact 8" "\<lambda>b. length b = 8"
  by unfold_locales (simp add: borsh_bytes_def)

interpretation bytes32: stream_codec borsh_bytes "read_exact 32" "\<lambda>b. length b = 32"
  by unfold_locales (simp add: borsh_bytes_def)

text \<open>A string is the list of its UTF-8 bytes; other bytes are rejected on reading.\<close>

definition char_byte :: "char \<Rightarrow> byte list" where
  "char_byte c = string_bytes [c]"

definition read_char :: "byte list \<Rightarrow> (char \<times> byte list) option" where
  "read_char r = (if r = [] then None else Some (char_of (unat (hd r)), tl r))"

interpretation char_codec: stream_codec char_byte read_char "\<lambda>_. True"
  by unfold_locales (simp add: char_byte_def read_char_def string_bytes_def unat_of_nat)

definition borsh_string :: "string \<Rightarrow> byte list" where
  "borsh_string s = borsh_seq char_byte s"

definition read_string :: "byte list \<Rightarrow> (string \<times> byte list) option" where
  "read_string r = Option.bind (read_seq read_char r) (\<lambda>(s, r).
     if utf8_valid (string_bytes s) then Some (s, r) else None)"

interpretation string_codec: stream_codec borsh_string read_string
  "\<lambda>s. length s < 2 ^ 32 \<and> utf8_valid (string_bytes s)"
proof
  fix x :: string and r
  assume a: "length x < 2 ^ 32 \<and> utf8_valid (string_bytes x)"
  then have "read_seq read_char (borsh_seq char_byte x @ r) = Some (x, r)"
    by (intro stream_codec.dec_enc [OF char_codec.sequences]) simp
  then show "read_string (borsh_string x @ r) = Some (x, r)"
    using a by (simp add: read_string_def borsh_string_def)
qed

text \<open>\<^verbatim>\<open>from_slice\<close>: the whole input must be consumed.\<close>

definition from_slice :: "(byte list \<Rightarrow> ('a \<times> byte list) option) \<Rightarrow> byte list \<Rightarrow> 'a option" where
  "from_slice dec bytes = (case dec bytes of Some (x, []) \<Rightarrow> Some x | _ \<Rightarrow> None)"

context stream_codec
begin

lemma from_slice_enc: "fits x \<Longrightarrow> from_slice dec (enc x) = Some x"
  using dec_enc [of x "[]"] by (simp add: from_slice_def)

lemma from_slice_trailing: "fits x \<Longrightarrow> r \<noteq> [] \<Longrightarrow> from_slice dec (enc x @ r) = None"
  using dec_enc [of x r] by (cases r) (simp_all add: from_slice_def)

end

end
