(* ===== verification/Metadata.thy ===== *)
theory Metadata
  imports ZkContract Borsh
begin

text \<open>
  The commitment metadata exchanged between the executor and the guest: the derived Borsh
  form of \<^verbatim>\<open>HyliUtxoZkVmBatch\<close> and everything in it (\<^verbatim>\<open>state.rs\<close>, \<^verbatim>\<open>zk/mod.rs\<close>,
  \<^verbatim>\<open>zk/smt.rs\<close>).  The codec of the Merkle proof belongs to the SDK and is a parameter.
\<close>

section \<open>Codecs\<close>

definition leaf_to_vec :: "witness_leaf \<Rightarrow> byte list" where
  "leaf_to_vec l = h256_serialize (leaf_key l) @ h256_serialize (leaf_value l)"

definition read_leaf :: "byte list \<Rightarrow> (witness_leaf \<times> byte list) option" where
  "read_leaf r =
     Option.bind (h256_deserialize r) (\<lambda>(k, r).
     Option.bind (h256_deserialize r) (\<lambda>(v, r). Some (\<lparr> leaf_key = k, leaf_value = v \<rparr>, r)))"

fun proof_to_vec :: "('p \<Rightarrow> byte list) \<Rightarrow> 'p witness_proof \<Rightarrow> byte list" where
  "proof_to_vec penc (SomeProof p) = 0 # penc p"
| "proof_to_vec penc (CurrentRootHash h) = 1 # h256_serialize h"

definition read_proof ::
  "(byte list \<Rightarrow> ('p \<times> byte list) option) \<Rightarrow> byte list \<Rightarrow> ('p witness_proof \<times> byte list) option" where
  "read_proof pdec r =
     Option.bind (read_exact 1 r) (\<lambda>(tag, r).
     if tag = [0] then map_option (\<lambda>(p, r). (SomeProof p, r)) (pdec r)
     else if tag = [1] then map_option (\<lambda>(h, r). (CurrentRootHash h, r)) (h256_deserialize r)
     else None)"

definition wv_to_vec :: "('p \<Rightarrow> byte list) \<Rightarrow> 'p witness_vec \<Rightarrow> byte list" where
  "wv_to_vec penc w = borsh_seq leaf_to_vec (wv_values w) @ proof_to_vec penc (wv_proof w)"

definition read_wv ::
  "(byte list \<Rightarrow> ('p \<times> byte list) option) \<Rightarrow> byte list \<Rightarrow> ('p witness_vec \<times> byte list) option" where
  "read_wv pdec r =
     Option.bind (read_seq read_leaf r) (\<lambda>(values, r).
     Option.bind (read_proof pdec r) (\<lambda>(p, r). Some (\<lparr> wv_values = values, wv_proof = p \<rparr>, r)))"

definition config_to_vec :: "contract_config \<Rightarrow> byte list" where
  "config_to_vec c = borsh_string (utxo_contract_name c) @
     borsh_string (smt_incl_proof_contract_name c) @ borsh_string (smt_contract_name c)"

definition read_config :: "byte list \<Rightarrow> (contract_config \<times> byte list) option" where
  "read_config r =
     Option.bind (read_string r) (\<lambda>(a, r).
     Option.bind (read_string r) (\<lambda>(b, r).
     Option.bind (read_string r) (\<lambda>(c, r).
     Some (\<lparr> utxo_contract_name = a, smt_incl_proof_contract_name = b, smt_contract_name = c \<rparr>, r))))"

definition zkvm_state_to_vec :: "('p \<Rightarrow> byte list) \<Rightarrow> 'p zkvm_state \<Rightarrow> byte list" where
  "zkvm_state_to_vec penc z = wv_to_vec penc (created_notes z) @ wv_to_vec penc (nullified_notes z) @
     config_to_vec (config z) @ concat (map borsh_bytes (zk_roots z))"

definition read_zkvm_state ::
  "(byte list \<Rightarrow> ('p \<times> byte list) option) \<Rightarrow> byte list \<Rightarrow> ('p zkvm_state \<times> byte list) option" where
  "read_zkvm_state pdec r =
     Option.bind (read_wv pdec r) (\<lambda>(a, r).
     Option.bind (read_wv pdec r) (\<lambda>(b, r).
     Option.bind (read_config r) (\<lambda>(c, r).
     Option.bind (read_items (read_exact 8) MAX_ROOTS r) (\<lambda>(rs, r).
     Some (\<lparr> created_notes = a, nullified_notes = b, config = c, zk_roots = rs \<rparr>, r)))))"

definition batch_to_vec :: "('p \<Rightarrow> byte list) \<Rightarrow> 'p zkvm_batch \<Rightarrow> byte list" where
  "batch_to_vec penc b = zkvm_state_to_vec penc (bt_current b) @
     borsh_seq (zkvm_state_to_vec penc) (bt_remaining b)"

definition read_batch ::
  "(byte list \<Rightarrow> ('p \<times> byte list) option) \<Rightarrow> byte list \<Rightarrow> ('p zkvm_batch \<times> byte list) option" where
  "read_batch pdec r =
     Option.bind (read_zkvm_state pdec r) (\<lambda>(z, r).
     Option.bind (read_seq (read_zkvm_state pdec) r) (\<lambda>(zs, r).
     Some (\<lparr> bt_current = z, bt_remaining = zs \<rparr>, r)))"

section \<open>What can be encoded\<close>

definition leaf_fits :: "witness_leaf \<Rightarrow> bool" where
  "leaf_fits l \<longleftrightarrow> length (leaf_key l) = 32 \<and> length (leaf_value l) = 32"

fun proof_fits :: "('p \<Rightarrow> bool) \<Rightarrow> 'p witness_proof \<Rightarrow> bool" where
  "proof_fits pfits (SomeProof p) = pfits p"
| "proof_fits pfits (CurrentRootHash h) = (length h = 32)"

definition wv_fits :: "('p \<Rightarrow> bool) \<Rightarrow> 'p witness_vec \<Rightarrow> bool" where
  "wv_fits pfits w \<longleftrightarrow> (\<forall>l\<in>set (wv_values w). leaf_fits l) \<and> length (wv_values w) < 2 ^ 32 \<and>
     proof_fits pfits (wv_proof w)"

definition string_fits :: "string \<Rightarrow> bool" where
  "string_fits s \<longleftrightarrow> length s < 2 ^ 32 \<and> utf8_valid (string_bytes s)"

definition config_fits :: "contract_config \<Rightarrow> bool" where
  "config_fits c \<longleftrightarrow> string_fits (utxo_contract_name c) \<and> string_fits (smt_incl_proof_contract_name c) \<and>
     string_fits (smt_contract_name c)"

definition zkvm_state_fits :: "('p \<Rightarrow> bool) \<Rightarrow> 'p zkvm_state \<Rightarrow> bool" where
  "zkvm_state_fits pfits z \<longleftrightarrow> wv_fits pfits (created_notes z) \<and> wv_fits pfits (nullified_notes z) \<and>
     config_fits (config z) \<and> length (zk_roots z) = MAX_ROOTS \<and> (\<forall>r\<in>set (zk_roots z). length r = 8)"

definition batch_fits :: "('p \<Rightarrow> bool) \<Rightarrow> 'p zkvm_batch \<Rightarrow> bool" where
  "batch_fits pfits b \<longleftrightarrow> zkvm_state_fits pfits (bt_current b) \<and>
     (\<forall>z\<in>set (bt_remaining b). zkvm_state_fits pfits z) \<and> length (bt_remaining b) < 2 ^ 32"

section \<open>Every codec meets the contract\<close>

interpretation leaf_codec: stream_codec leaf_to_vec read_leaf leaf_fits
  by unfold_locales (simp add: leaf_to_vec_def read_leaf_def leaf_fits_def h256_read)

interpretation config_codec: stream_codec config_to_vec read_config config_fits
  by unfold_locales
    (simp add: config_to_vec_def read_config_def config_fits_def string_fits_def string_codec.dec_enc)

lemma proof_codec: "stream_codec penc pdec pfits \<Longrightarrow> stream_codec (proof_to_vec penc) (read_proof pdec) (proof_fits pfits)"
proof
  fix x r
  assume "stream_codec penc pdec pfits" and "proof_fits pfits x"
  then show "read_proof pdec (proof_to_vec penc x @ r) = Some (x, r)"
    by (cases x) (simp_all add: read_proof_def read_exact_def stream_codec.dec_enc h256_read)
qed

lemma wv_codec: "stream_codec penc pdec pfits \<Longrightarrow> stream_codec (wv_to_vec penc) (read_wv pdec) (wv_fits pfits)"
proof
  fix x r
  assume p: "stream_codec penc pdec pfits" and x: "wv_fits pfits x"
  have "read_seq read_leaf (borsh_seq leaf_to_vec (wv_values x) @ q) = Some (wv_values x, q)" for q
    using x by (intro stream_codec.dec_enc [OF leaf_codec.sequences]) (simp add: wv_fits_def)
  then show "read_wv pdec (wv_to_vec penc x @ r) = Some (x, r)"
    using x stream_codec.dec_enc [OF proof_codec [OF p]] by (simp add: read_wv_def wv_to_vec_def wv_fits_def)
qed

lemma zkvm_state_codec:
  "stream_codec penc pdec pfits \<Longrightarrow>
   stream_codec (zkvm_state_to_vec penc) (read_zkvm_state pdec) (zkvm_state_fits pfits)"
proof
  fix x r
  assume p: "stream_codec penc pdec pfits" and x: "zkvm_state_fits pfits x"
  have "read_items (read_exact 8) MAX_ROOTS (concat (map borsh_bytes (zk_roots x)) @ r) = Some (zk_roots x, r)"
    using x by (intro bytes8.read_array) (simp_all add: zkvm_state_fits_def)
  then show "read_zkvm_state pdec (zkvm_state_to_vec penc x @ r) = Some (x, r)"
    using x stream_codec.dec_enc [OF wv_codec [OF p]] config_codec.dec_enc
    by (simp add: read_zkvm_state_def zkvm_state_to_vec_def zkvm_state_fits_def)
qed

lemma batch_codec:
  "stream_codec penc pdec pfits \<Longrightarrow> stream_codec (batch_to_vec penc) (read_batch pdec) (batch_fits pfits)"
proof
  fix x r
  assume p: "stream_codec penc pdec pfits" and x: "batch_fits pfits x"
  have "read_seq (read_zkvm_state pdec) (borsh_seq (zkvm_state_to_vec penc) (bt_remaining x) @ r) = Some (bt_remaining x, r)"
    using x by (intro stream_codec.dec_enc [OF stream_codec.sequences [OF zkvm_state_codec [OF p]]])
      (simp add: batch_fits_def)
  then show "read_batch pdec (batch_to_vec penc x @ r) = Some (x, r)"
    using x stream_codec.dec_enc [OF zkvm_state_codec [OF p]]
    by (simp add: read_batch_def batch_to_vec_def batch_fits_def)
qed

end
