(* ===== verification/Executor.thy ===== *)
theory Executor
  imports Metadata
begin

text \<open>
  The executor the node runs beside the contract:
  \<^verbatim>\<open>server/src/hyli_utxo_state_client.rs\<close>.  It applies settled transactions to the two
  trees, builds and merges the guest's inputs, clones itself through its serialisation,
  and answers queries for inclusion witnesses.  The SDK's decoders and its proof codec are
  parameters; a panic is \<^term>\<open>None\<close>.
\<close>

section \<open>State and parameters\<close>

record 't executor =
  ex_state :: "'t hyli_utxo_state"
  ex_config :: contract_config

record ('p, 'o) client_ops =
  proof_enc :: "'p \<Rightarrow> byte list"
  proof_dec :: "byte list \<Rightarrow> ('p \<times> byte list) option"
  is_state_action :: "byte list \<Rightarrow> bool"
  is_register_action :: "byte list \<Rightarrow> bool"
  as_hyli_output :: "byte list \<Rightarrow> byte list \<Rightarrow> calldata \<Rightarrow> byte list \<Rightarrow> 'o"

datatype exec_error =
    StateError state_error
  | UtxoStateBlobMissing
  | BlobUnreadable zk_error
  | MetadataRequired
  | MetadataUnreadable
  | StateBlobMissing
  | RegisterBlobMissing
  | RegisterUnreadable

section \<open>Cloning by serialisation\<close>

text \<open>
  The derived Borsh form of the state: both trees, then the deque of 8-byte fingerprints
  with its 32-bit length.  \<^verbatim>\<open>from_slice\<close> rejects unread bytes.
\<close>

definition state_to_vec :: "('t, 'p) smt_ops \<Rightarrow> 't hyli_utxo_state \<Rightarrow> byte list" where
  "state_to_vec T s = tree_serialize T (notes_tree s) @ tree_serialize T (nullified_tree s) @
     borsh_seq borsh_bytes (roots s)"

definition state_from_slice :: "('t, 'p) smt_ops \<Rightarrow> byte list \<Rightarrow> io_error option + 't hyli_utxo_state" where
  "state_from_slice T r =
     andThen (mapErr Some (tree_deserialize T r)) (\<lambda>(notes, r).
     andThen (mapErr Some (tree_deserialize T r)) (\<lambda>(nullified, r).
     andThen (okOr (Some UnexpectedEof) (read_seq (read_exact 8) r)) (\<lambda>(rs, r).
     if r \<noteq> [] then Inl None
     else Inr \<lparr> notes_tree = notes, nullified_tree = nullified, roots = rs \<rparr>)))"

definition executor_clone :: "('t, 'p) smt_ops \<Rightarrow> 't executor \<Rightarrow> 't executor option" where
  "executor_clone T e =
     (let encoded = state_to_vec T (ex_state e) in
      case state_from_slice T encoded of
        Inl _ \<Rightarrow> None
      | Inr state \<Rightarrow> Some \<lparr> ex_state = state, ex_config = ex_config e \<rparr>)"

section \<open>Applying transactions\<close>

definition executor_new :: "('t, 'p) smt_ops \<Rightarrow> contract_config \<Rightarrow> 't executor" where
  "executor_new T cfg = \<lparr> ex_state = state_default T, ex_config = cfg \<rparr>"

definition zkvm_witness ::
  "('t, 'p) smt_ops \<Rightarrow> 't executor \<Rightarrow> h256 list \<Rightarrow> h256 list \<Rightarrow> exec_error + 'p zkvm_state" where
  "zkvm_witness T e created_note_keys nullified_keys =
     mapErr StateError (to_zkvm_state T (ex_state e) (ex_config e) created_note_keys nullified_keys)"

text \<open>Nullifiers first, then the created notes, then the root window.\<close>

definition apply_commitments ::
  "('t, 'p) smt_ops \<Rightarrow> 't executor \<Rightarrow> h256 list \<Rightarrow> h256 list \<Rightarrow> 't executor \<times> (exec_error + unit)" where
  "apply_commitments T e nullified created =
     (case (if nullified \<noteq> [] then record_nullified T (ex_state e) nullified else (ex_state e, Inr ())) of
        (s, Inl x) \<Rightarrow> (e\<lparr> ex_state := s \<rparr>, Inl (StateError x))
      | (s, Inr _) \<Rightarrow>
     case (if created \<noteq> [] then record_created T s created else (s, Inr ())) of
        (s, Inl x) \<Rightarrow> (e\<lparr> ex_state := s \<rparr>, Inl (StateError x))
      | (s, Inr _) \<Rightarrow> (e\<lparr> ex_state := update_roots T s \<rparr>, Inr ()))"

definition update_from_blob ::
  "('t, 'p) smt_ops \<Rightarrow> 't executor \<Rightarrow> calldata \<Rightarrow> 't executor \<times> (exec_error + h256 list \<times> h256 list)" where
  "update_from_blob T e cd =
     (case find (\<lambda>(_, b). blob_contract_name b = utxo_contract_name (ex_config e)) (cd_blobs cd) of
        None \<Rightarrow> (e, Inl UtxoStateBlobMissing)
      | Some (_, utxo_blob) \<Rightarrow>
     case parse_hyli_utxo_blob (blob_data utxo_blob) of
        Inl x \<Rightarrow> (e, Inl (BlobUnreadable x))
      | Inr (created, nullified) \<Rightarrow>
     case apply_commitments T e nullified created of
        (e', Inl x) \<Rightarrow> (e', Inl x)
      | (e', Inr _) \<Rightarrow> (e', Inr (created, nullified)))"

definition get_state_commitment :: "('t, 'p) smt_ops \<Rightarrow> 't executor \<Rightarrow> byte list" where
  "get_state_commitment T e = state_commitment T (ex_state e)"

definition construct_state ::
  "('t, 'p) smt_ops \<Rightarrow> byte list option \<Rightarrow> exec_error + 't executor" where
  "construct_state T metadata =
     (case metadata of
        None \<Rightarrow> Inl MetadataRequired
      | Some bytes \<Rightarrow>
          mapOk (\<lambda>cfg. \<lparr> ex_state = state_default T, ex_config = cfg \<rparr>)
            (okOr MetadataUnreadable (from_slice read_config bytes)))"

definition build_commitment_metadata ::
  "('t, 'p) smt_ops \<Rightarrow> ('p, 'o) client_ops \<Rightarrow> 't executor \<Rightarrow> calldata \<Rightarrow> exec_error + byte list" where
  "build_commitment_metadata T K e cd =
     andThen (okOr UtxoStateBlobMissing
       (find (\<lambda>(_, b). blob_contract_name b = utxo_contract_name (ex_config e)) (cd_blobs cd))) (\<lambda>(_, b).
     andThen (mapErr BlobUnreadable (parse_hyli_utxo_blob (blob_data b))) (\<lambda>(created, nullified).
     andThen (zkvm_witness T e created nullified) (\<lambda>witness.
     Inr (batch_to_vec (proof_enc K) (batch_from_state witness)))))"

datatype merge_error = InitialUnreadable | NextUnreadable

definition merge_commitment_metadata ::
  "('p, 'o) client_ops \<Rightarrow> byte list \<Rightarrow> byte list \<Rightarrow> merge_error + byte list" where
  "merge_commitment_metadata K initial next_metadata =
     andThen (okOr InitialUnreadable (from_slice (read_batch (proof_dec K)) initial)) (\<lambda>initial_batch.
     andThen (okOr NextUnreadable (from_slice (read_batch (proof_dec K)) next_metadata)) (\<lambda>next_batch.
     Inr (batch_to_vec (proof_enc K) (extend_with initial_batch next_batch))))"

definition IGNORED_PLACEHOLDER :: "byte list" where
  "IGNORED_PLACEHOLDER = string_bytes ''Ignoring placeholder blob''"

definition handle ::
  "('t, 'p) smt_ops \<Rightarrow> ('p, 'o) client_ops \<Rightarrow> 't executor \<Rightarrow> calldata \<Rightarrow> 't executor \<times> (exec_error + 'o)" where
  "handle T K e cd =
     (let initial_commitment = get_state_commitment T e in
      case map_of (cd_blobs cd) (cd_index cd) of
        None \<Rightarrow> (e, Inl StateBlobMissing)
      | Some state_blob \<Rightarrow>
     if \<not> is_state_action K (blob_data state_blob) then
       (case map_of (cd_blobs cd) 0 of
          None \<Rightarrow> (e, Inl RegisterBlobMissing)
        | Some b \<Rightarrow>
            if is_register_action K (blob_data b)
            then (e, Inr (as_hyli_output K initial_commitment initial_commitment cd IGNORED_PLACEHOLDER))
            else (e, Inl RegisterUnreadable))
     else
     case update_from_blob T e cd of
        (e', Inl x) \<Rightarrow> (e', Inl x)
      | (e', Inr _) \<Rightarrow>
          (let next_commitment = get_state_commitment T e' in
           (e', Inr (as_hyli_output K initial_commitment next_commitment cd []))))"

section \<open>Events and queries\<close>

record blob_transaction =
  tx_identity :: string
  tx_blobs :: "blob list"

definition calldata_of_tx :: "blob_transaction \<Rightarrow> nat \<Rightarrow> calldata" where
  "calldata_of_tx tx index =
     \<lparr> cd_blobs = enumerate 0 (tx_blobs tx), cd_index = index, cd_identity = tx_identity tx,
       cd_tx_blob_count = length (tx_blobs tx) \<rparr>"

definition handle_transaction_success ::
  "('t, 'p) smt_ops \<Rightarrow> ('p, 'o) client_ops \<Rightarrow> 't executor \<Rightarrow> blob_transaction \<Rightarrow> nat
   \<Rightarrow> 't executor \<times> h256 option" where
  "handle_transaction_success T K e tx index =
     (case handle T K e (calldata_of_tx tx index) of
        (e', Inl _) \<Rightarrow> (e', None)
      | (e', Inr _) \<Rightarrow> (e', Some (state_notes_root T (ex_state e'))))"

datatype hex32_error = InvalidHex | ExpectedBytes nat

definition parse_hex32 :: "(string \<Rightarrow> byte list option) \<Rightarrow> string \<Rightarrow> hex32_error + h256" where
  "parse_hex32 hdec hex_str =
     (let normalized = (case strip_prefix ''0x'' hex_str of Some s \<Rightarrow> s | None \<Rightarrow> hex_str) in
      andThen (okOr InvalidHex (hdec normalized)) (\<lambda>bytes.
      if length bytes \<noteq> 32 then Inl (ExpectedBytes (length bytes)) else Inr bytes))"

datatype http_error = ServiceUnavailable | BadRequest hex32_error

record smt_witness_response =
  wr_notes_root :: string
  wr_siblings_0 :: "string list"
  wr_siblings_1 :: "string list"

definition get_smt_witness ::
  "('f, 'z) smt_crypto_scheme \<Rightarrow> ('t, 'p) smt_ops \<Rightarrow> (byte list \<Rightarrow> string) \<Rightarrow> (string \<Rightarrow> byte list option)
   \<Rightarrow> 't executor option \<Rightarrow> string \<Rightarrow> string option \<Rightarrow> (http_error + smt_witness_response) panics" where
  "get_smt_witness C T henc hdec store commitment0 commitment1 =
     (case andThen (okOr ServiceUnavailable store) (\<lambda>e.
           andThen (mapErr BadRequest (parse_hex32 hdec commitment0)) (\<lambda>c0.
           andThen (case commitment1 of
                      Some s \<Rightarrow> mapErr BadRequest (parse_hex32 hdec s)
                    | None \<Rightarrow> Inr (replicate 32 0)) (\<lambda>c1. Inr (e, c0, c1)))) of
        Inl x \<Rightarrow> Returns (Inl x)
      | Inr (e, c0, c1) \<Rightarrow>
          (case build_smt_witnesses C T (ex_state e) c0 c1 of
             None \<Rightarrow> Panics
           | Some (s0, s1) \<Rightarrow> Returns (Inr
               \<lparr> wr_notes_root = henc (state_notes_root T (ex_state e)),
                 wr_siblings_0 = map (\<lambda>f. ''0x'' @ henc (fe_to_be_bytes C f)) s0,
                 wr_siblings_1 = map (\<lambda>f. ''0x'' @ henc (fe_to_be_bytes C f)) s1 \<rparr>)))"

section \<open>The abstract ledger\<close>

text \<open>
  What the executor implements: two growing sets and a window.  Spending is all or
  nothing; it is refused when a key repeats or is already there.
\<close>

record ledger =
  ld_created :: "h256 set"
  ld_nullified :: "h256 set"
  ld_window :: "byte list list"

definition ledger_of :: "('t, 'p) smt_ops \<Rightarrow> 't executor \<Rightarrow> ledger" where
  "ledger_of T e = \<lparr> ld_created = created_set T (ex_state e), ld_nullified = nullified_set T (ex_state e),
     ld_window = roots (ex_state e) \<rparr>"

definition ledger_spend :: "byte list \<Rightarrow> h256 list \<Rightarrow> h256 list \<Rightarrow> ledger \<Rightarrow> ledger option" where
  "ledger_spend fingerprint nullified created l =
     (if distinct nullified \<and> set nullified \<inter> ld_nullified l = {} \<and>
         distinct created \<and> set created \<inter> ld_created l = {}
      then Some \<lparr> ld_created = ld_created l \<union> set created, ld_nullified = ld_nullified l \<union> set nullified,
             ld_window = take MAX_ROOTS (fingerprint # ld_window l) \<rparr>
      else None)"

text \<open>
  The code's own order: nullifiers first, then notes, each list key by key up to the first
  key that is already there; what was recorded before it stays.  The flag tells whether
  both lists were recorded whole, and only then the window moves.
\<close>

definition ledger_absorb :: "byte list \<Rightarrow> h256 list \<Rightarrow> h256 list \<Rightarrow> ledger \<Rightarrow> ledger \<times> bool" where
  "ledger_absorb fingerprint nullified created l =
     (let (ns, ok) = absorb_keys (ld_nullified l) nullified;
          l = l\<lparr> ld_nullified := ns \<rparr> in
      if \<not> ok then (l, False)
      else
     let (cs, ok) = absorb_keys (ld_created l) created;
          l = l\<lparr> ld_created := cs \<rparr> in
      if \<not> ok then (l, False)
      else (l\<lparr> ld_window := take MAX_ROOTS (fingerprint # ld_window l) \<rparr>, True))"

text \<open>All-or-nothing spending is the part of it that succeeds.\<close>

lemma ledger_absorb_spend:
  "ledger_spend fingerprint nullified created l =
     (case ledger_absorb fingerprint nullified created l of (l', ok) \<Rightarrow> if ok then Some l' else None)"
proof -
  obtain ns a where n: "absorb_keys (ld_nullified l) nullified = (ns, a)" by fastforce
  obtain cs b where c: "absorb_keys (ld_created l) created = (cs, b)" by fastforce
  have a: "a \<longleftrightarrow> distinct nullified \<and> set nullified \<inter> ld_nullified l = {}" "a \<Longrightarrow> ns = ld_nullified l \<union> set nullified"
    using absorb_keys_ok_iff [of "ld_nullified l" nullified] absorb_keys_ok [of "ld_nullified l" nullified] n by simp_all
  have b: "b \<longleftrightarrow> distinct created \<and> set created \<inter> ld_created l = {}" "b \<Longrightarrow> cs = ld_created l \<union> set created"
    using absorb_keys_ok_iff [of "ld_created l" created] absorb_keys_ok [of "ld_created l" created] c by simp_all
  have "ledger_absorb fingerprint nullified created l =
      (if \<not> a then (l\<lparr> ld_nullified := ns \<rparr>, False)
       else if \<not> b then (l\<lparr> ld_nullified := ns, ld_created := cs \<rparr>, False)
       else (l\<lparr> ld_nullified := ns, ld_created := cs, ld_window := take MAX_ROOTS (fingerprint # ld_window l) \<rparr>, True))"
    by (simp add: ledger_absorb_def n c)
  moreover have "ledger_spend fingerprint nullified created l =
      (if a \<and> b then Some (l\<lparr> ld_nullified := ns, ld_created := cs, ld_window := take MAX_ROOTS (fingerprint # ld_window l) \<rparr>)
       else None)"
    using a b by (simp add: ledger_spend_def)
  ultimately show ?thesis by simp
qed

lemma apply_commitments_eq:
  "apply_commitments T e nullified created =
     (case record_nullified T (ex_state e) nullified of
        (s, Inl x) \<Rightarrow> (e\<lparr> ex_state := s \<rparr>, Inl (StateError x))
      | (s, Inr _) \<Rightarrow>
     case record_created T s created of
        (s, Inl x) \<Rightarrow> (e\<lparr> ex_state := s \<rparr>, Inl (StateError x))
      | (s, Inr _) \<Rightarrow> (e\<lparr> ex_state := update_roots T s \<rparr>, Inr ()))"
  by (cases "nullified = []"; cases "created = []")
    (simp_all add: apply_commitments_def record_nullified_def split: prod.splits sum.splits)

lemma ledger_frames:
  "good_state T s \<Longrightarrow> created_set T (fst (record_nullified T s ks)) = created_set T s"
  "good_state T s \<Longrightarrow> nullified_set T (fst (record_created T s ks)) = nullified_set T s"
  "created_set T (update_roots T s) = created_set T s"
  "nullified_set T (update_roots T s) = nullified_set T s"
  using record_nullified_frame [of T s ks] record_created_frame [of T s ks]
  by (simp_all add: created_set_def nullified_set_def)

lemma sum_unit_cases: "(r :: 'e + unit) = Inr () \<or> (\<exists>x. r = Inl x)"
  by (cases r) auto

lemma apply_commitments_effect:
  assumes good: "good_state T (ex_state e)" and ap: "apply_commitments T e nullified created = (e', r)"
  shows "good_state T (ex_state e') \<and> ex_config e' = ex_config e \<and>
    nullified_set T (ex_state e) \<subseteq> nullified_set T (ex_state e') \<and>
    nullified_set T (ex_state e') \<subseteq> nullified_set T (ex_state e) \<union> set (filter_keys nullified True) \<and>
    created_set T (ex_state e) \<subseteq> created_set T (ex_state e') \<and>
    created_set T (ex_state e') \<subseteq> created_set T (ex_state e) \<union> set (filter_keys created False) \<and>
    (isOk r \<longleftrightarrow> distinct (filter_keys nullified True) \<and>
       set (filter_keys nullified True) \<inter> nullified_set T (ex_state e) = {} \<and>
       distinct (filter_keys created False) \<and> set (filter_keys created False) \<inter> created_set T (ex_state e) = {}) \<and>
    (if isOk r
     then nullified_set T (ex_state e') = nullified_set T (ex_state e) \<union> set (filter_keys nullified True) \<and>
       created_set T (ex_state e') = created_set T (ex_state e) \<union> set (filter_keys created False) \<and>
       roots (ex_state e') = take MAX_ROOTS (root_fingerprint T (notes_tree (ex_state e')) # roots (ex_state e))
     else roots (ex_state e') = roots (ex_state e))"
proof -
  let ?s = "ex_state e"
  obtain s1 r1 where n: "record_nullified T ?s nullified = (s1, r1)" by fastforce
  obtain s2 r2 where c: "record_created T s1 created = (s2, r2)" by fastforce
  have g1: "good_state T s1" using nullified.add_good [OF good, of nullified] n by simp
  have g2: "good_state T s2" using created.add_good [OF g1, of created] c by simp
  note nf = nullified.add_ok_iff [OF good, of nullified] nullified.add_grows [OF good, of nullified]
    nullified.add_within [OF good, of nullified]
    nullified.add_result [OF good, of nullified] ledger_frames(1) [OF good, of nullified]
    record_nullified_frame [OF good, of nullified]
  note cf = created.add_ok_iff [OF g1, of created] created.add_grows [OF g1, of created]
    created.add_within [OF g1, of created]
    created.add_result [OF g1, of created] ledger_frames(2) [OF g1, of created]
    record_created_frame [OF g1, of created]
  consider (first) x where "r1 = Inl x" | (second) x where "r1 = Inr ()" "r2 = Inl x"
    | (ok) "r1 = Inr ()" "r2 = Inr ()"
    using sum_unit_cases by metis
  then show ?thesis
  proof cases
    case first
    then have "e' = e\<lparr> ex_state := s1 \<rparr>" "r = Inl (StateError x)"
      using ap n by (simp_all add: apply_commitments_eq)
    then show ?thesis using first n nf g1
      by (auto simp: filter_keys_created filter_keys_nullified)
  next
    case second
    then have "e' = e\<lparr> ex_state := s2 \<rparr>" "r = Inl (StateError x)"
      using ap n c by (simp_all add: apply_commitments_eq)
    then show ?thesis using second n c nf cf g2
      by (auto simp: filter_keys_created filter_keys_nullified)
  next
    case ok
    then have e: "e' = e\<lparr> ex_state := update_roots T s2 \<rparr>" "r = Inr ()"
      using ap n c by (simp_all add: apply_commitments_eq)
    have "length (roots s2) \<le> MAX_ROOTS" using g2 by (simp add: good_state_def state_inv_def)
    then show ?thesis using e ok n c nf cf update_roots_good [OF g2] update_roots_window [of s2 T]
      by (simp add: filter_keys_created filter_keys_nullified ledger_frames(3,4))
  qed
qed

lemma apply_commitments_absorb:
  assumes good: "good_state T (ex_state e)" and ap: "apply_commitments T e nullified created = (e', r)"
  shows "ledger_absorb (root_fingerprint T (notes_tree (ex_state e'))) (filter_keys nullified True)
    (filter_keys created False) (ledger_of T e) = (ledger_of T e', isOk r)"
proof -
  let ?s = "ex_state e"
  obtain s1 r1 where n: "record_nullified T ?s nullified = (s1, r1)" by fastforce
  obtain s2 r2 where c: "record_created T s1 created = (s2, r2)" by fastforce
  have g1: "good_state T s1" using nullified.add_good [OF good, of nullified] n by simp
  have g2: "good_state T s2" using created.add_good [OF g1, of created] c by simp
  have an: "absorb_keys (nullified_set T ?s) (filter_keys nullified True) = (nullified_set T s1, isOk r1)"
    using nullified.add_elems [OF good, of nullified] nullified.add_ok [OF good, of nullified] n
    by (simp add: filter_keys_nullified prod_eq_iff)
  have ac: "absorb_keys (created_set T ?s) (filter_keys created False) = (created_set T s2, isOk r2)"
    using created.add_elems [OF g1, of created] created.add_ok [OF g1, of created] c
      ledger_frames(1) [OF good, of nullified] n
    by (simp add: filter_keys_created prod_eq_iff)
  have f1: "created_set T s1 = created_set T ?s" "roots s1 = roots ?s"
    using ledger_frames(1) [OF good, of nullified] record_nullified_frame [OF good, of nullified] n by simp_all
  have f2: "nullified_set T s2 = nullified_set T s1" "roots s2 = roots s1"
    using ledger_frames(2) [OF g1, of created] record_created_frame [OF g1, of created] c by simp_all
  have l: "length (roots s2) \<le> MAX_ROOTS" using g2 by (simp add: good_state_def state_inv_def)
  consider (first) x where "r1 = Inl x" | (second) x where "r1 = Inr ()" "r2 = Inl x"
    | (ok) "r1 = Inr ()" "r2 = Inr ()"
    using sum_unit_cases by metis
  then show ?thesis
  proof cases
    case first
    then have "e' = e\<lparr> ex_state := s1 \<rparr>" "r = Inl (StateError x)" using ap n by (simp_all add: apply_commitments_eq)
    then show ?thesis using first an f1 by (simp add: ledger_absorb_def ledger_of_def)
  next
    case second
    then have "e' = e\<lparr> ex_state := s2 \<rparr>" "r = Inl (StateError x)" using ap n c by (simp_all add: apply_commitments_eq)
    then show ?thesis using second an ac f1 f2 by (simp add: ledger_absorb_def ledger_of_def)
  next
    case ok
    then have "e' = e\<lparr> ex_state := update_roots T s2 \<rparr>" "r = Inr ()" using ap n c by (simp_all add: apply_commitments_eq)
    then show ?thesis using ok an ac f1 f2 update_roots_window [OF l, of T]
      by (simp add: ledger_absorb_def ledger_of_def ledger_frames(3,4))
  qed
qed

text \<open>
  C6: applying a transaction's commitments is a step of the abstract ledger, on every
  branch. The invariant and the configuration are kept; the executor's sets and window
  afterwards are exactly those of \<^term>\<open>ledger_absorb\<close> on the kept keys, which takes the
  nullifiers and then the notes key by key and stops at the first one already present,
  keeping what it took; and the call succeeds exactly when nothing stopped it, which is
  when all-or-nothing spending of the same keys is possible, with the same result.
\<close>

theorem apply_refines_ledger:
  assumes "smt_laws T" "state_inv T (ex_state e)"
    and "apply_commitments T e nullified created = (e', r)"
  shows "state_inv T (ex_state e') \<and> ex_config e' = ex_config e \<and>
    ledger_absorb (root_fingerprint T (notes_tree (ex_state e'))) (filter_keys nullified True)
      (filter_keys created False) (ledger_of T e) = (ledger_of T e', isOk r) \<and>
    ledger_spend (root_fingerprint T (notes_tree (ex_state e'))) (filter_keys nullified True)
      (filter_keys created False) (ledger_of T e) = (if isOk r then Some (ledger_of T e') else None)"
proof -
  have good: "good_state T (ex_state e)" using assms(1,2) by (simp add: good_state_def)
  show ?thesis
    using apply_commitments_effect [OF good assms(3)] apply_commitments_absorb [OF good assms(3)]
    by (simp add: good_state_def ledger_absorb_spend)
qed

theorem apply_refines_ledger_witness:
  "\<exists>e'. apply_commitments toy_smt (executor_new toy_smt toy_config) [replicate 32 3, PADDING_NULLIFIER]
       [replicate 32 1, replicate 32 2] = (e', Inr ()) \<and>
     ld_nullified (ledger_of toy_smt e') = {replicate 32 3}"
proof -
  let ?e = "executor_new toy_smt toy_config"
  obtain e' r where a: "apply_commitments toy_smt ?e [replicate 32 3, PADDING_NULLIFIER]
       [replicate 32 1, replicate 32 2] = (e', r)" by fastforce
  have i: "state_inv toy_smt (ex_state ?e)" using toy_state_inv by (simp add: executor_new_def)
  have l: "ledger_of toy_smt ?e = \<lparr> ld_created = {}, ld_nullified = {}, ld_window = [] \<rparr>"
    using state_default_sets [OF toy_smt_laws] by (simp add: ledger_of_def executor_new_def) (simp add: state_default_def)
  show ?thesis
    using apply_refines_ledger [OF toy_smt_laws i a] toy_keys(3) a sum_unit_cases [of r]
    unfolding toy_keys(1,2) l by (auto simp: ledger_spend_def split: if_splits dest!: sym [of _ "ledger_of toy_smt e'"])
qed

lemma hex_not_0x:
  assumes "hex_laws henc hdec"
  shows "strip_prefix ''0x'' (henc bs) = None"
proof -
  have "list_all lower_hex_char (henc bs)" using assms by (simp add: hex_laws_def)
  then show ?thesis by (cases "strip_prefix ''0x'' (henc bs)") (auto simp: strip_prefix_Some_iff)
qed

lemma parse_hex32_encoded:
  assumes "hex_laws henc hdec"
  shows "parse_hex32 hdec (henc k) = (if length k = 32 then Inr k else Inl (ExpectedBytes (length k)))"
    and "parse_hex32 hdec (''0x'' @ henc k) = parse_hex32 hdec (henc k)"
proof -
  have d: "hdec (henc k) = Some k" using assms by (simp add: hex_laws_def)
  have x: "strip_prefix ''0x'' (''0x'' @ henc k) = Some (henc k)" by (rule strip_prefix_append)
  show "parse_hex32 hdec (henc k) = (if length k = 32 then Inr k else Inl (ExpectedBytes (length k)))"
    unfolding parse_hex32_def hex_not_0x [OF assms] by (simp add: d Let_def)
  then show "parse_hex32 hdec (''0x'' @ henc k) = parse_hex32 hdec (henc k)"
    unfolding parse_hex32_def x hex_not_0x [OF assms] by simp
qed

text \<open>
  the witness endpoint. Without a state it answers that the service is unavailable,
  whatever the query; a commitment of the wrong length is a bad request naming its length,
  with or without the \<^verbatim>\<open>0x\<close> prefix; and for a 32-byte commitment the answer holds the
  notes root and the 256 siblings of the commitment and of the zero key, in hexadecimal,
  unless the sibling construction panics.
\<close>

theorem smt_witness_endpoint:
  assumes "hex_laws henc hdec"
  shows "get_smt_witness C T henc hdec None q0 q1 = Returns (Inl ServiceUnavailable) \<and>
    (length k \<noteq> 32 \<longrightarrow>
       get_smt_witness C T henc hdec (Some e) (henc k) q1 = Returns (Inl (BadRequest (ExpectedBytes (length k)))) \<and>
       get_smt_witness C T henc hdec (Some e) (''0x'' @ henc k) q1 =
         Returns (Inl (BadRequest (ExpectedBytes (length k))))) \<and>
    (length k = 32 \<longrightarrow>
       get_smt_witness C T henc hdec (Some e) (henc k) None =
         (case build_smt_witnesses C T (ex_state e) k (replicate 32 0) of
            None \<Rightarrow> Panics
          | Some (s0, s1) \<Rightarrow> Returns (Inr \<lparr> wr_notes_root = henc (smt_root T (notes_tree (ex_state e))),
              wr_siblings_0 = map (\<lambda>f. ''0x'' @ henc (fe_to_be_bytes C f)) s0,
              wr_siblings_1 = map (\<lambda>f. ''0x'' @ henc (fe_to_be_bytes C f)) s1 \<rparr>)) \<and>
       (\<forall>s0 s1. build_smt_witnesses C T (ex_state e) k (replicate 32 0) = Some (s0, s1) \<longrightarrow>
          build_siblings C T (notes_tree (ex_state e)) k = Some s0 \<and>
          build_siblings C T (notes_tree (ex_state e)) (replicate 32 0) = Some s1))"
  using parse_hex32_encoded [OF assms, of k]
  by (auto simp: get_smt_witness_def state_notes_root_def build_smt_witnesses_def bind_eq_Some_conv split: option.splits)

theorem smt_witness_endpoint_witness:
  "get_smt_witness toy_smt_crypto toy_smt hex_enc hex_dec (Some (executor_new toy_smt toy_config)) (hex_enc [1, 2]) None =
     Returns (Inl (BadRequest (ExpectedBytes 2)))"
  using smt_witness_endpoint [OF hex_laws_concrete, of toy_smt_crypto toy_smt "[]" None "[1, 2]"
      "executor_new toy_smt toy_config"] by simp

end
