(* ===== verification/ExecutorRuns.thy ===== *)
theory ExecutorRuns
  imports Executor "HOL-Library.Countable"
begin

text \<open>
  Runs of the executor of \<^verbatim>\<open>server/src/hyli_utxo_state_client.rs\<close>: the states it can reach
  by handling transactions and by cloning itself, what holds in all of them, and the
  agreement of a merged batch of metadata with a run of the executor.
\<close>

section \<open>One handled transaction\<close>

text \<open>The keys a handled transaction recorded: those of its blob when it was applied.\<close>

definition applied_keys ::
  "('t, 'p) smt_ops \<Rightarrow> ('p, 'o) client_ops \<Rightarrow> 't executor \<Rightarrow> calldata \<Rightarrow> (h256 list \<times> h256 list) list" where
  "applied_keys T K e cd =
     (case map_of (cd_blobs cd) (cd_index cd) of
        None \<Rightarrow> []
      | Some b \<Rightarrow>
          if is_state_action K (blob_data b)
          then (case snd (update_from_blob T e cd) of Inr p \<Rightarrow> [p] | Inl _ \<Rightarrow> [])
          else [])"

lemma parsed_key_lengths:
  "parse_hyli_utxo_blob bytes = Inr (c, n) \<Longrightarrow> k \<in> set c \<union> set n \<Longrightarrow> length k = 32"
  by (auto simp: parse_hyli_utxo_blob_Inr_iff)

lemma update_from_blob_cases:
  obtains "fst (update_from_blob T e cd) = e" "\<not> isOk (snd (update_from_blob T e cd))"
  | (applied) i b c n e' r where
      "find (\<lambda>(_, b). blob_contract_name b = utxo_contract_name (ex_config e)) (cd_blobs cd) = Some (i, b)"
      "parse_hyli_utxo_blob (blob_data b) = Inr (c, n)"
      "apply_commitments T e n c = (e', r)" "fst (update_from_blob T e cd) = e'"
      "snd (update_from_blob T e cd) = (case r of Inl x \<Rightarrow> Inl x | Inr _ \<Rightarrow> Inr (c, n))"
proof (cases "find (\<lambda>(_, b). blob_contract_name b = utxo_contract_name (ex_config e)) (cd_blobs cd)")
  case None
  then show ?thesis using that(1) by (simp add: update_from_blob_def)
next
  case (Some ib)
  show ?thesis
  proof (cases "parse_hyli_utxo_blob (blob_data (snd ib))")
    case (Inl x)
    then show ?thesis using that(1) Some by (simp add: update_from_blob_def case_prod_unfold)
  next
    case (Inr cn)
    obtain c n where cn: "cn = (c, n)" by (cases cn)
    obtain e' r where a: "apply_commitments T e n c = (e', r)" by fastforce
    show ?thesis
      by (rule that(2) [of "fst ib" "snd ib", OF _ _ a])
        (use Some Inr cn a in \<open>auto simp: update_from_blob_def case_prod_unfold split: sum.splits\<close>)
  qed
qed

lemma handle_cases:
  obtains (unchanged) "fst (handle T K e cd) = e" "applied_keys T K e cd = []"
  | (applied) i b c n e' r where
      "find (\<lambda>(_, b). blob_contract_name b = utxo_contract_name (ex_config e)) (cd_blobs cd) = Some (i, b)"
      "parse_hyli_utxo_blob (blob_data b) = Inr (c, n)"
      "apply_commitments T e n c = (e', r)" "fst (handle T K e cd) = e'"
      "applied_keys T K e cd = (if isOk r then [(c, n)] else [])"
proof (cases "\<exists>b. map_of (cd_blobs cd) (cd_index cd) = Some b \<and> is_state_action K (blob_data b)")
  case False
  then show ?thesis using that(1)
    by (auto simp: handle_def applied_keys_def Let_def split: option.splits)
next
  case True
  then have h: "fst (handle T K e cd) = fst (update_from_blob T e cd)"
    and k: "applied_keys T K e cd = (case snd (update_from_blob T e cd) of Inr p \<Rightarrow> [p] | Inl _ \<Rightarrow> [])"
    by (auto simp: handle_def applied_keys_def Let_def split: prod.splits sum.splits)
  show ?thesis
  proof (rule update_from_blob_cases [of T e cd])
    assume "fst (update_from_blob T e cd) = e" "\<not> isOk (snd (update_from_blob T e cd))"
    then show ?thesis using that(1) h k by (cases "snd (update_from_blob T e cd)") auto
  next
    fix i b c n e' r
    assume p: "find (\<lambda>(_, b). blob_contract_name b = utxo_contract_name (ex_config e)) (cd_blobs cd) = Some (i, b)"
        "parse_hyli_utxo_blob (blob_data b) = Inr (c, n)"
      and a: "apply_commitments T e n c = (e', r)" "fst (update_from_blob T e cd) = e'"
      "snd (update_from_blob T e cd) = (case r of Inl x \<Rightarrow> Inl x | Inr _ \<Rightarrow> Inr (c, n))"
    then show ?thesis using that(2) [OF p a(1)] h k by (cases r) auto
  qed
qed

section \<open>Reachable executors\<close>

definition sized :: "('t, 'p) smt_ops \<Rightarrow> 't hyli_utxo_state \<Rightarrow> bool" where
  "sized T s \<longleftrightarrow> length (smt_leaves T (notes_tree s)) < 2 ^ 32 \<and> length (smt_leaves T (nullified_tree s)) < 2 ^ 32"

text \<open>
  The second argument is the history: the keys of the transactions applied so far, oldest
  first.  Failed transactions count as steps, since they may leave a trace.
\<close>

inductive executor_reach ::
  "('t, 'p) smt_ops \<Rightarrow> ('p, 'o) client_ops \<Rightarrow> contract_config \<Rightarrow> 't executor \<Rightarrow> (h256 list \<times> h256 list) list \<Rightarrow> bool"
  for T :: "('t, 'p) smt_ops" and K :: "('p, 'o) client_ops" and cfg :: contract_config where
  start: "executor_reach T K cfg (executor_new T cfg) []"
| handled: "executor_reach T K cfg e h \<Longrightarrow>
    executor_reach T K cfg (fst (handle T K e cd)) (h @ applied_keys T K e cd)"
| cloned: "executor_reach T K cfg e h \<Longrightarrow> sized T (ex_state e) \<Longrightarrow> executor_clone T e = Some e' \<Longrightarrow>
    executor_reach T K cfg e' h"

definition spent_keys :: "(h256 list \<times> h256 list) list \<Rightarrow> h256 list" where
  "spent_keys h = concat (map (\<lambda>(c, n). filter_keys n True) h)"

definition created_keys :: "(h256 list \<times> h256 list) list \<Rightarrow> h256 list" where
  "created_keys h = concat (map (\<lambda>(c, n). filter_keys c False) h)"

lemma keys_append [simp]:
  "spent_keys [] = []" "created_keys [] = []"
  "spent_keys (h @ [(c, n)]) = spent_keys h @ filter_keys n True"
  "created_keys (h @ [(c, n)]) = created_keys h @ filter_keys c False"
  by (simp_all add: spent_keys_def created_keys_def)

definition executor_inv ::
  "('t, 'p) smt_ops \<Rightarrow> contract_config \<Rightarrow> 't executor \<Rightarrow> (h256 list \<times> h256 list) list \<Rightarrow> bool" where
  "executor_inv T cfg e h \<longleftrightarrow> state_inv T (ex_state e) \<and> ex_config e = cfg \<and>
     (\<forall>k\<in>created_set T (ex_state e) \<union> nullified_set T (ex_state e). length k = 32) \<and>
     distinct (spent_keys h) \<and> set (spent_keys h) \<subseteq> nullified_set T (ex_state e) \<and>
     distinct (created_keys h) \<and> set (created_keys h) \<subseteq> created_set T (ex_state e)"

section \<open>Cloning\<close>

lemma keyed_leaves:
  assumes "smt_laws T" "self_keyed T t" "\<forall>k\<in>dom (leaf_map T t). length k = 32"
  shows "\<forall>(k, v)\<in>set (smt_leaves T t). length k = 32 \<and> length v = 32"
proof -
  have "k \<in> dom (leaf_map T t) \<and> v = k" if "(k, v) \<in> set (smt_leaves T t)" for k v
    using that assms(2) by (auto simp: self_keyed_def list_all_iff leaf_map_def dom_map_of_conv_image_fst image_iff
        intro: bexI [of _ "(k, v)"])
  then show ?thesis using assms(3) by auto
qed

lemma clone_exact:
  assumes "smt_laws T" "state_inv T (ex_state e)" "sized T (ex_state e)"
    and "\<forall>k\<in>created_set T (ex_state e) \<union> nullified_set T (ex_state e). length k = 32"
  obtains e' where "executor_clone T e = Some e'" "ex_config e' = ex_config e"
    and "roots (ex_state e') = roots (ex_state e)"
    and "leaf_map T (notes_tree (ex_state e')) = leaf_map T (notes_tree (ex_state e))"
    and "leaf_map T (nullified_tree (ex_state e')) = leaf_map T (nullified_tree (ex_state e))"
proof -
  let ?s = "ex_state e"
  let ?rs = "borsh_seq borsh_bytes (roots ?s)"
  have k: "\<forall>(k, v)\<in>set (smt_leaves T t). length k = 32 \<and> length v = 32"
    if "t = notes_tree ?s \<or> t = nullified_tree ?s" for t
    using that assms keyed_leaves [OF assms(1), of t]
    by (auto simp: state_inv_def created_set_def nullified_set_def)
  obtain m where m: "leaf_map T m = leaf_map T (nullified_tree ?s)"
    "tree_deserialize T (tree_serialize T (nullified_tree ?s) @ ?rs) = Inr (m, ?rs)"
    by (rule tree_round_trip [OF assms(1) _ k, of "nullified_tree ?s" ?rs]) (use assms(3) in \<open>auto simp: sized_def\<close>)
  let ?rest = "tree_serialize T (nullified_tree ?s) @ ?rs"
  obtain n where n: "leaf_map T n = leaf_map T (notes_tree ?s)"
    "tree_deserialize T (tree_serialize T (notes_tree ?s) @ ?rest) = Inr (n, ?rest)"
    by (rule tree_round_trip [OF assms(1) _ k, of "notes_tree ?s" ?rest]) (use assms(3) in \<open>auto simp: sized_def\<close>)
  have "(\<forall>x\<in>set (roots ?s). length x = 8) \<and> length (roots ?s) < 2 ^ 32"
    using assms(2) by (auto simp: state_inv_def MAX_ROOTS_def)
  from stream_codec.dec_enc [OF bytes8.sequences this, of "[]"]
  have "read_seq (read_exact 8) ?rs = Some (roots ?s, [])" by simp
  then show ?thesis
    by (intro that [of "\<lparr> ex_state = \<lparr> notes_tree = n, nullified_tree = m, roots = roots ?s \<rparr>, ex_config = ex_config e \<rparr>"])
      (simp_all add: executor_clone_def state_to_vec_def state_from_slice_def m n)
qed

lemma state_inv_cong:
  assumes "smt_laws T" "roots s' = roots s" "leaf_map T (notes_tree s') = leaf_map T (notes_tree s)"
    and "leaf_map T (nullified_tree s') = leaf_map T (nullified_tree s)"
  shows "state_inv T s' = state_inv T s" "created_set T s' = created_set T s" "nullified_set T s' = nullified_set T s"
    and "state_commitment T s' = state_commitment T s"
  using assms smt_root_cong [OF assms(1,3)] smt_root_cong [OF assms(1,4)]
  by (simp_all add: state_inv_def self_keyed_iff created_set_def nullified_set_def state_commitment_def)

section \<open>Invariants of all runs\<close>

lemma executor_inv_step:
  assumes "smt_laws T" "executor_inv T cfg e h"
  shows "executor_inv T cfg (fst (handle T K e cd)) (h @ applied_keys T K e cd)"
proof (rule handle_cases [of T K e cd])
  assume "fst (handle T K e cd) = e" "applied_keys T K e cd = []"
  then show ?thesis using assms(2) by simp
next
  fix i b c n e' r
  assume p: "parse_hyli_utxo_blob (blob_data b) = Inr (c, n)" and a: "apply_commitments T e n c = (e', r)"
    and h: "fst (handle T K e cd) = e'" "applied_keys T K e cd = (if isOk r then [(c, n)] else [])"
  have good: "good_state T (ex_state e)" using assms by (simp add: good_state_def executor_inv_def)
  have f: "set (filter_keys ks b) \<subseteq> set ks" for ks b by (auto simp: filter_keys_def)
  have w: "length k = 32" if "k \<in> set (filter_keys c False) \<union> set (filter_keys n True)" for k
    using that parsed_key_lengths [OF p] f by blast
  note e = apply_commitments_effect [OF good a]
  have o: "\<forall>k\<in>created_set T (ex_state e) \<union> nullified_set T (ex_state e). length k = 32"
    using assms(2) unfolding executor_inv_def by blast
  have "created_set T (ex_state e') \<union> nullified_set T (ex_state e') \<subseteq>
      created_set T (ex_state e) \<union> nullified_set T (ex_state e) \<union>
      (set (filter_keys c False) \<union> set (filter_keys n True))"
    using e by blast
  then have "\<forall>k\<in>created_set T (ex_state e') \<union> nullified_set T (ex_state e'). length k = 32"
    using o w by (meson Un_iff subsetD)
  then have b: "state_inv T (ex_state e') \<and> ex_config e' = cfg \<and>
      (\<forall>k\<in>created_set T (ex_state e') \<union> nullified_set T (ex_state e'). length k = 32)"
    using e assms(2) by (simp add: good_state_def executor_inv_def)
  have mono: "nullified_set T (ex_state e) \<subseteq> nullified_set T (ex_state e')"
    "created_set T (ex_state e) \<subseteq> created_set T (ex_state e')" using e by simp_all
  show ?thesis
  proof (cases "isOk r")
    case True
    then show ?thesis using e b assms(2) by (auto simp: h executor_inv_def)
  next
    case False
    then show ?thesis using mono b assms(2) unfolding executor_inv_def h by auto
  qed
qed

lemma executor_reach_inv:
  "executor_reach T K cfg e h \<Longrightarrow> smt_laws T \<Longrightarrow> executor_inv T cfg e h"
proof (induction rule: executor_reach.induct)
  case start
  then show ?case
    using state_default_good [OF start] state_default_sets [OF start]
    by (simp add: executor_inv_def executor_new_def good_state_def)
next
  case (handled e h cd)
  then show ?case by (intro executor_inv_step) simp_all
next
  case (cloned e h e')
  then have i: "executor_inv T cfg e h" by simp
  then obtain e2 where e2: "executor_clone T e = Some e2" "ex_config e2 = ex_config e"
    "roots (ex_state e2) = roots (ex_state e)"
    "leaf_map T (notes_tree (ex_state e2)) = leaf_map T (notes_tree (ex_state e))"
    "leaf_map T (nullified_tree (ex_state e2)) = leaf_map T (nullified_tree (ex_state e))"
    using clone_exact [OF cloned.prems _ cloned.hyps(2)] by (auto simp: executor_inv_def)
  then show ?case using i cloned.hyps(3) state_inv_cong [OF cloned.prems e2(3,4,5)]
    by (simp add: executor_inv_def)
qed

lemmas executor_reachI = executor_reach.intros

text \<open>
  C1: no double spending. In every executor reachable by handling transactions, failed
  ones included, and by cloning, the nullifiers spent by all transactions applied so far
  are pairwise distinct and in the nullified set, and the notes they created are pairwise
  distinct and in the notes set (zero keys and padding nullifiers aside); the invariant
  holds, and the next transaction is applied only if all its keys are new.
\<close>

theorem no_double_spend:
  assumes "smt_laws T" "executor_reach T K cfg e h"
  shows "distinct (spent_keys h) \<and> set (spent_keys h) \<subseteq> nullified_set T (ex_state e) \<and>
    distinct (created_keys h) \<and> set (created_keys h) \<subseteq> created_set T (ex_state e) \<and>
    state_inv T (ex_state e) \<and> ex_config e = cfg \<and>
    (applied_keys T K e cd = [(c, n)] \<longrightarrow>
       set (filter_keys n True) \<inter> set (spent_keys h) = {} \<and>
       set (filter_keys c False) \<inter> set (created_keys h) = {})"
proof -
  have i: "executor_inv T cfg e h" by (rule executor_reach_inv [OF assms(2,1)])
  have n: "executor_inv T cfg (fst (handle T K e cd)) (h @ applied_keys T K e cd)"
    by (rule executor_inv_step [OF assms(1) i])
  show ?thesis using i n by (auto simp: executor_inv_def)
qed

definition toy_client :: "(toy_tree, byte list) client_ops" where
  "toy_client = \<lparr> proof_enc = (\<lambda>t. replicate (to_nat (toy_leaves t)) 1 @ [0]),
     proof_dec = (\<lambda>r. Some (Abs_toy_tree (from_nat (length (takeWhile (\<lambda>b. b = 1) r))),
       tl (dropWhile (\<lambda>b. b = 1) r))),
     is_state_action = (\<lambda>b. b = [0]), is_register_action = (\<lambda>b. b = [1]),
     as_hyli_output = (\<lambda>a b cd m. b) \<rparr>"

lemma toy_applied:
  "applied_keys toy_smt toy_client (executor_new toy_smt toy_config) (toy_calldata 3) =
     [([replicate 32 1, replicate 32 2], [replicate 32 3, PADDING_NULLIFIER])]"
proof -
  let ?e = "executor_new toy_smt toy_config"
  let ?c = "[replicate 32 1, replicate 32 2] :: h256 list" and ?n = "[replicate 32 3, PADDING_NULLIFIER]"
  have good: "good_state toy_smt (ex_state ?e)"
    using state_default_good [OF toy_smt_laws] by (simp add: executor_new_def)
  obtain e' r where a: "apply_commitments toy_smt ?e ?n ?c = (e', r)" by fastforce
  have "isOk r"
    using apply_commitments_effect [OF good a] state_default_sets [OF toy_smt_laws] toy_keys(3)
    unfolding toy_keys(1,2) by (simp add: executor_new_def)
  then have "snd (update_from_blob toy_smt ?e (toy_calldata 3)) = Inr (?c, ?n)"
    using a toy_calldata_find [of 3] toy_blob_parse [of 3]
    by (cases r) (simp_all add: update_from_blob_def executor_new_def)
  then show ?thesis by (simp add: applied_keys_def toy_calldata_def toy_client_def)
qed

theorem no_double_spend_witness:
  "executor_reach toy_smt toy_client toy_config (fst (handle toy_smt toy_client (executor_new toy_smt toy_config) (toy_calldata 3)))
     [([replicate 32 1, replicate 32 2], [replicate 32 3, PADDING_NULLIFIER])] \<and>
   distinct (spent_keys [([replicate 32 1, replicate 32 2], [replicate 32 3, PADDING_NULLIFIER])])"
proof -
  have r: "executor_reach toy_smt toy_client toy_config (fst (handle toy_smt toy_client (executor_new toy_smt toy_config) (toy_calldata 3)))
     [([replicate 32 1, replicate 32 2], [replicate 32 3, PADDING_NULLIFIER])]"
    using executor_reachI(2) [OF executor_reachI(1), of toy_smt toy_client toy_config "toy_calldata 3"] toy_applied by simp
  show ?thesis using no_double_spend [OF toy_smt_laws r] r by blast
qed

text \<open>
  C12: cloning is faithful. The clone of a reachable executor (with fewer than
  \<^term>\<open>2 ^ 32\<close> leaves per tree), obtained by serialising and reading back its state,
  never panics and has the same configuration, sets, window and commitment.
\<close>

theorem clone_is_faithful:
  assumes "smt_laws T" "executor_reach T K cfg e h" "sized T (ex_state e)"
  shows "\<exists>e'. executor_clone T e = Some e' \<and> ex_config e' = cfg \<and> ledger_of T e' = ledger_of T e \<and>
    get_state_commitment T e' = get_state_commitment T e \<and> executor_reach T K cfg e' h"
proof -
  have i: "executor_inv T cfg e h" by (rule executor_reach_inv [OF assms(2,1)])
  then obtain e' where e': "executor_clone T e = Some e'" "ex_config e' = ex_config e"
    "roots (ex_state e') = roots (ex_state e)"
    "leaf_map T (notes_tree (ex_state e')) = leaf_map T (notes_tree (ex_state e))"
    "leaf_map T (nullified_tree (ex_state e')) = leaf_map T (nullified_tree (ex_state e))"
    using clone_exact [OF assms(1) _ assms(3)] by (auto simp: executor_inv_def)
  have "executor_reach T K cfg e' h" by (rule executor_reachI(3) [OF assms(2,3) e'(1)])
  then show ?thesis
    using e' i state_inv_cong [OF assms(1) e'(3,4,5)]
    by (simp add: executor_inv_def ledger_of_def get_state_commitment_def)
qed

theorem clone_is_faithful_witness:
  "\<exists>e'. executor_clone toy_smt (executor_new toy_smt toy_config) = Some e' \<and> ex_config e' = toy_config"
proof -
  have "sized toy_smt (ex_state (executor_new toy_smt toy_config))"
    by (simp add: sized_def executor_new_def state_default_def tree_zero_def smt_empty_leaves [OF toy_smt_laws])
  then show ?thesis
    using clone_is_faithful [OF toy_smt_laws executor_reachI(1), of toy_config toy_client] by blast
qed

text \<open>
  C10: a failed transaction spends its nullifiers. When the nullifiers of a transaction
  are new but a note it creates already exists (or is listed twice), applying it reports
  an error, yet its nullifiers are in the nullified set from then on, the window has no
  new root, and no later transaction with one of those nullifiers can be applied.
\<close>

theorem failed_transaction_spends_nullifiers:
  assumes "smt_laws T" "state_inv T (ex_state e)"
    and "distinct (filter_keys n True)" "set (filter_keys n True) \<inter> nullified_set T (ex_state e) = {}"
    and "\<not> (distinct (filter_keys c False) \<and> set (filter_keys c False) \<inter> created_set T (ex_state e) = {})"
    and "k \<in> set (filter_keys n True)" "k \<in> set m"
  shows "\<exists>e' x. apply_commitments T e n c = (e', Inl x) \<and>
    nullified_set T (ex_state e') = nullified_set T (ex_state e) \<union> set (filter_keys n True) \<and>
    roots (ex_state e') = roots (ex_state e) \<and>
    \<not> isOk (snd (apply_commitments T e' m d))"
proof -
  let ?s = "ex_state e"
  have good: "good_state T ?s" using assms(1,2) by (simp add: good_state_def)
  obtain s1 where n: "record_nullified T ?s n = (s1, Inr ())"
    using nullified.add_ok_iff [OF good, of n] assms(3,4) sum_unit_cases
    by (metis filter_keys_nullified isOk.simps(1) prod.collapse)
  obtain s2 r2 where c: "record_created T s1 c = (s2, r2)" by fastforce
  have g1: "good_state T s1" using nullified.add_good [OF good, of n] n by simp
  have "created_set T s1 = created_set T ?s" using ledger_frames(1) [OF good, of n] n by simp
  then have "\<not> isOk r2" using created.add_ok_iff [OF g1, of c] assms(5) c by (simp add: filter_keys_created)
  then obtain x where x: "r2 = Inl x" by (cases r2) auto
  have e': "apply_commitments T e n c = (e\<lparr> ex_state := s2 \<rparr>, Inl (StateError x))"
    using n c x by (simp add: apply_commitments_eq)
  have s2: "nullified_set T s2 = nullified_set T ?s \<union> set (filter_keys n True)" "roots s2 = roots ?s"
    using ledger_frames(2) [OF g1, of c] record_created_frame [OF g1, of c] c n
      nullified.add_result [OF good, of n] record_nullified_frame [OF good, of n]
    by (simp_all add: filter_keys_nullified)
  have g2: "good_state T (ex_state (e\<lparr> ex_state := s2 \<rparr>))" using created.add_good [OF g1, of c] c by simp
  obtain e2 r where a: "apply_commitments T (e\<lparr> ex_state := s2 \<rparr>) m d = (e2, r)" by fastforce
  have "k \<in> set (filter_keys m True)" using assms(6,7) by (simp add: filter_keys_nullified)
  then have "\<not> isOk r" using apply_commitments_effect [OF g2 a] s2(1) assms(6) by auto
  then show ?thesis using e' s2 a by simp
qed

theorem failed_transaction_spends_nullifiers_witness:
  "\<exists>e' x. apply_commitments toy_smt (executor_new toy_smt toy_config) [replicate 32 3, PADDING_NULLIFIER]
     [replicate 32 1, replicate 32 1] = (e', Inl x) \<and> nullified_set toy_smt (ex_state e') = {replicate 32 3}"
proof -
  let ?e = "executor_new toy_smt toy_config"
  have i: "state_inv toy_smt (ex_state ?e)" using toy_state_inv by (simp add: executor_new_def)
  have z: "nullified_set toy_smt (ex_state ?e) = {}" "created_set toy_smt (ex_state ?e) = {}"
    using state_default_sets [OF toy_smt_laws] by (simp_all add: executor_new_def)
  have c: "filter_keys [replicate 32 1, replicate 32 1] False = [replicate 32 1, replicate 32 1]" by code_simp
  show ?thesis
    using failed_transaction_spends_nullifiers [OF toy_smt_laws i, of "[replicate 32 3, PADDING_NULLIFIER]"
        "[replicate 32 1, replicate 32 1]" "replicate 32 3" "[replicate 32 3]"]
    unfolding toy_keys(2) c z by (simp; blast)
qed

section \<open>Merged metadata and the guest\<close>

text \<open>The guest input the metadata of a transaction carries.\<close>

definition guest_input_of :: "('t, 'p) smt_ops \<Rightarrow> 't executor \<Rightarrow> calldata \<Rightarrow> exec_error + 'p zkvm_state" where
  "guest_input_of T e cd =
     andThen (okOr UtxoStateBlobMissing
       (find (\<lambda>(_, b). blob_contract_name b = utxo_contract_name (ex_config e)) (cd_blobs cd))) (\<lambda>(_, b).
     andThen (mapErr BlobUnreadable (parse_hyli_utxo_blob (blob_data b))) (\<lambda>(created, nullified).
     zkvm_witness T e created nullified))"

lemma metadata_of_guest_input:
  "build_commitment_metadata T K e cd =
     mapOk (\<lambda>z. batch_to_vec (proof_enc K) (batch_from_state z)) (guest_input_of T e cd)"
proof (cases "find (\<lambda>(_, b). blob_contract_name b = utxo_contract_name (ex_config e)) (cd_blobs cd)")
  case (Some ib)
  show ?thesis
  proof (cases "parse_hyli_utxo_blob (blob_data (snd ib))")
    case (Inr cn)
    then show ?thesis using Some
      by (cases "zkvm_witness T e (fst cn) (snd cn)")
        (simp_all add: build_commitment_metadata_def guest_input_of_def case_prod_unfold)
  qed (use Some in \<open>simp add: build_commitment_metadata_def guest_input_of_def case_prod_unfold\<close>)
qed (simp add: build_commitment_metadata_def guest_input_of_def)

text \<open>
  Along a run the metadata of each transaction is built on the state before it; the
  pieces are merged from the left.
\<close>

fun run_metadata ::
  "('t, 'p) smt_ops \<Rightarrow> ('p, 'o) client_ops \<Rightarrow> 't executor \<Rightarrow> calldata list \<Rightarrow> exec_error + byte list list" where
  "run_metadata T K e [] = Inr []"
| "run_metadata T K e (cd # cds) =
     andThen (build_commitment_metadata T K e cd) (\<lambda>m.
     andThen (run_metadata T K (fst (handle T K e cd)) cds) (\<lambda>ms. Inr (m # ms)))"

fun run_commitments :: "('t, 'p) smt_ops \<Rightarrow> ('p, 'o) client_ops \<Rightarrow> 't executor \<Rightarrow> calldata list \<Rightarrow> byte list list" where
  "run_commitments T K e [] = []"
| "run_commitments T K e (cd # cds) =
     (let e' = fst (handle T K e cd) in get_state_commitment T e' # run_commitments T K e' cds)"

fun merge_all :: "('p, 'o) client_ops \<Rightarrow> byte list \<Rightarrow> byte list list \<Rightarrow> merge_error + byte list" where
  "merge_all K m [] = Inr m"
| "merge_all K m (x # xs) = andThen (merge_commitment_metadata K m x) (\<lambda>m'. merge_all K m' xs)"

text \<open>The guest settling a list of transactions one after the other.\<close>

fun guest_run ::
  "('t, 'p) smt_ops \<Rightarrow> sdk_ops \<Rightarrow> 'p zkvm_batch \<Rightarrow> calldata list \<Rightarrow> ('p zkvm_batch \<times> byte list list) option" where
  "guest_run T S b [] = Some (b, [])"
| "guest_run T S b (cd # cds) =
     (case batch_execute S b cd of
        (b', Inl _) \<Rightarrow> None
      | (b', Inr _) \<Rightarrow>
          Option.bind (batch_on_success T b') (\<lambda>(b'', c).
          map_option (\<lambda>(b3, cs). (b3, c # cs)) (guest_run T S b'' cds)))"

text \<open>Every transaction of the run is applied, and its blobs are those the guest accepts.\<close>

fun run_accepted ::
  "('t, 'p) smt_ops \<Rightarrow> ('p, 'o) client_ops \<Rightarrow> sdk_ops \<Rightarrow> 't executor \<Rightarrow> calldata list \<Rightarrow> bool" where
  "run_accepted T K S e [] = True"
| "run_accepted T K S e (cd # cds) \<longleftrightarrow>
     applied_keys T K e cd \<noteq> [] \<and>
     (case (guest_input_of T e cd, parse_calldata S cd) of
        (Inr g, Inr ctx) \<Rightarrow> isOk (snd (check_noir_blobs S g cd ctx))
      | _ \<Rightarrow> False) \<and>
     run_accepted T K S (fst (handle T K e cd)) cds"

definition proof_codec_law :: "('p, 'o) client_ops \<Rightarrow> bool" where
  "proof_codec_law K \<longleftrightarrow> (\<forall>p r. proof_dec K (proof_enc K p @ r) = Some (p, r))"

lemma batch_codec_of_law:
  "proof_codec_law K \<Longrightarrow>
   stream_codec (batch_to_vec (proof_enc K)) (read_batch (proof_dec K)) (batch_fits (\<lambda>_. True))"
  by (intro batch_codec) (simp add: stream_codec_def proof_codec_law_def)

lemma batch_fits_items:
  "batch_fits P b \<longleftrightarrow> (\<forall>z\<in>set (batch_items b). zkvm_state_fits P z) \<and> length (batch_items b) \<le> 2 ^ 32"
  by (auto simp: batch_fits_def batch_items_def)

lemma merge_metadata:
  assumes "proof_codec_law K" "batch_fits (\<lambda>_. True) a" "batch_fits (\<lambda>_. True) b"
  shows "merge_commitment_metadata K (batch_to_vec (proof_enc K) a) (batch_to_vec (proof_enc K) b) =
    Inr (batch_to_vec (proof_enc K) (extend_with a b))"
  using stream_codec.from_slice_enc [OF batch_codec_of_law [OF assms(1)]] assms(2,3)
  by (simp add: merge_commitment_metadata_def)

lemma merge_all_metadata:
  assumes "proof_codec_law K" "batch_fits (\<lambda>_. True) b" "\<forall>z\<in>set zs. zkvm_state_fits (\<lambda>_. True) z"
    and "length (batch_items b) + length zs \<le> 2 ^ 32"
  shows "merge_all K (batch_to_vec (proof_enc K) b) (map (\<lambda>z. batch_to_vec (proof_enc K) (batch_from_state z)) zs) =
    Inr (batch_to_vec (proof_enc K) (foldl extend_with b (map batch_from_state zs)))"
  using assms(2-4)
proof (induction zs arbitrary: b)
  case (Cons z zs)
  have "batch_fits (\<lambda>_. True) (batch_from_state z)" using Cons.prems by (simp add: batch_fits_items)
  moreover have "batch_fits (\<lambda>_. True) (extend_with b (batch_from_state z))"
    using Cons.prems by (auto simp: batch_fits_items batch.join_items)
  ultimately show ?case
    using Cons.IH [of "extend_with b (batch_from_state z)"] Cons.prems
    by (simp add: merge_metadata [OF assms(1)] batch.join_items)
qed simp

lemma build_witness_proof:
  "smt_laws T \<Longrightarrow> build_witness T t ks = Inr w \<Longrightarrow> proof_fits (\<lambda>_. True) (wv_proof w)"
  by (auto simp: build_witness_def wv_with_root_def smt_root_length Let_def result_simps split: if_splits)

lemma length_filter_keys: "length (filter_keys ks b) \<le> length ks"
  by (simp add: filter_keys_def)

lemma zero_witness_fits:
  assumes "map leaf_key (wv_values w) = filter_keys ks x" "wv_ensure_all_zero w = Inr ()"
    and "proof_fits P (wv_proof w)" "\<forall>k\<in>set ks. length k = 32" "length ks < 2 ^ 32"
  shows "wv_fits P w"
proof -
  have "leaf_key l \<in> set ks" if "l \<in> set (wv_values w)" for l
  proof -
    have "leaf_key l \<in> set (filter_keys ks x)" using that by (simp flip: assms(1))
    then show ?thesis by (simp add: filter_keys_def)
  qed
  moreover have "leaf_value l = H256_ZERO" if "l \<in> set (wv_values w)" for l
    using that assms(2) by (simp add: wv_ensure_all_zero_iff)
  moreover have "length (wv_values w) \<le> length ks"
    using assms(1) length_filter_keys [of ks x] by (metis length_map)
  ultimately show ?thesis using assms(3-5) by (auto simp: wv_fits_def leaf_fits_def H256_ZERO_def)
qed

lemma guest_step:
  assumes "smt_laws T" "executor_inv T cfg e h" "config_fits cfg" "applied_keys T K e cd \<noteq> []"
  obtains g g' where "guest_input_of T e cd = Inr g" "zkvm_state_fits (\<lambda>_. True) g"
    and "zk_commit T g = Some (get_state_commitment T e)"
    and "wv_ensure_all_zero (created_notes g) = Inr ()" "wv_ensure_all_zero (nullified_notes g) = Inr ()"
    and "apply_action g cd = (g', Inr ())"
    and "zk_commit T g' = Some (get_state_commitment T (fst (handle T K e cd)))"
proof (rule handle_cases [of T K e cd])
  assume "applied_keys T K e cd = []"
  then show ?thesis using assms(4) by simp
next
  fix i b c n e' r
  assume find: "find (\<lambda>(_, b). blob_contract_name b = utxo_contract_name (ex_config e)) (cd_blobs cd) = Some (i, b)"
    and parse: "parse_hyli_utxo_blob (blob_data b) = Inr (c, n)"
    and a: "apply_commitments T e n c = (e', r)"
    and h: "fst (handle T K e cd) = e'" "applied_keys T K e cd = (if isOk r then [(c, n)] else [])"
  let ?s = "ex_state e" and ?s' = "ex_state e'"
  let ?c = "filter_keys c False" and ?n = "filter_keys n True"
  have inv: "state_inv T ?s" "ex_config e = cfg" using assms(2) unfolding executor_inv_def by blast+
  have good: "good_state T ?s" using assms(1) inv by (simp add: good_state_def)
  have ok: "isOk r" using assms(4) h(2) by (simp split: if_splits)
  have good': "good_state T ?s'" and d: "distinct ?c" "distinct ?n"
    and fresh: "set ?n \<inter> nullified_set T ?s = {}" "set ?c \<inter> created_set T ?s = {}"
    and sets: "nullified_set T ?s' = nullified_set T ?s \<union> set ?n" "created_set T ?s' = created_set T ?s \<union> set ?c"
    using apply_commitments_effect [OF good a] ok by simp_all
  obtain g where g: "to_zkvm_state T ?s cfg c n = Inr g" "config g = cfg"
      "zk_roots g = resize MAX_ROOTS (replicate 8 0) (roots ?s)"
      "map leaf_key (wv_values (created_notes g)) = ?c" "map leaf_key (wv_values (nullified_notes g)) = ?n"
      "zk_commit T g = Some (state_commitment T ?s)"
      "wv_ensure_all_zero (created_notes g) = Inr () \<longleftrightarrow> set ?c \<inter> created_set T ?s = {}"
      "wv_ensure_all_zero (nullified_notes g) = Inr () \<longleftrightarrow> set ?n \<inter> nullified_set T ?s = {}"
    and upd: "\<And>cs ns u v. length cs = length ?c \<Longrightarrow> length ns = length ?n \<Longrightarrow>
       leaf_map T u = write_leaves (zip ?c cs) (leaf_map T (notes_tree ?s)) \<Longrightarrow>
       leaf_map T v = write_leaves (zip ?n ns) (leaf_map T (nullified_tree ?s)) \<Longrightarrow>
       zk_commit T (write_values g cs ns) = Some (state_commitment T (?s\<lparr> notes_tree := u, nullified_tree := v \<rparr>))"
    by (rule guest_input [OF assms(1) inv(1) d]) (rule that)
  have input: "guest_input_of T e cd = Inr g"
    using find parse g(1) inv(2) by (simp add: guest_input_of_def zkvm_witness_def)
  have zero: "wv_ensure_all_zero (created_notes g) = Inr ()" "wv_ensure_all_zero (nullified_notes g) = Inr ()"
    using g(7,8) fresh by simp_all
  have proofs: "proof_fits (\<lambda>_. True) (wv_proof (created_notes g))" "proof_fits (\<lambda>_. True) (wv_proof (nullified_notes g))"
    using g(1) build_witness_proof [OF assms(1)] by (auto simp: to_zkvm_state_def Let_def result_simps)
  have k32: "\<forall>k\<in>set c. length k = 32" "\<forall>k\<in>set n. length k = 32" "length c < 2 ^ 32" "length n < 2 ^ 32"
    using parse by (auto simp: parse_hyli_utxo_blob_Inr_iff)
  have "\<forall>x\<in>set (zk_roots g). length x = 8"
    using inv(1) set_resize [of "roots ?s" MAX_ROOTS "replicate 8 0"] by (auto simp: g(3) state_inv_def split: if_splits)
  then have fits: "zkvm_state_fits (\<lambda>_. True) g"
    using zero_witness_fits [OF g(4) zero(1) proofs(1) k32(1,3)] zero_witness_fits [OF g(5) zero(2) proofs(2) k32(2,4)]
      assms(3) by (simp add: zkvm_state_fits_def g(2,3) length_resize)
  have "length (wv_values (created_notes g)) = length ?c" "length (wv_values (nullified_notes g)) = length ?n"
    using g(4,5) by (metis length_map)+
  then have act: "apply_action g cd = (write_values g ?c ?n, Inr ())"
    using find parse g(2) inv(2) by (subst apply_action_ok) simp_all
  have sk: "self_keyed T (notes_tree ?s)" "self_keyed T (nullified_tree ?s)"
    "self_keyed T (notes_tree ?s')" "self_keyed T (nullified_tree ?s')"
    using good good' by (simp_all add: good_state_def state_inv_def)
  have z: "H256_ZERO \<notin> set ?c" "H256_ZERO \<notin> set ?n" by (simp_all add: filter_keys_def)
  have "zk_commit T (write_values g ?c ?n) =
      Some (state_commitment T (?s\<lparr> notes_tree := notes_tree ?s', nullified_tree := nullified_tree ?s' \<rparr>))"
    using sets by (intro upd recorded_map assms(1) d sk z refl) (simp_all add: created_set_def nullified_set_def)
  then have "zk_commit T (write_values g ?c ?n) = Some (get_state_commitment T (fst (handle T K e cd)))"
    by (simp add: h(1) get_state_commitment_def state_commitment_def)
  then show ?thesis using that [OF input fits _ zero act] g(6) by (simp add: get_state_commitment_def)
qed

lemma guest_run_step:
  assumes "wv_ensure_all_zero (created_notes (bt_current b)) = Inr ()"
    and "wv_ensure_all_zero (nullified_notes (bt_current b)) = Inr ()"
    and "parse_calldata S cd = Inr ctx" "isOk (snd (check_noir_blobs S (bt_current b) cd ctx))"
    and "apply_action (bt_current b) cd = (g', Inr ())" "zk_commit T g' = Some c"
  shows "guest_run T S b (cd # cds) =
    map_option (\<lambda>(b3, cs). (b3, c # cs)) (guest_run T S (advance_step (b\<lparr> bt_current := g' \<rparr>)) cds)"
proof -
  obtain ctx' where "check_noir_blobs S (bt_current b) cd ctx = (ctx', Inr ())"
    using assms(4) sum_unit_cases by (metis isOk.simps(1) prod.collapse)
  then have "zk_execute S (bt_current b) cd = (g', Inr ([], ctx'))"
    using assms(1,2,3,5) by (simp add: zk_execute_def)
  then show ?thesis using assms(6) by (simp add: batch_execute_def batch_on_success_def)
qed

lemma take_advance:
  "take (Suc n) (batch_items b) = z # zs \<Longrightarrow> n = length zs \<Longrightarrow>
   take n (batch_items (advance_step (b\<lparr> bt_current := g \<rparr>))) = zs"
  by (cases "bt_remaining b" rule: rev_cases) (auto simp: batch_items_def advance_step_def)

lemma run_agrees:
  assumes "smt_laws T" "config_fits cfg" "executor_inv T cfg e h" "run_accepted T K S e cds"
  obtains zs where "length zs = length cds" "\<forall>z\<in>set zs. zkvm_state_fits (\<lambda>_. True) z"
    and "run_metadata T K e cds = Inr (map (\<lambda>z. batch_to_vec (proof_enc K) (batch_from_state z)) zs)"
    and "cds \<noteq> [] \<Longrightarrow> zk_commit T (hd zs) = Some (get_state_commitment T e)"
    and "\<And>b. take (length cds) (batch_items b) = zs \<Longrightarrow>
       \<exists>b'. guest_run T S b cds = Some (b', run_commitments T K e cds)"
proof -
  have "\<exists>zs. length zs = length cds \<and> (\<forall>z\<in>set zs. zkvm_state_fits (\<lambda>_. True) z) \<and>
      run_metadata T K e cds = Inr (map (\<lambda>z. batch_to_vec (proof_enc K) (batch_from_state z)) zs) \<and>
      (cds \<noteq> [] \<longrightarrow> zk_commit T (hd zs) = Some (get_state_commitment T e)) \<and>
      (\<forall>b. take (length cds) (batch_items b) = zs \<longrightarrow>
         (\<exists>b'. guest_run T S b cds = Some (b', run_commitments T K e cds)))"
    using assms(3,4)
  proof (induction cds arbitrary: e h)
    case (Cons cd cds)
    let ?e' = "fst (handle T K e cd)"
    have ak: "applied_keys T K e cd \<noteq> []" and acc: "run_accepted T K S ?e' cds" using Cons.prems(2) by simp_all
    obtain g g' where g: "guest_input_of T e cd = Inr g" "zkvm_state_fits (\<lambda>_. True) g"
      "zk_commit T g = Some (get_state_commitment T e)"
      and run: "wv_ensure_all_zero (created_notes g) = Inr ()" "wv_ensure_all_zero (nullified_notes g) = Inr ()"
      "apply_action g cd = (g', Inr ())" "zk_commit T g' = Some (get_state_commitment T ?e')"
      by (rule guest_step [OF assms(1) Cons.prems(1) assms(2) ak])
    obtain ctx where ctx: "parse_calldata S cd = Inr ctx" "isOk (snd (check_noir_blobs S g cd ctx))"
      using Cons.prems(2) g(1) by (auto split: sum.splits)
    obtain zs where zs: "length zs = length cds" "\<forall>z\<in>set zs. zkvm_state_fits (\<lambda>_. True) z"
      "run_metadata T K ?e' cds = Inr (map (\<lambda>z. batch_to_vec (proof_enc K) (batch_from_state z)) zs)"
      "\<forall>b. take (length cds) (batch_items b) = zs \<longrightarrow>
         (\<exists>b'. guest_run T S b cds = Some (b', run_commitments T K ?e' cds))"
      using Cons.IH [OF executor_inv_step [OF assms(1) Cons.prems(1)] acc] by blast
    have "\<exists>b'. guest_run T S b (cd # cds) = Some (b', run_commitments T K e (cd # cds))"
      if b: "take (length (cd # cds)) (batch_items b) = g # zs" for b
    proof -
      have "bt_current b = g" using b by (simp add: batch_items_def)
      then have r: "guest_run T S b (cd # cds) = map_option (\<lambda>(b3, cs). (b3, get_state_commitment T ?e' # cs))
          (guest_run T S (advance_step (b\<lparr> bt_current := g' \<rparr>)) cds)"
        using run ctx by (intro guest_run_step) simp_all
      have "take (length cds) (batch_items (advance_step (b\<lparr> bt_current := g' \<rparr>))) = zs"
        using b zs(1) by (intro take_advance) simp_all
      then show ?thesis using zs(4) r by (auto simp: Let_def)
    qed
    then show ?case using g zs
      by (intro exI [of _ "g # zs"]) (simp add: metadata_of_guest_input)
  qed simp
  then show ?thesis using that by blast
qed

text \<open>
  C3: the merged metadata of a run drives the guest through the run. Take a reachable
  executor and a list of transactions that it applies one after the other and whose blobs
  the guest accepts. Building the metadata of each transaction on the state before it and
  merging the pieces succeeds; the result decodes to one batch; the batch commits to the
  executor's state before the run; and the guest, settling the same transactions with
  that batch, reports exactly the executor's state commitments after each of them.
\<close>

theorem merged_metadata_drives_guest:
  assumes "smt_laws T" "proof_codec_law K" "config_fits cfg" "executor_reach T K cfg e h"
    and "run_accepted T K S e (cd # cds)" "length (cd # cds) \<le> 2 ^ 32"
  shows "\<exists>m ms merged b b'. run_metadata T K e (cd # cds) = Inr (m # ms) \<and>
    merge_all K m ms = Inr merged \<and>
    from_slice (read_batch (proof_dec K)) merged = Some b \<and>
    batch_commit T b = Some (get_state_commitment T e) \<and>
    guest_run T S b (cd # cds) = Some (b', run_commitments T K e (cd # cds))"
proof -
  have inv: "executor_inv T cfg e h" by (rule executor_reach_inv [OF assms(4,1)])
  obtain gs where gs: "length gs = length (cd # cds)" "\<forall>z\<in>set gs. zkvm_state_fits (\<lambda>_. True) z"
      "run_metadata T K e (cd # cds) = Inr (map (\<lambda>z. batch_to_vec (proof_enc K) (batch_from_state z)) gs)"
      "zk_commit T (hd gs) = Some (get_state_commitment T e)"
      and run: "\<And>b. take (length (cd # cds)) (batch_items b) = gs \<Longrightarrow>
         \<exists>b'. guest_run T S b (cd # cds) = Some (b', run_commitments T K e (cd # cds))"
    by (rule run_agrees [OF assms(1,3) inv assms(5)]) simp
  obtain z zs where zs: "gs = z # zs" using gs(1) by (cases gs) auto
  let ?b = "foldl extend_with (batch_from_state z) (map batch_from_state zs)"
  have i: "batch_items ?b = z # zs" by (simp add: batch.join_all_items comp_def concat_map_singleton)
  have f: "batch_fits (\<lambda>_. True) (batch_from_state z)" "batch_fits (\<lambda>_. True) ?b"
    using gs(1,2) assms(6) zs i by (simp_all add: batch_fits_items)
  have m: "merge_all K (batch_to_vec (proof_enc K) (batch_from_state z))
      (map (\<lambda>z. batch_to_vec (proof_enc K) (batch_from_state z)) zs) = Inr (batch_to_vec (proof_enc K) ?b)"
    using gs(1,2) assms(6) zs f(1) by (intro merge_all_metadata assms(2)) simp_all
  have "from_slice (read_batch (proof_dec K)) (batch_to_vec (proof_enc K) ?b) = Some ?b"
    by (rule stream_codec.from_slice_enc [OF batch_codec_of_law [OF assms(2)] f(2)])
  moreover have "batch_commit T ?b = Some (get_state_commitment T e)"
    using gs(4) zs i by (simp add: batch_commit_def batch.front_items)
  moreover obtain b' where "guest_run T S ?b (cd # cds) = Some (b', run_commitments T K e (cd # cds))"
    using run [of ?b] i zs gs(1) by auto
  ultimately show ?thesis using gs(3) m zs by auto
qed

lemma toy_client_law: "proof_codec_law toy_client"
proof -
  have "takeWhile (\<lambda>b. b = 1) (replicate n 1 @ 0 # r) = replicate n (1 :: byte)"
    "dropWhile (\<lambda>b. b = 1) (replicate n 1 @ 0 # r) = 0 # (r :: byte list)" for n r
    by (simp_all add: takeWhile_append dropWhile_append)
  then show ?thesis
    by (simp add: proof_codec_law_def toy_client_def toy_leaves_def Rep_toy_tree_inverse)
qed

lemma toy_config_fits: "config_fits toy_config"
  unfolding config_fits_def toy_config_def string_fits_def by (simp, code_simp)

lemma toy_run_accepted:
  "run_accepted toy_smt toy_client toy_sdk (executor_new toy_smt toy_config) [toy_calldata 3]"
proof -
  let ?e = "executor_new toy_smt toy_config"
  obtain g where g: "guest_input_of toy_smt ?e (toy_calldata 3) = Inr g" "config g = toy_config"
    "replicate 8 0 \<in> set (zk_roots g)"
  proof -
    obtain g where t: "to_zkvm_state toy_smt (state_default toy_smt) toy_config [replicate 32 1, replicate 32 2]
        [replicate 32 3, PADDING_NULLIFIER] = Inr g" "config g = toy_config"
        "zk_roots g = resize MAX_ROOTS (replicate 8 0) (roots (state_default toy_smt))"
      by (rule guest_input [OF toy_smt_laws toy_state_inv, of "[replicate 32 1, replicate 32 2]"
            "[replicate 32 3, PADDING_NULLIFIER]" toy_config])
        (unfold toy_keys(1,2), use toy_keys(3) in simp_all)
    have "replicate 8 0 \<in> set (zk_roots g)"
      by (simp add: t(3) resize_def state_default_def MAX_ROOTS_def)
    then show ?thesis using that t toy_calldata_find [of 3] toy_blob_parse [of 3]
      by (simp add: guest_input_of_def zkvm_witness_def executor_new_def)
  qed
  have "blobs_accepted toy_sdk g (toy_calldata 3) [toy_smt_blob 3]"
    using g toy_calldata_find [of 3]
    by (simp add: blobs_accepted_def toy_config_def toy_smt_blob_def toy_sdk_def toy_blob_def callees_accepted_def
        remove_nth_def)
  then have "isOk (snd (check_noir_blobs toy_sdk g (toy_calldata 3) \<lparr> callees_blobs = [toy_smt_blob 3] \<rparr>))"
    by (simp add: check_noir_blobs_iff)
  then show ?thesis using g(1) toy_applied by (simp add: toy_sdk_def toy_calldata_def)
qed

theorem merged_metadata_drives_guest_witness:
  "\<exists>m b b'. run_metadata toy_smt toy_client (executor_new toy_smt toy_config) [toy_calldata 3] = Inr [m] \<and>
     from_slice (read_batch (proof_dec toy_client)) m = Some b \<and>
     guest_run toy_smt toy_sdk b [toy_calldata 3] =
       Some (b', run_commitments toy_smt toy_client (executor_new toy_smt toy_config) [toy_calldata 3])"
proof -
  have l: "length [toy_calldata 3] \<le> 2 ^ 32" by simp
  obtain m ms merged b b' where r: "run_metadata toy_smt toy_client (executor_new toy_smt toy_config) [toy_calldata 3] = Inr (m # ms)"
    "merge_all toy_client m ms = Inr merged" "from_slice (read_batch (proof_dec toy_client)) merged = Some b"
    "guest_run toy_smt toy_sdk b [toy_calldata 3] =
       Some (b', run_commitments toy_smt toy_client (executor_new toy_smt toy_config) [toy_calldata 3])"
    using merged_metadata_drives_guest [OF toy_smt_laws toy_client_law toy_config_fits executor_reachI(1) toy_run_accepted l] by blast
  have "ms = []" using r(1) by (auto simp: result_simps)
  then show ?thesis using r by auto
qed

end
