(* ===== verification/ServerTx.thy ===== *)
theory ServerTx
  imports ExecutorRuns Utxo
begin

text \<open>
  The transactions the server builds: \<^verbatim>\<open>server/src/app.rs\<close> (faucet, deposit and transfer
  commands), \<^verbatim>\<open>tx.rs\<close> and the blob parts of \<^verbatim>\<open>types.rs\<close>.  The SDK's encoding of a
  structured blob, the token contract's action and the node are parameters; the message
  bus is the jobs and transactions that an operation returns.
\<close>

section \<open>The SDK's side of a transaction\<close>

text \<open>
  \<^verbatim>\<open>StructuredBlobData\<close> with its caller, its callees and the Borsh form of its parameters
  becomes \<^verbatim>\<open>BlobData\<close> through \<^term>\<open>structured_data\<close>; \<^term>\<open>named_caller\<close> is the caller
  the SDK reads back from the data of a structured blob.
\<close>

record tx_ops = sdk_ops +
  structured_data :: "nat option \<Rightarrow> nat list option \<Rightarrow> byte list \<Rightarrow> byte list"
  named_caller :: "byte list \<Rightarrow> nat option"
  token_transfer_action :: "string \<Rightarrow> string \<Rightarrow> u128 \<Rightarrow> byte list"

definition HYLI_UTXO_STATE_ACTION :: "byte list" where
  "HYLI_UTXO_STATE_ACTION = [0]"

text \<open>The Borsh form of a \<^verbatim>\<open>Vec<u8>\<close>.\<close>

definition borsh_vec :: "byte list \<Rightarrow> byte list" where
  "borsh_vec bytes = borsh_seq (\<lambda>b. [b]) bytes"

text \<open>\<^verbatim>\<open>SmtTokenAction::Transfer{..}.as_blob(contract, caller, callees)\<close>\<close>

definition token_blob ::
  "'z tx_ops_scheme \<Rightarrow> string \<Rightarrow> string \<Rightarrow> u128 \<Rightarrow> string \<Rightarrow> nat option \<Rightarrow> nat list option \<Rightarrow> blob" where
  "token_blob X sender recipient amount contract_name caller callees =
     \<lparr> blob_contract_name = contract_name,
       blob_data = structured_data X caller callees (token_transfer_action X sender recipient amount) \<rparr>"

text \<open>
  What the code relies on: the length of a structured blob without callees (the layout
  stated beside \<^verbatim>\<open>HYLI_SMT_INCL_BLOB_LENGTH_BYTES\<close>), that byte-vector parameters and the
  caller are read back, and what parsing the calldata of the state action does: when the
  blobs the action lists as its callees are exactly those that name it as their caller, it
  collects these blobs; when a blob names it that it does not list, it fails, as the tests
  \<^verbatim>\<open>check_noir_blobs_accepts_withdraw_topology\<close> and
  \<^verbatim>\<open>check_noir_blobs_rejects_missing_withdraw_token_callee\<close> of \<^verbatim>\<open>state.rs\<close> show.  Indices fit
  in 64 bits and the blobs of a transaction have different indices.
\<close>

definition naming_blobs :: "'z tx_ops_scheme \<Rightarrow> calldata \<Rightarrow> (nat \<times> blob) list" where
  "naming_blobs X cd = filter (\<lambda>(_, b). named_caller X (blob_data b) = Some (cd_index cd)) (cd_blobs cd)"

definition listed_callees :: "nat list option \<Rightarrow> nat list" where
  "listed_callees cs = (case cs of Some l \<Rightarrow> l | None \<Rightarrow> [])"

definition tx_laws :: "'z tx_ops_scheme \<Rightarrow> bool" where
  "tx_laws X \<longleftrightarrow>
     (\<forall>c p. c < 2 ^ 64 \<longrightarrow> length (structured_data X (Some c) None p) = 10 + length p) \<and>
     (\<forall>c ps. (\<forall>i\<in>set_option c. i < 2 ^ 64) \<longrightarrow> length ps < 2 ^ 32 \<longrightarrow>
        structured_parameters X (structured_data X c None (borsh_vec ps)) = Some ps) \<and>
     (\<forall>c cs p. (\<forall>i\<in>set_option c. i < 2 ^ 64) \<longrightarrow> named_caller X (structured_data X c cs p) = c) \<and>
     (\<forall>cd b cs. map_of (cd_blobs cd) (cd_index cd) = Some b \<longrightarrow>
        blob_data b = structured_data X None cs HYLI_UTXO_STATE_ACTION \<longrightarrow>
        (\<forall>i\<in>set (listed_callees cs). i < 2 ^ 64) \<longrightarrow> length (listed_callees cs) < 2 ^ 32 \<longrightarrow>
        distinct (map fst (cd_blobs cd)) \<longrightarrow>
        (listed_callees cs = map fst (naming_blobs X cd) \<longrightarrow>
           parse_calldata X cd = Inr \<lparr> callees_blobs = map snd (naming_blobs X cd) \<rparr>) \<and>
        (\<not> fst ` set (naming_blobs X cd) \<subseteq> set (listed_callees cs) \<longrightarrow> \<not> isOk (parse_calldata X cd)))"

section \<open>The legacy faucet action (types.rs, tx.rs)\<close>

datatype zfruit_action = ZfruitFaucet (recipient_pubkey: "byte list") (faucet_amount: u64)

definition zfruit_to_vec :: "zfruit_action \<Rightarrow> byte list" where
  "zfruit_to_vec a = [0] @ borsh_vec (recipient_pubkey a) @ word_to_le (faucet_amount a)"

definition read_zfruit :: "byte list \<Rightarrow> (zfruit_action \<times> byte list) option" where
  "read_zfruit r =
     Option.bind (read_exact 1 r) (\<lambda>(tag, r). if tag \<noteq> [0] then None else
     Option.bind (read_seq (\<lambda>r. map_option (\<lambda>(b, r). (hd b, r)) (read_exact 1 r)) r) (\<lambda>(pk, r).
     Option.bind (read_exact 8 r) (\<lambda>(amt, r).
     Some (ZfruitFaucet pk (word_from_le amt), r))))"

definition zfruit_as_blob ::
  "'z tx_ops_scheme \<Rightarrow> zfruit_action \<Rightarrow> string \<Rightarrow> nat option \<Rightarrow> nat list option \<Rightarrow> blob" where
  "zfruit_as_blob X a contract_name caller callees =
     \<lparr> blob_contract_name = contract_name, blob_data = structured_data X caller callees (zfruit_to_vec a) \<rparr>"

definition FAUCET_IDENTITY_PREFIX :: string where
  "FAUCET_IDENTITY_PREFIX = ''faucet''"

definition build_faucet_transaction :: "'z tx_ops_scheme \<Rightarrow> string \<Rightarrow> byte list \<Rightarrow> u64 \<Rightarrow> blob_transaction" where
  "build_faucet_transaction X contract_name pubkey amount =
     (let action = ZfruitFaucet pubkey amount;
          identity = FAUCET_IDENTITY_PREFIX @ ''@'' @ contract_name
      in \<lparr> tx_identity = identity, tx_blobs = [zfruit_as_blob X action contract_name None None] \<rparr>)"

section \<open>The faucet application (app.rs)\<close>

definition FAUCET_MINT_AMOUNT :: u64 where
  "FAUCET_MINT_AMOUNT = 10"

record mint_command =
  mc_recipient_pubkey :: "byte list"
  mc_amount :: u64
  mc_note :: zk_note

record deposit_command = mint_command +
  dc_token_contract :: string
  dc_wallet_account :: "string option"
  dc_secp256k1_blob :: "byte list option"
  dc_wallet_blob :: "byte list option"

record proved_transfer_command =
  pt_proof :: "byte list"
  pt_public_inputs :: "string list"
  pt_blob :: "byte list"
  pt_output_notes :: "zk_note list"

record faucet_app =
  fa_notes_root :: element
  fa_nullifier_root :: element
  fa_note_index :: u64
  fa_utxo_contract :: string
  fa_state_contract :: string
  fa_incl_contract :: string

definition faucet_app_build :: "string \<Rightarrow> string \<Rightarrow> string \<Rightarrow> faucet_app" where
  "faucet_app_build utxo_contract state_contract incl_contract =
     \<lparr> fa_notes_root = ZERO, fa_nullifier_root = ZERO, fa_note_index = 0,
       fa_utxo_contract = utxo_contract, fa_state_contract = state_contract, fa_incl_contract = incl_contract \<rparr>"

text \<open>The event of the state indexer.\<close>

definition on_state_event :: "faucet_app \<Rightarrow> h256 \<Rightarrow> faucet_app" where
  "on_state_event app notes_root = app\<lparr> fa_notes_root := from_be_bytes notes_root \<rparr>"

definition build_note :: "('f, 'z) zk_env_scheme \<Rightarrow> byte list \<Rightarrow> element \<Rightarrow> u64 \<Rightarrow> zk_note option" where
  "build_note E random recipient_address amount =
     (let minted_value = element_new amount in note_new E random recipient_address minted_value)"

text \<open>
  The loop over the input notes writes the nullifiers behind the commitments and keeps
  the last one as \<^verbatim>\<open>nullifier_root\<close>.  (The array of state commitments the same loop fills
  is never read.)
\<close>

definition write_nullifier ::
  "('f, 'z) crypto_scheme \<Rightarrow> (byte list \<times> nat) \<times> faucet_app \<Rightarrow> input_note \<Rightarrow> (byte list \<times> nat) \<times> faucet_app" where
  "write_nullifier C = (\<lambda>(blob, app) input.
     (let nullifier = hash_merge C [note_psi (in_note input), in_secret_key input]
      in (write_field blob nullifier, app\<lparr> fa_nullifier_root := nullifier \<rparr>)))"

definition build_transaction ::
  "('f, 'z) crypto_scheme \<Rightarrow> 'y tx_ops_scheme \<Rightarrow> faucet_app \<Rightarrow> zk_note \<Rightarrow> (string \<times> u64) option \<Rightarrow> string option
   \<Rightarrow> byte list option \<Rightarrow> byte list option \<Rightarrow> faucet_app \<times> blob_transaction \<times> utxo" where
  "build_transaction C X app n token_deposit wallet_account secp256k1_blob wallet_blob =
     (let utxo = utxo_new_mint [n, padding_note];
          leaves = leaf_elements C utxo;
          app = app\<lparr> fa_note_index := fa_note_index app + 1 \<rparr>;
          after_outputs = foldl write_field (replicate HYLI_BLOB_LENGTH_BYTES 0, 0) (take 2 (drop 2 leaves));
          ((blob_bytes, _), app) = foldl (write_nullifier C) (after_outputs, app) (u_input_notes utxo);
          incl_proof_bytes = copy_into 0 (take 64 (drop 64 blob_bytes)) (replicate HYLI_SMT_INCL_PAYLOAD_LENGTH_BYTES 0);
          incl_proof_bytes = copy_into 64 (to_be_bytes (fa_notes_root app)) incl_proof_bytes;
          contract_name = fa_utxo_contract app;
          identity = (case wallet_account of
              Some a \<Rightarrow> a @ ''@wallet''
            | None \<Rightarrow> FAUCET_IDENTITY_PREFIX @ ''@'' @ contract_name);
          hyli_smt_incl_data = structured_data X (Some 0) None (borsh_vec incl_proof_bytes);
          state_blob_data = structured_data X None (Some [2]) HYLI_UTXO_STATE_ACTION;
          blobs = [\<lparr> blob_contract_name = fa_state_contract app, blob_data = state_blob_data \<rparr>,
                   \<lparr> blob_contract_name = contract_name, blob_data = blob_bytes \<rparr>,
                   \<lparr> blob_contract_name = fa_incl_contract app, blob_data = hyli_smt_incl_data \<rparr>];
          blobs = (case secp256k1_blob of
              Some d \<Rightarrow> blobs @ [\<lparr> blob_contract_name = ''secp256k1'', blob_data = d \<rparr>]
            | None \<Rightarrow> blobs);
          blobs = (case wallet_blob of
              Some d \<Rightarrow> blobs @ [\<lparr> blob_contract_name = ''wallet'', blob_data = d \<rparr>]
            | None \<Rightarrow> blobs);
          blobs = (case token_deposit of
              Some (token_contract, amount) \<Rightarrow>
                (let sender = (case wallet_account of Some a \<Rightarrow> a @ ''@wallet'' | None \<Rightarrow> identity)
                 in blobs @ [token_blob X sender (fa_state_contract app) (ucast amount) token_contract None None])
            | None \<Rightarrow> blobs)
      in (app, \<lparr> tx_identity = identity, tx_blobs = blobs \<rparr>, utxo))"

section \<open>Proof jobs\<close>

record proof_job =
  pj_tx_hash :: "byte list"
  pj_identity :: string
  pj_utxo :: utxo
  pj_blob :: "byte list"
  pj_tx_blob_count :: u32
  pj_blob_index :: u32

record 'f smt_proof_job =
  sj_tx_hash :: "byte list"
  sj_identity :: string
  sj_blob :: "byte list"
  sj_tx_blob_count :: u32
  sj_blob_index :: u32
  sj_input_notes :: "input_note list"
  sj_siblings_0 :: "'f list"
  sj_siblings_1 :: "'f list"

datatype job_error = JobBlobMissing | JobBlobSize nat

definition enqueue_proof_job ::
  "faucet_app \<Rightarrow> blob_transaction \<Rightarrow> byte list \<Rightarrow> utxo \<Rightarrow> job_error + proof_job" where
  "enqueue_proof_job app tx tx_hash u =
     (case find (\<lambda>(_, b). blob_contract_name b = fa_utxo_contract app) (enumerate 0 (tx_blobs tx)) of
        None \<Rightarrow> Inl JobBlobMissing
      | Some (blob_index, b) \<Rightarrow>
          if length (blob_data b) < HYLI_BLOB_LENGTH_BYTES then Inl (JobBlobSize (length (blob_data b)))
          else Inr \<lparr> pj_tx_hash = tx_hash, pj_identity = tx_identity tx, pj_utxo = u,
                 pj_blob = take HYLI_BLOB_LENGTH_BYTES (blob_data b),
                 pj_tx_blob_count = of_nat (length (tx_blobs tx)), pj_blob_index = of_nat blob_index \<rparr>)"

text \<open>The zero field element is an argument.\<close>

definition enqueue_smt_incl_proof_job ::
  "'f \<Rightarrow> faucet_app \<Rightarrow> blob_transaction \<Rightarrow> byte list \<Rightarrow> job_error + 'f smt_proof_job" where
  "enqueue_smt_incl_proof_job zero app tx tx_hash =
     (case find (\<lambda>(_, b). blob_contract_name b = fa_incl_contract app) (enumerate 0 (tx_blobs tx)) of
        None \<Rightarrow> Inl JobBlobMissing
      | Some (blob_index, b) \<Rightarrow>
          if length (blob_data b) \<noteq> HYLI_SMT_INCL_BLOB_LENGTH_BYTES then Inl (JobBlobSize (length (blob_data b)))
          else Inr \<lparr> sj_tx_hash = tx_hash, sj_identity = tx_identity tx, sj_blob = blob_data b,
                 sj_tx_blob_count = of_nat (length (tx_blobs tx)), sj_blob_index = of_nat blob_index,
                 sj_input_notes = [input_padding_note, input_padding_note],
                 sj_siblings_0 = replicate 256 zero, sj_siblings_1 = replicate 256 zero \<rparr>)"

section \<open>Command handlers\<close>

text \<open>
  The node answers a blob transaction with its hash or an error, and a proof with success
  or an error.  A handler returns what it sent to the node and to the bus; an error while
  making a proof job is only logged.
\<close>

record proof_transaction =
  px_contract_name :: string
  px_program_id :: "byte list"
  px_verifier :: string
  px_proof :: "byte list"

record 'e node_ops =
  send_tx_blob :: "blob_transaction \<Rightarrow> 'e + byte list"
  send_tx_proof :: "proof_transaction \<Rightarrow> 'e + unit"

definition jobs_of :: "'e + 'j \<Rightarrow> 'j list" where
  "jobs_of r = (case r of Inl _ \<Rightarrow> [] | Inr j \<Rightarrow> [j])"

definition process_request ::
  "('f, 'z) crypto_scheme \<Rightarrow> 'y tx_ops_scheme \<Rightarrow> 'e node_ops \<Rightarrow> 'f \<Rightarrow> faucet_app \<Rightarrow> mint_command
   \<Rightarrow> faucet_app \<times> ('e + proof_job list \<times> 'f smt_proof_job list)" where
  "process_request C X N zero app req =
     (case build_transaction C X app (mc_note req) None None None None of
        (app, tx, utxo) \<Rightarrow>
          (app, mapOk (\<lambda>tx_hash. (jobs_of (enqueue_proof_job app tx tx_hash utxo),
                                  jobs_of (enqueue_smt_incl_proof_job zero app tx tx_hash)))
                  (send_tx_blob N tx)))"

definition process_deposit_request ::
  "('f, 'z) crypto_scheme \<Rightarrow> 'y tx_ops_scheme \<Rightarrow> 'e node_ops \<Rightarrow> 'f \<Rightarrow> faucet_app \<Rightarrow> deposit_command
   \<Rightarrow> faucet_app \<times> ('e + proof_job list \<times> 'f smt_proof_job list)" where
  "process_deposit_request C X N zero app req =
     (case build_transaction C X app (mc_note req) (Some (dc_token_contract req, mc_amount req))
             (dc_wallet_account req) (dc_secp256k1_blob req) (dc_wallet_blob req) of
        (app, tx, utxo) \<Rightarrow>
          (app, mapOk (\<lambda>tx_hash. (jobs_of (enqueue_proof_job app tx tx_hash utxo),
                                  jobs_of (enqueue_smt_incl_proof_job zero app tx tx_hash)))
                  (send_tx_blob N tx)))"

text \<open>The transfer commands (not offered by the API of \<^verbatim>\<open>api.rs\<close>).\<close>

definition transfer_blobs :: "'y tx_ops_scheme \<Rightarrow> faucet_app \<Rightarrow> byte list \<Rightarrow> blob_transaction" where
  "transfer_blobs X app blob_bytes =
     (let contract_name = fa_utxo_contract app;
          identity = ''transfer@'' @ contract_name;
          state_blob_data = structured_data X None None HYLI_UTXO_STATE_ACTION
      in \<lparr> tx_identity = identity,
           tx_blobs = [\<lparr> blob_contract_name = fa_state_contract app, blob_data = state_blob_data \<rparr>,
                       \<lparr> blob_contract_name = contract_name, blob_data = blob_bytes \<rparr>] \<rparr>)"

definition build_transfer_transaction ::
  "('f, 'z) crypto_scheme \<Rightarrow> 'y tx_ops_scheme \<Rightarrow> faucet_app \<Rightarrow> input_note list \<Rightarrow> zk_note list
   \<Rightarrow> blob_transaction \<times> utxo" where
  "build_transfer_transaction C X app input_notes output_notes =
     (let utxo = utxo_new_send input_notes output_notes;
          leaves = leaf_elements C utxo;
          after_inputs = foldl write_field (replicate HYLI_BLOB_LENGTH_BYTES 0, 0) (take 2 leaves);
          (blob_bytes, _) = foldl write_field after_inputs
            (map (\<lambda>input. hash_merge C [note_psi (in_note input), in_secret_key input]) input_notes)
      in (transfer_blobs X app blob_bytes, utxo))"

definition process_transfer_request ::
  "('f, 'z) crypto_scheme \<Rightarrow> 'y tx_ops_scheme \<Rightarrow> 'e node_ops \<Rightarrow> faucet_app \<Rightarrow> input_note list \<Rightarrow> zk_note list
   \<Rightarrow> 'e + proof_job list" where
  "process_transfer_request C X N app input_notes output_notes =
     (case build_transfer_transaction C X app input_notes output_notes of
        (tx, utxo) \<Rightarrow> mapOk (\<lambda>tx_hash. jobs_of (enqueue_proof_job app tx tx_hash utxo)) (send_tx_blob N tx))"

definition build_proved_transfer_blob :: "'y tx_ops_scheme \<Rightarrow> faucet_app \<Rightarrow> proved_transfer_command \<Rightarrow> blob_transaction" where
  "build_proved_transfer_blob X app cmd = transfer_blobs X app (pt_blob cmd)"

text \<open>
  Public inputs as hexadecimal text, undecodable text standing for 32 zero bytes, followed
  by the proof.
\<close>

definition public_input_bytes :: "(string \<Rightarrow> byte list option) \<Rightarrow> string list \<Rightarrow> byte list" where
  "public_input_bytes hdec hex_inputs =
     concat (map (\<lambda>hex_str.
       (let normalized = (case strip_prefix ''0x'' hex_str of Some s \<Rightarrow> s | None \<Rightarrow> hex_str)
        in case hdec normalized of Some bytes \<Rightarrow> bytes | None \<Rightarrow> replicate 32 0)) hex_inputs)"

definition process_transfer_with_proof ::
  "(string \<Rightarrow> byte list option) \<Rightarrow> byte list \<Rightarrow> string \<Rightarrow> 'y tx_ops_scheme \<Rightarrow> 'e node_ops \<Rightarrow> faucet_app
   \<Rightarrow> proved_transfer_command \<Rightarrow> blob_transaction \<times> ('e + proof_transaction \<times> ('e + unit))" where
  "process_transfer_with_proof hdec noir_vk noir X N app cmd =
     (let tx = build_proved_transfer_blob X app cmd in
      (tx, mapOk (\<lambda>tx_hash.
         (let proof_with_inputs = public_input_bytes hdec (pt_public_inputs cmd) @ pt_proof cmd;
              proof_tx = \<lparr> px_contract_name = fa_utxo_contract app, px_program_id = noir_vk,
                px_verifier = noir, px_proof = proof_with_inputs \<rparr>
          in (proof_tx, send_tx_proof N proof_tx)))
        (send_tx_blob N tx)))"


section \<open>What the guest makes of a state transaction\<close>

text \<open>
  The shape the server gives to every transaction on the state contract: the action's
  blob, the UTXO blob, the inclusion-proof blob that names the action as its caller, and
  further blobs.
\<close>

definition state_tx :: "'y tx_ops_scheme \<Rightarrow> contract_config \<Rightarrow> string \<Rightarrow> string \<Rightarrow> nat list \<Rightarrow> byte list \<Rightarrow> byte list
   \<Rightarrow> blob list \<Rightarrow> blob_transaction" where
  "state_tx X cfg state_contract identity callees utxo_bytes payload extras =
     \<lparr> tx_identity = identity,
       tx_blobs = [\<lparr> blob_contract_name = state_contract,
                     blob_data = structured_data X None (Some callees) HYLI_UTXO_STATE_ACTION \<rparr>,
                   \<lparr> blob_contract_name = utxo_contract_name cfg, blob_data = utxo_bytes \<rparr>,
                   \<lparr> blob_contract_name = smt_incl_proof_contract_name cfg,
                     blob_data = structured_data X (Some 0) None (borsh_vec payload) \<rparr>] @ extras \<rparr>"

lemma tx_lawsD:
  assumes "tx_laws X"
  shows "length (structured_data X (Some 0) None p) = 10 + length p"
    and "length ps < 2 ^ 32 \<Longrightarrow> structured_parameters X (structured_data X (Some 0) None (borsh_vec ps)) = Some ps"
    and "named_caller X (structured_data X None cs p) = None"
    and "named_caller X (structured_data X (Some 0) cs p) = Some 0"
  using assms by (auto simp: tx_laws_def)

lemma tx_laws_calldata:
  assumes "tx_laws X" "map_of (cd_blobs cd) (cd_index cd) = Some b"
    and "blob_data b = structured_data X None cs HYLI_UTXO_STATE_ACTION"
    and "\<forall>i\<in>set (listed_callees cs). i < 2 ^ 64" "length (listed_callees cs) < 2 ^ 32" "distinct (map fst (cd_blobs cd))"
  shows "listed_callees cs = map fst (naming_blobs X cd) \<Longrightarrow>
      parse_calldata X cd = Inr \<lparr> callees_blobs = map snd (naming_blobs X cd) \<rparr>"
    and "\<not> fst ` set (naming_blobs X cd) \<subseteq> set (listed_callees cs) \<Longrightarrow> \<not> isOk (parse_calldata X cd)"
  using assms(1) [unfolded tx_laws_def, THEN conjunct2, THEN conjunct2, THEN conjunct2, rule_format, OF assms(2,3) bspec [OF assms(4)] assms(5,6)]
  by blast+

lemma sdk_truncate [simp]:
  "parse_calldata (sdk_ops.truncate X) = parse_calldata X"
  "structured_parameters (sdk_ops.truncate X) = structured_parameters X"
  by (simp_all add: sdk_ops.defs)

lemma length_borsh_vec [simp, len_simps]: "length (borsh_vec ps) = 4 + length ps"
proof -
  have "concat (map (\<lambda>b. [b]) ps) = ps" by (induction ps) simp_all
  then show ?thesis by (simp add: borsh_vec_def borsh_seq_def)
qed

lemma map_of_enumerate: "map_of (enumerate n xs) (n + i) = (if i < length xs then Some (xs ! i) else None)"
proof (induction xs arbitrary: n i)
  case (Cons x xs)
  show ?case using Cons.IH [of "Suc n" "i - 1"] by (cases i) simp_all
qed simp

lemma map_snd_filter_enumerate: "map snd (filter (\<lambda>(_, b). P b) (enumerate n bs)) = filter P bs"
  by (induction bs arbitrary: n) auto

text \<open>The further blobs that name the action, by their index in the transaction.\<close>

definition naming_extras :: "'y tx_ops_scheme \<Rightarrow> blob list \<Rightarrow> nat list" where
  "naming_extras X extras = map fst (filter (\<lambda>(_, b). named_caller X (blob_data b) = Some 0) (enumerate 3 extras))"

lemma naming_extras_bounds:
  "length (naming_extras X extras) \<le> length extras" "i \<in> set (naming_extras X extras) \<Longrightarrow> i < 3 + length extras"
proof -
  show "length (naming_extras X extras) \<le> length extras"
    using length_filter_le [of _ "enumerate 3 extras"] by (simp add: naming_extras_def) 
  assume "i \<in> set (naming_extras X extras)"
  then have "i \<in> fst ` set (enumerate 3 extras)" by (force simp: naming_extras_def)
  then have "i \<in> set (map fst (enumerate 3 extras))" by (simp only: set_map)
  then show "i < 3 + length extras" unfolding map_fst_enumerate by simp
qed

lemma state_tx_naming:
  assumes "tx_laws X" "named_caller X utxo_bytes \<noteq> Some 0"
  shows "naming_blobs X (calldata_of_tx (state_tx X cfg sc ident callees utxo_bytes payload extras) 0) =
    (2, \<lparr> blob_contract_name = smt_incl_proof_contract_name cfg,
          blob_data = structured_data X (Some 0) None (borsh_vec payload) \<rparr>) #
    filter (\<lambda>(_, b). named_caller X (blob_data b) = Some 0) (enumerate 3 extras)"
  using assms(2) tx_lawsD(3,4) [OF assms(1)]
  by (simp add: naming_blobs_def calldata_of_tx_def state_tx_def numeral_eq_Suc)

lemma state_tx_parsed:
  assumes "tx_laws X" "named_caller X utxo_bytes \<noteq> Some 0" "callees = 2 # naming_extras X extras"
    and "length extras < 2 ^ 31"
  shows "parse_calldata X (calldata_of_tx (state_tx X cfg sc ident callees utxo_bytes payload extras) 0) =
    Inr \<lparr> callees_blobs = \<lparr> blob_contract_name = smt_incl_proof_contract_name cfg,
          blob_data = structured_data X (Some 0) None (borsh_vec payload) \<rparr> #
        filter (\<lambda>b. named_caller X (blob_data b) = Some 0) extras \<rparr>"
proof -
  let ?tx = "state_tx X cfg sc ident callees utxo_bytes payload extras"
  let ?cd = "calldata_of_tx ?tx 0"
  have "map_of (cd_blobs ?cd) (cd_index ?cd) = Some \<lparr> blob_contract_name = sc,
      blob_data = structured_data X None (Some callees) HYLI_UTXO_STATE_ACTION \<rparr>"
    by (simp add: calldata_of_tx_def state_tx_def)
  moreover have "\<forall>i\<in>set (listed_callees (Some callees)). i < 2 ^ 64"
    using assms(3,4) naming_extras_bounds(2) [of _ X extras] by (fastforce simp: listed_callees_def)
  moreover have "length (listed_callees (Some callees)) < 2 ^ 32"
    using assms(3,4) naming_extras_bounds(1) [of X extras] by (simp add: listed_callees_def)
  moreover have "distinct (map fst (cd_blobs ?cd))" by (simp add: calldata_of_tx_def)
  moreover have "listed_callees (Some callees) = map fst (naming_blobs X ?cd)"
    unfolding state_tx_naming [OF assms(1,2)] by (simp add: listed_callees_def assms(3) naming_extras_def)
  ultimately have "parse_calldata X ?cd = Inr \<lparr> callees_blobs = map snd (naming_blobs X ?cd) \<rparr>"
    using tx_laws_calldata(1) [OF assms(1), of ?cd] by simp
  then show ?thesis unfolding state_tx_naming [OF assms(1,2)] by (simp add: map_snd_filter_enumerate)
qed

lemma state_tx_utxo_blob:
  assumes "sc \<noteq> utxo_contract_name cfg"
  shows "find (\<lambda>(_, b). blob_contract_name b = utxo_contract_name cfg)
      (cd_blobs (calldata_of_tx (state_tx X cfg sc ident callees utxo_bytes payload extras) 0)) =
    Some (1, \<lparr> blob_contract_name = utxo_contract_name cfg, blob_data = utxo_bytes \<rparr>)"
  using assms by (simp add: calldata_of_tx_def state_tx_def)

lemma state_tx_accepted:
  assumes "tx_laws X" "sc \<noteq> utxo_contract_name (config z)" "length payload = 96"
  shows "blobs_accepted (sdk_ops.truncate X) z
      (calldata_of_tx (state_tx X (config z) sc ident callees utxo_bytes payload extras) 0)
      (\<lparr> blob_contract_name = smt_incl_proof_contract_name (config z),
         blob_data = structured_data X (Some 0) None (borsh_vec payload) \<rparr> # others) \<longleftrightarrow>
    length utxo_bytes = 128 \<and> take 64 payload = drop 64 utxo_bytes \<and>
    take 8 (drop 64 payload) \<in> set (zk_roots z) \<and> callees_accepted (config z) others"
proof -
  have l: "length payload < 2 ^ 32" using assms(3) by simp
  show ?thesis
    using assms(3) tx_lawsD(2) [OF assms(1) l]
    by (simp add: blobs_accepted_def remove_nth_def state_tx_utxo_blob [OF assms(2)]) blast
qed

text \<open>
  A guest whose witness fits the transaction: it accepts exactly when the keys are unspent
  and the blobs are accepted.
\<close>

lemma guest_accepts_state_tx:
  assumes "smt_laws T" "state_inv T s" "tx_laws X" "sc \<noteq> utxo_contract_name cfg" "length payload = 96"
    and "named_caller X utxo_bytes \<noteq> Some 0" "parse_hyli_utxo_blob utxo_bytes = Inr (created, nullified)"
    and "callees = 2 # naming_extras X extras" "length extras < 2 ^ 31"
    and "distinct (filter_keys created False)" "distinct (filter_keys nullified True)"
  obtains g where "to_zkvm_state T s cfg created nullified = Inr g"
    and "isOk (snd (zk_execute (sdk_ops.truncate X) g
        (calldata_of_tx (state_tx X cfg sc ident callees utxo_bytes payload extras) 0))) \<longleftrightarrow>
      set (filter_keys created False) \<inter> created_set T s = {} \<and>
      set (filter_keys nullified True) \<inter> nullified_set T s = {} \<and>
      take 64 payload = drop 64 utxo_bytes \<and>
      take 8 (drop 64 payload) \<in> set (resize MAX_ROOTS (replicate 8 0) (roots s)) \<and>
      callees_accepted cfg (filter (\<lambda>b. named_caller X (blob_data b) = Some 0) extras)"
proof -
  let ?cd = "calldata_of_tx (state_tx X cfg sc ident callees utxo_bytes payload extras) 0"
  obtain g where g: "to_zkvm_state T s cfg created nullified = Inr g" "config g = cfg"
      "zk_roots g = resize MAX_ROOTS (replicate 8 0) (roots s)"
      "map leaf_key (wv_values (created_notes g)) = filter_keys created False"
      "map leaf_key (wv_values (nullified_notes g)) = filter_keys nullified True"
      "wv_ensure_all_zero (created_notes g) = Inr () \<longleftrightarrow> set (filter_keys created False) \<inter> created_set T s = {}"
      "wv_ensure_all_zero (nullified_notes g) = Inr () \<longleftrightarrow> set (filter_keys nullified True) \<inter> nullified_set T s = {}"
    by (rule guest_input [OF assms(1,2,10,11)]) (rule that)
  have "length (wv_values (created_notes g)) = length (filter_keys created False)"
    "length (wv_values (nullified_notes g)) = length (filter_keys nullified True)"
    using g(4,5) by (metis length_map)+
  then have act: "isOk (snd (apply_action g ?cd))"
    using assms(7) state_tx_utxo_blob [OF assms(4), folded g(2)]
    by (subst apply_action_ok [where created = created and nullified = nullified and i = 1 and
        b = "\<lparr> blob_contract_name = utxo_contract_name cfg, blob_data = utxo_bytes \<rparr>"]) (simp_all add: g(2))
  have l: "length utxo_bytes = 128" using assms(7) by (simp add: parse_hyli_utxo_blob_Inr_iff)
  note acc = state_tx_accepted [of X sc g payload, unfolded g(2), OF assms(3,4,5)]
  show ?thesis
    using act l by (intro that [OF g(1)])
      (auto simp: zk_execute_ok_iff check_noir_blobs_iff state_tx_parsed [OF assms(3,6,8,9)] acc g(3,6,7))
qed


section \<open>Mint transactions\<close>

lemma foldl_write_nullifier:
  "foldl (write_nullifier C) (blob, app) ins =
     (foldl write_field blob (map (\<lambda>i. hash_merge C [note_psi (in_note i), in_secret_key i]) ins),
      if ins = [] then app
      else app\<lparr> fa_nullifier_root := hash_merge C [note_psi (in_note (last ins)), in_secret_key (last ins)] \<rparr>)"
  by (induction ins arbitrary: blob app) (auto simp: write_nullifier_def Let_def)

lemma write_fields_from_zero:
  "32 * length es + r = n \<Longrightarrow> foldl write_field (replicate n 0, 0) es = (concat (map to_be_bytes es) @ replicate r 0, 32 * length es)"
  using write_fields [of "[]" 0 es r] by simp

lemma write_four_fields:
  "foldl write_field (foldl write_field (replicate HYLI_BLOB_LENGTH_BYTES 0, 0) [a, b]) [c, d] =
     (to_be_bytes a @ to_be_bytes b @ to_be_bytes c @ to_be_bytes d, 128)"
proof -
  have "foldl write_field (replicate 128 0, 0) ([a, b] @ [c, d]) =
      (to_be_bytes a @ to_be_bytes b @ to_be_bytes c @ to_be_bytes d, 128)"
    by (subst write_fields_from_zero [where r = 0]) simp_all
  then show ?thesis
    by (simp add: HYLI_BLOB_LENGTH_BYTES_def HYLI_BLOB_HASH_COUNT_def HYLI_BLOB_HASH_BYTE_LENGTH_def)
qed

definition faucet_config :: "faucet_app \<Rightarrow> string \<Rightarrow> contract_config" where
  "faucet_config app token = \<lparr> utxo_contract_name = fa_utxo_contract app,
     smt_incl_proof_contract_name = fa_incl_contract app, smt_contract_name = token \<rparr>"

definition mint_bytes :: "('f, 'z) crypto_scheme \<Rightarrow> zk_note \<Rightarrow> byte list" where
  "mint_bytes C n = to_be_bytes (note_commitment C n) @ to_be_bytes ZERO @
     to_be_bytes (hash_merge C [ZERO, ZERO]) @ to_be_bytes (hash_merge C [ZERO, ZERO])"

definition mint_identity :: "faucet_app \<Rightarrow> string option \<Rightarrow> string" where
  "mint_identity app wallet_account = (case wallet_account of
      Some a \<Rightarrow> a @ ''@wallet'' | None \<Rightarrow> FAUCET_IDENTITY_PREFIX @ ''@'' @ fa_utxo_contract app)"

definition mint_extras :: "'y tx_ops_scheme \<Rightarrow> faucet_app \<Rightarrow> (string \<times> u64) option \<Rightarrow> string option
   \<Rightarrow> byte list option \<Rightarrow> byte list option \<Rightarrow> blob list" where
  "mint_extras X app token_deposit wallet_account secp wallet =
     map (\<lambda>d. \<lparr> blob_contract_name = ''secp256k1'', blob_data = d \<rparr>) (case secp of None \<Rightarrow> [] | Some d \<Rightarrow> [d]) @
     map (\<lambda>d. \<lparr> blob_contract_name = ''wallet'', blob_data = d \<rparr>) (case wallet of None \<Rightarrow> [] | Some d \<Rightarrow> [d]) @
     map (\<lambda>(token_contract, amount). token_blob X (mint_identity app wallet_account) (fa_state_contract app)
         (ucast amount) token_contract None None) (case token_deposit of None \<Rightarrow> [] | Some t \<Rightarrow> [t])"

lemma to_be_bytes_zero_iff: "to_be_bytes e = H256_ZERO \<longleftrightarrow> e = 0"
proof -
  have "to_be_bytes 0 = H256_ZERO" unfolding H256_ZERO_def by code_simp
  then show ?thesis using element_be.enc_inj [of e 0] by simp
qed

lemma padding_commitment [simp]: "note_commitment C padding_note = ZERO"
  by (simp add: note_commitment_def padding_note_def)

lemma length_mint_bytes [simp]: "length (mint_bytes C n) = 128"
  by (simp add: mint_bytes_def)

lemma drop_mint_bytes:
  "drop 64 (mint_bytes C n) = to_be_bytes (hash_merge C [ZERO, ZERO]) @ to_be_bytes (hash_merge C [ZERO, ZERO])"
  by (simp add: mint_bytes_def)

lemma build_transaction_eq:
  "build_transaction C X app n token_deposit wallet_account secp wallet =
     (app\<lparr> fa_note_index := fa_note_index app + 1, fa_nullifier_root := hash_merge C [ZERO, ZERO] \<rparr>,
      state_tx X (faucet_config app token) (fa_state_contract app) (mint_identity app wallet_account) [2]
        (mint_bytes C n) (drop 64 (mint_bytes C n) @ to_be_bytes (fa_notes_root app))
        (mint_extras X app token_deposit wallet_account secp wallet),
      utxo_new_mint [n, padding_note])"
proof -
  have ins: "u_input_notes (utxo_new_mint [n, padding_note]) = [input_padding_note, input_padding_note]"
    and nul: "hash_merge C [note_psi (in_note input_padding_note), in_secret_key input_padding_note] = hash_merge C [ZERO, ZERO]"
    and leaves: "take 2 (drop 2 (leaf_elements C (utxo_new_mint [n, padding_note]))) = [note_commitment C n, ZERO]"
    by (simp_all add: utxo_new_mint_def input_padding_note_def padding_note_def leaf_elements_def note_commitment_def)
  have b: "foldl (write_nullifier C) (foldl write_field (replicate HYLI_BLOB_LENGTH_BYTES 0, 0) [note_commitment C n, ZERO], a)
      [input_padding_note, input_padding_note] =
      ((mint_bytes C n, 128), a\<lparr> fa_nullifier_root := hash_merge C [ZERO, ZERO] \<rparr>)" for a
    unfolding foldl_write_nullifier list.map nul write_four_fields by (simp add: nul mint_bytes_def)
  have p: "copy_into 64 (to_be_bytes (fa_notes_root app)) (copy_into 0 (take 64 (drop 64 (mint_bytes C n)))
      (replicate HYLI_SMT_INCL_PAYLOAD_LENGTH_BYTES 0)) = drop 64 (mint_bytes C n) @ to_be_bytes (fa_notes_root app)"
    by (simp add: copy_into_def HYLI_SMT_INCL_PAYLOAD_LENGTH_BYTES_def)
  show ?thesis
    unfolding build_transaction_def Let_def leaves ins b prod.case
    using p
    by (simp add: state_tx_def faucet_config_def mint_identity_def mint_extras_def split: option.splits)
qed


section \<open>Properties\<close>

lemma state_event_state:
  assumes "smt_laws T" "state_inv T (ex_state e0)"
    and "handle_transaction_success T K e0 tx0 i = (e, Some root)"
    and "i < length (tx_blobs tx0)" "is_state_action K (blob_data (tx_blobs tx0 ! i))"
  shows "state_inv T (ex_state e) \<and> ex_config e = ex_config e0 \<and> root = smt_root T (notes_tree (ex_state e)) \<and>
    take 8 root \<in> set (roots (ex_state e))"
proof -
  have good: "good_state T (ex_state e0)" using assms(1,2) by (simp add: good_state_def)
  have m: "map_of (cd_blobs (calldata_of_tx tx0 i)) (cd_index (calldata_of_tx tx0 i)) = Some (tx_blobs tx0 ! i)"
    using map_of_enumerate [of 0 "tx_blobs tx0" i] assms(4) by (simp add: calldata_of_tx_def)
  obtain p where u: "update_from_blob T e0 (calldata_of_tx tx0 i) = (e, Inr p)"
      and root: "root = state_notes_root T (ex_state e)"
    using assms(3,5) m
    by (auto simp: handle_transaction_success_def handle_def Let_def split: prod.splits sum.splits if_splits)
  obtain nullified created where a: "apply_commitments T e0 nullified created = (e, Inr ())"
    using u by (auto simp: update_from_blob_def split: option.splits prod.splits sum.splits)
  show ?thesis
    using apply_commitments_effect [OF good a] root
    by (auto simp: good_state_def state_notes_root_def root_fingerprint_def MAX_ROOTS_def)
qed

lemma mint_tx_eq:
  assumes "ex_config e = faucet_config app token"
    and "build_transaction C X app n None None None None = (app', tx, u)"
  shows "tx = state_tx X (ex_config e) (fa_state_contract app) (mint_identity app None) [2] (mint_bytes C n)
    (drop 64 (mint_bytes C n) @ to_be_bytes (fa_notes_root app)) []"
  using assms(2) unfolding build_transaction_eq [where token = token] assms(1) by (simp add: mint_extras_def)

lemma mint_bytes_keys:
  assumes "to_be_bytes (hash_merge C [ZERO, ZERO]) = PADDING_NULLIFIER"
  shows "parse_hyli_utxo_blob (mint_bytes C n) =
      Inr ([to_be_bytes (note_commitment C n), to_be_bytes ZERO], [PADDING_NULLIFIER, PADDING_NULLIFIER])"
    and "filter_keys [to_be_bytes (note_commitment C n), to_be_bytes ZERO] False =
      (if note_commitment C n = ZERO then [] else [to_be_bytes (note_commitment C n)])"
    and "filter_keys [PADDING_NULLIFIER, PADDING_NULLIFIER] True = []"
proof -
  show "parse_hyli_utxo_blob (mint_bytes C n) =
      Inr ([to_be_bytes (note_commitment C n), to_be_bytes ZERO], [PADDING_NULLIFIER, PADDING_NULLIFIER])"
    unfolding mint_bytes_def assms by (subst parse_hyli_utxo_blob_concat) (simp_all add: length_PADDING_NULLIFIER)
  show "filter_keys [to_be_bytes (note_commitment C n), to_be_bytes ZERO] False =
      (if note_commitment C n = ZERO then [] else [to_be_bytes (note_commitment C n)])"
    "filter_keys [PADDING_NULLIFIER, PADDING_NULLIFIER] True = []"
    using to_be_bytes_zero_iff [of "note_commitment C n"] to_be_bytes_zero_iff [of ZERO]
    by (simp_all add: filter_keys_def ZERO_def)
qed

text \<open>What the executor makes of a mint, whatever root the mint names.\<close>

lemma mint_update:
  assumes "smt_laws T" "state_inv T (ex_state e)"
    and "ex_config e = faucet_config app token" "fa_state_contract app \<noteq> fa_utxo_contract app"
    and "to_be_bytes (hash_merge C [ZERO, ZERO]) = PADDING_NULLIFIER"
    and "build_transaction C X app n None None None None = (app', tx, u)"
  shows "isOk (snd (update_from_blob T e (calldata_of_tx tx 0))) \<longleftrightarrow>
      note_commitment C n = ZERO \<or> to_be_bytes (note_commitment C n) \<notin> created_set T (ex_state e)"
    and "nullified_set T (ex_state (fst (update_from_blob T e (calldata_of_tx tx 0)))) = nullified_set T (ex_state e)"
    and "created_set T (ex_state (fst (update_from_blob T e (calldata_of_tx tx 0)))) =
      (if note_commitment C n = ZERO then {} else {to_be_bytes (note_commitment C n)}) \<union> created_set T (ex_state e)"
proof -
  let ?created = "[to_be_bytes (note_commitment C n), to_be_bytes ZERO]"
  let ?null = "[PADDING_NULLIFIER, PADDING_NULLIFIER]"
  let ?u = "update_from_blob T e (calldata_of_tx tx 0)"
  have good: "good_state T (ex_state e)" using assms(1,2) by (simp add: good_state_def)
  have sc: "fa_state_contract app \<noteq> utxo_contract_name (ex_config e)" using assms(3,4) by (simp add: faucet_config_def)
  obtain e2 r2 where a: "apply_commitments T e ?null ?created = (e2, r2)" by fastforce
  have u: "?u = (e2, mapOk (\<lambda>_. (?created, ?null)) r2)"
    using a mint_bytes_keys(1) [OF assms(5)]
    by (cases r2) (simp_all add: update_from_blob_def mint_tx_eq [OF assms(3,6)] state_tx_utxo_blob [OF sc])
  have o: "isOk (mapOk f r2) = isOk r2" for f :: "unit \<Rightarrow> h256 list \<times> h256 list" by (cases r2) simp_all
  note eff = apply_commitments_effect [OF good a] mint_bytes_keys(2) [OF assms(5), of n] mint_bytes_keys(3) [OF assms(5)]
  show "isOk (snd ?u) \<longleftrightarrow> note_commitment C n = ZERO \<or> to_be_bytes (note_commitment C n) \<notin> created_set T (ex_state e)"
    "nullified_set T (ex_state (fst ?u)) = nullified_set T (ex_state e)"
    "created_set T (ex_state (fst ?u)) =
      (if note_commitment C n = ZERO then {} else {to_be_bytes (note_commitment C n)}) \<union> created_set T (ex_state e)"
    using eff by (auto simp: u o split: if_splits)
qed

lemma mint_guest:
  assumes "smt_laws T" "state_inv T (ex_state e)" "tx_laws X"
    and "ex_config e = faucet_config app token" "fa_state_contract app \<noteq> fa_utxo_contract app"
    and "to_be_bytes (hash_merge C [ZERO, ZERO]) = PADDING_NULLIFIER" "note_commitment C n \<noteq> ZERO"
    and "named_caller X (mint_bytes C n) \<noteq> Some 0"
    and "build_transaction C X app n None None None None = (app', tx, u)"
  obtains g where "to_zkvm_state T (ex_state e) (ex_config e) [to_be_bytes (note_commitment C n), to_be_bytes ZERO]
      [PADDING_NULLIFIER, PADDING_NULLIFIER] = Inr g"
    and "isOk (snd (zk_execute (sdk_ops.truncate X) g (calldata_of_tx tx 0))) \<longleftrightarrow>
      to_be_bytes (note_commitment C n) \<notin> created_set T (ex_state e) \<and>
      take 8 (to_be_bytes (fa_notes_root app)) \<in> set (resize MAX_ROOTS (replicate 8 0) (roots (ex_state e)))"
proof -
  let ?c = "to_be_bytes (note_commitment C n)" and ?p = "drop 64 (mint_bytes C n) @ to_be_bytes (fa_notes_root app)"
  let ?created = "[?c, to_be_bytes ZERO]" and ?null = "[PADDING_NULLIFIER, PADDING_NULLIFIER]"
  have sc: "fa_state_contract app \<noteq> utxo_contract_name (ex_config e)" using assms(4,5) by (simp add: faucet_config_def)
  note keys = mint_bytes_keys(2) [OF assms(6), of n, simplified assms(7) if_False] mint_bytes_keys(3) [OF assms(6)]
  have d: "distinct (filter_keys ?created False)" "distinct (filter_keys ?null True)" by (simp_all add: keys)
  have p: "length ?p = 96" by simp
  show thesis
  proof (rule guest_accepts_state_tx [OF assms(1,2,3) sc p assms(8) mint_bytes_keys(1) [OF assms(6)] _ _ d,
        where extras = "[]" and callees = "[2]" and ident = "mint_identity app None"])
    fix g
    assume "to_zkvm_state T (ex_state e) (ex_config e) ?created ?null = Inr g"
      and "isOk (snd (zk_execute (sdk_ops.truncate X) g (calldata_of_tx (state_tx X (ex_config e)
          (fa_state_contract app) (mint_identity app None) [2] (mint_bytes C n) ?p []) 0))) \<longleftrightarrow>
        set (filter_keys ?created False) \<inter> created_set T (ex_state e) = {} \<and>
        set (filter_keys ?null True) \<inter> nullified_set T (ex_state e) = {} \<and>
        take 64 ?p = drop 64 (mint_bytes C n) \<and>
        take 8 (drop 64 ?p) \<in> set (resize MAX_ROOTS (replicate 8 0) (roots (ex_state e))) \<and>
        callees_accepted (ex_config e) (filter (\<lambda>b. named_caller X (blob_data b) = Some 0) [])"
    then show thesis
      by (intro that) (auto simp: mint_tx_eq [OF assms(4,9)] keys callees_accepted_def)
  qed (simp_all add: naming_extras_def)
qed

lemma mint_settles:
  assumes "smt_laws T" "state_inv T (ex_state e)" "tx_laws X"
    and "ex_config e = faucet_config app token" "fa_state_contract app \<noteq> fa_utxo_contract app"
    and "take 8 (to_be_bytes (fa_notes_root app)) \<in> set (resize MAX_ROOTS (replicate 8 0) (roots (ex_state e)))"
    and "to_be_bytes (hash_merge C [ZERO, ZERO]) = PADDING_NULLIFIER" "note_commitment C n \<noteq> ZERO"
    and "named_caller X (mint_bytes C n) \<noteq> Some 0"
    and "build_transaction C X app n None None None None = (app', tx, u)"
  shows "(\<exists>g. to_zkvm_state T (ex_state e) (ex_config e) [to_be_bytes (note_commitment C n), to_be_bytes ZERO]
          [PADDING_NULLIFIER, PADDING_NULLIFIER] = Inr g \<and>
        (isOk (snd (zk_execute (sdk_ops.truncate X) g (calldata_of_tx tx 0))) \<longleftrightarrow>
           to_be_bytes (note_commitment C n) \<notin> created_set T (ex_state e))) \<and>
    (isOk (snd (update_from_blob T e (calldata_of_tx tx 0))) \<longleftrightarrow>
       to_be_bytes (note_commitment C n) \<notin> created_set T (ex_state e)) \<and>
    nullified_set T (ex_state (fst (update_from_blob T e (calldata_of_tx tx 0)))) = nullified_set T (ex_state e) \<and>
    created_set T (ex_state (fst (update_from_blob T e (calldata_of_tx tx 0)))) =
      insert (to_be_bytes (note_commitment C n)) (created_set T (ex_state e))"
  by (rule mint_guest [OF assms(1-5,7-10)])
    (use mint_update [OF assms(1,2,4,5,7,10)] assms(6,8) in auto)

text \<open>
  a faucet mint settles. When the faucet has learnt the notes root from the event of an
  applied transaction and builds a mint for a note with a non-zero commitment, the
  executor can prepare the guest's input for the mint, and the guest accepts the mint
  exactly when the executor applies it, which is exactly when the note's commitment is
  new. The faucet's counters aside, the transaction's nullifiers are the padding
  nullifier, so a mint spends nothing.
\<close>

theorem faucet_mint_accepted:
  assumes "smt_laws T" "state_inv T (ex_state e0)" "tx_laws X"
    and "handle_transaction_success T K e0 tx0 i = (e, Some root)"
    and "i < length (tx_blobs tx0)" "is_state_action K (blob_data (tx_blobs tx0 ! i))"
    and "ex_config e0 = faucet_config app token" "fa_state_contract app \<noteq> fa_utxo_contract app"
    and "to_be_bytes (hash_merge C [ZERO, ZERO]) = PADDING_NULLIFIER" "note_commitment C n \<noteq> ZERO"
    and "named_caller X (mint_bytes C n) \<noteq> Some 0"
    and "build_transaction C X (on_state_event app root) n None None None None = (app', tx, u)"
  shows "(\<exists>g. to_zkvm_state T (ex_state e) (ex_config e) [to_be_bytes (note_commitment C n), to_be_bytes ZERO]
          [PADDING_NULLIFIER, PADDING_NULLIFIER] = Inr g \<and>
        (isOk (snd (zk_execute (sdk_ops.truncate X) g (calldata_of_tx tx 0))) \<longleftrightarrow>
           to_be_bytes (note_commitment C n) \<notin> created_set T (ex_state e))) \<and>
    (isOk (snd (update_from_blob T e (calldata_of_tx tx 0))) \<longleftrightarrow>
       to_be_bytes (note_commitment C n) \<notin> created_set T (ex_state e)) \<and>
    nullified_set T (ex_state (fst (update_from_blob T e (calldata_of_tx tx 0)))) = nullified_set T (ex_state e)"
proof -
  let ?a = "on_state_event app root"
  note e = state_event_state [OF assms(1,2,4,5,6)]
  have l: "length root = 32" using e smt_root_length [OF assms(1)] by simp
  have r: "to_be_bytes (fa_notes_root ?a) = root" using l by (simp add: on_state_event_def element_be.enc_dec)
  have cfg: "ex_config e = faucet_config ?a token" "fa_state_contract ?a \<noteq> fa_utxo_contract ?a"
    using e assms(7,8) by (simp_all add: faucet_config_def on_state_event_def)
  have "set (roots (ex_state e)) \<subseteq> set (resize MAX_ROOTS (replicate 8 0) (roots (ex_state e)))"
    using set_resize [of "roots (ex_state e)" MAX_ROOTS] e by (auto simp: state_inv_def)
  then have w: "take 8 (to_be_bytes (fa_notes_root ?a)) \<in> set (resize MAX_ROOTS (replicate 8 0) (roots (ex_state e)))"
    using e unfolding r by blast
  show ?thesis using mint_settles [OF assms(1) _ assms(3) cfg w assms(9,10,11,12)] e by blast
qed


text \<open>A concrete SDK: the Borsh layout of the structured blob.\<close>

definition opt_index :: "nat option \<Rightarrow> byte list" where
  "opt_index c = (case c of None \<Rightarrow> [0] | Some i \<Rightarrow> 1 # le_bytes 8 i)"

definition toy_structured :: "nat option \<Rightarrow> nat list option \<Rightarrow> byte list \<Rightarrow> byte list" where
  "toy_structured c cs p = opt_index c @
     (case cs of None \<Rightarrow> [0] | Some l \<Rightarrow> 1 # le_bytes 4 (length l) @ concat (map (le_bytes 8) l)) @ p"

definition toy_caller :: "byte list \<Rightarrow> nat option" where
  "toy_caller d = (case d of [] \<Rightarrow> None | t # r \<Rightarrow> if t = 1 then Some (le_val (take 8 r)) else None)"

text \<open>The callees a structured blob lists, and the test that they are those that name it.\<close>

definition toy_callees :: "byte list \<Rightarrow> nat list" where
  "toy_callees d =
     (let r = drop (if hd d = 1 then 9 else 1) d in
      if hd r = 1 then map (\<lambda>i. le_val (take 8 (drop (8 * i) (drop 5 r)))) [0..<le_val (take 4 (tl r))] else [])"

definition toy_parse :: "calldata \<Rightarrow> string + exec_ctx" where
  "toy_parse cd =
     (case map_of (cd_blobs cd) (cd_index cd) of
        None \<Rightarrow> Inl ''no blob''
      | Some b \<Rightarrow>
          (let naming = filter (\<lambda>(_, b). toy_caller (blob_data b) = Some (cd_index cd)) (cd_blobs cd) in
           if toy_callees (blob_data b) = map fst naming then Inr \<lparr> callees_blobs = map snd naming \<rparr>
           else Inl ''Blob callees do not match actual callees''))"

definition toy_tx :: tx_ops where
  "toy_tx = \<lparr> parse_calldata = toy_parse,
     structured_parameters = (\<lambda>d. Some (drop (if hd d = 1 then 14 else 6) d)),
     structured_data = toy_structured, named_caller = toy_caller,
     token_transfer_action = (\<lambda>s r a. string_bytes s @ string_bytes r @ word_to_le a) \<rparr>"

lemma le_val_le8: "i < 2 ^ 64 \<Longrightarrow> le_val (le_bytes 8 i) = i"
  by (simp add: le_val_le_bytes)

lemma toy_callees_structured:
  assumes "\<forall>i\<in>set (listed_callees cs). i < 2 ^ 64" "length (listed_callees cs) < 2 ^ 32"
  shows "toy_callees (toy_structured None cs p) = listed_callees cs"
proof (cases cs)
  case None
  then show ?thesis by (simp add: toy_callees_def toy_structured_def opt_index_def listed_callees_def)
next
  case (Some l)
  have l: "\<forall>i\<in>set l. i < 2 ^ 64" "length l < 2 ^ 32" using assms Some by (simp_all add: listed_callees_def)
  have "take 8 (drop (8 * i) (concat (map (le_bytes 8) l) @ p)) = le_bytes 8 (l ! i)" if "i < length l" for i
    using that
  proof (induction l arbitrary: i)
    case (Cons a l)
    then show ?case by (cases i) simp_all
  qed simp
  then have "map (\<lambda>i. le_val (take 8 (drop (8 * i) (concat (map (le_bytes 8) l) @ p)))) [0..<length l] = map ((!) l) [0..<length l]"
    using l(1) by (auto simp: le_val_le8)
  then have "map (\<lambda>i. le_val (take 8 (drop (8 * i) (concat (map (le_bytes 8) l) @ p)))) [0..<length l] = l"
    by (simp add: map_nth)
  moreover have "le_val (le_bytes 4 (length l)) = length l" using l(2) by (simp add: le_val_le_bytes)
  ultimately show ?thesis
    by (simp add: Some toy_callees_def toy_structured_def opt_index_def listed_callees_def Let_def)
qed

lemma toy_tx_laws: "tx_laws toy_tx"
proof -
  have v: "borsh_vec ps = word_to_le (of_nat (length ps) :: u32) @ ps" for ps
  proof -
    have "concat (map (\<lambda>b. [b]) ps) = ps" by (induction ps) simp_all
    then show ?thesis by (simp add: borsh_vec_def borsh_seq_def)
  qed
  have eqs: "structured_data toy_tx = toy_structured" "named_caller toy_tx = toy_caller" "parse_calldata toy_tx = toy_parse"
    by (simp_all add: toy_tx_def)
  have "toy_caller (toy_structured c cs p) = c" if "\<forall>i\<in>set_option c. i < 2 ^ 64" for c cs p
    using that by (cases c) (simp_all add: toy_caller_def toy_structured_def opt_index_def le_val_le8)
  then have callers: "\<forall>c cs p. (\<forall>i\<in>set_option c. i < 2 ^ 64) \<longrightarrow> toy_caller (toy_structured c cs p) = c" by blast
  have "structured_parameters toy_tx (toy_structured c None (borsh_vec ps)) = Some ps" for c ps
    by (cases c) (simp_all add: toy_tx_def toy_structured_def opt_index_def v)
  then have parameters: "\<forall>c ps. (\<forall>i\<in>set_option c. i < 2 ^ 64) \<longrightarrow> length ps < 2 ^ 32 \<longrightarrow>
      structured_parameters toy_tx (toy_structured c None (borsh_vec ps)) = Some ps" by blast
  have lengths: "\<forall>c p. c < 2 ^ 64 \<longrightarrow> length (toy_structured (Some c) None p) = 10 + length p"
    by (simp add: toy_structured_def opt_index_def)
  have parsed: "(listed_callees cs = map fst (naming_blobs toy_tx cd) \<longrightarrow>
        toy_parse cd = Inr \<lparr> callees_blobs = map snd (naming_blobs toy_tx cd) \<rparr>) \<and>
      (\<not> fst ` set (naming_blobs toy_tx cd) \<subseteq> set (listed_callees cs) \<longrightarrow> \<not> isOk (toy_parse cd))"
    if "map_of (cd_blobs cd) (cd_index cd) = Some b" "blob_data b = toy_structured None cs HYLI_UTXO_STATE_ACTION"
      "\<forall>i\<in>set (listed_callees cs). i < 2 ^ 64" "length (listed_callees cs) < 2 ^ 32" for cd b cs
  proof -
    have "naming_blobs toy_tx cd = filter (\<lambda>(_, b). toy_caller (blob_data b) = Some (cd_index cd)) (cd_blobs cd)"
      by (simp add: naming_blobs_def toy_tx_def)
    then have p: "toy_parse cd = (if listed_callees cs = map fst (naming_blobs toy_tx cd)
        then Inr \<lparr> callees_blobs = map snd (naming_blobs toy_tx cd) \<rparr>
        else Inl ''Blob callees do not match actual callees'')"
      using that(1,2) toy_callees_structured [OF that(3,4)] by (simp add: toy_parse_def)
    show ?thesis unfolding p by auto
  qed
  have parsing: "\<forall>cd b cs. map_of (cd_blobs cd) (cd_index cd) = Some b \<longrightarrow>
        blob_data b = toy_structured None cs HYLI_UTXO_STATE_ACTION \<longrightarrow>
        (\<forall>i\<in>set (listed_callees cs). i < 2 ^ 64) \<longrightarrow> length (listed_callees cs) < 2 ^ 32 \<longrightarrow>
        distinct (map fst (cd_blobs cd)) \<longrightarrow>
        (listed_callees cs = map fst (naming_blobs toy_tx cd) \<longrightarrow>
           toy_parse cd = Inr \<lparr> callees_blobs = map snd (naming_blobs toy_tx cd) \<rparr>) \<and>
        (\<not> fst ` set (naming_blobs toy_tx cd) \<subseteq> set (listed_callees cs) \<longrightarrow> \<not> isOk (toy_parse cd))"
    by (intro allI impI) (rule parsed)
  show ?thesis unfolding tx_laws_def eqs by (intro conjI lengths parameters callers parsing)
qed

text \<open>The two topologies of the tests: a listed token callee is collected, an unlisted one is refused.\<close>

lemma withdraw_topologies:
  assumes "tx_laws X" "named_caller X utxo_bytes \<noteq> Some 0" "named_caller X (blob_data t) = Some 0"
  shows "isOk (parse_calldata X (calldata_of_tx (state_tx X cfg sc ident [2, 3] utxo_bytes payload [t]) 0))"
    and "\<not> isOk (parse_calldata X (calldata_of_tx (state_tx X cfg sc ident [2] utxo_bytes payload [t]) 0))"
proof -
  show "isOk (parse_calldata X (calldata_of_tx (state_tx X cfg sc ident [2, 3] utxo_bytes payload [t]) 0))"
    using assms(3) by (subst state_tx_parsed [OF assms(1,2)]) (simp_all add: naming_extras_def)
  let ?cd = "calldata_of_tx (state_tx X cfg sc ident [2] utxo_bytes payload [t]) 0"
  have "(3, t) \<in> set (naming_blobs X ?cd)"
    unfolding state_tx_naming [OF assms(1,2)] using assms(3) by simp
  then have "\<not> fst ` set (naming_blobs X ?cd) \<subseteq> set (listed_callees (Some [2]))"
    by (force simp: listed_callees_def)
  then show "\<not> isOk (parse_calldata X ?cd)"
    by (intro tx_laws_calldata(2) [OF assms(1), where cs = "Some [2]" and b = "\<lparr> blob_contract_name = sc,
          blob_data = structured_data X None (Some [2]) HYLI_UTXO_STATE_ACTION \<rparr>"])
      (simp_all add: listed_callees_def calldata_of_tx_def state_tx_def)
qed

text \<open>A hash that gives the padding nullifier on pairs and a constant elsewhere.\<close>

definition mint_crypto :: "nat crypto" where
  "mint_crypto = const_crypto\<lparr> poseidon := (\<lambda>xs. if length xs = 2 then be_val PADDING_NULLIFIER else 5) \<rparr>"

lemma mint_crypto_hashes:
  "to_be_bytes (hash_merge mint_crypto [ZERO, ZERO]) = PADDING_NULLIFIER"
  "length xs \<noteq> 2 \<Longrightarrow> hash_merge mint_crypto xs = 5"
proof -
  have be: "from_base mint_crypto n = from_be_bytes (be_bytes 32 n)" if "n < unat MODULUS" for n
    using that by (simp add: from_base_def mint_crypto_def const_crypto_def)
  have "be_val PADDING_NULLIFIER = unat (hd PADDING_NULLIFIER) * 256 ^ 31 + be_val (tl PADDING_NULLIFIER)"
    using be_val_append [of "[hd PADDING_NULLIFIER]" "tl PADDING_NULLIFIER"]
    by (simp add: PADDING_NULLIFIER_def be_val_def le_val_def)
  moreover have "be_val (tl PADDING_NULLIFIER) < 256 ^ 31"
    using be_val_less [of "tl PADDING_NULLIFIER"] by simp
  moreover have "unat (hd PADDING_NULLIFIER) < 48" by (simp add: PADDING_NULLIFIER_def)
  moreover have "48 * 256 ^ 31 \<le> unat MODULUS" by (simp add: MODULUS_def)
  ultimately have "be_val PADDING_NULLIFIER < unat MODULUS" by simp
  moreover have "be_bytes 32 (be_val PADDING_NULLIFIER) = PADDING_NULLIFIER"
    using be_bytes_be_val [of PADDING_NULLIFIER] by simp
  ultimately show "to_be_bytes (hash_merge mint_crypto [ZERO, ZERO]) = PADDING_NULLIFIER"
    using be [of "be_val PADDING_NULLIFIER"]
    by (simp add: hash_merge_def Let_def) (simp add: mint_crypto_def element_be.enc_dec)
  have "(5 :: nat) < unat MODULUS" by (simp add: MODULUS_def)
  moreover have "from_be_bytes (be_bytes 32 5) = (5 :: element)" by code_simp
  ultimately show "length xs \<noteq> 2 \<Longrightarrow> hash_merge mint_crypto xs = 5"
    using be [of 5] by (simp add: hash_merge_def Let_def) (simp add: mint_crypto_def)
qed

definition toy_faucet :: faucet_app where
  "toy_faucet = faucet_app_build ''utxo'' ''state'' ''smt''"

definition toy_note :: zk_note where
  "toy_note = \<lparr> note_kind = 2, note_contract = 7, note_address = 8, note_psi = 9, note_value = 10 \<rparr>"

definition toy_state_tx :: blob_transaction where
  "toy_state_tx = \<lparr> tx_identity = ''alice'', tx_blobs = map snd (cd_blobs (toy_calldata 3)) \<rparr>"

lemma toy_state_event:
  obtains e root where "handle_transaction_success toy_smt toy_client (executor_new toy_smt toy_config) toy_state_tx 0 = (e, Some root)"
proof -
  let ?e = "executor_new toy_smt toy_config"
  have c: "calldata_of_tx toy_state_tx 0 = toy_calldata 3"
    by (simp add: calldata_of_tx_def toy_state_tx_def toy_calldata_def)
  have "isOk (snd (handle toy_smt toy_client ?e (toy_calldata 3)))"
    using toy_applied
    by (auto simp: applied_keys_def handle_def Let_def split: option.splits prod.splits sum.splits if_splits)
  then obtain e out where "handle toy_smt toy_client ?e (toy_calldata 3) = (e, Inr out)"
    by (cases "handle toy_smt toy_client ?e (toy_calldata 3)") (auto simp: isOk_iff)
  then have "handle_transaction_success toy_smt toy_client ?e toy_state_tx 0 = (e, Some (state_notes_root toy_smt (ex_state e)))"
    by (simp add: handle_transaction_success_def c)
  then show ?thesis by (rule that)
qed

theorem faucet_mint_accepted_witness:
  "\<exists>e root tx. handle_transaction_success toy_smt toy_client (executor_new toy_smt toy_config) toy_state_tx 0 = (e, Some root) \<and>
     tx = fst (snd (build_transaction mint_crypto toy_tx (on_state_event toy_faucet root) toy_note None None None None)) \<and>
     isOk (snd (update_from_blob toy_smt e (calldata_of_tx tx 0))) =
       (to_be_bytes 5 \<notin> created_set toy_smt (ex_state e))"
proof -
  let ?e = "executor_new toy_smt toy_config"
  obtain e root where ev: "handle_transaction_success toy_smt toy_client ?e toy_state_tx 0 = (e, Some root)"
    by (rule toy_state_event)
  have i: "state_inv toy_smt (ex_state ?e)" using toy_state_inv by (simp add: executor_new_def)
  have a: "0 < length (tx_blobs toy_state_tx)" "is_state_action toy_client (blob_data (tx_blobs toy_state_tx ! 0))"
    by (simp_all add: toy_state_tx_def toy_calldata_def toy_client_def)
  have c: "ex_config ?e = faucet_config toy_faucet ''token''" "fa_state_contract toy_faucet \<noteq> fa_utxo_contract toy_faucet"
    by (simp_all add: executor_new_def toy_config_def faucet_config_def toy_faucet_def faucet_app_build_def)
  have n: "note_commitment mint_crypto toy_note = 5"
    by (simp add: note_commitment_def mint_crypto_hashes toy_note_def ZERO_def)
  have nz: "note_commitment mint_crypto toy_note \<noteq> ZERO" by (simp add: n ZERO_def)
  have "to_be_bytes 5 = 0 # replicate 30 0 @ [5]" by code_simp
  then have caller: "named_caller toy_tx (mint_bytes mint_crypto toy_note) \<noteq> Some 0"
    by (simp add: mint_bytes_def n toy_tx_def toy_caller_def)
  obtain app' tx u where t: "build_transaction mint_crypto toy_tx (on_state_event toy_faucet root) toy_note None None None None = (app', tx, u)"
    by (metis prod.collapse)
  show ?thesis
    using faucet_mint_accepted [OF toy_smt_laws i toy_tx_laws ev a c mint_crypto_hashes(1) nz caller t] ev t
    by (simp add: n)
qed

text \<open>
  C20: a legacy transfer never reaches the ledger through the guest. The transactions of the
  transfer commands list no inclusion-proof blob, so the guest rejects them whatever its
  state; and the blob the server computes for a transfer starts with the commitments of
  the notes being spent, which an executor that applied it would record as created.
\<close>

theorem legacy_transfer_rejected:
  assumes "tx_laws X" "config z = faucet_config app token"
    and "fa_incl_contract app \<noteq> fa_utxo_contract app"
    and "length ins = 2" "length outs = 2"
    and "build_transfer_transaction C X app ins outs = (tx, u)"
  shows "\<not> isOk (snd (zk_execute (sdk_ops.truncate X) z (calldata_of_tx tx 0))) \<and>
    \<not> isOk (snd (zk_execute (sdk_ops.truncate X) z (calldata_of_tx (build_proved_transfer_blob X app cmd) 0))) \<and>
    parse_hyli_utxo_blob (blob_data (tx_blobs tx ! 1)) =
      Inr (map (\<lambda>i. to_be_bytes (note_commitment C (in_note i))) ins,
           map (\<lambda>i. to_be_bytes (hash_merge C [note_psi (in_note i), in_secret_key i])) ins)"
proof -
  have rej: "\<not> isOk (snd (zk_execute (sdk_ops.truncate X) z (calldata_of_tx (transfer_blobs X app bytes) 0)))" for bytes
  proof -
    let ?cd = "calldata_of_tx (transfer_blobs X app bytes) 0"
    have "map_of (cd_blobs ?cd) (cd_index ?cd) = Some \<lparr> blob_contract_name = fa_state_contract app,
        blob_data = structured_data X None None HYLI_UTXO_STATE_ACTION \<rparr>"
      by (simp add: calldata_of_tx_def transfer_blobs_def Let_def)
    note law = tx_laws_calldata [OF assms(1) this, of None]
    have naming: "naming_blobs X ?cd =
        (if named_caller X bytes = Some 0 then [(1, \<lparr> blob_contract_name = fa_utxo_contract app, blob_data = bytes \<rparr>)] else [])"
      using tx_lawsD(3) [OF assms(1)] by (simp add: naming_blobs_def calldata_of_tx_def transfer_blobs_def Let_def)
    have "parse_calldata X ?cd = Inr \<lparr> callees_blobs = [] \<rparr> \<or> \<not> isOk (parse_calldata X ?cd)"
      using law by (auto simp: naming listed_callees_def calldata_of_tx_def split: if_splits)
    then show ?thesis using assms(2,3)
      by (auto simp: zk_execute_ok_iff check_noir_blobs_iff blobs_accepted_def faucet_config_def)
  qed
  obtain a b where ins: "ins = [a, b]" using assms(4) by (auto simp: list_2)
  let ?null = "\<lambda>i. hash_merge C [note_psi (in_note i), in_secret_key i]"
  have leaves: "take 2 (leaf_elements C (utxo_new_send ins outs)) =
      [note_commitment C (in_note a), note_commitment C (in_note b)]"
    by (simp add: leaf_elements_def utxo_new_send_def ins)
  have tx: "tx = transfer_blobs X app (to_be_bytes (note_commitment C (in_note a)) @ to_be_bytes (note_commitment C (in_note b)) @
      to_be_bytes (?null a) @ to_be_bytes (?null b))"
    using assms(6) write_four_fields [of "note_commitment C (in_note a)" "note_commitment C (in_note b)" "?null a" "?null b"]
    unfolding build_transfer_transaction_def Let_def leaves by (simp add: ins)
  then have "parse_hyli_utxo_blob (blob_data (tx_blobs tx ! 1)) =
      Inr ([to_be_bytes (note_commitment C (in_note a)), to_be_bytes (note_commitment C (in_note b))],
           [to_be_bytes (?null a), to_be_bytes (?null b)])"
    by (simp add: transfer_blobs_def Let_def parse_hyli_utxo_blob_concat)
  then show ?thesis using rej tx by (simp add: ins build_proved_transfer_blob_def)
qed

theorem legacy_transfer_rejected_witness:
  "\<not> isOk (snd (zk_execute (sdk_ops.truncate toy_tx) (zkvm_state_new (faucet_config toy_faucet ''token''))
      (calldata_of_tx (fst (build_transfer_transaction mint_crypto toy_tx toy_faucet
         [input_padding_note, input_padding_note] [toy_note, toy_note])) 0)))"
proof -
  have c: "config (zkvm_state_new (faucet_config toy_faucet ''token'')) = faucet_config toy_faucet ''token''"
    by (simp add: zkvm_state_new_def)
  have ne: "fa_incl_contract toy_faucet \<noteq> fa_utxo_contract toy_faucet" by (simp add: toy_faucet_def faucet_app_build_def)
  obtain tx u where t: "build_transfer_transaction mint_crypto toy_tx toy_faucet
      [input_padding_note, input_padding_note] [toy_note, toy_note] = (tx, u)" by (metis prod.collapse)
  have "\<not> isOk (snd (zk_execute (sdk_ops.truncate toy_tx) (zkvm_state_new (faucet_config toy_faucet ''token''))
      (calldata_of_tx tx 0)))"
    by (rule legacy_transfer_rejected [OF toy_tx_laws c ne _ _ t, THEN conjunct1]) simp_all
  then show ?thesis by (simp add: t)
qed

end
