(* ===== verification/Provers.thy ===== *)
theory Provers
  imports HyliCircuits ServerTx
begin

text \<open>
  The server's two proving modules (\<^verbatim>\<open>noir_prover.rs\<close>, \<^verbatim>\<open>smt_incl_prover.rs\<close>) and
  \<^verbatim>\<open>prover.rs\<close>: how a job becomes a circuit input, is proved and is sent to the node.  The
  backend, the node and the verifier library's splitting and parsing of public inputs are
  parameters; a job's outcome is what it sent to the node and its result, and a panic of
  the task.
\<close>

section \<open>Proof transactions (prover.rs, init.rs)\<close>

record contract_deployment =
  dep_contract_name :: string
  dep_program_id :: "byte list"
  dep_state_commitment :: "byte list"
  dep_timeout_window :: "u64 option"
  dep_registration_metadata :: "byte list option"

datatype 'e prover_error =
    IdentityTooLong string
  | StringTooLong string nat
  | BlobIndexOutOfBounds u32 u32
  | ProvingFailed 'e
  | NoPublicInputs
  | OutputUnparsable 'e
  | SubmitFailed 'e

text \<open>\<^verbatim>\<open>hyli_verifiers::noir_utils\<close>\<close>

record ('o, 'e) noir_utils =
  split_public_inputs :: "byte list \<Rightarrow> byte list \<Rightarrow> (byte list \<times> byte list) option"
  parse_noir_output :: "byte list \<Rightarrow> 'e + 'o"

record noir_artifacts =
  na_proof :: "byte list"
  na_program_id :: "byte list"

text \<open>A \<^verbatim>\<open>NoirProver\<close> is the name of its verifier, by default the SDK's name of Noir.\<close>

record noir_prover =
  np_verifier :: string

definition noir_prover_default :: "string \<Rightarrow> noir_prover" where
  "noir_prover_default noir = \<lparr> np_verifier = noir \<rparr>"

definition build_proof_transaction ::
  "('o, 'e) noir_utils \<Rightarrow> noir_prover \<Rightarrow> contract_deployment \<Rightarrow> noir_artifacts
   \<Rightarrow> 'e prover_error + proof_transaction \<times> 'o list" where
  "build_proof_transaction U p contract artifacts =
     (let proof_data = na_proof artifacts in
      case split_public_inputs U proof_data (na_program_id artifacts) of
        None \<Rightarrow> Inl NoPublicInputs
      | Some (inputs, _) \<Rightarrow>
     case parse_noir_output U inputs of
        Inl e \<Rightarrow> Inl (OutputUnparsable e)
      | Inr output \<Rightarrow>
          (let outputs = [output];
               proof_tx = \<lparr> px_contract_name = dep_contract_name contract,
                 px_program_id = na_program_id artifacts, px_verifier = np_verifier p, px_proof = proof_data \<rparr>
           in Inr (proof_tx, outputs)))"

section \<open>UTXO proofs (noir_prover.rs)\<close>

definition pad_right_with_null :: "string \<Rightarrow> nat \<Rightarrow> 'e prover_error + string" where
  "pad_right_with_null value target_len =
     (if target_len < length value then Inl (StringTooLong value target_len)
      else
        (let padded = value in
         Inr (if length value < target_len
              then padded @ replicate (target_len - length value) (char_of (0 :: nat)) else padded)))"

definition build_hyli_utxo ::
  "(byte list \<Rightarrow> string) \<Rightarrow> string \<Rightarrow> proof_job \<Rightarrow> 'e prover_error + hyli_utxo" where
  "build_hyli_utxo henc contract_name job =
     (let identity_str = pj_identity job in
      if 255 < length identity_str then Inl (IdentityTooLong identity_str)
      else
     case pad_right_with_null identity_str 256 of
        Inl e \<Rightarrow> Inl e
      | Inr padded_ident \<Rightarrow>
     case pad_right_with_null contract_name 256 of
        Inl e \<Rightarrow> Inl e
      | Inr padded_contract_name \<Rightarrow>
     Inr \<lparr> hy_version = 2, hy_initial_state = replicate 4 0, hy_next_state = replicate 4 0,
       hy_identity_len = of_nat (length identity_str), hy_identity = padded_ident,
       hy_tx_hash = henc (pj_tx_hash job), hy_index = pj_blob_index job, hy_blob_number = 1,
       hy_blob_index = pj_blob_index job, hy_blob_contract_name_len = of_nat (length contract_name),
       hy_blob_contract_name = padded_contract_name, hy_blob_capacity = of_nat HYLI_BLOB_LENGTH_BYTES,
       hy_blob_len = of_nat HYLI_BLOB_LENGTH_BYTES, hy_blob = pj_blob job,
       hy_tx_blob_count = pj_tx_blob_count job, hy_success = True, hy_utxo = pj_utxo job \<rparr>)"

text \<open>What both modules do with a finished proof.\<close>

definition submit_proof_tx ::
  "('o, 'e) noir_utils \<Rightarrow> 'e node_ops \<Rightarrow> contract_deployment \<Rightarrow> noir_prover \<Rightarrow> byte list
   \<Rightarrow> proof_transaction list \<times> ('e prover_error + unit)" where
  "submit_proof_tx U N contract p proof_bytes =
     (case build_proof_transaction U p contract
             \<lparr> na_proof = proof_bytes, na_program_id = dep_program_id contract \<rparr> of
        Inl e \<Rightarrow> ([], Inl e)
      | Inr (proof_tx, _) \<Rightarrow> ([proof_tx], mapErr SubmitFailed (send_tx_proof N proof_tx)))"

definition execute_proof_job ::
  "(byte list \<Rightarrow> string) \<Rightarrow> bool \<Rightarrow> ('f, 'z) circuit_ops_scheme \<Rightarrow> ('f, 'e) backend \<Rightarrow> ('o, 'e) noir_utils
   \<Rightarrow> 'e node_ops \<Rightarrow> contract_deployment \<Rightarrow> noir_prover \<Rightarrow> proof_job
   \<Rightarrow> (proof_transaction list \<times> ('e prover_error + unit)) panics" where
  "execute_proof_job henc chk C B U N contract p job =
     (case build_hyli_utxo henc (dep_contract_name contract) job of
        Inl e \<Rightarrow> Returns ([], Inl e)
      | Inr h \<Rightarrow>
     if pj_tx_blob_count job < pj_blob_index job
     then Returns ([], Inl (BlobIndexOutOfBounds (pj_blob_index job) (pj_tx_blob_count job)))
     else ifReturns (hyli_utxo_prove chk C B h) (\<lambda>r.
     case r of
        Inl e \<Rightarrow> Returns ([], Inl (ProvingFailed e))
      | Inr proof \<Rightarrow> Returns (submit_proof_tx U N contract p (hyli_utxo_proof_to_bytes proof))))"

datatype bb_version_error = BbNotRun | BbFailed | BbNotUtf8 | BbEmpty | BbVersion string

text \<open>
  The argument is what running \<^verbatim>\<open>bb --version\<close> gave: nothing, or the success of its exit
  status and its output.
\<close>

definition check_bb_version :: "(bool \<times> byte list) option \<Rightarrow> bb_version_error + unit" where
  "check_bb_version r =
     (case r of
        None \<Rightarrow> Inl BbNotRun
      | Some (success, out) \<Rightarrow>
          if \<not> success then Inl BbFailed
          else if \<not> utf8_valid out then Inl BbNotUtf8
          else (case first_line (bytes_string out) of
              None \<Rightarrow> Inl BbEmpty
            | Some line \<Rightarrow>
                (let version_line = trim_start_char (CHR ''v'') (str_trim line) in
                 if \<not> starts_with ''2.0.3'' version_line then Inl (BbVersion version_line) else Inr ())))"

section \<open>Inclusion proofs (smt_incl_prover.rs)\<close>

definition incl_pad_right_with_null :: "string \<Rightarrow> nat \<Rightarrow> 'e prover_error + string" where
  "incl_pad_right_with_null value target_len =
     (if target_len < length value then Inl (StringTooLong value target_len)
      else
        (let padded = value in
         Inr (if length value < target_len
              then padded @ replicate (target_len - length value) (char_of (0 :: nat)) else padded)))"

definition build_hyli_smt_incl ::
  "(byte list \<Rightarrow> string) \<Rightarrow> string \<Rightarrow> 'f smt_proof_job \<Rightarrow> 'e prover_error + 'f hyli_smt_incl" where
  "build_hyli_smt_incl henc contract_name job =
     (let identity_str = sj_identity job in
      if 255 < length identity_str then Inl (IdentityTooLong identity_str)
      else
     case incl_pad_right_with_null identity_str 256 of
        Inl e \<Rightarrow> Inl e
      | Inr padded_ident \<Rightarrow>
     case incl_pad_right_with_null contract_name 256 of
        Inl e \<Rightarrow> Inl e
      | Inr padded_contract_name \<Rightarrow>
     Inr \<lparr> hs_version = 2, hs_initial_state = replicate 4 0, hs_next_state = replicate 4 0,
       hs_identity_len = of_nat (length identity_str), hs_identity = padded_ident,
       hs_tx_hash = henc (sj_tx_hash job), hs_index = sj_blob_index job, hs_blob_number = 1,
       hs_blob_index = sj_blob_index job, hs_blob_contract_name_len = of_nat (length contract_name),
       hs_blob_contract_name = padded_contract_name,
       hs_blob_capacity = of_nat HYLI_SMT_INCL_BLOB_LENGTH_BYTES,
       hs_blob_len = of_nat HYLI_SMT_INCL_BLOB_LENGTH_BYTES, hs_blob = sj_blob job,
       hs_tx_blob_count = sj_tx_blob_count job, hs_success = True,
       hs_input_notes = sj_input_notes job, hs_siblings_0 = sj_siblings_0 job,
       hs_siblings_1 = sj_siblings_1 job \<rparr>)"

definition execute_smt_proof_job ::
  "(byte list \<Rightarrow> string) \<Rightarrow> ('f, 'z) circuit_ops_scheme \<Rightarrow> ('f, 'e) backend \<Rightarrow> ('o, 'e) noir_utils
   \<Rightarrow> 'e node_ops \<Rightarrow> contract_deployment \<Rightarrow> noir_prover \<Rightarrow> 'f smt_proof_job
   \<Rightarrow> (proof_transaction list \<times> ('e prover_error + unit)) panics" where
  "execute_smt_proof_job henc C B U N contract p job =
     (case build_hyli_smt_incl henc (dep_contract_name contract) job of
        Inl e \<Rightarrow> Returns ([], Inl e)
      | Inr h \<Rightarrow>
     if sj_tx_blob_count job < sj_blob_index job
     then Returns ([], Inl (BlobIndexOutOfBounds (sj_blob_index job) (sj_tx_blob_count job)))
     else ifReturns (hyli_smt_incl_prove C B h) (\<lambda>r.
     case r of
        Inl e \<Rightarrow> Returns ([], Inl (ProvingFailed e))
      | Inr proof \<Rightarrow> Returns (submit_proof_tx U N contract p (hyli_smt_incl_proof_to_bytes proof))))"

section \<open>What becomes of a job\<close>

lemma pad_right_with_null_cases:
  "pad_right_with_null s n = (case pad_string s n of None \<Rightarrow> Inl (StringTooLong s n) | Some p \<Rightarrow> Inr p)"
  by (simp add: pad_right_with_null_def pad_string_def)

lemma build_hyli_utxo_Inr_iff:
  "(\<exists>v. build_hyli_utxo henc name job = Inr v) \<longleftrightarrow> length (pj_identity job) \<le> 255 \<and> length name \<le> 256"
  by (auto simp: build_hyli_utxo_def pad_right_with_null_cases pad_string_cases Let_def)

lemma build_hyli_utxo_fields:
  assumes "build_hyli_utxo henc name job = Inr v"
  shows "hy_tx_hash v = henc (pj_tx_hash job)" "hy_blob v = pj_blob job" "hy_utxo v = pj_utxo job"
    "unat (hy_blob_capacity v) = HYLI_BLOB_LENGTH_BYTES" "unat (hy_blob_len v) = HYLI_BLOB_LENGTH_BYTES"
    "length (hy_identity v) = 256" "length (hy_blob_contract_name v) = 256"
    "hy_index v = pj_blob_index job" "hy_blob_index v = pj_blob_index job" "hy_tx_blob_count v = pj_tx_blob_count job"
    "hy_identity_len v = of_nat (length (pj_identity job))" "hy_blob_contract_name_len v = of_nat (length name)"
  using assms
  by (auto simp: build_hyli_utxo_def pad_right_with_null_cases pad_string_cases Let_def HYLI_BLOB_LENGTH_BYTES_def
      HYLI_BLOB_HASH_COUNT_def HYLI_BLOB_HASH_BYTE_LENGTH_def split: if_splits)

lemma expected_blob_mint:
  assumes "hy_utxo v = utxo_new_mint [n, padding_note]"
  shows "expected_blob C v = mint_bytes C n"
proof -
  have w: "utxo_wf (hy_utxo v)" by (simp add: assms utxo_wf_def utxo_new_mint_def)
  show ?thesis
    unfolding expected_blob_eq [OF w] nullifier_commitments_eq [OF w]
    by (simp add: assms hyli_commitments_def utxo_new_mint_def mint_bytes_def note_commitment_def
        padding_note_def input_padding_note_def)
qed

lemma enqueue_state_tx:
  assumes "fa_state_contract app \<noteq> fa_utxo_contract app" "length bytes = HYLI_BLOB_LENGTH_BYTES"
  shows "enqueue_proof_job app (state_tx X (faucet_config app token) (fa_state_contract app) ident callees bytes payload extras) h u =
    Inr \<lparr> pj_tx_hash = h, pj_identity = ident, pj_utxo = u, pj_blob = bytes,
      pj_tx_blob_count = of_nat (3 + length extras), pj_blob_index = 1 \<rparr>"
  using assms by (simp add: enqueue_proof_job_def state_tx_def faucet_config_def)

text \<open>
  C26: a faucet job is always provable. When the node accepts the faucet's transaction, the
  job made for it names blob 1 and carries that blob's bytes; the circuit input built from
  it exists, that is none of the prover's assertions can fail, as long as the identity has
  at most 255 bytes and the contract's name at most 256.
\<close>

theorem faucet_job_is_provable:
  assumes "fa_state_contract app \<noteq> fa_utxo_contract app" "length h = 32"
    and "length (mint_identity app wallet_account) \<le> 255" "length (fa_utxo_contract app) \<le> 256"
    and "build_transaction C X app n token_deposit wallet_account secp wallet = (app', tx, u)"
  shows "\<exists>job v i. enqueue_proof_job app' tx h u = Inr job \<and> pj_blob_index job = 1 \<and>
    pj_blob job = blob_data (tx_blobs tx ! 1) \<and>
    build_hyli_utxo hex_enc (fa_utxo_contract app') job = (Inr v :: unit prover_error + hyli_utxo) \<and>
    build_hyli_input_map chk C v = Some i"
proof -
  note eq = build_transaction_eq [where token = "[]"]
  have app': "fa_state_contract app' = fa_state_contract app" "fa_utxo_contract app' = fa_utxo_contract app"
    and tx: "tx = state_tx X (faucet_config app' []) (fa_state_contract app') (mint_identity app wallet_account) [2]
        (mint_bytes C n) (drop 64 (mint_bytes C n) @ to_be_bytes (fa_notes_root app))
        (mint_extras X app token_deposit wallet_account secp wallet)"
    and u: "u = utxo_new_mint [n, padding_note]"
    using assms(5) unfolding eq by (auto simp: faucet_config_def)
  have l: "length (mint_bytes C n) = HYLI_BLOB_LENGTH_BYTES"
    by (simp add: mint_bytes_def HYLI_BLOB_LENGTH_BYTES_def HYLI_BLOB_HASH_COUNT_def HYLI_BLOB_HASH_BYTE_LENGTH_def)
  have "fa_state_contract app' \<noteq> fa_utxo_contract app'" using assms(1) app' by simp
  note job = enqueue_state_tx [OF this l, where h = h and u = u and X = X and token = "[]"]
  obtain job where j: "enqueue_proof_job app' tx h u = Inr job"
    and f: "pj_tx_hash job = h" "pj_identity job = mint_identity app wallet_account" "pj_utxo job = u"
      "pj_blob job = mint_bytes C n" "pj_blob_index job = 1"
    using job tx by simp
  obtain v where v: "build_hyli_utxo hex_enc (fa_utxo_contract app') job = (Inr v :: unit prover_error + hyli_utxo)"
    using build_hyli_utxo_Inr_iff assms(3,4) f(2) app'(2) by metis
  note vf = build_hyli_utxo_fields [OF v]
  have w: "utxo_wf (hy_utxo v)" by (simp add: vf f u utxo_wf_def utxo_new_mint_def)
  have "hy_blob v = expected_blob C v" using expected_blob_mint [of v n C] by (simp add: vf f u)
  then have "\<exists>i. build_hyli_input_map chk C v = Some i"
    unfolding hyli_input_map_exists_iff [OF w]
    using decode_tx_hash_encoded [OF assms(2)] by (simp add: vf f u mint_messages)
  then show ?thesis using j f v by (auto simp: tx state_tx_def)
qed

lemma toy_faucet_conditions:
  "fa_state_contract toy_faucet \<noteq> fa_utxo_contract toy_faucet" "length (replicate 32 (7 :: byte)) = 32"
  "length (mint_identity toy_faucet None) \<le> 255" "length (fa_utxo_contract toy_faucet) \<le> 256"
  by (simp_all add: toy_faucet_def faucet_app_build_def mint_identity_def FAUCET_IDENTITY_PREFIX_def)

lemma toy_build:
  obtains app' tx u where
    "build_transaction toy_circuit_ops toy_tx toy_faucet toy_note None None None None = (app', tx, u)"
    "fa_utxo_contract app' = ''utxo''"
proof -
  obtain app' tx u where t: "build_transaction toy_circuit_ops toy_tx toy_faucet toy_note None None None None = (app', tx, u)"
    by (metis prod.collapse)
  moreover have "fa_utxo_contract app' = ''utxo''"
    using t unfolding build_transaction_eq [where token = "[]"] by (auto simp: toy_faucet_def faucet_app_build_def)
  ultimately show ?thesis by (rule that)
qed

theorem faucet_job_is_provable_witness:
  "\<exists>app' tx u job v i. build_transaction toy_circuit_ops toy_tx toy_faucet toy_note None None None None = (app', tx, u) \<and>
    enqueue_proof_job app' tx (replicate 32 7) u = Inr job \<and>
    build_hyli_utxo hex_enc ''utxo'' job = (Inr v :: unit prover_error + hyli_utxo) \<and>
    build_hyli_input_map True toy_circuit_ops v = Some i"
proof -
  obtain app' tx u where
    t: "build_transaction toy_circuit_ops toy_tx toy_faucet toy_note None None None None = (app', tx, u)"
    and n: "fa_utxo_contract app' = ''utxo''" by (rule toy_build)
  show ?thesis using faucet_job_is_provable [OF toy_faucet_conditions t, of True] t by (auto simp: n)
qed

text \<open>
  the job of a legacy transfer panics. The blob that the transfer command writes holds
  the commitments of the notes it spends, while the prover insists on those of the notes
  it creates: unless the two pairs agree, or the job is refused for its identity, the
  proving task panics without asking the backend, and nothing is sent to the node.
\<close>

theorem legacy_transfer_job_panics:
  fixes B :: "('f, 'e) backend"
  assumes "length ins = 2" "length outs = 2"
    and "build_transfer_transaction C X app ins outs = (tx, u)" "enqueue_proof_job app tx h u = Inr job"
    and "fa_state_contract app \<noteq> fa_utxo_contract app"
    and "map (\<lambda>i. note_commitment C (in_note i)) ins \<noteq> map (note_commitment C) outs"
    and "length (pj_identity job) \<le> 255" "length (dep_contract_name contract) \<le> 256"
  shows "execute_proof_job henc chk C B U N contract p job = Panics"
proof -
  obtain a b where ins: "ins = [a, b]" using assms(1) by (auto simp: list_2)
  obtain c d where outs: "outs = [c, d]" using assms(2) by (auto simp: list_2)
  let ?null = "\<lambda>i. hash_merge C [note_psi (in_note i), in_secret_key i]"
  let ?bytes = "to_be_bytes (note_commitment C (in_note a)) @ to_be_bytes (note_commitment C (in_note b)) @
      to_be_bytes (?null a) @ to_be_bytes (?null b)"
  have leaves: "take 2 (leaf_elements C (utxo_new_send ins outs)) =
      [note_commitment C (in_note a), note_commitment C (in_note b)]"
    by (simp add: leaf_elements_def utxo_new_send_def ins)
  have tx: "tx = transfer_blobs X app ?bytes" and u: "u = utxo_new_send ins outs"
    using assms(3) write_four_fields [of "note_commitment C (in_note a)" "note_commitment C (in_note b)" "?null a" "?null b"]
    unfolding build_transfer_transaction_def Let_def leaves by (simp_all add: ins)
  have f: "pj_blob job = ?bytes" "pj_utxo job = u" "pj_blob_index job = 1" "pj_tx_blob_count job = 2"
    using assms(4,5) by (auto simp: tx enqueue_proof_job_def transfer_blobs_def Let_def HYLI_BLOB_LENGTH_BYTES_def
        HYLI_BLOB_HASH_COUNT_def HYLI_BLOB_HASH_BYTE_LENGTH_def)
  obtain v where v: "build_hyli_utxo henc (dep_contract_name contract) job = (Inr v :: 'e prover_error + hyli_utxo)"
    using build_hyli_utxo_Inr_iff assms(7,8) by metis
  note vf = build_hyli_utxo_fields [OF v]
  have w: "utxo_wf (hy_utxo v)" by (simp add: vf f u utxo_wf_def utxo_new_send_def ins outs)
  have "expected_blob C v = to_be_bytes (note_commitment C c) @ to_be_bytes (note_commitment C d) @
      to_be_bytes (?null a) @ to_be_bytes (?null b)"
    unfolding expected_blob_eq [OF w] nullifier_commitments_eq [OF w]
    by (simp add: vf f u hyli_commitments_def utxo_new_send_def ins outs)
  moreover have "note_commitment C (in_note a) \<noteq> note_commitment C c \<or> note_commitment C (in_note b) \<noteq> note_commitment C d"
    using assms(6) by (simp add: ins outs)
  ultimately have "hy_blob v \<noteq> expected_blob C v" by (auto simp: vf f element_be.enc_inj)
  then have "build_hyli_input_map chk C v = None" using hyli_input_map_exists_iff [OF w, of chk C] by auto
  then show ?thesis by (simp add: execute_proof_job_def v hyli_utxo_prove_def f)
qed

lemma submit_proof_tx_sent:
  "submit_proof_tx U N contract p bytes = (sent, r) \<Longrightarrow>
     (sent = [] \<and> \<not> isOk r) \<or>
     (sent = [\<lparr> px_contract_name = dep_contract_name contract, px_program_id = dep_program_id contract,
        px_verifier = np_verifier p, px_proof = bytes \<rparr>] \<and> r = mapErr SubmitFailed (send_tx_proof N (hd sent)))"
  by (auto simp: submit_proof_tx_def build_proof_transaction_def Let_def isOk_iff split: option.splits sum.splits)

lemma hyli_utxo_prove_bytes:
  assumes "hyli_utxo_prove chk C B v = Returns (Inr q)"
  shows "\<exists>i. build_hyli_input_map chk C v = Some i \<and> bb_prove B HyliUtxoCircuit i False False = Inr (hyli_utxo_proof_to_bytes q)"
proof -
  obtain i bytes pis raw where i: "build_hyli_input_map chk C v = Some i"
    and b: "bb_prove B HyliUtxoCircuit i False False = Inr bytes"
    and s: "split_proof HYLI_UTXO_PUBLIC_INPUTS_COUNT bytes = Returns (pis, raw)"
    and q: "q = \<lparr> hup_proof = raw, hup_public_inputs = pis \<rparr>"
    using assms by (auto simp: hyli_utxo_prove_def ifReturns_Returns split: option.splits sum.splits)
  then show ?thesis using split_proof_Returns(2) [OF s] by (simp add: hyli_utxo_proof_to_bytes_def proof_with_inputs_to_bytes_def fold_bytes)
qed

lemma hyli_smt_incl_prove_bytes:
  assumes "hyli_smt_incl_prove C B v = Returns (Inr q)"
  shows "\<exists>i. build_smt_incl_input_map C v = Some i \<and> bb_prove B HyliSmtInclCircuit i False False = Inr (hyli_smt_incl_proof_to_bytes q)"
proof -
  obtain i bytes pis raw where i: "build_smt_incl_input_map C v = Some i"
    and b: "bb_prove B HyliSmtInclCircuit i False False = Inr bytes"
    and s: "split_proof HYLI_SMT_INCL_PUBLIC_INPUTS_COUNT bytes = Returns (pis, raw)"
    and q: "q = \<lparr> hsp_proof = raw, hsp_public_inputs = pis \<rparr>"
    using assms by (auto simp: hyli_smt_incl_prove_def ifReturns_Returns split: option.splits sum.splits)
  then show ?thesis using split_proof_Returns(2) [OF s] by (simp add: hyli_smt_incl_proof_to_bytes_def proof_with_inputs_to_bytes_def fold_bytes)
qed

lemma execute_proof_job_cases:
  fixes B :: "('f, 'e) backend"
  assumes "execute_proof_job henc chk C B U N contract p job = Returns (sent, r)"
  shows "(sent = [] \<and> \<not> isOk r) \<or>
    (\<exists>v q. build_hyli_utxo henc (dep_contract_name contract) job = (Inr v :: 'e prover_error + hyli_utxo) \<and>
       hyli_utxo_prove chk C B v = Returns (Inr q) \<and> submit_proof_tx U N contract p (hyli_utxo_proof_to_bytes q) = (sent, r))"
proof (cases "build_hyli_utxo henc (dep_contract_name contract) job :: 'e prover_error + hyli_utxo")
  case (Inr v)
  show ?thesis
  proof (cases "hyli_utxo_prove chk C B v")
    case (Returns x)
    then show ?thesis using assms Inr by (cases x) (auto simp: execute_proof_job_def isOk_iff split: if_splits)
  qed (use assms Inr in \<open>auto simp: execute_proof_job_def isOk_iff split: if_splits\<close>)
qed (use assms in \<open>auto simp: execute_proof_job_def isOk_iff\<close>)

lemma execute_smt_proof_job_cases:
  fixes B :: "('f, 'e) backend"
  assumes "execute_smt_proof_job henc C B U N contract p job = Returns (sent, r)"
  shows "(sent = [] \<and> \<not> isOk r) \<or>
    (\<exists>v q. build_hyli_smt_incl henc (dep_contract_name contract) job = (Inr v :: 'e prover_error + 'f hyli_smt_incl) \<and>
       hyli_smt_incl_prove C B v = Returns (Inr q) \<and> submit_proof_tx U N contract p (hyli_smt_incl_proof_to_bytes q) = (sent, r))"
proof (cases "build_hyli_smt_incl henc (dep_contract_name contract) job :: 'e prover_error + 'f hyli_smt_incl")
  case (Inr v)
  show ?thesis
  proof (cases "hyli_smt_incl_prove C B v")
    case (Returns x)
    then show ?thesis using assms Inr by (cases x) (auto simp: execute_smt_proof_job_def isOk_iff split: if_splits)
  qed (use assms Inr in \<open>auto simp: execute_smt_proof_job_def isOk_iff split: if_splits\<close>)
qed (use assms in \<open>auto simp: execute_smt_proof_job_def isOk_iff\<close>)

text \<open>
  what reaches the node is what the backend proved. A proof job of either module that
  does not panic sends at most one transaction: it is addressed to the module's contract
  under its program id, and its proof is byte for byte the backend's output for the input
  built from the job; the result is then the node's answer, and an error when nothing was
  sent.
\<close>

theorem prover_sends_backend_output:
  fixes B :: "('f, 'e) backend"
  shows "(execute_proof_job henc chk C B U N contract p job = Returns (sent, r) \<longrightarrow>
      (sent = [] \<and> \<not> isOk r) \<or>
      (\<exists>v i bytes. build_hyli_utxo henc (dep_contract_name contract) job = (Inr v :: 'e prover_error + hyli_utxo) \<and>
         build_hyli_input_map chk C v = Some i \<and> bb_prove B HyliUtxoCircuit i False False = Inr bytes \<and>
         sent = [\<lparr> px_contract_name = dep_contract_name contract, px_program_id = dep_program_id contract,
           px_verifier = np_verifier p, px_proof = bytes \<rparr>] \<and> r = mapErr SubmitFailed (send_tx_proof N (hd sent)))) \<and>
   (execute_smt_proof_job henc C B U N contract p sjob = Returns (sent, r) \<longrightarrow>
      (sent = [] \<and> \<not> isOk r) \<or>
      (\<exists>v i bytes. build_hyli_smt_incl henc (dep_contract_name contract) sjob = (Inr v :: 'e prover_error + 'f hyli_smt_incl) \<and>
         build_smt_incl_input_map C v = Some i \<and> bb_prove B HyliSmtInclCircuit i False False = Inr bytes \<and>
         sent = [\<lparr> px_contract_name = dep_contract_name contract, px_program_id = dep_program_id contract,
           px_verifier = np_verifier p, px_proof = bytes \<rparr>] \<and> r = mapErr SubmitFailed (send_tx_proof N (hd sent))))"
  (is "(?A \<longrightarrow> ?P) \<and> (?B \<longrightarrow> ?Q)")
  using execute_proof_job_cases [of henc chk C B U N contract p job sent r]
    execute_smt_proof_job_cases [of henc C B U N contract p sjob sent r]
  by (blast dest: hyli_utxo_prove_bytes hyli_smt_incl_prove_bytes submit_proof_tx_sent)

text \<open>
  the prover's bounds. A job is turned into a circuit input exactly when its identity
  has at most 255 bytes and the contract's name at most 256; the length byte of a name of
  256 bytes is 0; and the test on the blob index lets the first index past the last blob
  through, since it only refuses larger ones.
\<close>

theorem prover_bounds:
  "((\<exists>v. build_hyli_utxo henc name job = (Inr v :: 'e prover_error + hyli_utxo)) \<longleftrightarrow>
      length (pj_identity job) \<le> 255 \<and> length name \<le> 256) \<and>
   (build_hyli_utxo henc name job = (Inr v :: 'e prover_error + hyli_utxo) \<longrightarrow>
      unat (hy_identity_len v) = length (pj_identity job) \<and>
      unat (hy_blob_contract_name_len v) = (if length name = 256 then 0 else length name)) \<and>
   (pj_blob_index job = pj_tx_blob_count job \<longrightarrow>
      execute_proof_job henc chk C B U N contract p job \<noteq>
        Returns ([], Inl (BlobIndexOutOfBounds (pj_blob_index job) (pj_tx_blob_count job))))"
proof (intro conjI impI)
  show "(\<exists>v. build_hyli_utxo henc name job = (Inr v :: 'e prover_error + hyli_utxo)) \<longleftrightarrow>
      length (pj_identity job) \<le> 255 \<and> length name \<le> 256"
    by (rule build_hyli_utxo_Inr_iff)
next
  assume v: "build_hyli_utxo henc name job = (Inr v :: 'e prover_error + hyli_utxo)"
  then have l: "length (pj_identity job) \<le> 255" "length name \<le> 256" using build_hyli_utxo_Inr_iff by blast+
  show "unat (hy_identity_len v) = length (pj_identity job)"
    using l(1) by (simp add: build_hyli_utxo_fields(11) [OF v] unat_of_nat)
  show "unat (hy_blob_contract_name_len v) = (if length name = 256 then 0 else length name)"
    using l(2) by (simp add: build_hyli_utxo_fields(12) [OF v] unat_of_nat)
next
  assume "pj_blob_index job = pj_tx_blob_count job"
  then show "execute_proof_job henc chk C B U N contract p job \<noteq>
      Returns ([], Inl (BlobIndexOutOfBounds (pj_blob_index job) (pj_tx_blob_count job)))"
    by (auto simp: execute_proof_job_def ifReturns_Returns build_hyli_utxo_def pad_right_with_null_def submit_proof_tx_def
        build_proof_transaction_def Let_def split: sum.splits if_splits option.splits)
qed

section \<open>A job at work\<close>

definition toy_job :: proof_job where
  "toy_job = \<lparr> pj_tx_hash = replicate 32 7, pj_identity = ''alice'', pj_utxo = utxo_new_mint [toy_note, padding_note],
     pj_blob = mint_bytes toy_circuit_ops toy_note, pj_tx_blob_count = 3, pj_blob_index = 1 \<rparr>"

definition toy_prover_backend :: "(nat, unit) backend" where
  "toy_prover_backend = toy_backend\<lparr> bb_prove := (\<lambda>_ _ _ _. Inr (replicate (HYLI_UTXO_PUBLIC_INPUTS_COUNT * 32) 1)) \<rparr>"

definition toy_noir_utils :: "(unit, unit) noir_utils" where
  "toy_noir_utils = \<lparr> split_public_inputs = (\<lambda>p _. Some (p, [])), parse_noir_output = (\<lambda>_. Inr ()) \<rparr>"

definition toy_node :: "unit node_ops" where
  "toy_node = \<lparr> send_tx_blob = (\<lambda>_. Inr []), send_tx_proof = (\<lambda>_. Inr ()) \<rparr>"

definition toy_deployment :: contract_deployment where
  "toy_deployment = \<lparr> dep_contract_name = ''utxo'', dep_program_id = [1], dep_state_commitment = replicate 4 0,
     dep_timeout_window = None, dep_registration_metadata = None \<rparr>"

lemma toy_job_runs:
  "\<exists>sent. execute_proof_job hex_enc True toy_circuit_ops toy_prover_backend toy_noir_utils toy_node toy_deployment
     (noir_prover_default ''noir'') toy_job = Returns (sent, Inr ())"
proof -
  obtain v where v: "build_hyli_utxo hex_enc ''utxo'' toy_job = (Inr v :: unit prover_error + hyli_utxo)"
    using build_hyli_utxo_Inr_iff [of hex_enc "''utxo''" toy_job] by (auto simp: toy_job_def)
  note vf = build_hyli_utxo_fields [OF v]
  have w: "utxo_wf (hy_utxo v)" by (simp add: vf toy_job_def utxo_wf_def utxo_new_mint_def)
  have "hy_blob v = expected_blob toy_circuit_ops v"
    using expected_blob_mint [of v toy_note toy_circuit_ops] by (simp add: vf toy_job_def)
  then obtain i where "build_hyli_input_map True toy_circuit_ops v = Some i"
    using hyli_input_map_exists_iff [OF w, of True toy_circuit_ops] decode_tx_hash_encoded [of "replicate 32 7"]
    by (auto simp: vf toy_job_def mint_messages)
  then show ?thesis
    using v by (simp add: execute_proof_job_def toy_deployment_def hyli_utxo_prove_def toy_prover_backend_def
        split_proof_cases toy_job_def submit_proof_tx_def build_proof_transaction_def toy_noir_utils_def toy_node_def)
qed

theorem prover_sends_backend_output_witness:
  "\<exists>sent. execute_proof_job hex_enc True toy_circuit_ops toy_prover_backend toy_noir_utils toy_node toy_deployment
     (noir_prover_default ''noir'') toy_job = Returns (sent, Inr ()) \<and>
     map px_proof sent = [replicate (HYLI_UTXO_PUBLIC_INPUTS_COUNT * 32) 1]"
proof -
  obtain sent where s: "execute_proof_job hex_enc True toy_circuit_ops toy_prover_backend toy_noir_utils toy_node
      toy_deployment (noir_prover_default ''noir'') toy_job = Returns (sent, Inr ())" using toy_job_runs by blast
  show ?thesis
    using prover_sends_backend_output [THEN conjunct1, THEN mp, OF s] s
    by (auto simp: isOk_iff toy_prover_backend_def)
qed

theorem prover_bounds_witness:
  "\<exists>v. build_hyli_utxo hex_enc (replicate 256 CHR ''u'') toy_job = (Inr v :: unit prover_error + hyli_utxo) \<and>
     hy_blob_contract_name_len v = 0"
proof -
  obtain v where v: "build_hyli_utxo hex_enc (replicate 256 CHR ''u'') toy_job = (Inr v :: unit prover_error + hyli_utxo)"
    using prover_bounds [of hex_enc "replicate 256 CHR ''u''" toy_job] by (auto simp: toy_job_def)
  show ?thesis
    using prover_bounds [THEN conjunct2, THEN conjunct1, THEN mp, OF v] v by (auto simp: unat_eq_0)
qed

definition toy_spent :: input_note where
  "toy_spent = \<lparr> in_note = toy_note, in_secret_key = 3 \<rparr>"

definition spend_crypto :: "nat circuit_ops" where
  "spend_crypto = crypto.extend mint_crypto \<lparr> fe_of_u64 = unat, fe_default = 0 \<rparr>"

lemma spend_commitment: "note_value n \<noteq> 0 \<Longrightarrow> note_commitment spend_crypto n = 5"
proof -
  assume v: "note_value n \<noteq> 0"
  have h: "hash_merge spend_crypto xs = hash_merge mint_crypto xs" for xs
    by (simp add: hash_merge_def spend_crypto_def crypto.defs base_ops.defs to_base_def from_base_def mint_crypto_def const_crypto_def)
  show ?thesis using v by (simp add: note_commitment_def ZERO_def h mint_crypto_hashes)
qed

theorem legacy_transfer_job_panics_witness:
  "\<exists>tx u job. build_transfer_transaction spend_crypto toy_tx toy_faucet [toy_spent, toy_spent] [padding_note, padding_note] = (tx, u) \<and>
     enqueue_proof_job toy_faucet tx (replicate 32 7) u = Inr job \<and>
     execute_proof_job hex_enc True spend_crypto toy_prover_backend toy_noir_utils toy_node toy_deployment
       (noir_prover_default ''noir'') job = Panics"
proof -
  obtain tx u where t: "build_transfer_transaction spend_crypto toy_tx toy_faucet [toy_spent, toy_spent]
      [padding_note, padding_note] = (tx, u)" by (metis prod.collapse)
  obtain bytes where "length bytes = 128" "tx = transfer_blobs toy_tx toy_faucet bytes"
  proof (rule that)
    show "tx = transfer_blobs toy_tx toy_faucet (concat (map to_be_bytes
        [note_commitment spend_crypto toy_note, note_commitment spend_crypto toy_note,
         hash_merge spend_crypto [9, 3], hash_merge spend_crypto [9, 3]]))"
      using t write_four_fields unfolding build_transfer_transaction_def Let_def
      by (auto simp: leaf_elements_def utxo_new_send_def take_Cons' toy_spent_def toy_note_def)
  qed simp
  then obtain job where j: "enqueue_proof_job toy_faucet tx (replicate 32 7) u = Inr job" "pj_identity job = ''transfer@utxo''"
    by (simp add: enqueue_proof_job_def transfer_blobs_def toy_faucet_def faucet_app_build_def Let_def
        HYLI_BLOB_LENGTH_BYTES_def HYLI_BLOB_HASH_COUNT_def HYLI_BLOB_HASH_BYTE_LENGTH_def)
  have "map (\<lambda>i. note_commitment spend_crypto (in_note i)) [toy_spent, toy_spent] \<noteq>
      map (note_commitment spend_crypto) [padding_note, padding_note]"
    using spend_commitment [of toy_note]
    by (simp add: toy_spent_def toy_note_def) (simp add: note_commitment_def padding_note_def ZERO_def)
  then have "execute_proof_job hex_enc True spend_crypto toy_prover_backend toy_noir_utils toy_node toy_deployment
      (noir_prover_default ''noir'') job = Panics"
    by (intro legacy_transfer_job_panics [OF _ _ t j(1) toy_faucet_conditions(1)])
      (simp_all add: j(2) toy_deployment_def)
  then show ?thesis using t j(1) by blast
qed

end
