(* ===== verification/NoteStore.thy ===== *)
theory NoteStore
  imports Interfaces Hex Codec
begin

text \<open>
  The server's stores (\<^verbatim>\<open>server/src/note_store.rs\<close>): a generic store with optional JSON
  persistence, the address registry and the encrypted-note store with first-in-first-out
  eviction.  Time, the JSON library, \<^verbatim>\<open>to_lowercase\<close> and the outcome of file operations are
  parameters; a hash map is a partial function.  Operations run one at a time here; the
  theory PersistRuns models the calls of \<^verbatim>\<open>maybe_persist\<close> that overlap under the read lock.
\<close>

section \<open>Persistent stores\<close>

record 'd persist_ops =
  to_json :: "'d \<Rightarrow> string"
  of_json :: "string \<Rightarrow> 'd option"

record 'd persistent_store =
  ps_data :: 'd
  ps_path :: "string option"

type_synonym files = "string \<rightharpoonup> string"

text \<open>
  What the environment does to a write: creating the file fails, writing fails after some
  characters, the buffered writer loses its last flush when it is dropped (its error is
  not reported), or the renaming fails.
\<close>

datatype io_fault = NoFault | CreateFails | WriteFails string | FlushLost string | RenameFails

datatype store_error = IoFailed | InvalidData | FileNotFound

definition store_new :: "'d \<Rightarrow> 'd persistent_store" where
  "store_new d = \<lparr> ps_data = d, ps_path = None \<rparr>"

text \<open>One call that no other call of the same store overlaps.\<close>

definition maybe_persist ::
  "'d persist_ops \<Rightarrow> io_fault \<Rightarrow> 'd persistent_store \<Rightarrow> files \<Rightarrow> files \<times> (store_error + unit)" where
  "maybe_persist J fault s fs =
     (case ps_path s of
        None \<Rightarrow> (fs, Inr ())
      | Some path \<Rightarrow>
          (let temp_path = path @ ''.tmp'' in
           case fault of
             CreateFails \<Rightarrow> (fs, Inl IoFailed)
           | WriteFails part \<Rightarrow> (fs(temp_path \<mapsto> part), Inl IoFailed)
           | FlushLost part \<Rightarrow> (fs(temp_path := None, path \<mapsto> part), Inr ())
           | RenameFails \<Rightarrow> (fs(temp_path \<mapsto> to_json J (ps_data s)), Inl IoFailed)
           | NoFault \<Rightarrow> (fs(temp_path := None, path \<mapsto> to_json J (ps_data s)), Inr ())))"

definition load_from_file ::
  "'d persist_ops \<Rightarrow> 'd persistent_store \<Rightarrow> files \<Rightarrow> 'd persistent_store \<times> (store_error + unit)" where
  "load_from_file J s fs =
     (case ps_path s of
        None \<Rightarrow> (s, Inr ())
      | Some path \<Rightarrow>
          (case fs path of
             None \<Rightarrow> (s, Inl FileNotFound)
           | Some text \<Rightarrow>
               (case of_json J text of
                  None \<Rightarrow> (s, Inl InvalidData)
                | Some loaded \<Rightarrow> (s\<lparr> ps_data := loaded \<rparr>, Inr ()))))"

definition store_with_persistence ::
  "'d persist_ops \<Rightarrow> 'd \<Rightarrow> string \<Rightarrow> files \<Rightarrow> store_error + 'd persistent_store" where
  "store_with_persistence J initial path fs =
     (let store = \<lparr> ps_data = initial, ps_path = Some path \<rparr> in
      if fs path \<noteq> None then
        (case load_from_file J store fs of
           (s, Inl e) \<Rightarrow> Inl e
         | (s, Inr _) \<Rightarrow> Inr s)
      else Inr store)"

section \<open>The address registry\<close>

record address_registration =
  ar_username :: string
  ar_utxo_address :: string
  ar_encryption_pubkey :: string
  ar_registered_at :: u64

type_synonym registry = "(string \<rightharpoonup> address_registration) persistent_store"

definition register ::
  "(string \<Rightarrow> string) \<Rightarrow> (string \<rightharpoonup> address_registration) persist_ops \<Rightarrow> u64 \<Rightarrow> io_fault \<Rightarrow> registry \<Rightarrow> files
   \<Rightarrow> string \<Rightarrow> string \<Rightarrow> string \<Rightarrow> registry \<times> files \<times> address_registration option" where
  "register lower J now fault r fs username utxo_address encryption_pubkey =
     (let normalized_username = lower username;
          registration = \<lparr> ar_username = normalized_username, ar_utxo_address = utxo_address,
            ar_encryption_pubkey = encryption_pubkey, ar_registered_at = now \<rparr>;
          previous = ps_data r normalized_username;
          r' = r\<lparr> ps_data := (ps_data r)(normalized_username \<mapsto> registration) \<rparr>;
          (fs', _) = maybe_persist J fault r' fs
      in (r', fs', previous))"

definition resolve :: "(string \<Rightarrow> string) \<Rightarrow> registry \<Rightarrow> string \<Rightarrow> address_registration option" where
  "resolve lower r username = ps_data r (lower username)"

definition unregister ::
  "(string \<Rightarrow> string) \<Rightarrow> (string \<rightharpoonup> address_registration) persist_ops \<Rightarrow> io_fault \<Rightarrow> registry \<Rightarrow> files \<Rightarrow> string
   \<Rightarrow> registry \<times> files \<times> address_registration option" where
  "unregister lower J fault r fs username =
     (let normalized = lower username;
          removed = ps_data r normalized;
          r' = r\<lparr> ps_data := (ps_data r)(normalized := None) \<rparr>
      in if removed \<noteq> None then (case maybe_persist J fault r' fs of (fs', _) \<Rightarrow> (r', fs', removed))
         else (r', fs, removed))"

definition registry_count :: "registry \<Rightarrow> nat" where
  "registry_count r = card (dom (ps_data r))"

section \<open>The note store\<close>

definition DEFAULT_MAX_NOTES_PER_RECIPIENT :: nat where
  "DEFAULT_MAX_NOTES_PER_RECIPIENT = 1000"

record stored_note =
  sn_id :: string
  sn_encrypted_payload :: string
  sn_ephemeral_pubkey :: string
  sn_sender_tag :: "string option"
  sn_stored_at :: u64

record note_store =
  ns_store :: "(string \<rightharpoonup> stored_note list) persistent_store"
  ns_max :: nat

definition note_store_new :: "nat option \<Rightarrow> note_store" where
  "note_store_new max_notes =
     \<lparr> ns_store = store_new Map.empty,
       ns_max = (case max_notes of Some n \<Rightarrow> n | None \<Rightarrow> DEFAULT_MAX_NOTES_PER_RECIPIENT) \<rparr>"

definition note_store_with_persistence ::
  "(string \<rightharpoonup> stored_note list) persist_ops \<Rightarrow> nat option \<Rightarrow> string \<Rightarrow> files \<Rightarrow> store_error + note_store" where
  "note_store_with_persistence J max_notes path fs =
     mapOk (\<lambda>s. \<lparr> ns_store = s,
         ns_max = (case max_notes of Some n \<Rightarrow> n | None \<Rightarrow> DEFAULT_MAX_NOTES_PER_RECIPIENT) \<rparr>)
       (store_with_persistence J Map.empty path fs)"

text \<open>\<^verbatim>\<open>{:016x}\<close> of the nanoseconds and \<^verbatim>\<open>{:08x}\<close> of the low half of the process-wide counter.\<close>

definition generate_id :: "u64 \<Rightarrow> u64 \<Rightarrow> string" where
  "generate_id timestamp counter = hex_enc (word_to_be timestamp) @ hex_enc (word_to_be (ucast counter :: u32))"

text \<open>
  The eviction loop \<^verbatim>\<open>while queue.len() >= max { queue.pop_front() }\<close>: popping an empty
  queue does nothing, so the loop need not end; not ending is \<^term>\<open>None\<close>.
\<close>

partial_function (option) evict :: "nat \<Rightarrow> 'a list \<Rightarrow> 'a list option" where
  "evict max_notes queue = (if max_notes \<le> length queue then evict max_notes (tl queue) else Some queue)"

text \<open>Inserting returns the store, the files, and the new note's identifier and time.\<close>

definition insert_note ::
  "(string \<rightharpoonup> stored_note list) persist_ops \<Rightarrow> io_fault \<Rightarrow> u64 \<Rightarrow> u64 \<Rightarrow> u64 \<Rightarrow> note_store \<Rightarrow> files
   \<Rightarrow> string \<Rightarrow> string \<Rightarrow> string \<Rightarrow> string option \<Rightarrow> (note_store \<times> files \<times> string \<times> u64) option" where
  "insert_note J fault timestamp counter now s fs recipient_tag encrypted_payload ephemeral_pubkey sender_tag =
     (let id = generate_id timestamp counter;
          n = \<lparr> sn_id = id, sn_encrypted_payload = encrypted_payload, sn_ephemeral_pubkey = ephemeral_pubkey,
                sn_sender_tag = sender_tag, sn_stored_at = now \<rparr>;
          notes = ps_data (ns_store s);
          queue = (case notes recipient_tag of Some q \<Rightarrow> q | None \<Rightarrow> [])
      in map_option (\<lambda>queue'.
           (let s' = s\<lparr> ns_store := (ns_store s)\<lparr> ps_data := notes(recipient_tag \<mapsto> queue' @ [n]) \<rparr> \<rparr>;
                (fs', _) = maybe_persist J fault (ns_store s') fs
            in (s', fs', id, now)))
         (evict (ns_max s) queue))"

definition get_notes :: "note_store \<Rightarrow> string \<Rightarrow> u64 option \<Rightarrow> nat option \<Rightarrow> stored_note list \<times> bool" where
  "get_notes s recipient_tag since limit_opt =
     (case ps_data (ns_store s) recipient_tag of
        None \<Rightarrow> ([], False)
      | Some queue \<Rightarrow>
          (let filtered = filter (\<lambda>n. case since of Some since_ts \<Rightarrow> since_ts < sn_stored_at n | None \<Rightarrow> True) queue;
               lim = (case limit_opt of Some l \<Rightarrow> l | None \<Rightarrow> 100);
               has_more = lim < length filtered;
               result = take lim filtered
           in (result, has_more)))"

definition delete_note ::
  "(string \<rightharpoonup> stored_note list) persist_ops \<Rightarrow> io_fault \<Rightarrow> note_store \<Rightarrow> files \<Rightarrow> string \<Rightarrow> string
   \<Rightarrow> note_store \<times> files \<times> bool" where
  "delete_note J fault s fs recipient_tag note_id =
     (case ps_data (ns_store s) recipient_tag of
        None \<Rightarrow> (s, fs, False)
      | Some queue \<Rightarrow>
          (let queue' = filter (\<lambda>n. sn_id n \<noteq> note_id) queue;
               deleted = length queue' < length queue;
               notes = ps_data (ns_store s);
               s' = s\<lparr> ns_store := (ns_store s)\<lparr> ps_data := notes(recipient_tag := (if queue' = [] then None else Some queue')) \<rparr> \<rparr>
           in if deleted then (case maybe_persist J fault (ns_store s') fs of (fs', _) \<Rightarrow> (s', fs', deleted))
              else (s', fs, deleted)))"

definition recipient_count :: "note_store \<Rightarrow> nat" where
  "recipient_count s = card (dom (ps_data (ns_store s)))"

definition total_notes :: "note_store \<Rightarrow> nat" where
  "total_notes s = (\<Sum>t\<in>dom (ps_data (ns_store s)). length (the (ps_data (ns_store s) t)))"

section \<open>Eviction\<close>

lemma evict_diverges:
  assumes "evict m q = Some r"
  shows "0 < m"
  by (rule evict.raw_induct [OF _ assms, where P = "\<lambda>m q r. 0 < m"]) (auto split: if_splits)

lemma evict_returns: "0 < m \<Longrightarrow> evict m q = Some (drop (Suc (length q) - m) q)"
proof (induction q)
  case Nil
  then show ?case by (subst evict.simps) simp
next
  case (Cons x xs)
  show ?case
  proof (cases "m \<le> length (x # xs)")
    case True
    then have "evict m (x # xs) = evict m xs" by (subst evict.simps) simp
    then show ?thesis using Cons True by (simp add: Suc_diff_le)
  next
    case False
    then show ?thesis by (subst evict.simps) simp
  qed
qed

lemma evict_eq: "evict m q = (if m = 0 then None else Some (drop (Suc (length q) - m) q))"
  using evict_returns [of m q] evict_diverges [of m q] by (cases "evict m q") auto

definition queue_of :: "note_store \<Rightarrow> string \<Rightarrow> stored_note list" where
  "queue_of s tag = (case ps_data (ns_store s) tag of Some q \<Rightarrow> q | None \<Rightarrow> [])"

text \<open>One insertion as data: the fault, the clock readings and the request.\<close>

record insertion =
  i_fault :: io_fault
  i_timestamp :: u64
  i_counter :: u64
  i_now :: u64
  i_files :: files
  i_payload :: string
  i_pubkey :: string
  i_sender :: "string option"

definition note_of :: "insertion \<Rightarrow> stored_note" where
  "note_of x = \<lparr> sn_id = generate_id (i_timestamp x) (i_counter x), sn_encrypted_payload = i_payload x,
     sn_ephemeral_pubkey = i_pubkey x, sn_sender_tag = i_sender x, sn_stored_at = i_now x \<rparr>"

definition insert_of ::
  "(string \<rightharpoonup> stored_note list) persist_ops \<Rightarrow> string \<Rightarrow> insertion \<Rightarrow> note_store \<Rightarrow> note_store" where
  "insert_of J tag x s =
     (case insert_note J (i_fault x) (i_timestamp x) (i_counter x) (i_now x) s (i_files x) tag
             (i_payload x) (i_pubkey x) (i_sender x) of
        None \<Rightarrow> s
      | Some (s', _) \<Rightarrow> s')"

definition fifo_push :: "nat \<Rightarrow> 'a \<Rightarrow> 'a list \<Rightarrow> 'a list" where
  "fifo_push m x q = drop (Suc (length q) - m) q @ [x]"

lemma insert_note_eq:
  "insert_note J fault ts c now s fs tag p e st =
     (if ns_max s = 0 then None
      else let n = \<lparr> sn_id = generate_id ts c, sn_encrypted_payload = p, sn_ephemeral_pubkey = e,
               sn_sender_tag = st, sn_stored_at = now \<rparr>;
             s' = s\<lparr> ns_store := (ns_store s)\<lparr> ps_data :=
               (ps_data (ns_store s))(tag \<mapsto> fifo_push (ns_max s) n (queue_of s tag)) \<rparr> \<rparr>
           in Some (s', fst (maybe_persist J fault (ns_store s') fs), generate_id ts c, now))"
  by (simp add: insert_note_def evict_eq queue_of_def fifo_push_def Let_def case_prod_unfold)

lemma insert_of_eq:
  "0 < ns_max s \<Longrightarrow> insert_of J tag x s = s\<lparr> ns_store := (ns_store s)\<lparr> ps_data :=
     (ps_data (ns_store s))(tag \<mapsto> fifo_push (ns_max s) (note_of x) (queue_of s tag)) \<rparr> \<rparr>"
  by (simp add: insert_of_def insert_note_eq note_of_def Let_def)

lemma ns_max_insert [simp]: "ns_max (insert_of J tag x s) = ns_max s"
  by (simp add: insert_of_def insert_note_eq Let_def)

lemma queue_of_insert:
  "0 < ns_max s \<Longrightarrow> queue_of (insert_of J tag x s) t =
     (if t = tag then fifo_push (ns_max s) (note_of x) (queue_of s tag) else queue_of s t)"
  by (simp add: insert_of_eq queue_of_def)

lemma length_fifo_push: "0 < m \<Longrightarrow> length q \<le> m \<Longrightarrow> length (fifo_push m x q) \<le> m"
  by (simp add: fifo_push_def)

lemma rev_fifo_push: "0 < m \<Longrightarrow> length q \<le> m \<Longrightarrow> rev (fifo_push m x q) = take m (x # rev q)"
  by (cases m; cases "length q = m") (simp_all add: fifo_push_def rev_drop)

interpretation note_history: bounded_history
  "\<lambda>s. 0 < m \<and> ns_max s = m \<and> length (queue_of s tag) \<le> m" "\<lambda>s. rev (queue_of s tag)"
  "insert_of J tag" "\<lambda>x s. note_of x" m
proof unfold_locales
  fix x s
  assume g: "0 < m \<and> ns_max s = m \<and> length (queue_of s tag) \<le> m"
  then show "0 < m \<and> ns_max (insert_of J tag x s) = m \<and> length (queue_of (insert_of J tag x s) tag) \<le> m"
    by (simp add: queue_of_insert length_fifo_push)
  show "rev (queue_of (insert_of J tag x s) tag) = take m (note_of x # rev (queue_of s tag))"
    using g by (simp add: queue_of_insert rev_fifo_push)
qed

lemma length_filter_less_iff: "length (filter P xs) < length xs \<longleftrightarrow> (\<exists>x\<in>set xs. \<not> P x)"
proof (induction xs)
  case (Cons x xs)
  then show ?case using length_filter_le [of P xs] by (auto simp: less_Suc_eq_le)
qed simp

section \<open>Runs of the note store\<close>

definition note_store_inv :: "nat \<Rightarrow> note_store \<Rightarrow> bool" where
  "note_store_inv m s \<longleftrightarrow> ns_max s = m \<and> finite (dom (ps_data (ns_store s))) \<and>
     (\<forall>tag q. ps_data (ns_store s) tag = Some q \<longrightarrow> q \<noteq> [] \<and> length q \<le> m)"

text \<open>A run starts from a new store, or from a loaded file that is within the bound.\<close>

inductive note_store_reach ::
  "(string \<rightharpoonup> stored_note list) persist_ops \<Rightarrow> nat \<Rightarrow> note_store \<Rightarrow> bool"
  for J :: "(string \<rightharpoonup> stored_note list) persist_ops" and m :: nat where
  start: "note_store_reach J m (note_store_new (Some m))"
| loaded: "note_store_with_persistence J (Some m) path fs = Inr s \<Longrightarrow> note_store_inv m s \<Longrightarrow> note_store_reach J m s"
| inserted: "note_store_reach J m s \<Longrightarrow>
    insert_note J fault ts c now s fs tag p e st = Some (s', r) \<Longrightarrow> note_store_reach J m s'"
| deleted: "note_store_reach J m s \<Longrightarrow> delete_note J fault s fs tag nid = (s', r) \<Longrightarrow> note_store_reach J m s'"

lemma note_store_reach_inv: "note_store_reach J m s \<Longrightarrow> note_store_inv m s"
proof (induction rule: note_store_reach.induct)
  case start
  then show ?case by (simp add: note_store_inv_def note_store_new_def store_new_def)
next
  case (loaded path fs s)
  then show ?case by simp
next
  case (inserted s fault ts c now fs tag p e st s' r)
  have ih: "ns_max s = m" "finite (dom (ps_data (ns_store s)))"
    "\<And>tag q. ps_data (ns_store s) tag = Some q \<Longrightarrow> q \<noteq> [] \<and> length q \<le> m"
    using inserted.IH by (simp_all add: note_store_inv_def)
  have q: "length (queue_of s t) \<le> m" for t
    using ih(3) [of t] by (simp add: queue_of_def split: option.splits)
  have "0 < m" using inserted.hyps(2) ih(1) by (simp add: insert_note_eq split: if_splits)
  then have "length (fifo_push m n (queue_of s tag)) \<le> m" for n using q by (rule length_fifo_push)
  moreover have "fifo_push m n (queue_of s tag) \<noteq> []" for n by (simp add: fifo_push_def)
  moreover obtain n where "s' = s\<lparr> ns_store := (ns_store s)\<lparr> ps_data :=
      (ps_data (ns_store s))(tag \<mapsto> fifo_push m n (queue_of s tag)) \<rparr> \<rparr>"
    using inserted.hyps(2) ih(1) by (auto simp: insert_note_eq Let_def split: if_splits)
  ultimately show ?case using ih by (simp add: note_store_inv_def)
next
  case (deleted s fault fs tag nid s' r)
  have ih: "ns_max s = m" "finite (dom (ps_data (ns_store s)))"
    "\<And>tag q. ps_data (ns_store s) tag = Some q \<Longrightarrow> q \<noteq> [] \<and> length q \<le> m"
    using deleted.IH by (simp_all add: note_store_inv_def)
  consider "s' = s" | q where "ps_data (ns_store s) tag = Some q"
      "s' = s\<lparr> ns_store := (ns_store s)\<lparr> ps_data := (ps_data (ns_store s))
         (tag := (let q' = filter (\<lambda>n. sn_id n \<noteq> nid) q in if q' = [] then None else Some q')) \<rparr> \<rparr>"
    using deleted.hyps(2) by (auto simp: delete_note_def Let_def case_prod_unfold split: option.splits if_splits)
  then show ?case
  proof cases
    case (2 q)
    then have "length (filter (\<lambda>n. sn_id n \<noteq> nid) q) \<le> m"
      using ih(3) by (intro order.trans [OF length_filter_le]) blast
    then show ?thesis using 2(2) ih by (simp add: note_store_inv_def Let_def)
  qed (use deleted.IH in simp)
qed

lemma total_notes_bound:
  assumes "note_store_inv m s"
  shows "total_notes s \<le> recipient_count s * m"
proof -
  have "length (the (ps_data (ns_store s) t)) \<le> m" if "t \<in> dom (ps_data (ns_store s))" for t
    using that assms by (auto simp: note_store_inv_def)
  then have "total_notes s \<le> (\<Sum>t\<in>dom (ps_data (ns_store s)). m)"
    unfolding total_notes_def by (rule sum_mono)
  then show ?thesis by (simp add: recipient_count_def)
qed

lemma delete_note_exact:
  "queue_of (fst (delete_note J fault s fs tag nid)) tag = filter (\<lambda>n. sn_id n \<noteq> nid) (queue_of s tag)"
  "snd (snd (delete_note J fault s fs tag nid)) \<longleftrightarrow> nid \<in> sn_id ` set (queue_of s tag)"
proof -
  have lf: "length (filter (\<lambda>n. sn_id n \<noteq> nid) q) < length q \<longleftrightarrow> nid \<in> sn_id ` set q" for q
    by (simp add: length_filter_less_iff image_iff) metis
  show "snd (snd (delete_note J fault s fs tag nid)) \<longleftrightarrow> nid \<in> sn_id ` set (queue_of s tag)"
  proof (cases "ps_data (ns_store s) tag")
    case (Some q)
    then have "snd (snd (delete_note J fault s fs tag nid)) \<longleftrightarrow> length (filter (\<lambda>n. sn_id n \<noteq> nid) q) < length q"
      by (simp add: delete_note_def Let_def case_prod_unfold)
    then show ?thesis using Some by (simp only: lf queue_of_def option.case)
  qed (simp add: delete_note_def queue_of_def)
  show "queue_of (fst (delete_note J fault s fs tag nid)) tag = filter (\<lambda>n. sn_id n \<noteq> nid) (queue_of s tag)"
    by (auto simp: delete_note_def queue_of_def Let_def case_prod_unfold length_filter_less_iff split: option.splits)
qed

text \<open>
  C32: the note store stays within its bounds in every run of insertions and deletions
  from a new store or a loaded one within the bound, whatever happens to the files: every recipient has at least one and at most
  \<^term>\<open>m\<close> notes, so the store holds at most \<^term>\<open>m\<close> notes per recipient. An
  insertion returns exactly when the bound is positive; with a bound of 0 the eviction
  loop never ends. A deletion removes exactly the notes with the given identifier and
  reports whether there were any.
\<close>

theorem note_store_bounded:
  assumes "note_store_reach J m s"
  shows "(\<forall>tag q. ps_data (ns_store s) tag = Some q \<longrightarrow> q \<noteq> [] \<and> length q \<le> m) \<and>
    total_notes s \<le> recipient_count s * m \<and>
    (insert_note J fault ts c now s fs tag p e st = None \<longleftrightarrow> m = 0) \<and>
    queue_of (fst (delete_note J fault s fs tag nid)) tag = filter (\<lambda>n. sn_id n \<noteq> nid) (queue_of s tag) \<and>
    (snd (snd (delete_note J fault s fs tag nid)) \<longleftrightarrow> nid \<in> sn_id ` set (queue_of s tag))"
  using delete_note_exact [of J fault s fs tag nid] note_store_reach_inv [OF assms] total_notes_bound [OF note_store_reach_inv [OF assms]]
  by (auto simp: note_store_inv_def insert_note_eq Let_def)

definition toy_json :: "(string \<rightharpoonup> stored_note list) persist_ops" where
  "toy_json = \<lparr> to_json = (\<lambda>_. ''{}''), of_json = (\<lambda>t. if t = ''{}'' then Some Map.empty else None) \<rparr>"

theorem note_store_bounded_witness:
  "insert_note toy_json NoFault 1 2 3 (note_store_new (Some 0)) Map.empty ''t'' ''p'' ''k'' None = None \<and>
   (\<exists>r. insert_note toy_json NoFault 1 2 3 (note_store_new (Some 1)) Map.empty ''t'' ''p'' ''k'' None = Some r)"
  using note_store_bounded [OF note_store_reach.start [where J = toy_json and m = 0], of NoFault 1 2 3 Map.empty "''t''" "''p''" "''k''" None]
    note_store_bounded [OF note_store_reach.start [where J = toy_json and m = 1], of NoFault 1 2 3 Map.empty "''t''" "''p''" "''k''" None]
  by (simp add: not_None_eq)

lemma pushed_notes: "pushed (insert_of J tag) (\<lambda>x s. note_of x) xs s = map note_of xs"
  by (induction xs arbitrary: s) simp_all

text \<open>
  eviction is first in, first out. After any sequence of insertions for a recipient
  the queue holds the newest \<^term>\<open>m\<close> of the old and new notes in the order of insertion;
  other recipients' queues are untouched; and reading without a time limit returns a
  prefix of the queue, with a flag that tells exactly whether notes were left out.
\<close>

theorem notes_kept_newest:
  assumes "0 < m" "ns_max s = m" "length (queue_of s tag) \<le> m"
  shows "queue_of (fold (insert_of J tag) xs s) tag =
      drop (length (queue_of s tag) + length xs - m) (queue_of s tag @ map note_of xs) \<and>
    (t \<noteq> tag \<longrightarrow> queue_of (fold (insert_of J tag) xs s) t = queue_of s t) \<and>
    get_notes s tag None limit_opt =
      (let lim = (case limit_opt of Some l \<Rightarrow> l | None \<Rightarrow> 100)
       in (take lim (queue_of s tag), lim < length (queue_of s tag)))"
proof -
  have "rev (queue_of (fold (insert_of J tag) xs s) tag) = take m (rev (queue_of s tag @ map note_of xs))"
    using note_history.items_fold [of m s tag J xs] assms by (simp add: pushed_notes)
  then have "queue_of (fold (insert_of J tag) xs s) tag = rev (take m (rev (queue_of s tag @ map note_of xs)))"
    by (metis rev_rev_ident)
  then have q: "queue_of (fold (insert_of J tag) xs s) tag =
      drop (length (queue_of s tag) + length xs - m) (queue_of s tag @ map note_of xs)"
    by (simp only: take_rev rev_rev_ident length_append length_map)
  have "0 < ns_max s \<Longrightarrow> queue_of (fold (insert_of J tag) xs s) t = queue_of s t" if "t \<noteq> tag"
  proof (induction xs arbitrary: s)
    case (Cons x xs)
    then show ?case using \<open>t \<noteq> tag\<close> Cons.IH [of "insert_of J tag x s"] by (simp add: queue_of_insert)
  qed simp
  moreover have "get_notes s tag None limit_opt =
      (let lim = (case limit_opt of Some l \<Rightarrow> l | None \<Rightarrow> 100) in (take lim (queue_of s tag), lim < length (queue_of s tag)))"
    by (simp add: get_notes_def queue_of_def split: option.splits)
  ultimately show ?thesis using q assms(1,2) by simp
qed

definition toy_insertion :: insertion where
  "toy_insertion = \<lparr> i_fault = NoFault, i_timestamp = 1, i_counter = 2, i_now = 3, i_files = Map.empty,
     i_payload = ''p'', i_pubkey = ''k'', i_sender = None \<rparr>"

theorem notes_kept_newest_witness:
  "queue_of (fold (insert_of toy_json ''t'') [toy_insertion, toy_insertion] (note_store_new (Some 1))) ''t'' =
     [note_of toy_insertion]"
proof -
  let ?s = "note_store_new (Some 1)"
  have q: "queue_of ?s ''t'' = []" by (simp add: queue_of_def note_store_new_def store_new_def)
  have m: "(0 :: nat) < 1" "ns_max ?s = 1" "length (queue_of ?s ''t'') \<le> 1"
    by (simp, simp add: note_store_new_def, simp only: q list.size)
  show ?thesis
    using notes_kept_newest [OF m, of toy_json "[toy_insertion, toy_insertion]" "''u''" None, THEN conjunct1]
    unfolding q by simp
qed

text \<open>
  reading in pages by time. A page lists notes newer than the given time, in order,
  at most the limit, and says whether more match. Asking again with the time of the last
  note received returns only strictly newer notes, so a note stored in the same second
  that did not fit on the page is never returned.
\<close>

theorem note_pages:
  assumes "get_notes s tag since (Some lim) = (page, left)" "page \<noteq> []"
    and "get_notes s tag (Some (sn_stored_at (last page))) limit2 = (page2, left2)"
  shows "length page \<le> lim \<and> (\<exists>rest. filter (\<lambda>n. case since of Some u \<Rightarrow> u < sn_stored_at n | None \<Rightarrow> True) (queue_of s tag) = page @ rest \<and>
       (left \<longleftrightarrow> rest \<noteq> []) \<and>
       (\<forall>n. sn_stored_at n = sn_stored_at (last page) \<longrightarrow> n \<notin> set page2))"
proof -
  let ?f = "filter (\<lambda>n. case since of Some u \<Rightarrow> u < sn_stored_at n | None \<Rightarrow> True) (queue_of s tag)"
  have p: "page = take lim ?f" "left = (lim < length ?f)"
    using assms(1) by (auto simp: get_notes_def queue_of_def Let_def split: option.splits)
  have "\<exists>k. page2 = take k (filter (\<lambda>n. sn_stored_at (last page) < sn_stored_at n) (queue_of s tag))"
    using assms(3) by (auto simp: get_notes_def queue_of_def Let_def split: option.splits)
  then have p2: "\<forall>n. sn_stored_at n = sn_stored_at (last page) \<longrightarrow> n \<notin> set page2"
    by (auto dest: in_set_takeD)
  have f: "?f = page @ drop lim ?f" using p(1) by simp
  show ?thesis using p p2 f by (auto intro!: exI [of _ "drop lim ?f"])
qed

theorem note_pages_witness:
  "get_notes (fold (insert_of toy_json ''t'') [toy_insertion, toy_insertion\<lparr> i_payload := ''q'' \<rparr>] (note_store_new (Some 5)))
     ''t'' (Some 3) (Some 10) = ([], False)"
proof -
  let ?s = "fold (insert_of toy_json ''t'') [toy_insertion, toy_insertion\<lparr> i_payload := ''q'' \<rparr>] (note_store_new (Some 5))"
  let ?a = "note_of toy_insertion" and ?b = "note_of (toy_insertion\<lparr> i_payload := ''q'' \<rparr>)"
  have t: "sn_stored_at ?a = 3" "sn_stored_at ?b = 3" by (simp_all add: note_of_def toy_insertion_def)
  have "queue_of (note_store_new (Some 5)) ''t'' = []" by (simp add: queue_of_def note_store_new_def store_new_def)
  moreover have "ns_max (note_store_new (Some 5)) = 5" by (simp add: note_store_new_def)
  ultimately have q: "queue_of ?s ''t'' = [?a, ?b]" by (simp add: queue_of_insert fifo_push_def)
  then have d: "ps_data (ns_store ?s) ''t'' = Some [?a, ?b]" by (simp add: queue_of_def split: option.splits)
  then have one: "get_notes ?s ''t'' None (Some 1) = ([?a], True)" by (simp add: get_notes_def Let_def)
  obtain page2 left2 where two: "get_notes ?s ''t'' (Some (sn_stored_at (last [?a]))) (Some 10) = (page2, left2)"
    by fastforce
  obtain rest where "\<forall>n. sn_stored_at n = sn_stored_at (last [?a]) \<longrightarrow> n \<notin> set page2"
    using note_pages [OF one _ two] by auto
  then have "?b \<notin> set page2 \<and> ?a \<notin> set page2" using t by simp
  moreover have "page2 = filter (\<lambda>n. 3 < sn_stored_at n) [?a, ?b] \<and> \<not> left2" using two d t by (simp add: get_notes_def Let_def)
  ultimately show ?thesis using two t by simp
qed

text \<open>
  one call alone. Whatever fails while a store is written, the file afterwards holds the
  old text or the new one, and the call succeeds exactly when it holds the new one, which
  a later start loads back; but when the last buffered characters are lost as the writer is
  dropped, the call still reports success and the good file has been replaced by the
  truncated text.
\<close>

theorem persist_alone:
  assumes "ps_path s = Some path" "\<And>d. of_json J (to_json J d) = Some d"
    and "maybe_persist J fault s fs = (fs', r)"
  shows "((\<forall>part. fault \<noteq> FlushLost part) \<longrightarrow>
      (isOk r \<longleftrightarrow> fault = NoFault) \<and>
      (isOk r \<longrightarrow> fs' path = Some (to_json J (ps_data s)) \<and> store_with_persistence J d0 path fs' = Inr s) \<and>
      (\<not> isOk r \<longrightarrow> fs' path = fs path)) \<and>
    (\<forall>part. fault = FlushLost part \<longrightarrow> isOk r \<and> fs' path = Some part) \<and>
    (\<forall>p. p \<noteq> path \<longrightarrow> p \<noteq> path @ ''.tmp'' \<longrightarrow> fs' p = fs p)"
proof -
  have s: "\<lparr> ps_data = ps_data s, ps_path = Some path \<rparr> = s" using assms(1) by (cases s) simp
  show ?thesis
    using assms(1,3) s
    by (cases fault) (auto simp: maybe_persist_def Let_def store_with_persistence_def load_from_file_def assms(2))
qed

definition nat_json :: "nat persist_ops" where
  "nat_json = \<lparr> to_json = (\<lambda>n. replicate n (CHR ''1'')), of_json = (\<lambda>t. Some (length t)) \<rparr>"

theorem persist_alone_witness:
  "store_with_persistence nat_json 0 ''f''
     (fst (maybe_persist nat_json NoFault \<lparr> ps_data = 7, ps_path = Some ''f'' \<rparr> [''f'' \<mapsto> ''1''])) =
   Inr \<lparr> ps_data = 7, ps_path = Some ''f'' \<rparr>"
proof -
  have p: "ps_path \<lparr> ps_data = 7 :: nat, ps_path = Some ''f'' \<rparr> = Some ''f''" by simp
  have j: "of_json nat_json (to_json nat_json d) = Some d" for d by (simp add: nat_json_def)
  obtain fs' r where m: "maybe_persist nat_json NoFault \<lparr> ps_data = 7, ps_path = Some ''f'' \<rparr> [''f'' \<mapsto> ''1''] = (fs', r)"
    by fastforce
  show ?thesis using persist_alone [OF p j m, of 0] m by simp
qed

text \<open>
  the registry is a map from lower-cased names. After a registration every spelling
  with the same lower case resolves to it and the others as before; the call returns what
  was registered before; unregistering removes exactly that name; and none of it depends
  on whether the file could be written.
\<close>

theorem registry_laws:
  assumes "register lower J now fault r fs username addr key = (r', fs', previous)"
    and "unregister lower J fault2 r' fs' u = (r2, fs2, removed)"
  shows "previous = resolve lower r username \<and>
    (\<forall>v. resolve lower r' v = (if lower v = lower username
       then Some \<lparr> ar_username = lower username, ar_utxo_address = addr, ar_encryption_pubkey = key, ar_registered_at = now \<rparr>
       else resolve lower r v)) \<and>
    removed = resolve lower r' u \<and>
    (\<forall>v. resolve lower r2 v = (if lower v = lower u then None else resolve lower r' v)) \<and>
    (finite (dom (ps_data r)) \<longrightarrow>
       registry_count r' = registry_count r + (if previous = None then 1 else 0))"
proof -
  have r': "previous = ps_data r (lower username)" "ps_data r' = (ps_data r)(lower username \<mapsto>
      \<lparr> ar_username = lower username, ar_utxo_address = addr, ar_encryption_pubkey = key, ar_registered_at = now \<rparr>)"
    using assms(1) by (auto simp: register_def Let_def case_prod_unfold)
  have r2: "removed = ps_data r' (lower u)" "ps_data r2 = (ps_data r')(lower u := None)"
    using assms(2) by (auto simp: unregister_def Let_def case_prod_unfold split: if_splits)
  have "card (insert k (dom m)) = card (dom m) + (if m k = None then 1 else 0)" if "finite (dom m)"
    for k and m :: "string \<rightharpoonup> address_registration"
    using that by (auto simp: card_insert_if insert_absorb)
  then show ?thesis using r' r2 by (auto simp: resolve_def registry_count_def)
qed

theorem registry_laws_witness:
  "\<exists>r'. register id \<lparr> to_json = (\<lambda>_. []), of_json = (\<lambda>_. None) \<rparr> 9 CreateFails (store_new Map.empty) Map.empty ''a'' ''b'' ''c'' =
       (r', Map.empty, None) \<and> registry_count r' = 1"
proof -
  let ?J = "\<lparr> to_json = (\<lambda>_. []), of_json = (\<lambda>_. None) \<rparr>"
  obtain r' fs' previous where r: "register id ?J 9 CreateFails (store_new Map.empty) Map.empty ''a'' ''b'' ''c'' = (r', fs', previous)"
    by (metis prod.collapse)
  obtain r2 fs2 removed where u: "unregister id ?J NoFault r' fs' ''a'' = (r2, fs2, removed)"
    by (metis prod.collapse)
  have "fs' = Map.empty" using r by (auto simp: register_def Let_def store_new_def maybe_persist_def)
  then show ?thesis
    using registry_laws [OF r u] r by (simp add: resolve_def store_new_def registry_count_def)
qed

end
