(* ===== verification/ApiNotes.thy ===== *)
theory ApiNotes
  imports NoteStore Strings
begin

text \<open>
  The handlers of \<^verbatim>\<open>server/src/api.rs\<close> for encrypted notes and usernames, with their
  validation, and the requests and responses of \<^verbatim>\<open>types.rs\<close> they use.  A handler works on the
  store and the files it persists to and returns the new store, the files and its answer;
  an error is its status and a constructor in place of the message's text.  The \<^verbatim>\<open>hex\<close>
  crate's decoder and the Unicode tables are parameters.
\<close>

section \<open>Errors\<close>

datatype api_status = BAD_REQUEST | INTERNAL_SERVER_ERROR | NOT_FOUND | PAYLOAD_TOO_LARGE

datatype api_reason =
    FieldEmpty string | FieldLength string | FieldNotHex string
  | PayloadEmpty | PayloadTooLarge nat | NoteNotFound
  | UsernameEmpty | UsernameTooLong | UsernameCharacters | UsernameUnknown string
  | EncryptionPubkeyForm | RegistrationLost
  | InvalidAmount | MissingPubkey | InvalidPubkeyHex | InvalidPubkeyLength | MissingTokenContract | BusSendFailed
  | BlobDataLength nat | SmtBlobDataLength nat | Required string | InvalidSecretKey nat
  | NotesRootHex | NotesRootLength nat | SendFailed string | TxHashEmpty | InvalidBase64 string
  | SmtBlobMissing | SmtBlobLength nat | SiblingsLength string nat | SiblingHex nat
  | WitnessFailed | ProofTaskPanicked | ProofFailed

record api_error =
  ae_status :: api_status
  ae_reason :: api_reason

definition bad_request :: "api_reason \<Rightarrow> api_error" where
  "bad_request r = \<lparr> ae_status = BAD_REQUEST, ae_reason = r \<rparr>"

definition internal :: "api_reason \<Rightarrow> api_error" where
  "internal r = \<lparr> ae_status = INTERNAL_SERVER_ERROR, ae_reason = r \<rparr>"

definition not_found :: "api_reason \<Rightarrow> api_error" where
  "not_found r = \<lparr> ae_status = NOT_FOUND, ae_reason = r \<rparr>"

definition payload_too_large :: "api_reason \<Rightarrow> api_error" where
  "payload_too_large r = \<lparr> ae_status = PAYLOAD_TOO_LARGE, ae_reason = r \<rparr>"

section \<open>Validation\<close>

definition validate_tag :: "(string \<Rightarrow> byte list option) \<Rightarrow> string \<Rightarrow> string \<Rightarrow> api_error + unit" where
  "validate_tag hdec tag field_name =
     (let normalized = without_prefix ''0x'' tag in
      if normalized = [] then Inl (bad_request (FieldEmpty field_name))
      else if length normalized \<noteq> 64 then Inl (bad_request (FieldLength field_name))
      else if hdec normalized = None then Inl (bad_request (FieldNotHex field_name))
      else Inr ())"

definition validate_ephemeral_pubkey :: "(string \<Rightarrow> byte list option) \<Rightarrow> string \<Rightarrow> api_error + unit" where
  "validate_ephemeral_pubkey hdec pubkey =
     (let normalized = without_prefix ''0x'' pubkey in
      if normalized = [] then Inl (bad_request (FieldEmpty ''ephemeral_pubkey''))
      else if length normalized \<noteq> 64 \<and> length normalized \<noteq> 66 \<and> length normalized \<noteq> 130
      then Inl (bad_request (FieldLength ''ephemeral_pubkey''))
      else if hdec normalized = None then Inl (bad_request (FieldNotHex ''ephemeral_pubkey''))
      else Inr ())"

definition validate_username :: "unicode_tables \<Rightarrow> string \<Rightarrow> api_error + unit" where
  "validate_username U username =
     (if username = [] then Inl (bad_request UsernameEmpty)
      else if 64 < length username then Inl (bad_request UsernameTooLong)
      else if \<not> list_all (\<lambda>c. is_alphanumeric U c \<or> c = 95 \<or> c = 45) (str_chars username)
      then Inl (bad_request UsernameCharacters)
      else Inr ())"

definition validate_utxo_address :: "(string \<Rightarrow> byte list option) \<Rightarrow> string \<Rightarrow> api_error + unit" where
  "validate_utxo_address hdec address =
     (let normalized = without_prefix ''0x'' address in
      if normalized = [] then Inl (bad_request (FieldEmpty ''utxo_address''))
      else if length normalized \<noteq> 64 then Inl (bad_request (FieldLength ''utxo_address''))
      else if hdec normalized = None then Inl (bad_request (FieldNotHex ''utxo_address''))
      else Inr ())"

definition normalize_encryption_pubkey ::
  "(string \<Rightarrow> byte list option) \<Rightarrow> unicode_tables \<Rightarrow> string \<Rightarrow> api_error + string" where
  "normalize_encryption_pubkey hdec U pubkey =
     (let normalized = without_prefix ''0x'' pubkey in
      if normalized = [] then Inl (bad_request (FieldEmpty ''encryption_pubkey''))
      else if hdec normalized = None then Inl (bad_request (FieldNotHex ''encryption_pubkey''))
      else
        (let lowered = to_lowercase U normalized in
         if length lowered = 64 then Inr lowered
         else if length lowered = 66 \<and> (starts_with ''02'' lowered \<or> starts_with ''03'' lowered)
         then Inr (drop 2 lowered)
         else if length lowered = 130 \<and> starts_with ''04'' lowered then Inr (drop 2 (take 66 lowered))
         else Inl (bad_request EncryptionPubkeyForm)))"

section \<open>Encrypted notes\<close>

record upload_note_request =
  un_recipient_tag :: string
  un_encrypted_payload :: string
  un_ephemeral_pubkey :: string
  un_sender_tag :: "string option"

record upload_note_response =
  ur_id :: string
  ur_stored_at :: u64

text \<open>What an insertion reads from outside: the clock twice, the counter and the disk.\<close>

record surroundings =
  su_fault :: io_fault
  su_timestamp :: u64
  su_counter :: u64
  su_now :: u64

text \<open>\<^term>\<open>None\<close> stands for an insertion that never returns.\<close>

definition upload_note ::
  "(string \<Rightarrow> byte list option) \<Rightarrow> unicode_tables \<Rightarrow> (string \<rightharpoonup> stored_note list) persist_ops \<Rightarrow> surroundings \<Rightarrow> nat
   \<Rightarrow> note_store \<Rightarrow> files \<Rightarrow> upload_note_request \<Rightarrow> (note_store \<times> files \<times> (api_error + upload_note_response)) option" where
  "upload_note hdec U J w max_note_payload_size s fs request =
     (case andThen (validate_tag hdec (un_recipient_tag request) ''recipient_tag'') (\<lambda>_.
           andThen (validate_ephemeral_pubkey hdec (un_ephemeral_pubkey request)) (\<lambda>_.
           case un_sender_tag request of None \<Rightarrow> Inr () | Some t \<Rightarrow> validate_tag hdec t ''sender_tag'')) of
        Inl e \<Rightarrow> Some (s, fs, Inl e)
      | Inr _ \<Rightarrow>
     let payload_size = length (un_encrypted_payload request) in
     if max_note_payload_size < payload_size
     then Some (s, fs, Inl (payload_too_large (PayloadTooLarge max_note_payload_size)))
     else if un_encrypted_payload request = [] then Some (s, fs, Inl (bad_request PayloadEmpty))
     else
       (let recipient_tag = to_lowercase U (without_prefix ''0x'' (un_recipient_tag request));
            sender_tag = map_option (\<lambda>t. to_lowercase U (without_prefix ''0x'' t)) (un_sender_tag request);
            ephemeral_pubkey = to_lowercase U (without_prefix ''0x'' (un_ephemeral_pubkey request))
        in map_option (\<lambda>(s', fs', id, stored_at). (s', fs', Inr \<lparr> ur_id = id, ur_stored_at = stored_at \<rparr>))
             (insert_note J (su_fault w) (su_timestamp w) (su_counter w) (su_now w) s fs
                recipient_tag (un_encrypted_payload request) ephemeral_pubkey sender_tag)))"

record get_notes_query =
  gq_since :: "u64 option"
  gq_limit :: "nat option"

record encrypted_note_record =
  er_id :: string
  er_encrypted_payload :: string
  er_ephemeral_pubkey :: string
  er_sender_tag :: "string option"
  er_stored_at :: u64

definition note_record :: "stored_note \<Rightarrow> encrypted_note_record" where
  "note_record n = \<lparr> er_id = sn_id n, er_encrypted_payload = sn_encrypted_payload n,
     er_ephemeral_pubkey = sn_ephemeral_pubkey n, er_sender_tag = sn_sender_tag n, er_stored_at = sn_stored_at n \<rparr>"

record get_notes_response =
  gr_notes :: "encrypted_note_record list"
  gr_has_more :: bool

definition api_get_notes ::
  "(string \<Rightarrow> byte list option) \<Rightarrow> unicode_tables \<Rightarrow> note_store \<Rightarrow> string \<Rightarrow> get_notes_query
   \<Rightarrow> api_error + get_notes_response" where
  "api_get_notes hdec U s recipient_tag query =
     andThen (validate_tag hdec recipient_tag ''recipient_tag'') (\<lambda>_.
       (let normalized_tag = to_lowercase U (without_prefix ''0x'' recipient_tag);
            (notes, has_more) = get_notes s normalized_tag (gq_since query) (gq_limit query);
            records = map note_record notes
        in Inr \<lparr> gr_notes = records, gr_has_more = has_more \<rparr>))"

text \<open>The success answer is \<^verbatim>\<open>NO_CONTENT\<close>.\<close>

definition api_delete_note ::
  "(string \<Rightarrow> byte list option) \<Rightarrow> unicode_tables \<Rightarrow> (string \<rightharpoonup> stored_note list) persist_ops \<Rightarrow> io_fault
   \<Rightarrow> note_store \<Rightarrow> files \<Rightarrow> string \<Rightarrow> string \<Rightarrow> note_store \<times> files \<times> (api_error + unit)" where
  "api_delete_note hdec U J fault s fs recipient_tag note_id =
     (case validate_tag hdec recipient_tag ''recipient_tag'' of
        Inl e \<Rightarrow> (s, fs, Inl e)
      | Inr _ \<Rightarrow>
          (let normalized_tag = to_lowercase U (without_prefix ''0x'' recipient_tag) in
           case delete_note J fault s fs normalized_tag note_id of
             (s', fs', True) \<Rightarrow> (s', fs', Inr ())
           | (s', fs', False) \<Rightarrow> (s', fs', Inl (not_found NoteNotFound))))"

section \<open>Usernames\<close>

record register_request =
  rq_username :: string
  rq_utxo_address :: string
  rq_encryption_pubkey :: string

record resolve_response =
  rr_username :: string
  rr_utxo_address :: string
  rr_encryption_pubkey :: string
  rr_registered_at :: u64

record register_response = resolve_response +
  rr_was_update :: bool

definition register_address ::
  "(string \<Rightarrow> byte list option) \<Rightarrow> unicode_tables \<Rightarrow> (string \<rightharpoonup> address_registration) persist_ops \<Rightarrow> u64 \<Rightarrow> io_fault
   \<Rightarrow> registry \<Rightarrow> files \<Rightarrow> register_request \<Rightarrow> registry \<times> files \<times> (api_error + register_response)" where
  "register_address hdec U J now fault r fs request =
     (case andThen (validate_username U (rq_username request)) (\<lambda>_.
           andThen (validate_utxo_address hdec (rq_utxo_address request)) (\<lambda>_.
           normalize_encryption_pubkey hdec U (rq_encryption_pubkey request))) of
        Inl e \<Rightarrow> (r, fs, Inl e)
      | Inr encryption_pubkey \<Rightarrow>
     let utxo_address = to_lowercase U (without_prefix ''0x'' (rq_utxo_address request));
         (r', fs', previous) = register (to_lowercase U) J now fault r fs (rq_username request) utxo_address encryption_pubkey
     in case resolve (to_lowercase U) r' (rq_username request) of
          None \<Rightarrow> (r', fs', Inl (internal RegistrationLost))
        | Some registration \<Rightarrow>
            (r', fs', Inr \<lparr> rr_username = ar_username registration, rr_utxo_address = ar_utxo_address registration,
               rr_encryption_pubkey = ar_encryption_pubkey registration, rr_registered_at = ar_registered_at registration,
               rr_was_update = (previous \<noteq> None) \<rparr>))"

definition resolve_address :: "unicode_tables \<Rightarrow> registry \<Rightarrow> string \<Rightarrow> api_error + resolve_response" where
  "resolve_address U r username =
     andThen (validate_username U username) (\<lambda>_.
       case resolve (to_lowercase U) r username of
         None \<Rightarrow> Inl (not_found (UsernameUnknown username))
       | Some registration \<Rightarrow>
           Inr \<lparr> rr_username = ar_username registration, rr_utxo_address = ar_utxo_address registration,
             rr_encryption_pubkey = ar_encryption_pubkey registration, rr_registered_at = ar_registered_at registration \<rparr>)"

section \<open>Hexadecimal fields\<close>

text \<open>What the handlers rely on: only texts of hexadecimal digits decode.\<close>

definition hex_only :: "(string \<Rightarrow> byte list option) \<Rightarrow> bool" where
  "hex_only hdec \<longleftrightarrow> (\<forall>s. hdec s \<noteq> None \<longrightarrow> list_all (\<lambda>c. hex_value c \<noteq> None) s)"

lemma hex_only_hex_dec: "hex_only hex_dec"
proof -
  have "hex_dec s \<noteq> None \<Longrightarrow> list_all (\<lambda>c. hex_value c \<noteq> None) s" for s
    by (induction s rule: hex_dec.induct) (auto split: option.splits)
  then show ?thesis by (simp add: hex_only_def)
qed

lemma hex_value_ascii: "hex_value c \<noteq> None \<Longrightarrow> of_char c < (128 :: nat)"
  by (auto simp: hex_value_def Let_def split: if_splits)

lemma hex_ascii: "hex_only hdec \<Longrightarrow> hdec s \<noteq> None \<Longrightarrow> ascii s"
  unfolding hex_only_def ascii_def list_all_iff using hex_value_ascii by blast

lemma hex_lower: "unicode_laws U \<Longrightarrow> hex_only hdec \<Longrightarrow> hdec s \<noteq> None \<Longrightarrow> to_lowercase U s = to_ascii_lowercase s"
  using hex_ascii unfolding unicode_laws_def by blast

lemma validate_tag_ok_iff:
  "validate_tag hdec t f = Inr u \<longleftrightarrow> length (without_prefix ''0x'' t) = 64 \<and> hdec (without_prefix ''0x'' t) \<noteq> None"
  by (auto simp: validate_tag_def Let_def)

definition stored_tag :: "string \<Rightarrow> string" where
  "stored_tag t = to_ascii_lowercase (without_prefix ''0x'' t)"

lemma without_prefix_no_0x: "hex_only hdec \<Longrightarrow> hdec s \<noteq> None \<Longrightarrow> without_prefix ''0x'' s = s"
  unfolding hex_only_def without_prefix_def
  by (cases "strip_prefix ''0x'' s") (auto simp: strip_prefix_Some_iff hex_value_def)

lemma without_prefix_0x [simp]: "without_prefix ''0x'' (CHR ''0'' # CHR ''x'' # r) = r"
  by (simp add: without_prefix_def)

lemma stored_tag_length: "stored_tag t = stored_tag u \<Longrightarrow> length (without_prefix ''0x'' t) = length (without_prefix ''0x'' u)"
  unfolding stored_tag_def by (metis length_to_ascii_lowercase)

lemma upload_note_Inr:
  assumes "unicode_laws U" "hex_only hdec" "upload_note hdec U J w mx s fs req = Some (s', fs', Inr resp)"
  shows "length (stored_tag (un_recipient_tag req)) = 64"
    "un_encrypted_payload req \<noteq> []" "length (un_encrypted_payload req) \<le> mx"
    "\<exists>st. insert_note J (su_fault w) (su_timestamp w) (su_counter w) (su_now w) s fs (stored_tag (un_recipient_tag req))
        (un_encrypted_payload req) (stored_tag (un_ephemeral_pubkey req)) st = Some (s', fs', ur_id resp, ur_stored_at resp) \<and>
       st = map_option stored_tag (un_sender_tag req)"
proof -
  have v: "validate_tag hdec (un_recipient_tag req) ''recipient_tag'' = Inr ()"
      "validate_ephemeral_pubkey hdec (un_ephemeral_pubkey req) = Inr ()"
      "\<forall>t. un_sender_tag req = Some t \<longrightarrow> validate_tag hdec t ''sender_tag'' = Inr ()"
    using assms(3) by (auto simp: upload_note_def andThen_Inr_iff Let_def split: sum.splits option.splits if_splits)
  have h: "hdec (without_prefix ''0x'' (un_ephemeral_pubkey req)) \<noteq> None"
    using v(2) by (auto simp: validate_ephemeral_pubkey_def Let_def split: if_splits)
  show "length (stored_tag (un_recipient_tag req)) = 64" using v(1) by (simp add: validate_tag_ok_iff stored_tag_def)
  show "un_encrypted_payload req \<noteq> []" "length (un_encrypted_payload req) \<le> mx"
    using assms(3) by (auto simp: upload_note_def Let_def split: sum.splits option.splits if_splits)
  have l: "to_lowercase U (without_prefix ''0x'' (un_recipient_tag req)) = stored_tag (un_recipient_tag req)"
      "to_lowercase U (without_prefix ''0x'' (un_ephemeral_pubkey req)) = stored_tag (un_ephemeral_pubkey req)"
      "map_option (\<lambda>t. to_lowercase U (without_prefix ''0x'' t)) (un_sender_tag req) = map_option stored_tag (un_sender_tag req)"
    using hex_lower [OF assms(1,2)] v h by (auto simp: stored_tag_def validate_tag_ok_iff map_option_case split: option.split)
  show "\<exists>st. insert_note J (su_fault w) (su_timestamp w) (su_counter w) (su_now w) s fs (stored_tag (un_recipient_tag req))
        (un_encrypted_payload req) (stored_tag (un_ephemeral_pubkey req)) st = Some (s', fs', ur_id resp, ur_stored_at resp) \<and>
       st = map_option stored_tag (un_sender_tag req)"
    using assms(3) v(1,2) unfolding upload_note_def l
    by (auto simp: Let_def split: sum.splits option.splits if_splits prod.splits)
qed

text \<open>
  an uploaded note is found under every spelling of its tag. After a successful upload
  to a store reached from an empty one, reading the recipient's notes under any tag that
  differs from the uploaded one only in letter case or the \<^verbatim>\<open>0x\<close> prefix answers, for a
  limit of at least the store's bound, with the uploaded note last, as it was given and
  with the identifier and time of the upload's answer; other recipients' notes are as
  before.
\<close>

theorem uploaded_note_is_found:
  assumes "unicode_laws U" "hex_only hdec" "note_store_reach J m s"
    and "upload_note hdec U J w mx s fs req = Some (s', fs', Inr resp)"
    and "stored_tag tag = stored_tag (un_recipient_tag req)" "hdec (without_prefix ''0x'' tag) \<noteq> None" "m \<le> n"
  shows "(\<exists>answer. api_get_notes hdec U s' tag \<lparr> gq_since = None, gq_limit = Some n \<rparr> = Inr answer \<and>
      \<not> gr_has_more answer \<and> gr_notes answer \<noteq> [] \<and>
      last (gr_notes answer) = \<lparr> er_id = ur_id resp, er_encrypted_payload = un_encrypted_payload req,
        er_ephemeral_pubkey = stored_tag (un_ephemeral_pubkey req),
        er_sender_tag = map_option stored_tag (un_sender_tag req), er_stored_at = ur_stored_at resp \<rparr>) \<and>
    (t \<noteq> stored_tag tag \<longrightarrow> queue_of s' t = queue_of s t)"
proof -
  let ?tag = "stored_tag (un_recipient_tag req)"
  let ?n = "\<lparr> sn_id = ur_id resp, sn_encrypted_payload = un_encrypted_payload req,
      sn_ephemeral_pubkey = stored_tag (un_ephemeral_pubkey req),
      sn_sender_tag = map_option stored_tag (un_sender_tag req), sn_stored_at = ur_stored_at resp \<rparr>"
  note up = upload_note_Inr [OF assms(1,2,4)]
  have inv: "note_store_inv m s" using assms(3) by (rule note_store_reach_inv)
  then have m: "ns_max s = m" "length (queue_of s ?tag) \<le> m"
    by (auto simp: note_store_inv_def queue_of_def split: option.split)
  have ins: "m \<noteq> 0" "s' = s\<lparr> ns_store := (ns_store s)\<lparr> ps_data :=
      (ps_data (ns_store s))(?tag \<mapsto> fifo_push m ?n (queue_of s ?tag)) \<rparr> \<rparr>"
    using up(4) by (auto simp: insert_note_eq m Let_def split: if_splits)
  have q: "ps_data (ns_store s') ?tag = Some (fifo_push m ?n (queue_of s ?tag))" by (simp add: ins(2))
  have l: "length (fifo_push m ?n (queue_of s ?tag)) \<le> n"
    using length_fifo_push [of m "queue_of s ?tag" ?n] ins(1) m(2) assms(7) by simp
  have v: "validate_tag hdec tag ''recipient_tag'' = Inr ()"
    using assms(6) up(1) stored_tag_length [OF assms(5)] by (simp add: validate_tag_ok_iff stored_tag_def)
  have t: "to_lowercase U (without_prefix ''0x'' tag) = ?tag"
    using hex_lower [OF assms(1,2,6)] assms(5) by (simp add: stored_tag_def)
  have "get_notes s' ?tag None (Some n) = (fifo_push m ?n (queue_of s ?tag), False)"
    using q l by (simp add: get_notes_def)
  then have "api_get_notes hdec U s' tag \<lparr> gq_since = None, gq_limit = Some n \<rparr> =
      Inr \<lparr> gr_notes = map note_record (fifo_push m ?n (queue_of s ?tag)), gr_has_more = False \<rparr>"
    using v t by (simp add: api_get_notes_def)
  moreover have "t \<noteq> stored_tag tag \<longrightarrow> queue_of s' t = queue_of s t" by (simp add: ins(2) queue_of_def assms(5))
  ultimately show ?thesis by (simp add: fifo_push_def note_record_def)
qed

definition toy_upload :: upload_note_request where
  "toy_upload = \<lparr> un_recipient_tag = ''0x'' @ replicate 64 CHR ''A'', un_encrypted_payload = ''p'',
     un_ephemeral_pubkey = replicate 64 CHR ''b'', un_sender_tag = None \<rparr>"

definition toy_surroundings :: surroundings where
  "toy_surroundings = \<lparr> su_fault = NoFault, su_timestamp = 1, su_counter = 2, su_now = 3 \<rparr>"

lemma hex_dec_replicate: "hex_value c = Some h \<Longrightarrow> hex_dec (replicate (2 * k) c) \<noteq> None"
  by (induction k) (auto split: option.splits)

lemma toy_upload_runs:
  "\<exists>s' fs' resp. upload_note hex_dec ascii_tables toy_json toy_surroundings 10 (note_store_new (Some 1)) Map.empty toy_upload =
     Some (s', fs', Inr resp)"
proof -
  have "hex_dec (replicate (2 * 32) CHR ''A'') \<noteq> None" "hex_dec (replicate (2 * 32) CHR ''b'') \<noteq> None"
    by (rule hex_dec_replicate, simp add: hex_value_def)+
  then have h: "hex_dec (replicate 64 CHR ''A'') \<noteq> None" "hex_dec (replicate 64 CHR ''b'') \<noteq> None" by simp_all
  note p = without_prefix_no_0x [OF hex_only_hex_dec h(2)]
  have "validate_tag hex_dec (un_recipient_tag toy_upload) ''recipient_tag'' = Inr ()"
    "validate_ephemeral_pubkey hex_dec (un_ephemeral_pubkey toy_upload) = Inr ()"
    using h by (simp_all add: toy_upload_def validate_tag_def validate_ephemeral_pubkey_def p Let_def)
  then show ?thesis
    by (simp add: upload_note_def toy_upload_def insert_note_eq note_store_new_def Let_def case_prod_unfold)
qed

theorem uploaded_note_is_found_witness:
  "\<exists>s' fs' resp answer. upload_note hex_dec ascii_tables toy_json toy_surroundings 10 (note_store_new (Some 1)) Map.empty toy_upload =
     Some (s', fs', Inr resp) \<and>
     api_get_notes hex_dec ascii_tables s' (replicate 64 CHR ''a'') \<lparr> gq_since = None, gq_limit = Some 1 \<rparr> = Inr answer \<and>
     gr_notes answer \<noteq> []"
proof -
  obtain s' fs' resp where u: "upload_note hex_dec ascii_tables toy_json toy_surroundings 10 (note_store_new (Some 1))
      Map.empty toy_upload = Some (s', fs', Inr resp)" using toy_upload_runs by blast
  have "hex_dec (replicate (2 * 32) CHR ''a'') \<noteq> None" by (rule hex_dec_replicate) (simp add: hex_value_def)
  then have "hex_dec (replicate 64 CHR ''a'') \<noteq> None" by simp
  note w = without_prefix_no_0x [OF hex_only_hex_dec this]
  have h: "hex_dec (without_prefix ''0x'' (replicate 64 CHR ''a'')) \<noteq> None" unfolding w by fact
  have lower: "ascii_lower_char CHR ''A'' = ascii_lower_char CHR ''a''" by code_simp
  have t: "stored_tag (replicate 64 CHR ''a'') = stored_tag (un_recipient_tag toy_upload)"
    by (simp add: stored_tag_def w) (simp add: toy_upload_def to_ascii_lowercase_def lower)
  show ?thesis
    using uploaded_note_is_found [OF ascii_tables_laws hex_only_hex_dec note_store_reach.start u t h, of 1] u by auto
qed

section \<open>Encryption keys and usernames\<close>

lemma normalize_lowered:
  assumes "unicode_laws U" "hex_only hdec" "hdec k \<noteq> None" "k \<noteq> []"
  shows "normalize_encryption_pubkey hdec U k =
    (let l = to_ascii_lowercase k in
     if length l = 64 then Inr l
     else if length l = 66 \<and> (starts_with ''02'' l \<or> starts_with ''03'' l) then Inr (drop 2 l)
     else if length l = 130 \<and> starts_with ''04'' l then Inr (drop 2 (take 66 l))
     else Inl (bad_request EncryptionPubkeyForm))"
  using assms(3,4)
  unfolding normalize_encryption_pubkey_def Let_def without_prefix_no_0x [OF assms(2,3)] hex_lower [OF assms(1-3)]
  by auto

lemma ascii_lower_digits: "ascii_lower_char CHR ''0'' = CHR ''0''" "ascii_lower_char CHR ''2'' = CHR ''2''"
  "ascii_lower_char CHR ''3'' = CHR ''3''" "ascii_lower_char CHR ''4'' = CHR ''4''"
  by code_simp+

text \<open>
  the forms of an encryption key agree. The coordinate alone, the two compressed forms
  and the uncompressed form of a public key all normalise to the coordinate's 64 digits in
  lower case, so a sender finds the same key whichever form was registered; the result of
  a successful normalisation always has 64 digits.
\<close>

theorem encryption_key_forms:
  assumes "unicode_laws U" "hex_only hdec" "length x = 64" "length y = 64"
    and "\<forall>k\<in>{x, ''02'' @ x, ''03'' @ x, ''04'' @ x @ y}. hdec k \<noteq> None"
  shows "(\<forall>k\<in>{x, ''02'' @ x, ''03'' @ x, ''04'' @ x @ y}.
      normalize_encryption_pubkey hdec U k = Inr (to_ascii_lowercase x)) \<and>
    (normalize_encryption_pubkey hdec U k = Inr z \<longrightarrow> length z = 64)"
proof
  have n: "normalize_encryption_pubkey hdec U k = (let l = to_ascii_lowercase k in
     if length l = 64 then Inr l
     else if length l = 66 \<and> (starts_with ''02'' l \<or> starts_with ''03'' l) then Inr (drop 2 l)
     else if length l = 130 \<and> starts_with ''04'' l then Inr (drop 2 (take 66 l))
     else Inl (bad_request EncryptionPubkeyForm))" if "k \<in> {x, ''02'' @ x, ''03'' @ x, ''04'' @ x @ y}" for k
    using that assms(3-5) by (intro normalize_lowered [OF assms(1,2)]) auto
  show "\<forall>k\<in>{x, ''02'' @ x, ''03'' @ x, ''04'' @ x @ y}. normalize_encryption_pubkey hdec U k = Inr (to_ascii_lowercase x)"
    using assms(3,4) by (auto simp: n to_ascii_lowercase_def ascii_lower_digits starts_with_def)
  show "normalize_encryption_pubkey hdec U k = Inr z \<longrightarrow> length z = 64"
    by (auto simp: normalize_encryption_pubkey_def Let_def split: if_splits)
qed

theorem encryption_key_forms_witness:
  "normalize_encryption_pubkey hex_dec ascii_tables (''03'' @ replicate 64 CHR ''A'') = Inr (replicate 64 CHR ''a'')"
proof -
  let ?x = "replicate 64 CHR ''A''"
  have app: "hex_dec (c # d # s) \<noteq> None \<longleftrightarrow> hex_value c \<noteq> None \<and> hex_value d \<noteq> None \<and> hex_dec s \<noteq> None" for c d s
    by (auto split: option.splits)
  have r: "hex_dec (replicate (2 * k) CHR ''A'') \<noteq> None" for k by (rule hex_dec_replicate) (simp add: hex_value_def)
  have h: "\<forall>k\<in>{?x, ''02'' @ ?x, ''03'' @ ?x, ''04'' @ ?x @ ?x}. hex_dec k \<noteq> None"
    using r [of 32] r [of 64] by (simp add: app hex_value_def replicate_add [symmetric] del: not_None_eq hex_dec.simps)
  have "to_ascii_lowercase ?x = replicate 64 CHR ''a''"
  proof -
    have "ascii_lower_char CHR ''A'' = CHR ''a''" by code_simp
    then show ?thesis by (simp add: to_ascii_lowercase_def)
  qed
  then show ?thesis
    using encryption_key_forms [OF ascii_tables_laws hex_only_hex_dec _ _ h] by simp
qed

lemma register_resolve:
  "register lower J now fault r fs name a k = (r', fs', p) \<Longrightarrow>
     resolve lower r' u = (if lower u = lower name then Some \<lparr> ar_username = lower name, ar_utxo_address = a,
       ar_encryption_pubkey = k, ar_registered_at = now \<rparr> else resolve lower r u) \<and> p = resolve lower r name"
  by (auto simp: register_def resolve_def Let_def split: prod.splits)

text \<open>
  a registered name resolves. A registration is answered with what it stored: the name
  and the address in lower case, a 64-digit key, the time and whether the name was taken;
  afterwards every spelling of the name that passes validation resolves to the same entry,
  other names resolve as before, and the handler's internal error cannot happen.
\<close>

theorem registered_name_resolves:
  assumes "unicode_laws U" "hex_only hdec"
    and "register_address hdec U J now fault r fs req = (r', fs', result)"
  shows "(\<forall>resp. result = Inr resp \<longrightarrow>
      rr_username resp = to_lowercase U (rq_username req) \<and> rr_utxo_address resp = stored_tag (rq_utxo_address req) \<and>
      length (rr_utxo_address resp) = 64 \<and> length (rr_encryption_pubkey resp) = 64 \<and>
      rr_was_update resp = (resolve (to_lowercase U) r (rq_username req) \<noteq> None) \<and>
      (validate_username U u = Inr () \<longrightarrow> to_lowercase U u = to_lowercase U (rq_username req) \<longrightarrow>
         resolve_address U r' u = Inr (resolve_response.truncate resp)) \<and>
      (to_lowercase U u \<noteq> to_lowercase U (rq_username req) \<longrightarrow> resolve_address U r' u = resolve_address U r u)) \<and>
    (\<forall>e. result = Inl e \<longrightarrow> ae_status e = BAD_REQUEST \<and> r' = r \<and> fs' = fs)"
proof -
  let ?low = "to_lowercase U" and ?v = "andThen (validate_username U (rq_username req)) (\<lambda>_.
           andThen (validate_utxo_address hdec (rq_utxo_address req)) (\<lambda>_.
           normalize_encryption_pubkey hdec U (rq_encryption_pubkey req)))"
  show ?thesis
  proof (cases ?v)
    case (Inl e)
    then have "ae_status e = BAD_REQUEST"
      by (auto simp: validate_username_def validate_utxo_address_def normalize_encryption_pubkey_def Let_def bad_request_def
          split: if_splits)
    moreover have "register_address hdec U J now fault r fs req = (r, fs, Inl e)"
      unfolding register_address_def Inl by simp
    ultimately show ?thesis using assms(3) by simp
  next
    case (Inr k)
    then have v: "validate_utxo_address hdec (rq_utxo_address req) = Inr ()" "normalize_encryption_pubkey hdec U (rq_encryption_pubkey req) = Inr k"
      by (auto simp: andThen_Inr_iff)
    have k: "length k = 64"
      using v(2) by (auto simp: normalize_encryption_pubkey_def Let_def split: if_splits)
    have a: "length (without_prefix ''0x'' (rq_utxo_address req)) = 64" "hdec (without_prefix ''0x'' (rq_utxo_address req)) \<noteq> None"
      using v(1) by (auto simp: validate_utxo_address_def Let_def split: if_splits)
    have low: "?low (without_prefix ''0x'' (rq_utxo_address req)) = stored_tag (rq_utxo_address req)"
      using hex_lower [OF assms(1,2) a(2)] by (simp add: stored_tag_def)
    obtain r2 fs2 p where reg: "register ?low J now fault r fs (rq_username req) (stored_tag (rq_utxo_address req)) k = (r2, fs2, p)"
      by (metis prod.collapse)
    note rr = register_resolve [OF reg]
    have "result = Inr \<lparr> rr_username = ?low (rq_username req), rr_utxo_address = stored_tag (rq_utxo_address req),
        rr_encryption_pubkey = k, rr_registered_at = now, rr_was_update = (p \<noteq> None) \<rparr>" and "r' = r2"
      using assms(3) reg rr [of "rq_username req"] unfolding register_address_def Inr low by (simp_all add: low)
    then show ?thesis
      using rr [of u] rr [of "rq_username req"] k a(1)
      by (auto simp: resolve_address_def resolve_response.defs stored_tag_def)
  qed
qed

definition toy_registration :: register_request where
  "toy_registration = \<lparr> rq_username = ''Bob'', rq_utxo_address = replicate 64 CHR ''b'',
     rq_encryption_pubkey = replicate 64 CHR ''b'' \<rparr>"

definition toy_registry_json :: "(string \<rightharpoonup> address_registration) persist_ops" where
  "toy_registry_json = \<lparr> to_json = (\<lambda>_. []), of_json = (\<lambda>_. None) \<rparr>"

lemma toy_registration_runs:
  "\<exists>r fs resp. register_address hex_dec ascii_tables toy_registry_json 7 NoFault (store_new Map.empty) Map.empty toy_registration =
     (r, fs, Inr resp)"
proof -
  have "hex_dec (replicate (2 * 32) CHR ''b'') \<noteq> None" by (rule hex_dec_replicate) (simp add: hex_value_def)
  then have h: "hex_dec (replicate 64 CHR ''b'') \<noteq> None" by simp
  note p = without_prefix_no_0x [OF hex_only_hex_dec h]
  have "validate_username ascii_tables ''Bob'' = Inr ()"
    by (simp add: validate_username_def str_chars_def ascii_tables_def ascii_alphanumeric_def)
  moreover have "validate_utxo_address hex_dec (replicate 64 CHR ''b'') = Inr ()"
    using h by (auto simp: validate_utxo_address_def p)
  moreover have "\<exists>k. normalize_encryption_pubkey hex_dec ascii_tables (replicate 64 CHR ''b'') = Inr k"
    using h by (subst normalize_lowered [OF ascii_tables_laws hex_only_hex_dec]) simp_all
  ultimately show ?thesis
    by (auto simp: register_address_def toy_registration_def resolve_def register_def Let_def split: prod.splits option.splits)
qed

theorem registered_name_resolves_witness:
  "\<exists>r fs resp. register_address hex_dec ascii_tables toy_registry_json 7 NoFault (store_new Map.empty) Map.empty toy_registration =
     (r, fs, Inr resp) \<and> resolve_address ascii_tables r ''bOB'' = Inr (resolve_response.truncate resp) \<and> rr_username resp = ''bob''"
proof -
  obtain r fs resp where reg: "register_address hex_dec ascii_tables toy_registry_json 7 NoFault (store_new Map.empty) Map.empty toy_registration =
     (r, fs, Inr resp)" using toy_registration_runs by blast
  have v: "validate_username ascii_tables ''bOB'' = Inr ()"
    by (simp add: validate_username_def str_chars_def ascii_tables_def ascii_alphanumeric_def)
  have "to_ascii_lowercase ''bOB'' = ''bob''" "to_ascii_lowercase ''Bob'' = ''bob''" by code_simp+
  then have l: "to_lowercase ascii_tables ''bOB'' = ''bob''" "to_lowercase ascii_tables (rq_username toy_registration) = ''bob''"
    by (simp_all add: ascii_tables_def toy_registration_def)
  show ?thesis
    using registered_name_resolves [OF ascii_tables_laws hex_only_hex_dec reg, THEN conjunct1, of "''bOB''"] reg
    by (auto simp: v l)
qed

end
