(* ===== verification/ApiTransfers.thy ===== *)
theory ApiTransfers
  imports Provers ApiNotes
begin

text \<open>
  The handlers of \<^verbatim>\<open>server/src/api.rs\<close> that make transactions: faucet and deposit requests,
  the blob transaction of a transfer, its hash, and the submission of proofs.  A handler
  returns what it sent, in order, and its answer; the metrics of the default build do
  nothing and are left out.
\<close>

section \<open>Environment and context\<close>

text \<open>
  Beside the crates of \<^term>\<open>zk_env\<close>: base64, the hash of a transaction, the Unicode tables,
  the verifier's name and the two verification keys.
\<close>

record 'f api_env = "'f zk_env" +
  base64_dec :: "string \<Rightarrow> byte list option"
  tx_hashed :: "blob_transaction \<Rightarrow> byte list"
  unicode :: unicode_tables
  noir_name :: string
  utxo_vk :: "byte list"
  incl_vk :: "byte list"

record router_ctx =
  rc_default_amount :: u64
  rc_utxo_contract :: string
  rc_state_contract :: string
  rc_incl_contract :: string

record server_config_response =
  sc_contract_name :: string
  sc_utxo_state_contract_name :: string
  sc_smt_incl_proof_contract_name :: string

definition get_config :: "router_ctx \<Rightarrow> server_config_response" where
  "get_config ctx = \<lparr> sc_contract_name = rc_utxo_contract ctx, sc_utxo_state_contract_name = rc_state_contract ctx,
     sc_smt_incl_proof_contract_name = rc_incl_contract ctx \<rparr>"

section \<open>Faucet and deposit requests\<close>

record faucet_request =
  fr_pubkey_hex :: string
  fr_amount :: "u64 option"

record deposit_request = faucet_request +
  dr_token_contract :: "string option"
  dr_wallet_account :: "string option"
  dr_secp256k1_blob :: "byte list option"
  dr_wallet_blob :: "byte list option"

definition requested_amount :: "router_ctx \<Rightarrow> u64 option \<Rightarrow> api_error + u64" where
  "requested_amount ctx a =
     (let default_amount = if rc_default_amount ctx = 0 then FAUCET_MINT_AMOUNT else rc_default_amount ctx;
          amount = (case a of Some v \<Rightarrow> v | None \<Rightarrow> default_amount)
      in if amount = 0 then Inl (bad_request InvalidAmount) else Inr amount)"

definition requested_pubkey :: "(string \<Rightarrow> byte list option) \<Rightarrow> string \<Rightarrow> api_error + byte list" where
  "requested_pubkey hdec s =
     (let pubkey_hex = str_trim s in
      if pubkey_hex = [] then Inl (bad_request MissingPubkey)
      else
        (let normalized_pubkey = without_prefix ''0x'' pubkey_hex in
         case hdec normalized_pubkey of
           None \<Rightarrow> Inl (bad_request InvalidPubkeyHex)
         | Some pubkey_bytes \<Rightarrow>
             if length pubkey_bytes \<noteq> 32 then Inl (bad_request InvalidPubkeyLength) else Inr pubkey_bytes))"

text \<open>
  The bus accepts a command or not; \<^term>\<open>random\<close> is the randomness the note draws;
  \<^term>\<open>None\<close> is a panic.
\<close>

definition faucet ::
  "('f, 'z) api_env_scheme \<Rightarrow> (mint_command \<Rightarrow> bool) \<Rightarrow> byte list \<Rightarrow> router_ctx \<Rightarrow> faucet_request
   \<Rightarrow> (mint_command list \<times> (api_error + zk_note)) option" where
  "faucet E bus random ctx request =
     (case requested_amount ctx (fr_amount request) of
        Inl e \<Rightarrow> Some ([], Inl e)
      | Inr amount \<Rightarrow>
     case requested_pubkey (hex_decode E) (fr_pubkey_hex request) of
        Inl e \<Rightarrow> Some ([], Inl e)
      | Inr pubkey_bytes \<Rightarrow>
     map_option (\<lambda>n.
       (let cmd = \<lparr> mc_recipient_pubkey = pubkey_bytes, mc_amount = amount, mc_note = n \<rparr> in
        if bus cmd then ([cmd], Inr n) else ([], Inl (internal BusSendFailed))))
       (build_note E random (from_be_bytes pubkey_bytes) amount))"

definition deposit ::
  "('f, 'z) api_env_scheme \<Rightarrow> (deposit_command \<Rightarrow> bool) \<Rightarrow> byte list \<Rightarrow> router_ctx \<Rightarrow> deposit_request
   \<Rightarrow> (deposit_command list \<times> (api_error + zk_note)) option" where
  "deposit E bus random ctx request =
     (case requested_amount ctx (fr_amount request) of
        Inl e \<Rightarrow> Some ([], Inl e)
      | Inr amount \<Rightarrow>
     case requested_pubkey (hex_decode E) (fr_pubkey_hex request) of
        Inl e \<Rightarrow> Some ([], Inl e)
      | Inr pubkey_bytes \<Rightarrow>
     let token_contract = str_trim (case dr_token_contract request of Some t \<Rightarrow> t | None \<Rightarrow> ''oranj'') in
     if token_contract = [] then Some ([], Inl (bad_request MissingTokenContract))
     else map_option (\<lambda>n.
       (let cmd = \<lparr> mc_recipient_pubkey = pubkey_bytes, mc_amount = amount, mc_note = n,
              dc_token_contract = token_contract, dc_wallet_account = dr_wallet_account request,
              dc_secp256k1_blob = dr_secp256k1_blob request, dc_wallet_blob = dr_wallet_blob request \<rparr> in
        if bus cmd then ([cmd], Inr n) else ([], Inl (internal BusSendFailed))))
       (build_note E random (from_be_bytes pubkey_bytes) amount))"

section \<open>The blob transaction of a transfer\<close>

record input_note_data =
  id_note :: zk_note
  id_secret_key :: string

record token_transfer =
  tt_token_contract :: string
  tt_sender :: string
  tt_recipient :: string
  tt_amount :: u64

record create_blob_request =
  cb_blob_data :: "byte list"
  cb_smt_blob_data :: "byte list option"
  cb_output_notes :: "zk_note list"
  cb_token_transfer :: "token_transfer option"
  cb_input_notes :: "input_note_data list option"
  cb_notes_root :: "string option"

record built_blob =
  bb_transaction :: blob_transaction
  bb_state_blob_hex :: string
  bb_hyli_utxo_hex :: string
  bb_smt_hex :: string

definition withdraw_topology :: "string \<Rightarrow> token_transfer option \<Rightarrow> nat list \<times> nat option" where
  "withdraw_topology utxo_state_contract_name transfer =
     (let is_withdraw = (case transfer of None \<Rightarrow> False | Some t \<Rightarrow> tt_sender t = utxo_state_contract_name);
          state_callees = [2]
      in if is_withdraw then (state_callees @ [3], Some 0) else (state_callees, None))"

text \<open>\<^verbatim>\<open>Element::from_str(..).map_err(..)\<close> of a secret key.\<close>

definition parse_secret_key :: "('f, 'z) zk_env_scheme \<Rightarrow> nat \<Rightarrow> input_note_data \<Rightarrow> api_error + element" where
  "parse_secret_key E i d =
     mapErr (\<lambda>_. bad_request (InvalidSecretKey i))
       (element_from_str (\<lambda>s. okOr () (radix16 E s)) (id_secret_key d))"

definition compute_smt_blob_data ::
  "('f, 'z) zk_env_scheme \<Rightarrow> input_note_data list \<Rightarrow> string \<Rightarrow> api_error + byte list" where
  "compute_smt_blob_data E input_notes notes_root_hex =
     andThen (parse_secret_key E 0 (input_notes ! 0)) (\<lambda>sk0.
     andThen (parse_secret_key E 1 (input_notes ! 1)) (\<lambda>sk1.
     let nullifier_0 = hash_merge E [note_psi (id_note (input_notes ! 0)), sk0];
         nullifier_1 = hash_merge E [note_psi (id_note (input_notes ! 1)), sk1];
         root_normalized = without_prefix ''0x'' notes_root_hex
     in case hex_decode E root_normalized of
          None \<Rightarrow> Inl (bad_request NotesRootHex)
        | Some root_bytes \<Rightarrow>
            if length root_bytes \<noteq> 32 then Inl (bad_request (NotesRootLength (length root_bytes)))
            else Inr (to_be_bytes nullifier_0 @ to_be_bytes nullifier_1 @ root_bytes)))"

text \<open>
  The data of the inclusion-proof blob is the client's or computed.  (The function also
  copies the two nullifiers out of the request's blob, which every caller has checked to
  have 128 bytes, and does not use them.)
\<close>

definition resolve_smt_blob_data ::
  "('f, 'z) zk_env_scheme \<Rightarrow> create_blob_request \<Rightarrow> api_error + byte list" where
  "resolve_smt_blob_data E request =
     (case cb_smt_blob_data request of
        Some data \<Rightarrow>
          if length data \<noteq> 96 then Inl (bad_request (SmtBlobDataLength (length data))) else Inr data
      | None \<Rightarrow>
          andThen (okOr (bad_request (Required ''input_notes'')) (cb_input_notes request)) (\<lambda>notes.
          andThen (okOr (bad_request (Required ''notes_root'')) (cb_notes_root request)) (\<lambda>root_hex.
          compute_smt_blob_data E notes root_hex)))"

definition build_blob_transaction ::
  "('f, 'z) zk_env_scheme \<Rightarrow> 'y tx_ops_scheme \<Rightarrow> router_ctx \<Rightarrow> create_blob_request \<Rightarrow> api_error + built_blob" where
  "build_blob_transaction E X ctx request =
     andThen (resolve_smt_blob_data E request) (\<lambda>raw_smt_blob_data.
     let contract_name = rc_utxo_contract ctx;
         identity = ''transfer@'' @ contract_name;
         hyli_utxo_data = cb_blob_data request;
         (state_callees, token_caller) = withdraw_topology (rc_state_contract ctx) (cb_token_transfer request);
         state_blob_data = structured_data X None (Some state_callees) HYLI_UTXO_STATE_ACTION;
         smt_blob_data = structured_data X (Some 0) None (borsh_vec raw_smt_blob_data);
         blobs = [\<lparr> blob_contract_name = rc_state_contract ctx, blob_data = state_blob_data \<rparr>,
                  \<lparr> blob_contract_name = contract_name, blob_data = hyli_utxo_data \<rparr>,
                  \<lparr> blob_contract_name = rc_incl_contract ctx, blob_data = smt_blob_data \<rparr>];
         blobs = (case cb_token_transfer request of
             None \<Rightarrow> blobs
           | Some t \<Rightarrow> blobs @ [token_blob X (tt_sender t) (tt_recipient t) (ucast (tt_amount t)) (tt_token_contract t)
                                  token_caller None])
     in Inr \<lparr> bb_transaction = \<lparr> tx_identity = identity, tx_blobs = blobs \<rparr>,
          bb_state_blob_hex = hex_encode E state_blob_data, bb_hyli_utxo_hex = hex_encode E hyli_utxo_data,
          bb_smt_hex = hex_encode E smt_blob_data \<rparr>)"

section \<open>Submitting\<close>

datatype node_message = BlobTx blob_transaction | ProofTx proof_transaction

record blob_info =
  bi_contract_name :: string
  bi_data :: string

record create_blob_response =
  cr_tx_hash :: string
  cr_blobs :: "blob_info list"

definition create_blob ::
  "('f, 'z) api_env_scheme \<Rightarrow> 'y tx_ops_scheme \<Rightarrow> 'e node_ops \<Rightarrow> router_ctx \<Rightarrow> create_blob_request
   \<Rightarrow> node_message list \<times> (api_error + create_blob_response)" where
  "create_blob E X N ctx request =
     (if length (cb_blob_data request) \<noteq> 128
      then ([], Inl (bad_request (BlobDataLength (length (cb_blob_data request)))))
      else
     case build_blob_transaction E X ctx request of
        Inl e \<Rightarrow> ([], Inl e)
      | Inr built \<Rightarrow>
     ([BlobTx (bb_transaction built)],
      case send_tx_blob N (bb_transaction built) of
        Inl _ \<Rightarrow> Inl (internal (SendFailed ''blob''))
      | Inr tx_hash \<Rightarrow>
          (let blobs = [\<lparr> bi_contract_name = rc_state_contract ctx, bi_data = bb_state_blob_hex built \<rparr>,
                        \<lparr> bi_contract_name = rc_utxo_contract ctx, bi_data = bb_hyli_utxo_hex built \<rparr>,
                        \<lparr> bi_contract_name = rc_incl_contract ctx, bi_data = bb_smt_hex built \<rparr>]
           in Inr \<lparr> cr_tx_hash = hex_encode E tx_hash, cr_blobs = blobs \<rparr>)))"

definition hash_blob ::
  "('f, 'z) api_env_scheme \<Rightarrow> 'y tx_ops_scheme \<Rightarrow> router_ctx \<Rightarrow> create_blob_request \<Rightarrow> api_error + byte list" where
  "hash_blob E X ctx request =
     (if length (cb_blob_data request) \<noteq> 128
      then Inl (bad_request (BlobDataLength (length (cb_blob_data request))))
      else mapOk (\<lambda>built. tx_hashed E (bb_transaction built)) (build_blob_transaction E X ctx request))"

text \<open>The proof transactions of the two circuits.\<close>

definition utxo_proof_tx :: "('f, 'z) api_env_scheme \<Rightarrow> router_ctx \<Rightarrow> byte list \<Rightarrow> proof_transaction" where
  "utxo_proof_tx E ctx proof_with_inputs = \<lparr> px_contract_name = rc_utxo_contract ctx, px_program_id = utxo_vk E,
     px_verifier = noir_name E, px_proof = proof_with_inputs \<rparr>"

definition smt_proof_tx :: "('f, 'z) api_env_scheme \<Rightarrow> router_ctx \<Rightarrow> byte list \<Rightarrow> proof_transaction" where
  "smt_proof_tx E ctx proof_with_inputs = \<lparr> px_contract_name = rc_incl_contract ctx, px_program_id = incl_vk E,
     px_verifier = noir_name E, px_proof = proof_with_inputs \<rparr>"

record submit_proof_request =
  sp_tx_hash :: "byte list"
  sp_proof :: string
  sp_public_inputs :: "string list"
  sp_smt_proof :: string
  sp_smt_public_inputs :: "string list"

text \<open>The answer is the request's hash and no change note.\<close>

definition submit_proof ::
  "('f, 'z) api_env_scheme \<Rightarrow> 'e node_ops \<Rightarrow> router_ctx \<Rightarrow> submit_proof_request
   \<Rightarrow> node_message list \<times> (api_error + byte list \<times> zk_note option)" where
  "submit_proof E N ctx request =
     (if sp_tx_hash request = [] then ([], Inl (bad_request TxHashEmpty))
      else
     case base64_dec E (sp_proof request) of
        None \<Rightarrow> ([], Inl (bad_request (InvalidBase64 ''proof'')))
      | Some proof_bytes \<Rightarrow>
     let proof1 = utxo_proof_tx E ctx (public_input_bytes (hex_decode E) (sp_public_inputs request) @ proof_bytes)
     in case send_tx_proof N proof1 of
        Inl _ \<Rightarrow> ([ProofTx proof1], Inl (internal (SendFailed ''utxo proof'')))
      | Inr _ \<Rightarrow>
     case base64_dec E (sp_smt_proof request) of
        None \<Rightarrow> ([ProofTx proof1], Inl (bad_request (InvalidBase64 ''smt_proof'')))
      | Some smt_proof_bytes \<Rightarrow>
     let proof2 = smt_proof_tx E ctx (public_input_bytes (hex_decode E) (sp_smt_public_inputs request) @ smt_proof_bytes)
     in ([ProofTx proof1, ProofTx proof2],
         case send_tx_proof N proof2 of
           Inl _ \<Rightarrow> Inl (internal (SendFailed ''smt proof''))
         | Inr _ \<Rightarrow> Inr (sp_tx_hash request, None)))"

section \<open>Proofs made by the server\<close>

definition parse_sibling :: "('f, 'z) api_env_scheme \<Rightarrow> nat \<times> string \<Rightarrow> api_error + 'f" where
  "parse_sibling E = (\<lambda>(i, hex_str).
     (case hex_decode E (without_prefix ''0x'' hex_str) of
        None \<Rightarrow> Inl (bad_request (SiblingHex i))
      | Some bytes \<Rightarrow> Inr (fe_from_be_bytes_reduce E bytes)))"

text \<open>The array of 256 is filled from the front; the callers have checked its length.\<close>

definition parse_siblings :: "('f, 'z) api_env_scheme \<Rightarrow> string list \<Rightarrow> api_error + 'f list" where
  "parse_siblings E hex_strs = mapM (parse_sibling E) (enumerate 0 hex_strs)"

definition generate_smt_proof ::
  "('f, 'z) api_env_scheme \<Rightarrow> ('f, 'y) circuit_ops_scheme \<Rightarrow> ('f, 'e) backend \<Rightarrow> router_ctx \<Rightarrow> byte list \<Rightarrow> byte list
   \<Rightarrow> string \<Rightarrow> u32 \<Rightarrow> u32 \<Rightarrow> input_note_data list option \<Rightarrow> string list option \<Rightarrow> string list option
   \<Rightarrow> api_error + byte list" where
  "generate_smt_proof E C B ctx tx_hash blob_payload identity tx_blob_count smt_blob_index input_notes siblings_0 siblings_1 =
     andThen (okOr (bad_request (Required ''input_notes'')) input_notes) (\<lambda>notes.
     andThen (okOr (bad_request (Required ''siblings_0'')) siblings_0) (\<lambda>siblings_0_hex.
     andThen (okOr (bad_request (Required ''siblings_1'')) siblings_1) (\<lambda>siblings_1_hex.
     if length siblings_0_hex \<noteq> 256 then Inl (bad_request (SiblingsLength ''siblings_0'' (length siblings_0_hex)))
     else if length siblings_1_hex \<noteq> 256 then Inl (bad_request (SiblingsLength ''siblings_1'' (length siblings_1_hex)))
     else
     andThen (parse_secret_key E 0 (notes ! 0)) (\<lambda>sk0.
     andThen (parse_secret_key E 1 (notes ! 1)) (\<lambda>sk1.
     let zk_input_notes = [input_note_new (id_note (notes ! 0)) sk0, input_note_new (id_note (notes ! 1)) sk1] in
     andThen (parse_siblings E siblings_0_hex) (\<lambda>sib_0.
     andThen (parse_siblings E siblings_1_hex) (\<lambda>sib_1.
     let job = \<lparr> sj_tx_hash = tx_hash, sj_identity = identity, sj_blob = blob_payload,
           sj_tx_blob_count = tx_blob_count, sj_blob_index = smt_blob_index, sj_input_notes = zk_input_notes,
           sj_siblings_0 = sib_0, sj_siblings_1 = sib_1 \<rparr> in
     case (build_hyli_smt_incl (hex_encode E) (rc_incl_contract ctx) job :: 'e prover_error + 'f hyli_smt_incl) of
        Inl _ \<Rightarrow> Inl (internal WitnessFailed)
      | Inr h \<Rightarrow>
     (case hyli_smt_incl_prove C B h of
        Panics \<Rightarrow> Inl (internal ProofTaskPanicked)
      | Returns (Inl _) \<Rightarrow> Inl (internal ProofFailed)
      | Returns (Inr proof) \<Rightarrow> Inr (hyli_smt_incl_proof_to_bytes proof)))))))))"

record finalize_request = create_blob_request +
  ft_proof :: string
  ft_public_inputs :: "string list"
  ft_smt_proof :: "string option"
  ft_smt_public_inputs :: "string list option"
  ft_siblings_0 :: "string list option"
  ft_siblings_1 :: "string list option"

text \<open>The inclusion-proof blob as it is read back from the transaction, with its index.\<close>

definition smt_blob_of :: "router_ctx \<Rightarrow> blob_transaction \<Rightarrow> api_error + nat \<times> byte list" where
  "smt_blob_of ctx tx =
     (case find (\<lambda>(_, b). blob_contract_name b = rc_incl_contract ctx) (enumerate 0 (tx_blobs tx)) of
        None \<Rightarrow> Inl (internal SmtBlobMissing)
      | Some (i, b) \<Rightarrow>
          if length (blob_data b) \<noteq> HYLI_SMT_INCL_BLOB_LENGTH_BYTES
          then Inl (internal (SmtBlobLength (length (blob_data b)))) else Inr (i, blob_data b))"

text \<open>The proof of the inclusion circuit: the client's, or made here.\<close>

definition finalize_smt_proof ::
  "('f, 'z) api_env_scheme \<Rightarrow> ('f, 'y) circuit_ops_scheme \<Rightarrow> ('f, 'e) backend \<Rightarrow> router_ctx \<Rightarrow> finalize_request
   \<Rightarrow> blob_transaction \<Rightarrow> (nat \<times> byte list) option \<Rightarrow> api_error + byte list" where
  "finalize_smt_proof E C B ctx request tx smt_blob_info =
     (case (ft_smt_proof request, smt_blob_info) of
        (Some client_proof, _) \<Rightarrow>
          andThen (okOr (bad_request (InvalidBase64 ''smt_proof'')) (base64_dec E client_proof)) (\<lambda>smt_proof_bytes.
          andThen (okOr (bad_request (Required ''smt_public_inputs'')) (ft_smt_public_inputs request)) (\<lambda>smt_pubs.
          Inr (public_input_bytes (hex_decode E) smt_pubs @ smt_proof_bytes)))
      | (None, Some (smt_blob_index, blob_payload)) \<Rightarrow>
          generate_smt_proof E C B ctx (tx_hashed E tx) blob_payload (tx_identity tx) (of_nat (length (tx_blobs tx)))
            (of_nat smt_blob_index) (cb_input_notes request) (ft_siblings_0 request) (ft_siblings_1 request)
      | (None, None) \<Rightarrow> Inl (internal SmtBlobMissing))"

text \<open>Everything before the blob transaction is sent.\<close>

definition finalize_prepare ::
  "('f, 'z) api_env_scheme \<Rightarrow> 'x tx_ops_scheme \<Rightarrow> router_ctx \<Rightarrow> finalize_request
   \<Rightarrow> api_error + blob_transaction \<times> (nat \<times> byte list) option" where
  "finalize_prepare E X ctx request =
     (if length (cb_blob_data request) \<noteq> 128
      then Inl (bad_request (BlobDataLength (length (cb_blob_data request))))
      else
     andThen (build_blob_transaction E X ctx (create_blob_request.truncate request)) (\<lambda>built.
     let tx = bb_transaction built in
     if ft_smt_proof request = None then mapOk (\<lambda>smt_blob. (tx, Some smt_blob)) (smt_blob_of ctx tx)
     else Inr (tx, None)))"

definition finalize_transfer ::
  "('f, 'z) api_env_scheme \<Rightarrow> ('f, 'y) circuit_ops_scheme \<Rightarrow> ('f, 'e) backend \<Rightarrow> 'x tx_ops_scheme \<Rightarrow> 'e node_ops
   \<Rightarrow> router_ctx \<Rightarrow> finalize_request \<Rightarrow> node_message list \<times> (api_error + byte list)" where
  "finalize_transfer E C B X N ctx request =
     (case finalize_prepare E X ctx request of
        Inl e \<Rightarrow> ([], Inl e)
      | Inr (tx, smt_blob_info) \<Rightarrow>
     case send_tx_blob N tx of
        Inl _ \<Rightarrow> ([BlobTx tx], Inl (internal (SendFailed ''blob'')))
      | Inr _ \<Rightarrow>
     case base64_dec E (ft_proof request) of
        None \<Rightarrow> ([BlobTx tx], Inl (bad_request (InvalidBase64 ''proof'')))
      | Some proof_bytes \<Rightarrow>
     let proof1 = utxo_proof_tx E ctx (public_input_bytes (hex_decode E) (ft_public_inputs request) @ proof_bytes)
     in case send_tx_proof N proof1 of
        Inl _ \<Rightarrow> ([BlobTx tx, ProofTx proof1], Inl (internal (SendFailed ''utxo proof'')))
      | Inr _ \<Rightarrow>
     case finalize_smt_proof E C B ctx request tx smt_blob_info of
        Inl e \<Rightarrow> ([BlobTx tx, ProofTx proof1], Inl e)
      | Inr smt_proof_with_inputs \<Rightarrow>
     let proof2 = smt_proof_tx E ctx smt_proof_with_inputs in
     ([BlobTx tx, ProofTx proof1, ProofTx proof2],
      case send_tx_proof N proof2 of
        Inl _ \<Rightarrow> Inl (internal (SendFailed ''smt proof''))
      | Inr _ \<Rightarrow> Inr (tx_hashed E tx)))"

section \<open>What a transfer request sends\<close>

lemma finalize_prepare_hash:
  "finalize_prepare E X ctx req = Inr (tx, info) \<Longrightarrow>
     hash_blob E X ctx (create_blob_request.truncate req) = Inr (tx_hashed E tx)"
  by (cases "build_blob_transaction E X ctx (create_blob_request.truncate req)";
      cases "smt_blob_of ctx (bb_transaction (projr (build_blob_transaction E X ctx (create_blob_request.truncate req))))")
    (auto simp: finalize_prepare_def hash_blob_def create_blob_request.defs Let_def split: if_splits)

text \<open>
  C25: the order of a finalised transfer. What the handler sends is a prefix of the blob
  transaction, the UTXO proof and the inclusion proof, in this order; the transaction sent
  is the one whose hash \<^verbatim>\<open>hash_blob\<close> answers for the same request, and the handler
  succeeds, with that hash, exactly when all three were sent and accepted. It is not atomic:
  when the proof is not base64 the blob transaction has already been sent.
\<close>

theorem finalize_transfer_order:
  assumes "finalize_transfer E C B X N ctx req = (sent, r)"
  shows "\<exists>tx p1 p2. sent = take (length sent) [BlobTx tx, ProofTx p1, ProofTx p2] \<and>
    px_program_id p1 = utxo_vk E \<and> px_program_id p2 = incl_vk E \<and>
    (sent \<noteq> [] \<longrightarrow> hash_blob E X ctx (create_blob_request.truncate req) = Inr (tx_hashed E tx)) \<and>
    (isOk r \<longleftrightarrow> length sent = 3 \<and> isOk (send_tx_blob N tx) \<and> isOk (send_tx_proof N p1) \<and> isOk (send_tx_proof N p2)) \<and>
    (isOk r \<longrightarrow> r = Inr (tx_hashed E tx)) \<and>
    (sent \<noteq> [] \<longrightarrow> isOk (send_tx_blob N tx) \<longrightarrow> base64_dec E (ft_proof req) = None \<longrightarrow>
       sent = [BlobTx tx] \<and> r = Inl (bad_request (InvalidBase64 ''proof'')))"
proof (cases "finalize_prepare E X ctx req")
  case (Inl e)
  then show ?thesis using assms
    by - (rule exI [of _ undefined], rule exI [of _ "utxo_proof_tx E ctx []"], rule exI [of _ "smt_proof_tx E ctx []"],
      auto simp: finalize_transfer_def utxo_proof_tx_def smt_proof_tx_def isOk_iff)
next
  case (Inr p)
  obtain tx info where i: "finalize_prepare E X ctx req = Inr (tx, info)" using Inr by (cases p) simp
  let ?p1 = "utxo_proof_tx E ctx (public_input_bytes (hex_decode E) (ft_public_inputs req) @ the (base64_dec E (ft_proof req)))"
  let ?p2 = "smt_proof_tx E ctx (projr (finalize_smt_proof E C B ctx req tx info))"
  have p: "px_program_id ?p1 = utxo_vk E" "px_program_id ?p2 = incl_vk E"
    by (simp_all add: utxo_proof_tx_def smt_proof_tx_def)
  show ?thesis
    using assms
    by - (rule exI [of _ tx], rule exI [of _ ?p1], rule exI [of _ ?p2],
      auto simp: finalize_transfer_def i p finalize_prepare_hash [OF i] isOk_iff Let_def split: sum.splits option.splits)
qed

section \<open>What the contract makes of a transfer request\<close>

definition api_config :: "router_ctx \<Rightarrow> string \<Rightarrow> contract_config" where
  "api_config ctx token = \<lparr> utxo_contract_name = rc_utxo_contract ctx,
     smt_incl_proof_contract_name = rc_incl_contract ctx, smt_contract_name = token \<rparr>"

definition transfer_extras :: "'y tx_ops_scheme \<Rightarrow> router_ctx \<Rightarrow> token_transfer option \<Rightarrow> blob list" where
  "transfer_extras X ctx t = (case t of None \<Rightarrow> [] | Some t \<Rightarrow>
     [token_blob X (tt_sender t) (tt_recipient t) (ucast (tt_amount t)) (tt_token_contract t)
        (if tt_sender t = rc_state_contract ctx then Some 0 else None) None])"

lemma resolve_smt_length: "resolve_smt_blob_data E req = Inr payload \<Longrightarrow> length payload = 96"
  by (auto simp: resolve_smt_blob_data_def compute_smt_blob_data_def andThen_Inr_iff Let_def
      split: option.splits if_splits)

lemma build_blob_transaction_eq:
  assumes "build_blob_transaction E X ctx req = Inr built"
  obtains payload where "resolve_smt_blob_data E req = Inr payload" "length payload = 96"
    and "bb_transaction built = state_tx X (api_config ctx token) (rc_state_contract ctx) (''transfer@'' @ rc_utxo_contract ctx)
      (fst (withdraw_topology (rc_state_contract ctx) (cb_token_transfer req))) (cb_blob_data req) payload
      (transfer_extras X ctx (cb_token_transfer req))"
proof -
  obtain payload where p: "resolve_smt_blob_data E req = Inr payload"
    using assms by (auto simp: build_blob_transaction_def andThen_Inr_iff)
  have "bb_transaction built = state_tx X (api_config ctx token) (rc_state_contract ctx) (''transfer@'' @ rc_utxo_contract ctx)
      (fst (withdraw_topology (rc_state_contract ctx) (cb_token_transfer req))) (cb_blob_data req) payload
      (transfer_extras X ctx (cb_token_transfer req))"
    using assms p by (auto simp: build_blob_transaction_def withdraw_topology_def Let_def state_tx_def api_config_def
        transfer_extras_def split: option.splits)
  then show ?thesis using that p resolve_smt_length [OF p] by blast
qed


section \<open>What a faucet request sends\<close>

lemma build_note_fields:
  "build_note E random a amount = Some n \<Longrightarrow> note_address n = a \<and> note_value n = element_new amount"
  by (auto simp: build_note_def note_new_def Let_def)

text \<open>
  a faucet request mints what it asks for. A successful request sends one command,
  whose note is the note of the answer; the note's address is, byte for byte, the 32 bytes
  of the trimmed hexadecimal key, its value is the requested or default amount, never zero.
  A refused request sends nothing, and is the client's fault unless the bus refused.
\<close>

theorem faucet_request_mints:
  assumes "faucet E bus random ctx req = Some (sent, r)"
  shows "(\<forall>n. r = Inr n \<longrightarrow> (\<exists>bytes amount. sent = [\<lparr> mc_recipient_pubkey = bytes, mc_amount = amount, mc_note = n \<rparr>] \<and>
      hex_decode E (without_prefix ''0x'' (str_trim (fr_pubkey_hex req))) = Some bytes \<and> to_be_bytes (note_address n) = bytes \<and>
      note_value n = element_new amount \<and> amount \<noteq> 0 \<and>
      (\<forall>a. fr_amount req = Some a \<longrightarrow> amount = a) \<and>
      (fr_amount req = None \<longrightarrow> amount = (if rc_default_amount ctx = 0 then 10 else rc_default_amount ctx)))) \<and>
    (\<forall>e. r = Inl e \<longrightarrow> sent = [] \<and> (ae_status e = BAD_REQUEST \<or> e = internal BusSendFailed))"
proof (cases "requested_amount ctx (fr_amount req)")
  case (Inl e)
  then show ?thesis using assms
    by (auto simp: faucet_def requested_amount_def bad_request_def Let_def split: if_splits)
next
  case a: (Inr amount)
  have amount: "amount \<noteq> 0 \<and> (\<forall>a. fr_amount req = Some a \<longrightarrow> amount = a) \<and>
      (fr_amount req = None \<longrightarrow> amount = (if rc_default_amount ctx = 0 then 10 else rc_default_amount ctx))"
    using a by (auto simp: requested_amount_def FAUCET_MINT_AMOUNT_def Let_def split: if_splits option.splits)
  show ?thesis
  proof (cases "requested_pubkey (hex_decode E) (fr_pubkey_hex req)")
    case (Inl e)
    then have "ae_status e = BAD_REQUEST"
      by (auto simp: requested_pubkey_def bad_request_def Let_def split: if_splits option.splits)
    then show ?thesis using assms a Inl by (auto simp: faucet_def)
  next
    case (Inr bytes)
    then have b: "hex_decode E (without_prefix ''0x'' (str_trim (fr_pubkey_hex req))) = Some bytes" "length bytes = 32"
      by (auto simp: requested_pubkey_def Let_def split: if_splits option.splits)
    obtain n where n: "build_note E random (from_be_bytes bytes) amount = Some n"
      and sr: "(sent, r) = (if bus \<lparr> mc_recipient_pubkey = bytes, mc_amount = amount, mc_note = n \<rparr>
        then ([\<lparr> mc_recipient_pubkey = bytes, mc_amount = amount, mc_note = n \<rparr>], Inr n) else ([], Inl (internal BusSendFailed)))"
      using assms a Inr by (auto simp: faucet_def Let_def)
    have "to_be_bytes (note_address n) = bytes" using build_note_fields [OF n] b(2) by (simp add: element_be.enc_dec)
    then show ?thesis using sr amount b(1) build_note_fields [OF n] by (auto split: if_splits)
  qed
qed

section \<open>Requests at work\<close>

definition toy_api :: "nat api_env" where
  "toy_api = zk_env.extend toy_env \<lparr> base64_dec = (\<lambda>s. if s = [] then None else Some (string_bytes s)),
     tx_hashed = (\<lambda>tx. string_bytes (tx_identity tx)), unicode = ascii_tables, noir_name = ''noir'',
     utxo_vk = [1], incl_vk = [2] \<rparr>"

definition toy_router :: router_ctx where
  "toy_router = \<lparr> rc_default_amount = 0, rc_utxo_contract = ''utxo'', rc_state_contract = ''state'', rc_incl_contract = ''smt'' \<rparr>"

definition toy_blob_request :: create_blob_request where
  "toy_blob_request = \<lparr> cb_blob_data = replicate 128 0, cb_smt_blob_data = Some (replicate 96 0), cb_output_notes = [],
     cb_token_transfer = Some \<lparr> tt_token_contract = ''token'', tt_sender = ''state'', tt_recipient = ''a'', tt_amount = 5 \<rparr>,
     cb_input_notes = None, cb_notes_root = None \<rparr>"

definition toy_finalize :: finalize_request where
  "toy_finalize = create_blob_request.extend toy_blob_request \<lparr> ft_proof = [], ft_public_inputs = [],
     ft_smt_proof = Some ''p'', ft_smt_public_inputs = Some [], ft_siblings_0 = None, ft_siblings_1 = None \<rparr>"

lemma toy_built: "\<exists>built. build_blob_transaction toy_api toy_tx toy_router toy_blob_request = Inr built"
  by (simp add: build_blob_transaction_def resolve_smt_blob_data_def toy_blob_request_def case_prod_unfold Let_def)

theorem finalize_transfer_order_witness:
  "\<exists>sent tx. finalize_transfer toy_api toy_circuit_ops toy_backend toy_tx toy_node toy_router toy_finalize =
     (sent, Inl (bad_request (InvalidBase64 ''proof''))) \<and> sent = [BlobTx tx] \<and>
     hash_blob toy_api toy_tx toy_router toy_blob_request = Inr (tx_hashed toy_api tx)"
proof -
  have t: "create_blob_request.truncate toy_finalize = toy_blob_request"
    by (simp add: toy_finalize_def create_blob_request.defs)
  obtain built where "build_blob_transaction toy_api toy_tx toy_router toy_blob_request = Inr built"
    using toy_built by blast
  then have "finalize_prepare toy_api toy_tx toy_router toy_finalize = Inr (bb_transaction built, None)"
    by (simp add: finalize_prepare_def t) (simp add: toy_finalize_def toy_blob_request_def create_blob_request.defs)
  then obtain sent r where f: "finalize_transfer toy_api toy_circuit_ops toy_backend toy_tx toy_node toy_router toy_finalize = (sent, r)"
    and s: "sent \<noteq> []"
    by (auto simp: finalize_transfer_def toy_node_def toy_api_def toy_finalize_def zk_env.defs create_blob_request.defs)
  have "isOk (send_tx_blob toy_node tx)" "base64_dec toy_api (ft_proof toy_finalize) = None" for tx
    by (simp_all add: toy_node_def toy_api_def toy_finalize_def zk_env.defs create_blob_request.defs)
  then show ?thesis using finalize_transfer_order [OF f] f s by (auto simp: t)
qed


theorem faucet_request_mints_witness:
  "\<exists>sent n. faucet toy_api (\<lambda>_. True) (replicate 32 1) toy_router \<lparr> fr_pubkey_hex = replicate 64 CHR ''b'', fr_amount = None \<rparr> =
     Some (sent, Inr n) \<and> note_value n = 10"
proof -
  let ?req = "\<lparr> fr_pubkey_hex = replicate 64 CHR ''b'', fr_amount = None \<rparr>"
  have t: "str_trim (replicate 64 CHR ''b'') = replicate 64 CHR ''b''" by (rule trim_graphic) (simp add: list.pred_set)
  have "hex_dec (replicate (2 * 32) CHR ''b'') \<noteq> None" by (rule hex_dec_replicate) (simp add: hex_value_def)
  then have h: "hex_dec (replicate 64 CHR ''b'') \<noteq> None" by simp
  note w = without_prefix_no_0x [OF hex_only_hex_dec h]
  have hd: "hex_decode toy_api = hex_dec" by (simp add: toy_api_def zk_env.defs toy_env_def)
  have "length s = 2 * length bs" if "hex_dec s = Some bs" for s bs
    using that by (induction s arbitrary: bs rule: hex_dec.induct) (auto split: option.splits)
  then obtain bs where bs: "requested_pubkey (hex_decode toy_api) (replicate 64 CHR ''b'') = Inr bs"
    using h by (fastforce simp: requested_pubkey_def t w hd)
  obtain n where n: "build_note toy_api (replicate 32 1) (from_be_bytes bs) 10 = Some n"
    by (simp add: build_note_def note_new_def bridged_polygon_usdc_note_kind_def toy_api_def zk_env.defs toy_env_def hex_value_def)
  have a: "requested_amount toy_router None = Inr 10"
    by (simp add: requested_amount_def toy_router_def FAUCET_MINT_AMOUNT_def)
  have f: "faucet toy_api (\<lambda>_. True) (replicate 32 1) toy_router ?req =
      Some ([\<lparr> mc_recipient_pubkey = bs, mc_amount = 10, mc_note = n \<rparr>], Inr n)"
    by (simp add: faucet_def a bs n)
  then show ?thesis
    using faucet_request_mints [OF f] by (auto simp: toy_router_def element_new_def)
qed

end
