(* ===== verification/Transfers.thy ===== *)
theory Transfers
  imports ApiTransfers
begin

text \<open>
  A transfer on its whole way: the notes of a client's request, the transaction the server
  builds from it, the guest and the executor that settle it, and what becomes of a second
  transfer of the same note.
\<close>

section \<open>The blob of a Hyli transaction\<close>

lemma expected_blob_parse:
  assumes "utxo_wf (hy_utxo h)"
  shows "parse_hyli_utxo_blob (expected_blob C h) =
    Inr (map to_be_bytes (drop 2 (hyli_commitments C h)), map to_be_bytes (nullifier_commitments C h))"
  unfolding expected_blob_eq [OF assms] nullifier_commitments_eq [OF assms]
  by (simp add: hyli_commitments_def parse_hyli_utxo_blob_concat)

lemma kept_element_keys:
  "filter_keys (map to_be_bytes es) False = map to_be_bytes (filter (\<lambda>e. e \<noteq> 0) es)"
  "filter_keys (map to_be_bytes es) True =
     map to_be_bytes (filter (\<lambda>e. e \<noteq> 0 \<and> to_be_bytes e \<noteq> PADDING_NULLIFIER) es)"
  by (induction es) (auto simp: filter_keys_def to_be_bytes_zero_iff)

lemma nullifier_of_input:
  assumes "utxo_wf (hy_utxo h)" "i \<in> set (u_input_notes (hy_utxo h))"
  shows "hash_merge C [note_psi (in_note i), in_secret_key i] \<in> set (nullifier_commitments C h)"
  using assms by (auto simp: nullifier_commitments_eq utxo_wf_def list_2)

section \<open>From a request to the ledger\<close>

text \<open>
  The request asks for the transfer \<^term>\<open>h\<close>: its UTXO blob is the one computed from the
  notes, the two input notes and their secret keys, written in hexadecimal, are those of
  \<^term>\<open>h\<close>, the inclusion-proof blob is left to the server, with the root given as text.
\<close>

definition request_of :: "('f, 'z) zk_env_scheme \<Rightarrow> create_blob_request \<Rightarrow> hyli_utxo \<Rightarrow> byte list \<Rightarrow> bool" where
  "request_of E req h root \<longleftrightarrow>
     utxo_wf (hy_utxo h) \<and> cb_blob_data req = expected_blob E h \<and> cb_smt_blob_data req = None \<and>
     cb_token_transfer req = None \<and> length root = 32 \<and>
     (\<exists>d0 d1 i0 i1 r. cb_input_notes req = Some [d0, d1] \<and> u_input_notes (hy_utxo h) = [i0, i1] \<and>
        id_note d0 = in_note i0 \<and> id_note d1 = in_note i1 \<and>
        parse_secret_key E 0 d0 = Inr (in_secret_key i0) \<and> parse_secret_key E 1 d1 = Inr (in_secret_key i1) \<and>
        cb_notes_root req = Some r \<and> hex_decode E (without_prefix ''0x'' r) = Some root)"

lemma request_payload:
  assumes "request_of E req h root"
  shows "resolve_smt_blob_data E req = Inr (drop 64 (cb_blob_data req) @ root)"
  using assms
  by (auto simp: request_of_def resolve_smt_blob_data_def compute_smt_blob_data_def Let_def expected_blob_eq
      nullifier_commitments_eq hyli_commitments_def)

lemma request_transaction:
  assumes "request_of E req h root"
  obtains built where "build_blob_transaction E X ctx req = Inr built"
    and "bb_transaction built = state_tx X (api_config ctx token) (rc_state_contract ctx)
      (''transfer@'' @ rc_utxo_contract ctx) [2] (expected_blob E h) (drop 64 (expected_blob E h) @ root) []"
proof -
  have "isOk (build_blob_transaction E X ctx req)"
    by (simp add: build_blob_transaction_def request_payload [OF assms] case_prod_unfold Let_def)
  then obtain built where b: "build_blob_transaction E X ctx req = Inr built" by (auto simp: isOk_iff)
  have r: "cb_blob_data req = expected_blob E h" "cb_token_transfer req = None"
    using assms by (simp_all add: request_of_def)
  show ?thesis
    by (rule build_blob_transaction_eq [OF b, of token], rule that [OF b])
      (use request_payload [OF assms] r in \<open>simp add: withdraw_topology_def transfer_extras_def\<close>)
qed

lemma handle_utxo_blob:
  assumes "smt_laws T" "state_inv T (ex_state e)"
    and "find (\<lambda>(_, b). blob_contract_name b = utxo_contract_name (ex_config e)) (cd_blobs cd) = Some (i, b)"
    and "parse_hyli_utxo_blob (blob_data b) = Inr (c, n)"
    and "map_of (cd_blobs cd) (cd_index cd) = Some a" "is_state_action K (blob_data a)"
    and "handle T K e cd = (e', r)"
  shows "isOk r \<longleftrightarrow> distinct (filter_keys n True) \<and> set (filter_keys n True) \<inter> nullified_set T (ex_state e) = {} \<and>
      distinct (filter_keys c False) \<and> set (filter_keys c False) \<inter> created_set T (ex_state e) = {}"
    and "isOk r \<Longrightarrow> nullified_set T (ex_state e') = nullified_set T (ex_state e) \<union> set (filter_keys n True) \<and>
      created_set T (ex_state e') = created_set T (ex_state e) \<union> set (filter_keys c False)"
    and "applied_keys T K e cd = (if isOk r then [(c, n)] else [])"
proof -
  have good: "good_state T (ex_state e)" using assms(1,2) by (simp add: good_state_def)
  obtain e2 r2 where a: "apply_commitments T e n c = (e2, r2)" by fastforce
  have u: "update_from_blob T e cd = (e2, case r2 of Inl x \<Rightarrow> Inl x | Inr _ \<Rightarrow> Inr (c, n))"
    using assms(3,4) a by (simp add: update_from_blob_def split: sum.splits)
  have r: "isOk r = isOk r2" "e' = e2"
    using assms(5-7) u by (auto simp: handle_def Let_def split: sum.splits)
  note eff = apply_commitments_effect [OF good a]
  show "isOk r \<longleftrightarrow> distinct (filter_keys n True) \<and> set (filter_keys n True) \<inter> nullified_set T (ex_state e) = {} \<and>
      distinct (filter_keys c False) \<and> set (filter_keys c False) \<inter> created_set T (ex_state e) = {}"
    using eff by (simp add: r)
  show "nullified_set T (ex_state e') = nullified_set T (ex_state e) \<union> set (filter_keys n True) \<and>
      created_set T (ex_state e') = created_set T (ex_state e) \<union> set (filter_keys c False)" if "isOk r"
    using eff that by (simp add: r)
  show "applied_keys T K e cd = (if isOk r then [(c, n)] else [])"
    using assms(5,6) u by (cases r2) (simp_all add: applied_keys_def r(1))
qed


section \<open>A note is spent once\<close>

fun handle_all ::
  "('t, 'p) smt_ops \<Rightarrow> ('p, 'o) client_ops \<Rightarrow> 't executor \<Rightarrow> calldata list \<Rightarrow> 't executor" where
  "handle_all T K e [] = e"
| "handle_all T K e (cd # cds) = handle_all T K (fst (handle T K e cd)) cds"

lemma handle_grows:
  assumes "smt_laws T" "executor_inv T cfg e h"
  shows "nullified_set T (ex_state e) \<subseteq> nullified_set T (ex_state (fst (handle T K e cd)))"
proof (rule handle_cases [of T K e cd])
  fix c n e' r
  assume a: "apply_commitments T e n c = (e', r)" and h: "fst (handle T K e cd) = e'"
  have "good_state T (ex_state e)" using assms by (simp add: good_state_def executor_inv_def)
  from apply_commitments_effect [OF this a] show ?thesis by (simp add: h)
qed simp

lemma handle_all_inv:
  assumes "smt_laws T" "executor_inv T cfg e h"
  shows "\<exists>h'. executor_inv T cfg (handle_all T K e cds) h' \<and>
    nullified_set T (ex_state e) \<subseteq> nullified_set T (ex_state (handle_all T K e cds))"
  using assms(2)
proof (induction cds arbitrary: e h)
  case (Cons cd cds)
  let ?e1 = "fst (handle T K e cd)"
  obtain h' where h': "executor_inv T cfg (handle_all T K ?e1 cds) h'"
    "nullified_set T (ex_state ?e1) \<subseteq> nullified_set T (ex_state (handle_all T K ?e1 cds))"
    using Cons.IH [OF executor_inv_step [OF assms(1) Cons.prems, of K cd]] by blast
  show ?case using h'(1) subset_trans [OF handle_grows [OF assms(1) Cons.prems] h'(2)]
    by (intro exI [of _ h']) simp
qed auto

lemma guest_rejects_spent:
  assumes "smt_laws T" "to_zkvm_state T s cfg c n = Inr g" "k \<in> set (filter_keys n True)" "k \<in> nullified_set T s"
  shows "\<not> isOk (snd (zk_execute S g cd))"
proof -
  have w: "build_witness T (nullified_tree s) (filter_keys n True) = Inr (nullified_notes g)"
    using assms(2) by (auto simp: to_zkvm_state_def Let_def result_simps)
  obtain v where v: "leaf_map T (nullified_tree s) k = Some v" using assms(4) by (auto simp: nullified_set_def)
  then have "v \<noteq> H256_ZERO" using smt_nonzero [OF assms(1)] by (auto simp: leaf_map_def dest: map_of_SomeD)
  moreover have "wv_values (nullified_notes g) = map (\<lambda>key. witness_leaf_new key
      (case map_of (smt_leaves T (nullified_tree s)) key of Some v \<Rightarrow> v | None \<Rightarrow> H256_ZERO)) (filter_keys n True)"
    using w assms(3) by (auto simp: build_witness_def Let_def result_simps dest!: sym [of _ "nullified_notes g"] split: if_splits)
  then have "witness_leaf_new k v \<in> set (wv_values (nullified_notes g))"
    using assms(3) v by (auto simp: leaf_map_def intro!: image_eqI [of _ _ k])
  ultimately have "wv_ensure_all_zero (nullified_notes g) \<noteq> Inr ()"
    unfolding wv_ensure_all_zero_iff by (force simp: witness_leaf_new_def)
  then show ?thesis by (simp add: zk_execute_ok_iff)
qed

text \<open>
  C2: a note is spent once. Suppose a reachable executor applies a transaction whose UTXO
  blob is the one computed for a transfer. Then, whatever transactions it handles in
  between, failed ones included, it never applies a transfer with an input note of the same
  psi and secret key: such a transaction fails, whatever its value, its outputs or its
  proofs, and the guest rejects it on any input the executor makes for it. (The nullifier
  must not be zero or the padding nullifier, which are never recorded.)
\<close>

theorem spent_note_is_rejected:
  assumes "smt_laws T" "executor_reach T K cfg e hist" "utxo_wf (hy_utxo h)" "utxo_wf (hy_utxo h')"
    and "find (\<lambda>(_, b). blob_contract_name b = utxo_contract_name cfg) (cd_blobs cd) = Some (i, b)"
    and "blob_data b = expected_blob C h" "applied_keys T K e cd \<noteq> []"
    and "e' = handle_all T K (fst (handle T K e cd)) cds"
    and "find (\<lambda>(_, b). blob_contract_name b = utxo_contract_name cfg) (cd_blobs cd') = Some (j, b')"
    and "blob_data b' = expected_blob C h'"
    and "x \<in> set (u_input_notes (hy_utxo h))" "x' \<in> set (u_input_notes (hy_utxo h'))"
    and "note_psi (in_note x') = note_psi (in_note x)" "in_secret_key x' = in_secret_key x"
    and "m = hash_merge C [note_psi (in_note x), in_secret_key x]" "m \<noteq> ZERO" "to_be_bytes m \<noteq> PADDING_NULLIFIER"
  shows "applied_keys T K e' cd' = [] \<and>
    (\<forall>g. guest_input_of T e' cd' = Inr g \<longrightarrow> \<not> isOk (snd (zk_execute S g cd')))"
proof -
  have inv: "executor_inv T cfg e hist" by (rule executor_reach_inv [OF assms(2,1)])
  let ?e1 = "fst (handle T K e cd)" and ?k = "to_be_bytes m"
  have key: "?k \<in> set (filter_keys (map to_be_bytes (nullifier_commitments C h'')) True)"
    if "utxo_wf (hy_utxo h'')" "y \<in> set (u_input_notes (hy_utxo h''))"
      "note_psi (in_note y) = note_psi (in_note x)" "in_secret_key y = in_secret_key x" for h'' y
    using nullifier_of_input [OF that(1,2), of C] that(3,4) assms(15-17) unfolding kept_element_keys by (auto simp: ZERO_def)
  have k: "?k \<in> nullified_set T (ex_state ?e1)"
  proof (rule handle_cases [of T K e cd])
    fix i' b2 c n e2 r
    assume f: "find (\<lambda>(_, b). blob_contract_name b = utxo_contract_name (ex_config e)) (cd_blobs cd) = Some (i', b2)"
      and p: "parse_hyli_utxo_blob (blob_data b2) = Inr (c, n)" and a: "apply_commitments T e n c = (e2, r)"
      and h: "fst (handle T K e cd) = e2" "applied_keys T K e cd = (if isOk r then [(c, n)] else [])"
    have good: "good_state T (ex_state e)" "ex_config e = cfg" using inv assms(1) by (simp_all add: good_state_def executor_inv_def)
    have "n = map to_be_bytes (nullifier_commitments C h)"
      using f p assms(5,6) good(2) expected_blob_parse [OF assms(3), of C] by simp
    then show ?thesis
      using apply_commitments_effect [OF good(1) a] assms(7) h key [OF assms(3,11)] by (auto split: if_splits)
  qed (use assms(7) in simp)
  obtain hist' where i': "executor_inv T cfg e' hist'" and k': "?k \<in> nullified_set T (ex_state e')"
    using handle_all_inv [OF assms(1) executor_inv_step [OF assms(1) inv, of K cd], of K cds] k assms(8) by blast
  have kn: "?k \<in> set (filter_keys (map to_be_bytes (nullifier_commitments C h')) True)"
    by (rule key [OF assms(4,12,13,14)])
  have cfg: "ex_config e' = cfg" and good: "good_state T (ex_state e')"
    using i' assms(1) by (simp_all add: good_state_def executor_inv_def)
  have p: "parse_hyli_utxo_blob (blob_data b') =
      Inr (map to_be_bytes (drop 2 (hyli_commitments C h')), map to_be_bytes (nullifier_commitments C h'))"
    unfolding assms(10) by (rule expected_blob_parse [OF assms(4)])
  have "applied_keys T K e' cd' = []"
  proof (rule handle_cases [of T K e' cd'])
    fix i' b2 c n e2 r
    assume f: "find (\<lambda>(_, b). blob_contract_name b = utxo_contract_name (ex_config e')) (cd_blobs cd') = Some (i', b2)"
      and q: "parse_hyli_utxo_blob (blob_data b2) = Inr (c, n)" and a: "apply_commitments T e' n c = (e2, r)"
      and h: "applied_keys T K e' cd' = (if isOk r then [(c, n)] else [])"
    have "n = map to_be_bytes (nullifier_commitments C h')" using f q p assms(9) cfg by simp
    then show ?thesis using apply_commitments_effect [OF good a] kn k' h by auto
  qed
  moreover have "\<not> isOk (snd (zk_execute S g cd'))" if "guest_input_of T e' cd' = Inr g" for g
    using that assms(9) cfg p guest_rejects_spent [OF assms(1) _ kn k']
    by (auto simp: guest_input_of_def zkvm_witness_def result_simps)
  ultimately show ?thesis by blast
qed

section \<open>A transfer at work\<close>

definition toy_note :: zk_note where
  "toy_note = \<lparr> note_kind = 2, note_contract = 7, note_address = 8, note_psi = 9, note_value = 10 \<rparr>"

definition toy_spend :: hyli_utxo where
  "toy_spend = toy_hyli\<lparr> hy_utxo := utxo_new_send [input_note_new toy_note 1, input_padding_note] [toy_note, padding_note] \<rparr>"

text \<open>The toy reading of a hexadecimal number is its length.\<close>

definition toy_request :: create_blob_request where
  "toy_request = \<lparr> cb_blob_data = expected_blob toy_api toy_spend, cb_smt_blob_data = None, cb_output_notes = [toy_note],
     cb_token_transfer = None,
     cb_input_notes = Some [\<lparr> id_note = toy_note, id_secret_key = ''0'' \<rparr>, \<lparr> id_note = padding_note, id_secret_key = [] \<rparr>],
     cb_notes_root = Some (replicate 64 CHR ''0'') \<rparr>"

lemma toy_spend_wf: "utxo_wf (hy_utxo toy_spend)"
  by (simp add: toy_spend_def utxo_new_send_def utxo_wf_def)

lemma toy_hash:
  "hash_merge toy_api xs = of_nat (foldl (\<lambda>a x. (a * 7 + x + 1) mod unat MODULUS) 3 (map (\<lambda>e. unat e mod unat MODULUS) xs))"
proof -
  let ?n = "foldl (\<lambda>a x. (a * 7 + x + 1) mod unat MODULUS) 3 (map (\<lambda>e. unat e mod unat MODULUS) xs)"
  have tb: "to_base toy_api = (\<lambda>e. unat e mod unat MODULUS)"
    by (rule ext) (simp add: to_base_def toy_api_def zk_env.defs toy_env_def)
  have "?n < unat MODULUS"
    using MODULUS_pos by (cases xs rule: rev_cases) (simp_all add: MODULUS_def)
  moreover have "unat MODULUS < 256 ^ 32" by (simp add: MODULUS_def)
  ultimately have "unat (hash_merge toy_api xs) = ?n"
    unfolding hash_merge_def tb
    by (simp add: from_base_def toy_api_def zk_env.defs toy_env_def unat_from_be_bytes be_val_be_bytes comp_def
        del: power_numeral)
  then show ?thesis by (metis of_nat_unat ucast_id)
qed

lemma toy_spend_hashes:
  "nullifier_commitments toy_api toy_spend = [219, 155]"
  "map (note_commitment toy_api) (u_output_notes (hy_utxo toy_spend)) = [2988028, 0]"
  unfolding nullifier_commitments_eq [OF toy_spend_wf]
  by (simp_all add: note_commitment_def toy_hash toy_spend_def
      utxo_new_send_def input_note_new_def input_padding_note_def toy_note_def padding_note_def ZERO_def MODULUS_def)

lemma toy_keys_differ:
  "to_be_bytes (219 :: element) \<noteq> to_be_bytes 155" "to_be_bytes 219 \<noteq> PADDING_NULLIFIER"
  "to_be_bytes 155 \<noteq> PADDING_NULLIFIER"
proof -
  have "be_val (to_be_bytes (219 :: element)) \<noteq> be_val (to_be_bytes 155)"
    "be_val PADDING_NULLIFIER \<noteq> be_val (to_be_bytes 219)" "be_val PADDING_NULLIFIER \<noteq> be_val (to_be_bytes 155)"
    unfolding be_val_to_be_bytes by (simp_all add: PADDING_NULLIFIER_def be_val_def le_val_def)
  then show "to_be_bytes (219 :: element) \<noteq> to_be_bytes 155" "to_be_bytes 219 \<noteq> PADDING_NULLIFIER"
    "to_be_bytes 155 \<noteq> PADDING_NULLIFIER" by metis+
qed

lemma toy_kept:
  "filter_keys (map (\<lambda>n. to_be_bytes (note_commitment toy_api n)) (u_output_notes (hy_utxo toy_spend))) False =
     [to_be_bytes 2988028]"
  "filter_keys (map to_be_bytes (nullifier_commitments toy_api toy_spend)) True = [to_be_bytes 219, to_be_bytes 155]"
proof -
  show "filter_keys (map to_be_bytes (nullifier_commitments toy_api toy_spend)) True = [to_be_bytes 219, to_be_bytes 155]"
    unfolding toy_spend_hashes kept_element_keys using toy_keys_differ by simp
  have "map (\<lambda>n. to_be_bytes (note_commitment toy_api n)) (u_output_notes (hy_utxo toy_spend)) =
      map to_be_bytes [2988028, 0]"
    unfolding toy_spend_hashes(2) [symmetric] by simp
  then show "filter_keys (map (\<lambda>n. to_be_bytes (note_commitment toy_api n)) (u_output_notes (hy_utxo toy_spend))) False =
     [to_be_bytes 2988028]"
    by (simp only: kept_element_keys) simp
qed

lemma toy_request_ok: "request_of toy_api toy_request toy_spend (replicate 32 0)"
proof -
  have h: "hex_dec (replicate 64 CHR ''0'') = Some (replicate 32 0)" by code_simp
  have w: "without_prefix ''0x'' (replicate 64 CHR ''0'') = replicate 64 CHR ''0''" by code_simp
  have e: "hex_decode toy_api = hex_dec" "radix16 toy_api = (\<lambda>s. Some (of_nat (length s)))"
    by (simp_all add: toy_api_def zk_env.defs toy_env_def)
  show ?thesis
    by (simp add: request_of_def toy_spend_wf toy_request_def h w e parse_secret_key_def element_from_str_def )
      (simp add: toy_spend_def utxo_new_send_def input_note_new_def input_padding_note_def ZERO_def)
qed

lemma toy_blob_caller: "named_caller toy_tx (expected_blob toy_api toy_spend) \<noteq> Some 0"
proof -
  obtain t r where tr: "to_be_bytes (2988028 :: element) = t # r"
    by (metis length_to_be_bytes list.size(3) neq_Nil_conv zero_neq_numeral)
  then have "length r = 31" using length_to_be_bytes [of 2988028] by simp
  moreover have "be_val ([t] @ r) = 2988028" using be_val_to_be_bytes [of 2988028] tr by simp
  ultimately have "be_val [t] = 0" unfolding be_val_append by (cases "be_val [t]") simp_all
  then have "t = 0" by (simp add: be_val_def le_val_def unat_eq_0)
  moreover have "drop 2 (hyli_commitments toy_api toy_spend) = [2988028, 0]"
    using toy_spend_hashes(2) by (simp add: hyli_commitments_def toy_spend_def utxo_new_send_def)
  ultimately show ?thesis
    by (simp add: expected_blob_eq [OF toy_spend_wf] toy_tx_def toy_caller_def tr)
qed

definition open_client :: "(toy_tree, byte list) client_ops" where
  "open_client = toy_client\<lparr> is_state_action := (\<lambda>_. True) \<rparr>"

definition transfer_executor :: "toy_tree executor" where
  "transfer_executor = executor_new toy_smt (api_config toy_router ''token'')"

lemma transfer_executor_facts:
  "state_inv toy_smt (ex_state transfer_executor)" "ex_config transfer_executor = api_config toy_router ''token''"
  "created_set toy_smt (ex_state transfer_executor) = {}" "nullified_set toy_smt (ex_state transfer_executor) = {}"
  using toy_state_inv state_default_sets [OF toy_smt_laws] by (simp_all add: transfer_executor_def executor_new_def)


definition transfer_calldata :: calldata where
  "transfer_calldata = \<lparr> cd_blobs = [(0, \<lparr> blob_contract_name = ''utxo'', blob_data = expected_blob toy_api toy_spend \<rparr>)],
     cd_index = 0, cd_identity = ''alice'', cd_tx_blob_count = 1 \<rparr>"

theorem spent_note_is_rejected_witness:
  "applied_keys toy_smt open_client transfer_executor transfer_calldata \<noteq> [] \<and>
   applied_keys toy_smt open_client
     (handle_all toy_smt open_client (fst (handle toy_smt open_client transfer_executor transfer_calldata)) [toy_calldata 3])
     transfer_calldata = []"
proof -
  let ?b = "\<lparr> blob_contract_name = ''utxo'', blob_data = expected_blob toy_api toy_spend \<rparr>"
  let ?c = "map to_be_bytes (drop 2 (hyli_commitments toy_api toy_spend))"
    and ?n = "map to_be_bytes (nullifier_commitments toy_api toy_spend)"
  have reach: "executor_reach toy_smt open_client (api_config toy_router ''token'') transfer_executor []"
    unfolding transfer_executor_def by (rule executor_reachI(1))
  have find: "find (\<lambda>(_, b). blob_contract_name b = utxo_contract_name (api_config toy_router ''token''))
      (cd_blobs transfer_calldata) = Some (0, ?b)"
    by (simp add: transfer_calldata_def api_config_def toy_router_def)
  have act: "map_of (cd_blobs transfer_calldata) (cd_index transfer_calldata) = Some ?b"
    "is_state_action open_client (blob_data ?b)" by (simp_all add: transfer_calldata_def open_client_def)
  have parse: "parse_hyli_utxo_blob (blob_data ?b) = Inr (?c, ?n)" using expected_blob_parse [OF toy_spend_wf] by simp
  have out: "?c = map (\<lambda>n. to_be_bytes (note_commitment toy_api n)) (u_output_notes (hy_utxo toy_spend))"
    by (simp add: hyli_commitments_def toy_spend_def utxo_new_send_def)
  obtain e' r where h: "handle toy_smt open_client transfer_executor transfer_calldata = (e', r)" by fastforce
  note ap = handle_utxo_blob [OF toy_smt_laws transfer_executor_facts(1)
      find [folded transfer_executor_facts(2)] parse act h, unfolded out toy_kept transfer_executor_facts(3,4)]
  have a: "applied_keys toy_smt open_client transfer_executor transfer_calldata \<noteq> []"
    using ap toy_keys_differ by simp
  have x: "input_note_new toy_note 1 \<in> set (u_input_notes (hy_utxo toy_spend))"
    by (simp add: toy_spend_def utxo_new_send_def)
  have m: "219 = hash_merge toy_api [note_psi (in_note (input_note_new toy_note 1)), in_secret_key (input_note_new toy_note 1)]"
    using toy_spend_hashes(1) nullifier_commitments_eq [OF toy_spend_wf, of toy_api]
    by (simp add: toy_spend_def utxo_new_send_def)
  have p: "(219 :: element) \<noteq> ZERO" "to_be_bytes 219 \<noteq> PADDING_NULLIFIER"
    using toy_keys_differ(2) by (simp_all add: ZERO_def)
  have b: "blob_data ?b = expected_blob toy_api toy_spend" by simp
  show ?thesis
    using a spent_note_is_rejected [OF toy_smt_laws reach toy_spend_wf toy_spend_wf find b a refl find b x x refl refl m p]
    by blast
qed

end
