(* ===== verification/Deployment.thy ===== *)
theory Deployment
  imports ApiTransfers
begin

text \<open>
  Starting the server: the contracts it deploys (\<^verbatim>\<open>server/src/init.rs\<close>), the configuration
  and the contexts \<^verbatim>\<open>main.rs\<close> makes of it, the proving key of \<^verbatim>\<open>utils.rs\<close> and the command
  line client \<^verbatim>\<open>bin/mint_request.rs\<close>.  The node is a state machine given as a parameter.
\<close>

section \<open>Contracts (init.rs)\<close>

record register_payload =
  rp_verifier :: string
  rp_program_id :: "byte list"
  rp_state_commitment :: "byte list"
  rp_contract_name :: string
  rp_timeout_window :: "(u64 \<times> u64) option"
  rp_constructor_metadata :: "byte list option"

definition to_register_payload :: "contract_deployment \<Rightarrow> string \<Rightarrow> register_payload" where
  "to_register_payload d verifier =
     \<lparr> rp_verifier = verifier, rp_program_id = dep_program_id d, rp_state_commitment = dep_state_commitment d,
       rp_contract_name = dep_contract_name d, rp_timeout_window = map_option (\<lambda>t. (0, t)) (dep_timeout_window d),
       rp_constructor_metadata = dep_registration_metadata d \<rparr>"

text \<open>The verification keys are files included at compile time.\<close>

definition hyli_utxo_noir_deployment :: "byte list \<Rightarrow> string \<Rightarrow> contract_deployment" where
  "hyli_utxo_noir_deployment vk contract_name =
     \<lparr> dep_contract_name = contract_name, dep_program_id = vk, dep_state_commitment = replicate 4 0,
       dep_timeout_window = None, dep_registration_metadata = None \<rparr>"

definition hyli_smt_incl_proof_noir_deployment :: "byte list \<Rightarrow> string \<Rightarrow> contract_deployment" where
  "hyli_smt_incl_proof_noir_deployment vk contract_name =
     \<lparr> dep_contract_name = contract_name, dep_program_id = vk, dep_state_commitment = replicate 4 0,
       dep_timeout_window = None, dep_registration_metadata = None \<rparr>"

definition hyli_utxo_state_deployment ::
  "('t, 'p) smt_ops \<Rightarrow> byte list \<Rightarrow> string \<Rightarrow> contract_config \<Rightarrow> contract_deployment" where
  "hyli_utxo_state_deployment T vk contract_name cfg =
     (let registration_metadata = config_to_vec cfg;
          hyli_utxo_state = state_default T
      in \<lparr> dep_contract_name = contract_name, dep_program_id = vk,
           dep_state_commitment = state_commitment T hyli_utxo_state,
           dep_timeout_window = None, dep_registration_metadata = Some registration_metadata \<rparr>)"

record contract_init =
  ci_deployment :: contract_deployment
  ci_verifier :: string

text \<open>
  The node: a query answers with the program identifier of a contract (the only field
  read), a registration with a transaction hash; both and the half second of a pause may
  change the node.
\<close>

record ('n, 'e) node_client =
  get_contract :: "'n \<Rightarrow> string \<Rightarrow> 'n \<times> ('e + byte list)"
  register_contract :: "'n \<Rightarrow> register_payload \<Rightarrow> 'n \<times> ('e + byte list)"
  pause :: "'n \<Rightarrow> 'n"

datatype 'e init_error =
    ProgramIdMismatch string "byte list" "byte list"
  | RegistrationFailed 'e
  | NotConfirmed u32 'e

text \<open>The polling loop; the count is a \<^verbatim>\<open>u32\<close> that stays below 60.\<close>

function wait_attempts ::
  "('n, 'e) node_client \<Rightarrow> string \<Rightarrow> u32 \<Rightarrow> 'n \<Rightarrow> 'n \<times> ('e init_error + unit)" where
  "wait_attempts N contract_name attempts n =
     (let attempts = attempts + 1 in
      case get_contract N n contract_name of
        (n, Inr _) \<Rightarrow> (n, Inr ())
      | (n, Inl err) \<Rightarrow>
          if attempts < 60 then wait_attempts N contract_name attempts (pause N n)
          else (n, Inl (NotConfirmed attempts err)))"
  by pat_completeness auto

lemma attempts_decrease:
  fixes a :: u32
  assumes "a + 1 < 60" "a < 60"
  shows "60 - unat (a + 1) < 60 - unat a"
proof -
  have "unat (a + 1) = Suc (unat a)" using assms(2) by (simp add: unat_word_ariths word_less_nat_alt)
  then show ?thesis using assms by (simp add: word_less_nat_alt)
qed

termination wait_attempts
  by (relation "measure (\<lambda>(_, _, a, _). if a < 60 then 60 - unat a else 61)")
    (auto intro: attempts_decrease)

declare wait_attempts.simps [simp del]

definition wait_for_contract ::
  "('n, 'e) node_client \<Rightarrow> string \<Rightarrow> byte list option \<Rightarrow> 'n \<Rightarrow> 'n \<times> ('e init_error + unit)" where
  "wait_for_contract N contract_name submitted_tx n = wait_attempts N contract_name 0 n"

definition ensure_contract_registered ::
  "('n, 'e) node_client \<Rightarrow> contract_deployment \<Rightarrow> string \<Rightarrow> 'n \<Rightarrow> 'n \<times> ('e init_error + unit)" where
  "ensure_contract_registered N d verifier n =
     (case get_contract N n (dep_contract_name d) of
        (n, Inr existing) \<Rightarrow>
          if existing \<noteq> dep_program_id d
          then (n, Inl (ProgramIdMismatch (dep_contract_name d) existing (dep_program_id d)))
          else (n, Inr ())
      | (n, Inl _) \<Rightarrow>
     case register_contract N n (to_register_payload d verifier) of
        (n, Inl e) \<Rightarrow> (n, Inl (RegistrationFailed e))
      | (n, Inr tx_hash) \<Rightarrow> wait_for_contract N (dep_contract_name d) (Some tx_hash) n)"

fun init_node :: "('n, 'e) node_client \<Rightarrow> contract_init list \<Rightarrow> 'n \<Rightarrow> 'n \<times> ('e init_error + unit)" where
  "init_node N [] n = (n, Inr ())"
| "init_node N (c # cs) n =
     (case ensure_contract_registered N (ci_deployment c) (ci_verifier c) n of
        (n, Inl e) \<Rightarrow> (n, Inl e)
      | (n, Inr _) \<Rightarrow> init_node N cs n)"

section \<open>Waiting for a contract\<close>

text \<open>The node after some polls and pauses, and its answer to the next poll.\<close>

fun polled :: "('n, 'e) node_client \<Rightarrow> string \<Rightarrow> nat \<Rightarrow> 'n \<Rightarrow> 'n" where
  "polled N c 0 n = n"
| "polled N c (Suc k) n = polled N c k (pause N (fst (get_contract N n c)))"

definition answers :: "('n, 'e) node_client \<Rightarrow> string \<Rightarrow> 'n \<Rightarrow> nat \<Rightarrow> bool" where
  "answers N c n k \<longleftrightarrow> isOk (snd (get_contract N (polled N c k n) c))"

lemma answers_Suc: "answers N c n (Suc k) = answers N c (pause N (fst (get_contract N n c))) k"
  by (simp add: answers_def)

lemma wait_attempts_polls:
  assumes "unat a + Suc m = 60"
  shows "\<exists>k\<le>m. fst (wait_attempts N c a n) = fst (get_contract N (polled N c k n) c) \<and>
    (\<forall>j<k. \<not> answers N c n j) \<and> (answers N c n k \<or> k = m) \<and>
    isOk (snd (wait_attempts N c a n)) = answers N c n k"
  using assms
proof (induction m arbitrary: a n)
  case 0
  then have "\<not> a + 1 < 60" by (simp add: word_less_nat_alt unat_word_ariths)
  then show ?case by (simp add: wait_attempts.simps [of _ _ a] answers_def split: prod.split sum.split)
next
  case (Suc m)
  have u: "unat (a + 1) = Suc (unat a)" using Suc.prems by (simp add: unat_word_ariths)
  then have l: "a + 1 < 60" using Suc.prems by (simp add: word_less_nat_alt)
  show ?case
  proof (cases "answers N c n 0")
    case True
    then show ?thesis
      by (intro exI [of _ 0]) (auto simp: wait_attempts.simps [of _ _ a] answers_def isOk_iff case_prod_unfold Let_def)
  next
    case False
    let ?n = "pause N (fst (get_contract N n c))"
    have "wait_attempts N c a n = wait_attempts N c (a + 1) ?n"
      using False l by (cases "snd (get_contract N n c)") (simp_all add: wait_attempts.simps [of _ _ a] answers_def case_prod_unfold Let_def)
    moreover obtain k where "k \<le> m" "fst (wait_attempts N c (a + 1) ?n) = fst (get_contract N (polled N c k ?n) c)"
      "\<forall>j<k. \<not> answers N c ?n j" "answers N c ?n k \<or> k = m" "isOk (snd (wait_attempts N c (a + 1) ?n)) = answers N c ?n k"
      using Suc.IH [of "a + 1" ?n] Suc.prems u by auto
    ultimately show ?thesis using False
      by (intro exI [of _ "Suc k"]) (auto simp: answers_Suc less_Suc_eq_0_disj)
  qed
qed

text \<open>
  What is relied on of a node on which nobody else deploys: a contract that was registered
  becomes visible after fewer than 60 pauses.  \<^term>\<open>sched n c\<close> holds the pauses left and the
  program of a contract known to the node.
\<close>

definition node_laws :: "('n, 'e) node_client \<Rightarrow> ('n \<Rightarrow> string \<rightharpoonup> nat \<times> byte list) \<Rightarrow> bool" where
  "node_laws N sched \<longleftrightarrow>
     (\<forall>n c. sched (fst (get_contract N n c)) = sched n \<and>
        (\<forall>p. snd (get_contract N n c) = Inr p \<longleftrightarrow> sched n c = Some (0, p))) \<and>
     (\<forall>n w. sched n (rp_contract_name w) = None \<longrightarrow> isOk (snd (register_contract N n w)) \<and>
        (\<exists>k<60. sched (fst (register_contract N n w)) = (sched n)(rp_contract_name w \<mapsto> (k, rp_program_id w)))) \<and>
     (\<forall>n c. sched (pause N n) c = map_option (\<lambda>(k, p). (k - 1, p)) (sched n c))"

lemma node_lawsD:
  assumes "node_laws N sched"
  shows "sched (fst (get_contract N n c)) = sched n"
    and "snd (get_contract N n c) = Inr p \<longleftrightarrow> sched n c = Some (0, p)"
    and "sched (pause N n) x = map_option (\<lambda>(k, p). (k - 1, p)) (sched n x)"
    and "sched n (rp_contract_name w) = None \<Longrightarrow> isOk (snd (register_contract N n w)) \<and>
        (\<exists>k<60. sched (fst (register_contract N n w)) = (sched n)(rp_contract_name w \<mapsto> (k, rp_program_id w)))"
  using assms by (simp_all add: node_laws_def)

lemma polled_sched:
  "node_laws N sched \<Longrightarrow> sched (polled N c k n) x = map_option (\<lambda>(j, p). (j - k, p)) (sched n x)"
proof (induction k arbitrary: n)
  case 0
  then show ?case by (cases "sched n x") auto
next
  case (Suc k)
  show ?case using Suc.IH [OF Suc.prems] node_lawsD [OF Suc.prems]
    by (cases "sched n x") auto
qed

lemma answers_sched:
  assumes "node_laws N sched" "sched n c = Some (j, p)"
  shows "answers N c n k \<longleftrightarrow> j \<le> k"
proof -
  have "sched (polled N c k n) c = Some (j - k, p)" using polled_sched [OF assms(1)] assms(2) by simp
  then show ?thesis
    unfolding answers_def isOk_iff using node_lawsD(2) [OF assms(1)] by auto
qed

lemma wait_succeeds:
  assumes "node_laws N sched" "sched n c = Some (j, p)" "j < 60"
  shows "isOk (snd (wait_for_contract N c tx n)) \<and> sched (fst (wait_for_contract N c tx n)) c = Some (0, p) \<and>
    (\<forall>x. sched n x = None \<longrightarrow> sched (fst (wait_for_contract N c tx n)) x = None) \<and>
    (\<forall>x q. sched n x = Some (0, q) \<longrightarrow> sched (fst (wait_for_contract N c tx n)) x = Some (0, q))"
proof -
  obtain k where k: "k \<le> 59" "fst (wait_attempts N c 0 n) = fst (get_contract N (polled N c k n) c)"
    "answers N c n k \<or> k = 59" "isOk (snd (wait_attempts N c 0 n)) = answers N c n k"
    using wait_attempts_polls [of 0 59 N c n] by auto
  note a = answers_sched [OF assms(1,2)]
  have "j \<le> k" using k(1,3) assms(3) unfolding a by linarith
  moreover have "sched (fst (wait_attempts N c 0 n)) x = map_option (\<lambda>(j, p). (j - k, p)) (sched n x)" for x
    by (simp only: k(2) node_lawsD(1) [OF assms(1)] polled_sched [OF assms(1)])
  ultimately show ?thesis using assms(2) k(4) unfolding wait_for_contract_def a by simp
qed

text \<open>A contract that can be deployed: unknown to the node, or visible with the same program.\<close>

definition deployable :: "('n \<Rightarrow> string \<rightharpoonup> nat \<times> byte list) \<Rightarrow> 'n \<Rightarrow> contract_deployment \<Rightarrow> bool" where
  "deployable sched n d \<longleftrightarrow>
     sched n (dep_contract_name d) = None \<or> sched n (dep_contract_name d) = Some (0, dep_program_id d)"

lemma ensure_registers:
  assumes "node_laws N sched" "deployable sched n d"
  shows "isOk (snd (ensure_contract_registered N d v n)) \<and>
    sched (fst (ensure_contract_registered N d v n)) (dep_contract_name d) = Some (0, dep_program_id d) \<and>
    (\<forall>x. x \<noteq> dep_contract_name d \<longrightarrow> sched n x = None \<longrightarrow> sched (fst (ensure_contract_registered N d v n)) x = None) \<and>
    (\<forall>x q. x \<noteq> dep_contract_name d \<longrightarrow> sched n x = Some (0, q) \<longrightarrow>
       sched (fst (ensure_contract_registered N d v n)) x = Some (0, q))"
proof (cases "sched n (dep_contract_name d)")
  case None
  let ?c = "dep_contract_name d" and ?w = "to_register_payload d v"
  obtain n1 e where g: "get_contract N n ?c = (n1, Inl e)" "sched n1 = sched n"
    using None node_lawsD(1,2) [OF assms(1), of n ?c]
    by (cases "get_contract N n ?c"; cases "snd (get_contract N n ?c)") auto
  have "rp_contract_name ?w = ?c" "rp_program_id ?w = dep_program_id d" by (simp_all add: to_register_payload_def)
  then have "isOk (snd (register_contract N n1 ?w)) \<and>
      (\<exists>k<60. sched (fst (register_contract N n1 ?w)) = (sched n)(?c \<mapsto> (k, dep_program_id d)))"
    using node_lawsD(4) [OF assms(1), of n1 ?w] None g(2) by simp
  then obtain n2 tx k where r: "register_contract N n1 ?w = (n2, Inr tx)" "k < 60"
      "sched n2 = (sched n)(?c \<mapsto> (k, dep_program_id d))"
    by (cases "register_contract N n1 ?w") (auto simp: isOk_iff)
  have "ensure_contract_registered N d v n = wait_for_contract N ?c (Some tx) n2"
    by (simp add: ensure_contract_registered_def g r)
  then show ?thesis using wait_succeeds [OF assms(1) _ r(2), of n2 ?c "dep_program_id d" "Some tx"] by (simp add: r(3))
next
  case (Some a)
  then have s: "sched n (dep_contract_name d) = Some (0, dep_program_id d)" using assms(2) by (auto simp: deployable_def)
  then obtain n1 where "get_contract N n (dep_contract_name d) = (n1, Inr (dep_program_id d))" "sched n1 = sched n"
    using node_lawsD(1,2) [OF assms(1), of n "dep_contract_name d"] by (metis prod.collapse)
  then show ?thesis by (simp add: ensure_contract_registered_def s)
qed

text \<open>
  deployment ends. The waiting loop ends on every node after at most 60 polls: it stops
  at the first poll the node answers and succeeds exactly then.
\<close>

theorem wait_for_contract_polls:
  "\<exists>k\<le>59. fst (wait_for_contract N c tx n) = fst (get_contract N (polled N c k n) c) \<and>
     (\<forall>j<k. \<not> answers N c n j) \<and> (answers N c n k \<or> k = 59) \<and>
     isOk (snd (wait_for_contract N c tx n)) = answers N c n k"
  unfolding wait_for_contract_def by (rule wait_attempts_polls) simp

lemma init_node_all:
  assumes "node_laws N sched" "distinct (map (dep_contract_name \<circ> ci_deployment) cs)"
    and "\<forall>c\<in>set cs. deployable sched n (ci_deployment c)"
  shows "isOk (snd (init_node N cs n)) \<and>
    (\<forall>c\<in>set cs. sched (fst (init_node N cs n)) (dep_contract_name (ci_deployment c)) =
       Some (0, dep_program_id (ci_deployment c))) \<and>
    (\<forall>x q. x \<notin> set (map (dep_contract_name \<circ> ci_deployment) cs) \<longrightarrow> sched n x = Some (0, q) \<longrightarrow>
       sched (fst (init_node N cs n)) x = Some (0, q))"
  using assms(2,3)
proof (induction cs arbitrary: n)
  case (Cons c cs)
  obtain n' r where e: "ensure_contract_registered N (ci_deployment c) (ci_verifier c) n = (n', r)" by fastforce
  have "deployable sched n (ci_deployment c)" using Cons.prems by simp
  note d = ensure_registers [OF assms(1) this, of "ci_verifier c", unfolded e fst_conv snd_conv]
  have "\<forall>c\<in>set cs. deployable sched n' (ci_deployment c)"
    using Cons.prems d by (fastforce simp: deployable_def image_iff)
  then have "isOk (snd (init_node N cs n')) \<and>
    (\<forall>c\<in>set cs. sched (fst (init_node N cs n')) (dep_contract_name (ci_deployment c)) =
       Some (0, dep_program_id (ci_deployment c))) \<and>
    (\<forall>x q. x \<notin> set (map (dep_contract_name \<circ> ci_deployment) cs) \<longrightarrow> sched n' x = Some (0, q) \<longrightarrow>
       sched (fst (init_node N cs n')) x = Some (0, q))"
    using Cons by simp
  then show ?case using d Cons.prems(1) by (auto simp: e isOk_iff)
qed simp

text \<open>
  C22: a server can always deploy. On a node where a registration becomes visible within
  60 pauses and nobody else registers, contracts with different names that are unknown, or
  known with the same program, are all deployed: start-up succeeds and each is visible with
  its program.
\<close>

theorem init_node_deploys:
  assumes "node_laws N sched" "distinct (map (dep_contract_name \<circ> ci_deployment) cs)"
    and "\<forall>c\<in>set cs. deployable sched n (ci_deployment c)"
  shows "isOk (snd (init_node N cs n)) \<and>
    (\<forall>c\<in>set cs. sched (fst (init_node N cs n)) (dep_contract_name (ci_deployment c)) =
       Some (0, dep_program_id (ci_deployment c)))"
  using init_node_all [OF assms] by blast

text \<open>A node that shows a contract two pauses after its registration.\<close>

definition slow_node :: "(string \<rightharpoonup> nat \<times> byte list, unit) node_client" where
  "slow_node = \<lparr> get_contract = (\<lambda>n c. (n, case n c of Some (0, p) \<Rightarrow> Inr p | _ \<Rightarrow> Inl ())),
     register_contract = (\<lambda>n w. if n (rp_contract_name w) = None
        then (n(rp_contract_name w \<mapsto> (2, rp_program_id w)), Inr []) else (n, Inl ())),
     pause = (\<lambda>n c. map_option (\<lambda>(k, p). (k - 1, p)) (n c)) \<rparr>"

lemma slow_node_laws: "node_laws slow_node (\<lambda>n. n)"
  by (auto simp: node_laws_def slow_node_def split: option.splits nat.splits intro!: exI [of _ 2])

theorem init_node_deploys_witness:
  "isOk (snd (init_node slow_node [\<lparr> ci_deployment = hyli_utxo_noir_deployment [1] ''utxo'', ci_verifier = ''noir'' \<rparr>,
     \<lparr> ci_deployment = hyli_smt_incl_proof_noir_deployment [2] ''smt'', ci_verifier = ''noir'' \<rparr>] (\<lambda>_. None)))"
  by (rule init_node_deploys [OF slow_node_laws, THEN conjunct1])
    (simp_all add: hyli_utxo_noir_deployment_def hyli_smt_incl_proof_noir_deployment_def deployable_def)

section \<open>The deployed state contract\<close>

text \<open>
  the deployed contract and the executor start together. The metadata registered for
  the state contract makes an executor with exactly the configuration deployed and an
  empty state; the registered commitment is the commitment of that state; and the first
  witness it makes, for whatever keys, commits to it, so the first proof starts from the
  commitment the node holds.
\<close>

theorem deployed_contract_starts_executor:
  assumes "config_fits cfg" "smt_laws T"
    and "to_register_payload (hyli_utxo_state_deployment T vk name cfg) verifier = w"
  shows "construct_state T (rp_constructor_metadata w) = Inr (executor_new T cfg) \<and>
    get_state_commitment T (executor_new T cfg) = rp_state_commitment w \<and>
    (distinct (filter_keys created False) \<and> distinct (filter_keys nullified True) \<longrightarrow>
      (\<exists>g. zkvm_witness T (executor_new T cfg) created nullified = Inr g \<and> zk_commit T g = Some (rp_state_commitment w)))"
proof -
  have w: "rp_constructor_metadata w = Some (config_to_vec cfg)" "rp_state_commitment w = state_commitment T (state_default T)"
    using assms(3) by (auto simp: to_register_payload_def hyli_utxo_state_deployment_def)
  have "construct_state T (rp_constructor_metadata w) = Inr (executor_new T cfg)"
    using config_codec.from_slice_enc [OF assms(1)] by (simp add: construct_state_def w executor_new_def)
  moreover have "\<exists>g. zkvm_witness T (executor_new T cfg) created nullified = Inr g \<and> zk_commit T g = Some (rp_state_commitment w)"
    if d: "distinct (filter_keys created False)" "distinct (filter_keys nullified True)"
  proof -
    have i: "state_inv T (state_default T)" using state_default_good [OF assms(2)] by (simp add: good_state_def)
    obtain g where "to_zkvm_state T (state_default T) cfg created nullified = Inr g"
      "zk_commit T g = Some (state_commitment T (state_default T))"
      by (rule guest_input [OF assms(2) i d]) blast
    then show ?thesis by (simp add: zkvm_witness_def executor_new_def w)
  qed
  ultimately show ?thesis by (simp add: get_state_commitment_def executor_new_def w)
qed

theorem deployed_contract_starts_executor_witness:
  "\<exists>g. zkvm_witness toy_smt (executor_new toy_smt toy_config) [replicate 32 1] [replicate 32 2] = Inr g \<and>
     zk_commit toy_smt g = Some (dep_state_commitment (hyli_utxo_state_deployment toy_smt [3] ''state'' toy_config))"
proof -
  have d: "distinct (filter_keys [replicate 32 1] False)" "distinct (filter_keys [replicate 32 2] True)"
    by (simp_all add: filter_keys_def)
  show ?thesis
    using deployed_contract_starts_executor [OF toy_config_fits toy_smt_laws refl, THEN conjunct2, THEN conjunct2, THEN mp, OF conjI, OF d,
        of "[3]" "''state''" "''sp1''"]
    by (simp add: to_register_payload_def)
qed

section \<open>Configuration (conf.rs, main.rs)\<close>

record conf =
  cf_id :: string
  cf_log_format :: string
  cf_rest_server_port :: u16
  cf_rest_server_max_body_size :: u64
  cf_default_faucet_amount :: u64
  cf_node_url :: string
  cf_data_directory :: string
  cf_da_read_from :: string
  cf_buffer_blocks :: u32
  cf_max_txs_per_proof :: u64
  cf_tx_working_window_size :: u64
  cf_utxo_contract_name :: string
  cf_smt_incl_proof_contract_name :: string
  cf_smt_contract_name :: string
  cf_utxo_state_contract_name :: string
  cf_indexer_database_url :: string
  cf_listener_poll_interval_secs :: u64
  cf_auto_prover_idle_flush_interval_secs :: u64
  cf_auto_prover_tx_buffer_size :: u64
  cf_max_note_payload_size :: u64
  cf_persist_encrypted_notes :: bool

definition default_max_note_payload_size :: u64 where
  "default_max_note_payload_size = 65536"

record server_args =
  ag_config_file :: "string list"
  ag_faucet_amount :: "u64 option"
  ag_contract_name :: "string option"
  ag_tracing :: bool
  ag_clean_data_directory :: bool
  ag_server_port :: "u16 option"

text \<open>The command line overrides the configuration.\<close>

definition override_conf :: "server_args \<Rightarrow> conf \<Rightarrow> conf" where
  "override_conf args cfg =
     (let cfg = (case ag_server_port args of Some port \<Rightarrow> cfg\<lparr> cf_rest_server_port := port \<rparr> | None \<Rightarrow> cfg);
          cfg = (case ag_faucet_amount args of Some amount \<Rightarrow> cfg\<lparr> cf_default_faucet_amount := amount \<rparr> | None \<Rightarrow> cfg)
      in (case ag_contract_name args of Some n \<Rightarrow> cfg\<lparr> cf_utxo_contract_name := n \<rparr> | None \<Rightarrow> cfg))"

definition conf_contract_config :: "conf \<Rightarrow> contract_config" where
  "conf_contract_config cfg =
     \<lparr> utxo_contract_name = cf_utxo_contract_name cfg,
       smt_incl_proof_contract_name = cf_smt_incl_proof_contract_name cfg,
       smt_contract_name = cf_smt_contract_name cfg \<rparr>"

record verification_keys =
  vk_utxo :: "byte list"
  vk_incl :: "byte list"
  vk_state :: "byte list"
  vk_noir :: string
  vk_sp1 :: string

definition server_contracts :: "('t, 'p) smt_ops \<Rightarrow> verification_keys \<Rightarrow> conf \<Rightarrow> contract_init list" where
  "server_contracts T K cfg =
     [\<lparr> ci_deployment = hyli_utxo_noir_deployment (vk_utxo K) (cf_utxo_contract_name cfg), ci_verifier = vk_noir K \<rparr>,
      \<lparr> ci_deployment = hyli_smt_incl_proof_noir_deployment (vk_incl K) (cf_smt_incl_proof_contract_name cfg),
        ci_verifier = vk_noir K \<rparr>,
      \<lparr> ci_deployment = hyli_utxo_state_deployment T (vk_state K) (cf_utxo_state_contract_name cfg)
          (conf_contract_config cfg), ci_verifier = vk_sp1 K \<rparr>]"

definition conf_faucet_app :: "conf \<Rightarrow> faucet_app" where
  "conf_faucet_app cfg = faucet_app_build (cf_utxo_contract_name cfg) (cf_utxo_state_contract_name cfg)
     (cf_smt_incl_proof_contract_name cfg)"

definition conf_router_ctx :: "conf \<Rightarrow> router_ctx" where
  "conf_router_ctx cfg =
     \<lparr> rc_default_amount = cf_default_faucet_amount cfg, rc_utxo_contract = cf_utxo_contract_name cfg,
       rc_state_contract = cf_utxo_state_contract_name cfg,
       rc_incl_contract = cf_smt_incl_proof_contract_name cfg \<rparr>"

text \<open>\<^verbatim>\<open>Path::join\<close> of a relative name.\<close>

definition path_join :: "string \<Rightarrow> string \<Rightarrow> string" where
  "path_join dir name = (if dir = [] \<or> last dir = CHR ''/'' then dir @ name else dir @ ''/'' @ name)"

definition conf_note_store ::
  "(string \<rightharpoonup> stored_note list) persist_ops \<Rightarrow> conf \<Rightarrow> files \<Rightarrow> store_error + note_store" where
  "conf_note_store J cfg fs =
     (if cf_persist_encrypted_notes cfg
      then note_store_with_persistence J None (path_join (cf_data_directory cfg) ''encrypted_notes.json'') fs
      else Inr (note_store_new None))"

definition conf_address_registry ::
  "(string \<rightharpoonup> address_registration) persist_ops \<Rightarrow> conf \<Rightarrow> files \<Rightarrow> store_error + registry" where
  "conf_address_registry J cfg fs =
     (if cf_persist_encrypted_notes cfg
      then store_with_persistence J Map.empty (path_join (cf_data_directory cfg) ''address_registry.json'') fs
      else Inr (store_new Map.empty))"

section \<open>The proving key (utils.rs)\<close>

text \<open>
  The key codec is the \<^verbatim>\<open>bincode\<close> crate and the set-up the prover's.  What a write may do:
  succeed, leave nothing, or leave a part of the bytes; its error is only logged.
\<close>

record 'k key_ops =
  key_enc :: "'k \<Rightarrow> string option"
  key_dec :: "string \<Rightarrow> 'k option"
  key_setup :: 'k

datatype write_outcome = Written | NotWritten | PartWritten string

datatype key_error = KeyUnreadable | KeyUnserialisable

definition load_utxo_state_proving_key ::
  "'k key_ops \<Rightarrow> write_outcome \<Rightarrow> string \<Rightarrow> files \<Rightarrow> files \<times> (key_error + 'k)" where
  "load_utxo_state_proving_key K outcome data_directory fs =
     (let pk_path = path_join data_directory ''hyli_utxo_state_pk.bin'' in
      case fs pk_path of
        Some bytes \<Rightarrow> (fs, okOr KeyUnreadable (key_dec K bytes))
      | None \<Rightarrow>
          (let pk = key_setup K in
           case key_enc K pk of
             None \<Rightarrow> (fs, Inl KeyUnserialisable)
           | Some bytes \<Rightarrow>
               ((case outcome of
                   Written \<Rightarrow> fs(pk_path \<mapsto> bytes)
                 | NotWritten \<Rightarrow> fs
                 | PartWritten part \<Rightarrow> fs(pk_path \<mapsto> part)), Inr pk)))"

text \<open>
  the proving key across restarts. Whatever happens to the write, the start that made
  the key succeeds; when the key was written, or not at all, every later start gets the same
  key; but when a part of it was written that does not decode, every later start fails
  until somebody removes the file.
\<close>

theorem proving_key_restarts:
  assumes "fs (path_join dir ''hyli_utxo_state_pk.bin'') = None" "key_enc K (key_setup K) = Some bytes"
    and "key_dec K bytes = Some (key_setup K)"
    and "load_utxo_state_proving_key K outcome dir fs = (fs', r)"
    and "load_utxo_state_proving_key K outcome' dir fs' = (fs'', r')"
  shows "r = Inr (key_setup K) \<and>
    ((\<forall>part. outcome = PartWritten part \<longrightarrow> key_dec K part = Some (key_setup K)) \<longrightarrow> r' = Inr (key_setup K)) \<and>
    (\<forall>part. outcome = PartWritten part \<longrightarrow> key_dec K part = None \<longrightarrow> fs'' = fs' \<and> r' = Inl KeyUnreadable)"
  using assms by (cases outcome) (auto simp: load_utxo_state_proving_key_def Let_def)

theorem proving_key_restarts_witness:
  "\<exists>K dir fs'. load_utxo_state_proving_key K (PartWritten ''1'') dir Map.empty = (fs', Inr True) \<and>
     snd (load_utxo_state_proving_key K Written dir fs') = Inl KeyUnreadable"
proof -
  let ?K = "\<lparr> key_enc = \<lambda>k. Some (if k then ''10'' else ''00''),
    key_dec = \<lambda>s. if length s = 2 then Some (s = ''10'') else None, key_setup = True \<rparr>"
  obtain fs1 r1 where 1: "load_utxo_state_proving_key ?K (PartWritten ''1'') [] Map.empty = (fs1, r1)" by fastforce
  obtain fs2 r2 where 2: "load_utxo_state_proving_key ?K Written [] fs1 = (fs2, r2)" by fastforce
  have "r1 = Inr True" "r2 = Inl KeyUnreadable"
    using proving_key_restarts [OF _ _ _ 1 2, of "''10''"] by simp_all
  then show ?thesis using 1 2 by (intro exI [of _ ?K] exI [of _ "[]"] exI [of _ fs1]) simp
qed

section \<open>The mint client (bin/mint\_request.rs)\<close>

definition build_endpoint :: "string \<Rightarrow> string" where
  "build_endpoint server_url =
     (let url = if contains_str ''://'' server_url then server_url else ''http://'' @ server_url;
          trimmed = trim_end_char (CHR ''/'') url
      in if ends_with ''/api/faucet'' trimmed then trimmed
         else if ends_with ''/api'' trimmed then trimmed @ ''/faucet''
         else trimmed @ ''/api/faucet'')"

datatype mint_request_error =
    PubkeyEmpty | PubkeyNot64 | PubkeyNotHex | NameEmpty | XCoordinateMissing | DerivationFailed

definition sanitize_pubkey_hex :: "(string \<Rightarrow> byte list option) \<Rightarrow> string \<Rightarrow> mint_request_error + string" where
  "sanitize_pubkey_hex hdec input =
     (let trimmed = str_trim input in
      if trimmed = [] then Inl PubkeyEmpty
      else
        (let normalized = trim_start_matches ''0x'' trimmed in
         if length normalized \<noteq> 64 then Inl PubkeyNot64
         else case hdec normalized of
           None \<Rightarrow> Inl PubkeyNotHex
         | Some _ \<Rightarrow> Inr (to_ascii_lowercase normalized)))"

text \<open>SHA-256 and the secp256k1 keys are those of the crate \<^verbatim>\<open>k256\<close>.\<close>

record 'k key_derivation =
  sha256 :: "byte list \<Rightarrow> byte list"
  secret_key_from_slice :: "byte list \<Rightarrow> 'k option"
  public_key_x :: "'k \<Rightarrow> byte list option"

function derive_from :: "'k key_derivation \<Rightarrow> (byte list \<Rightarrow> string) \<Rightarrow> string \<Rightarrow> u32 \<Rightarrow> mint_request_error + string" where
  "derive_from K henc normalized counter =
     (let digest = sha256 K (string_bytes normalized @ word_to_be counter) in
      case secret_key_from_slice K digest of
        Some secret_key \<Rightarrow>
          (case public_key_x K secret_key of
             None \<Rightarrow> Inl XCoordinateMissing
           | Some x_bytes \<Rightarrow> Inr (henc x_bytes))
      | None \<Rightarrow> if counter = - 1 then Inl DerivationFailed else derive_from K henc normalized (counter + 1))"
  by pat_completeness auto

termination derive_from
proof (relation "measure (\<lambda>(_, _, _, c). 2 ^ 32 - unat c)")
  fix c :: u32
  assume "c \<noteq> - 1"
  then have "unat (c + 1) = Suc (unat c)" using unatSuc [of c] by (metis add.commute add_eq_0_iff add.inverse_inverse)
  moreover have "unat (c + 1) < 2 ^ 32" using unsigned_less [of "c + 1", where 'a = nat] by simp
  ultimately show "((K, henc, nm, c + 1), (K, henc, nm, c)) \<in> measure (\<lambda>(_, _, _, c :: u32). 2 ^ 32 - unat c)" for K henc nm
    by simp
qed simp

declare derive_from.simps [simp del]

definition derive_pubkey_hex ::
  "unicode_tables \<Rightarrow> 'k key_derivation \<Rightarrow> (byte list \<Rightarrow> string) \<Rightarrow> string \<Rightarrow> mint_request_error + string" where
  "derive_pubkey_hex U K henc name =
     (let normalized = to_lowercase U (str_trim name) in
      if normalized = [] then Inl NameEmpty else derive_from K henc normalized 0)"

record mint_args =
  ma_server_url :: string
  ma_name :: string
  ma_pubkey_hex :: "string option"
  ma_amount :: "u64 option"

text \<open>What the client posts, and where.\<close>

definition mint_request ::
  "unicode_tables \<Rightarrow> 'k key_derivation \<Rightarrow> (byte list \<Rightarrow> string) \<Rightarrow> (string \<Rightarrow> byte list option) \<Rightarrow> mint_args
   \<Rightarrow> mint_request_error + string \<times> faucet_request" where
  "mint_request U K henc hdec args =
     (let endpoint = build_endpoint (ma_server_url args) in
      mapOk (\<lambda>k. (endpoint, \<lparr> fr_pubkey_hex = k, fr_amount = ma_amount args \<rparr>))
        (case ma_pubkey_hex args of
           Some explicit \<Rightarrow> sanitize_pubkey_hex hdec explicit
         | None \<Rightarrow> derive_pubkey_hex U K henc (ma_name args)))"

text \<open>What the client and the server rely on of \<^verbatim>\<open>hex::decode\<close>.\<close>

definition hex_decoder_laws :: "(string \<Rightarrow> byte list option) \<Rightarrow> bool" where
  "hex_decoder_laws hdec \<longleftrightarrow> hex_only hdec \<and>
     (\<forall>s bs. hdec s = Some bs \<longrightarrow> length s = 2 * length bs) \<and> (\<forall>s. hdec (to_ascii_lowercase s) = hdec s)"

lemma hex_value_lower: "hex_value (ascii_lower_char c) = hex_value c"
  by (auto simp: hex_value_def ascii_lower_char_def Let_def)

lemma hex_dec_laws: "hex_decoder_laws hex_dec"
proof -
  have "length s = 2 * length bs" if "hex_dec s = Some bs" for s bs
    using that by (induction s arbitrary: bs rule: hex_dec.induct) (auto split: option.splits)
  moreover have "hex_dec (to_ascii_lowercase s) = hex_dec s" for s
    by (induction s rule: hex_dec.induct) (simp_all add: to_ascii_lowercase_def hex_value_lower)
  ultimately show ?thesis using hex_only_hex_dec by (auto simp: hex_decoder_laws_def)
qed

lemma hex_graphic:
  assumes "hex_only hdec" "hdec s \<noteq> None"
  shows "list_all (\<lambda>c. 33 \<le> (of_char c :: nat) \<and> of_char c < (128 :: nat)) s"
proof -
  have g: "hex_value c \<noteq> None \<Longrightarrow> 33 \<le> (of_char c :: nat) \<and> of_char c < (128 :: nat)" for c
    by (auto simp: hex_value_def Let_def split: if_splits)
  have "list_all (\<lambda>c. hex_value c \<noteq> None) s" using assms by (simp add: hex_only_def)
  then show ?thesis by (rule list.pred_mono_strong) (rule g)
qed

lemma requested_pubkey_plain:
  assumes "hex_only hdec" "hdec k = Some bs" "length bs = 32" "k \<noteq> []"
  shows "requested_pubkey hdec k = Inr bs"
proof -
  have d: "hdec k \<noteq> None" using assms(2) by simp
  show ?thesis
    using assms trim_graphic [OF hex_graphic [OF assms(1) d]] without_prefix_no_0x [OF assms(1) d]
    by (simp add: requested_pubkey_def)
qed

lemma derive_from_hex:
  "derive_from K henc nm c = Inr k \<Longrightarrow> \<exists>sk x. public_key_x K sk = Some x \<and> k = henc x"
proof (induction K henc nm c rule: derive_from.induct)
  case (1 K henc nm c)
  show ?case
    using "1.prems" "1.IH" [OF refl]
    by (subst (asm) derive_from.simps) (auto simp: Let_def split: option.splits if_splits)
qed

text \<open>
  what the client posts the server takes. Whatever key the client sends, given or
  derived from the name, passes the server's check and decodes to 32 bytes: those of the
  given text without its prefixes, or the coordinate derived. The server refuses an amount
  only when it is zero.
\<close>

theorem mint_request_served:
  assumes "hex_decoder_laws hdec" "hex_laws henc hdec" "\<forall>sk x. public_key_x K sk = Some x \<longrightarrow> length x = 32"
    and "mint_request U K henc hdec args = Inr (url, req)"
  shows "\<exists>bytes. requested_pubkey hdec (fr_pubkey_hex req) = Inr bytes \<and> length bytes = 32 \<and>
    (\<forall>s. ma_pubkey_hex args = Some s \<longrightarrow> hdec (trim_start_matches ''0x'' (str_trim s)) = Some bytes) \<and>
    (ma_pubkey_hex args = None \<longrightarrow> fr_pubkey_hex req = henc bytes) \<and>
    (isOk (requested_amount ctx (fr_amount req)) \<longleftrightarrow> ma_amount args \<noteq> Some 0)"
proof -
  have o: "hex_only hdec" using assms(1) by (simp add: hex_decoder_laws_def)
  have a: "isOk (requested_amount ctx (fr_amount req)) \<longleftrightarrow> ma_amount args \<noteq> Some 0"
    using assms(4) by (auto simp: mint_request_def requested_amount_def FAUCET_MINT_AMOUNT_def Let_def mapOk_Inr_iff split: option.splits sum.splits)
  show ?thesis
  proof (cases "ma_pubkey_hex args")
    case (Some s)
    let ?n = "trim_start_matches ''0x'' (str_trim s)"
    have k: "fr_pubkey_hex req = to_ascii_lowercase ?n" "length ?n = 64" "hdec ?n \<noteq> None"
      using assms(4) Some by (auto simp: mint_request_def sanitize_pubkey_hex_def Let_def mapOk_Inr_iff split: option.splits sum.splits if_splits)
    then obtain bs where b: "hdec ?n = Some bs" by blast
    then have l: "length bs = 32" using assms(1) k(2) by (fastforce simp: hex_decoder_laws_def)
    have "hdec (fr_pubkey_hex req) = Some bs" using assms(1) b by (simp add: k(1) hex_decoder_laws_def)
    moreover have "fr_pubkey_hex req \<noteq> []" using k(2) by (simp add: k(1) flip: length_0_conv)
    ultimately show ?thesis using requested_pubkey_plain [OF o _ l] l b Some a by auto
  next
    case None
    then have "derive_pubkey_hex U K henc (ma_name args) = Inr (fr_pubkey_hex req)"
      using assms(4) by (auto simp: mint_request_def Let_def mapOk_Inr_iff)
    then obtain sk x where x: "public_key_x K sk = Some x" "fr_pubkey_hex req = henc x"
      using derive_from_hex by (fastforce simp: derive_pubkey_hex_def Let_def split: if_splits)
    then have l: "length x = 32" and h: "hdec (henc x) = Some x" "length (henc x) = 64"
      using assms(2,3) by (simp_all add: hex_laws_def)
    have "henc x \<noteq> []" using h(2) by auto
    then show ?thesis using requested_pubkey_plain [OF o h(1) l] l x(2) None a by auto
  qed
qed

theorem mint_request_served_witness:
  "\<exists>req. mint_request ascii_tables \<lparr> sha256 = (\<lambda>b. b), secret_key_from_slice = (\<lambda>b. if last b = 2 then Some () else None),
       public_key_x = (\<lambda>_. Some (replicate 32 7)) \<rparr> hex_enc hex_dec
       \<lparr> ma_server_url = ''localhost:9002/'', ma_name = ''Bob'', ma_pubkey_hex = None, ma_amount = None \<rparr> =
     Inr (''http://localhost:9002/api/faucet'', req) \<and> requested_pubkey hex_dec (fr_pubkey_hex req) = Inr (replicate 32 7)"
proof -
  let ?K = "\<lparr> sha256 = (\<lambda>b :: byte list. b), secret_key_from_slice = (\<lambda>b. if last b = 2 then Some () else None),
       public_key_x = (\<lambda>_. Some (replicate 32 (7 :: byte))) \<rparr>"
  let ?args = "\<lparr> ma_server_url = ''localhost:9002/'', ma_name = ''Bob'', ma_pubkey_hex = None, ma_amount = None \<rparr>"
  have "str_trim ''Bob'' = ''Bob''" by (rule trim_graphic) simp
  then have n: "to_lowercase ascii_tables (str_trim ''Bob'') = ''bob''" 
    by (simp add: ascii_tables_def to_ascii_lowercase_def ascii_lower_char_def char_of_def bit_iff_odd)
  have l: "last (s @ word_to_be (c :: u32)) = of_nat (unat c mod 256)" for s c
  proof -
    have four: "LENGTH(32) div 8 = Suc (Suc (Suc (Suc 0)))" by simp
    have "word_to_be c = rev (map of_nat (digits_le 256 (Suc (Suc (Suc (Suc 0)))) (unat c)))"
      unfolding word_to_be_def be_bytes_def le_bytes_def four ..
    then show ?thesis unfolding digits_le.simps by simp
  qed
  have step: "derive_from ?K hex_enc s c =
      (if (of_nat (unat c mod 256) :: byte) = 2 then Inr (hex_enc (replicate 32 7))
       else if c = - 1 then Inl DerivationFailed else derive_from ?K hex_enc s (c + 1))" for s c
    by (subst derive_from.simps) (simp add: l)
  have d: "derive_from ?K hex_enc ''bob'' 0 = Inr (hex_enc (replicate 32 7))"
    by (subst step, simp, subst step, simp, subst step, simp)
  have e: "build_endpoint ''localhost:9002/'' = ''http://localhost:9002/api/faucet''" by code_simp
  let ?req = "\<lparr> fr_pubkey_hex = hex_enc (replicate 32 7), fr_amount = None \<rparr> :: faucet_request"
  have m: "mint_request ascii_tables ?K hex_enc hex_dec ?args = Inr (''http://localhost:9002/api/faucet'', ?req)"
    by (simp add: mint_request_def derive_pubkey_hex_def n d e)
  obtain bs where bs: "requested_pubkey hex_dec (fr_pubkey_hex ?req) = Inr bs" "hex_enc (replicate 32 7) = hex_enc bs"
    using mint_request_served [OF hex_dec_laws hex_laws_concrete _ m, where ctx = toy_router] by auto
  have "bs = replicate 32 7" using bs(2) hex_dec_enc by (metis option.inject)
  then show ?thesis using m bs(1) by (intro exI [of _ ?req]) simp
qed

section \<open>The first mint of a new deployment\<close>

lemma fresh_executor:
  assumes "config_fits cfg" "smt_laws T"
  shows "construct_state T (dep_registration_metadata (hyli_utxo_state_deployment T vk name cfg)) = Inr (executor_new T cfg)"
  using config_codec.from_slice_enc [OF assms(1)]
  by (simp add: construct_state_def hyli_utxo_state_deployment_def executor_new_def)

text \<open>
  C21: a newly deployed server mints. Take a configuration with different names for the
  UTXO and state contracts. When its state contract is deployed, the executor is made of
  the registered metadata and the API has answered a first faucet request with a note of
  non-zero commitment, the transaction built from the command sent is accepted: the
  executor can prepare the guest's input, the guest accepts it although no notes root has
  been seen, the executor applies it, and the ledger then holds that note and no nullifier.
\<close>

theorem fresh_deployment_mints:
  assumes "smt_laws T" "tx_laws X" "config_fits (conf_contract_config cf)"
    and "cf_utxo_state_contract_name cf \<noteq> cf_utxo_contract_name cf"
    and "construct_state T (dep_registration_metadata
      (hyli_utxo_state_deployment T vk (cf_utxo_state_contract_name cf) (conf_contract_config cf))) = Inr e"
    and "faucet E bus random (conf_router_ctx cf) req = Some (sent, Inr n)" "cmd \<in> set sent"
    and "to_be_bytes (hash_merge E [ZERO, ZERO]) = PADDING_NULLIFIER" "note_commitment E n \<noteq> ZERO"
    and "named_caller X (mint_bytes E n) \<noteq> Some 0"
    and "build_transaction E X (conf_faucet_app cf) (mc_note cmd) None None None None = (app', tx, u)"
  shows "(\<exists>g. to_zkvm_state T (ex_state e) (ex_config e) [to_be_bytes (note_commitment E n), to_be_bytes ZERO]
        [PADDING_NULLIFIER, PADDING_NULLIFIER] = Inr g \<and>
      isOk (snd (zk_execute (sdk_ops.truncate X) g (calldata_of_tx tx 0)))) \<and>
    isOk (snd (update_from_blob T e (calldata_of_tx tx 0))) \<and>
    created_set T (ex_state (fst (update_from_blob T e (calldata_of_tx tx 0)))) = {to_be_bytes (note_commitment E n)} \<and>
    nullified_set T (ex_state (fst (update_from_blob T e (calldata_of_tx tx 0)))) = {}"
proof -
  have e: "e = executor_new T (conf_contract_config cf)" using fresh_executor [OF assms(3,1)] assms(5) by simp
  have cmd: "mc_note cmd = n" using assms(6,7) by (auto simp: faucet_def Let_def split: sum.splits if_splits)
  have inv: "state_inv T (ex_state e)" using state_default_good [OF assms(1)] by (simp add: e executor_new_def good_state_def)
  have cfg: "ex_config e = faucet_config (conf_faucet_app cf) (cf_smt_contract_name cf)"
      "fa_state_contract (conf_faucet_app cf) \<noteq> fa_utxo_contract (conf_faucet_app cf)"
    using assms(4) by (simp_all add: e executor_new_def conf_contract_config_def faucet_config_def conf_faucet_app_def faucet_app_build_def)
  have "to_be_bytes (fa_notes_root (conf_faucet_app cf)) = replicate 32 0"
    using to_be_bytes_zero_iff [of ZERO] by (simp add: conf_faucet_app_def faucet_app_build_def ZERO_def H256_ZERO_def)
  then have w: "take 8 (to_be_bytes (fa_notes_root (conf_faucet_app cf))) \<in>
      set (resize MAX_ROOTS (replicate 8 0) (roots (ex_state e)))"
    by (simp add: e executor_new_def state_default_def resize_def MAX_ROOTS_def)
  have z: "created_set T (ex_state e) = {}" "nullified_set T (ex_state e) = {}"
    using state_default_sets [OF assms(1)] by (simp_all add: e executor_new_def)
  show ?thesis using mint_settles [OF assms(1) inv assms(2) cfg w assms(8-10) assms(11) [unfolded cmd]] by (simp add: z)
qed

definition mint_api :: "nat api_env" where
  "mint_api = toy_api\<lparr> poseidon := poseidon mint_crypto \<rparr>"

definition toy_conf :: conf where
  "toy_conf = \<lparr> cf_id = [], cf_log_format = [], cf_rest_server_port = 9002, cf_rest_server_max_body_size = 10485760,
     cf_default_faucet_amount = 10, cf_node_url = [], cf_data_directory = ''data'', cf_da_read_from = [],
     cf_buffer_blocks = 0, cf_max_txs_per_proof = 32, cf_tx_working_window_size = 128, cf_utxo_contract_name = ''utxo'',
     cf_smt_incl_proof_contract_name = ''smt'', cf_smt_contract_name = ''token'', cf_utxo_state_contract_name = ''state'',
     cf_indexer_database_url = [], cf_listener_poll_interval_secs = 60, cf_auto_prover_idle_flush_interval_secs = 2,
     cf_auto_prover_tx_buffer_size = 5, cf_max_note_payload_size = default_max_note_payload_size,
     cf_persist_encrypted_notes = True \<rparr>"

lemma mint_api_hash: "hash_merge mint_api xs = hash_merge mint_crypto xs"
  by (simp add: hash_merge_def to_base_def from_base_def mint_api_def mint_crypto_def toy_api_def toy_env_def
      const_crypto_def zk_env.defs)

theorem fresh_deployment_mints_witness:
  "\<exists>e cmd n tx. construct_state toy_smt (dep_registration_metadata
       (hyli_utxo_state_deployment toy_smt [3] ''state'' (conf_contract_config toy_conf))) = Inr e \<and>
     faucet mint_api (\<lambda>_. True) (replicate 32 1) (conf_router_ctx toy_conf)
       \<lparr> fr_pubkey_hex = hex_enc (replicate 32 7), fr_amount = None \<rparr> = Some ([cmd], Inr n) \<and>
     tx = fst (snd (build_transaction mint_api toy_tx (conf_faucet_app toy_conf) n None None None None)) \<and>
     isOk (snd (update_from_blob toy_smt e (calldata_of_tx tx 0)))"
proof -
  let ?req = "\<lparr> fr_pubkey_hex = hex_enc (replicate 32 7), fr_amount = None \<rparr>"
  have "conf_contract_config toy_conf = toy_config" by (simp add: conf_contract_config_def toy_conf_def toy_config_def)
  note cfg = toy_config_fits [folded this]
  have ne: "cf_utxo_state_contract_name toy_conf \<noteq> cf_utxo_contract_name toy_conf" by (simp add: toy_conf_def)
  have c: "construct_state toy_smt (dep_registration_metadata (hyli_utxo_state_deployment toy_smt [3]
      (cf_utxo_state_contract_name toy_conf) (conf_contract_config toy_conf))) = Inr (executor_new toy_smt (conf_contract_config toy_conf))"
    by (rule fresh_executor [OF cfg toy_smt_laws])
  have h: "hex_decode mint_api = hex_dec" by (simp add: mint_api_def toy_api_def toy_env_def zk_env.defs)
  have "length (hex_enc (replicate 32 7)) = 64" using hex_laws_concrete by (simp add: hex_laws_def)
  then have "hex_enc (replicate 32 7) \<noteq> []" by auto
  then have pk: "requested_pubkey (hex_decode mint_api) (hex_enc (replicate 32 7)) = Inr (replicate 32 7)"
    using requested_pubkey_plain [OF hex_only_hex_dec hex_dec_enc, of "replicate 32 7"] by (simp add: h)
  obtain n where n: "build_note mint_api (replicate 32 1) (from_be_bytes (replicate 32 7)) 10 = Some n" "note_value n = 10"
    by (simp add: build_note_def note_new_def bridged_polygon_usdc_note_kind_def h hex_value_def element_new_def)
  obtain cmd where f: "faucet mint_api (\<lambda>_. True) (replicate 32 1) (conf_router_ctx toy_conf) ?req = Some ([cmd], Inr n)"
      "mc_note cmd = n"
    by (simp add: faucet_def requested_amount_def conf_router_ctx_def toy_conf_def pk n)
  have nc: "note_commitment mint_api n = 5"
    by (simp add: note_commitment_def mint_api_hash mint_crypto_hashes n ZERO_def)
  have pad: "to_be_bytes (hash_merge mint_api [ZERO, ZERO]) = PADDING_NULLIFIER"
    by (simp add: mint_api_hash mint_crypto_hashes)
  have "to_be_bytes 5 = 0 # replicate 30 0 @ [5]" by code_simp
  then have caller: "named_caller toy_tx (mint_bytes mint_api n) \<noteq> Some 0"
    by (simp add: mint_bytes_def nc toy_tx_def toy_caller_def)
  have nz: "note_commitment mint_api n \<noteq> ZERO" by (simp add: nc ZERO_def)
  obtain app' tx u where t: "build_transaction mint_api toy_tx (conf_faucet_app toy_conf) (mc_note cmd) None None None None = (app', tx, u)"
    by (metis prod.collapse)
  have m: "cmd \<in> set [cmd]" by simp
  show ?thesis
    using fresh_deployment_mints [OF toy_smt_laws toy_tx_laws cfg ne c f(1) m pad nz caller t] c f t
    by (intro exI) (auto simp: toy_conf_def)
qed

end
