(* ===== verification/FaucetRuns.thy ===== *)
theory FaucetRuns
  imports ServerTx
begin

text \<open>
  The run loop of the faucet application (\<^verbatim>\<open>FaucetApp::run\<close> in \<^verbatim>\<open>server/src/app.rs\<close>) and the
  system it is part of: commands become transactions the node accepts, the node settles
  them in any order, the executor applies them and emits the notes root, and the event
  comes back to the faucet, which puts that root into its next transactions.
\<close>

section \<open>The messages of the faucet\<close>

datatype faucet_message =
    FaucetMint mint_command
  | FaucetDeposit deposit_command
  | FaucetTransfer "input_note list" "zk_note list"
  | FaucetProvedTransfer proved_transfer_command
  | FaucetStateEvent h256

text \<open>
  What the loop's handlers take from outside: the \<^verbatim>\<open>hex\<close> decoder, the UTXO verification key, the
  SDK's name of the Noir verifier, and the zero of the proof field.
\<close>

record 'f faucet_env =
  fv_hex_decode :: "string \<Rightarrow> byte list option"
  fv_noir_vk :: "byte list"
  fv_noir_name :: string
  fv_zero :: 'f

definition faucet_listen ::
  "'f faucet_env \<Rightarrow> ('f, 'z) crypto_scheme \<Rightarrow> 'y tx_ops_scheme \<Rightarrow> 'e node_ops \<Rightarrow> faucet_app \<Rightarrow> faucet_message
   \<Rightarrow> faucet_app \<times> ('e + proof_job list \<times> 'f smt_proof_job list)" where
  "faucet_listen V C X N app m =
     (case m of
        FaucetMint cmd \<Rightarrow> process_request C X N (fv_zero V) app cmd
      | FaucetDeposit cmd \<Rightarrow> process_deposit_request C X N (fv_zero V) app cmd
      | FaucetTransfer ins outs \<Rightarrow>
          (app, mapOk (\<lambda>jobs. (jobs, [])) (process_transfer_request C X N app ins outs))
      | FaucetProvedTransfer cmd \<Rightarrow>
          (app, andThen (snd (process_transfer_with_proof (fv_hex_decode V) (fv_noir_vk V) (fv_noir_name V) X N app cmd))
             (\<lambda>(_, answer). mapOk (\<lambda>_. ([], [])) answer))
      | FaucetStateEvent notes_root \<Rightarrow> (on_state_event app notes_root, Inr ([], [])))"

text \<open>
  The loop takes the messages in the order the bus delivers them, each with what the node
  would answer at that moment; the question mark behind every handler returns its error
  from \<^verbatim>\<open>run\<close>.  An orderly shutdown is the end of the list.
\<close>

fun faucet_run ::
  "'f faucet_env \<Rightarrow> ('f, 'z) crypto_scheme \<Rightarrow> 'y tx_ops_scheme \<Rightarrow> faucet_app \<Rightarrow> ('e node_ops \<times> faucet_message) list
   \<Rightarrow> faucet_app \<times> (proof_job list \<times> 'f smt_proof_job list) list \<times> ('e + unit)" where
  "faucet_run V C X app [] = (app, [], Inr ())"
| "faucet_run V C X app ((N, m) # rest) =
     (case faucet_listen V C X N app m of
        (app', Inl err) \<Rightarrow> (app', [], Inl err)
      | (app', Inr jobs) \<Rightarrow>
          (case faucet_run V C X app' rest of (app'', sent, r) \<Rightarrow> (app'', jobs # sent, r)))"

section \<open>What a message makes the faucet do\<close>

text \<open>The transaction a message makes, and the proof that follows it.\<close>

definition faucet_tx ::
  "('f, 'z) crypto_scheme \<Rightarrow> 'y tx_ops_scheme \<Rightarrow> faucet_app \<Rightarrow> faucet_message \<Rightarrow> blob_transaction option" where
  "faucet_tx C X app m =
     (case m of
        FaucetMint cmd \<Rightarrow> Some (fst (snd (build_transaction C X app (mc_note cmd) None None None None)))
      | FaucetDeposit cmd \<Rightarrow> Some (fst (snd (build_transaction C X app (mc_note cmd)
          (Some (dc_token_contract cmd, mc_amount cmd)) (dc_wallet_account cmd) (dc_secp256k1_blob cmd) (dc_wallet_blob cmd))))
      | FaucetTransfer ins outs \<Rightarrow> Some (fst (build_transfer_transaction C X app ins outs))
      | FaucetProvedTransfer cmd \<Rightarrow> Some (build_proved_transfer_blob X app cmd)
      | FaucetStateEvent _ \<Rightarrow> None)"

definition faucet_proof :: "'f faucet_env \<Rightarrow> faucet_app \<Rightarrow> faucet_message \<Rightarrow> proof_transaction option" where
  "faucet_proof V app m =
     (case m of
        FaucetProvedTransfer cmd \<Rightarrow> Some \<lparr> px_contract_name = fa_utxo_contract app, px_program_id = fv_noir_vk V,
          px_verifier = fv_noir_name V,
          px_proof = public_input_bytes (fv_hex_decode V) (pt_public_inputs cmd) @ pt_proof cmd \<rparr>
      | _ \<Rightarrow> None)"

definition mints :: "faucet_message \<Rightarrow> bool" where
  "mints m = (case m of FaucetMint _ \<Rightarrow> True | FaucetDeposit _ \<Rightarrow> True | _ \<Rightarrow> False)"

definition event_root :: "faucet_message \<Rightarrow> element option" where
  "event_root m = (case m of FaucetStateEvent r \<Rightarrow> Some (from_be_bytes r) | _ \<Rightarrow> None)"

text \<open>The node's refusal of the transaction or of the proof, whichever comes first.\<close>

definition refusal ::
  "'f faucet_env \<Rightarrow> ('f, 'z) crypto_scheme \<Rightarrow> 'y tx_ops_scheme \<Rightarrow> 'e node_ops \<Rightarrow> faucet_app \<Rightarrow> faucet_message \<Rightarrow> 'e + unit" where
  "refusal V C X N app m =
     andThen (case faucet_tx C X app m of None \<Rightarrow> Inr () | Some tx \<Rightarrow> mapOk (\<lambda>_. ()) (send_tx_blob N tx)) (\<lambda>_.
     case faucet_proof V app m of None \<Rightarrow> Inr () | Some p \<Rightarrow> send_tx_proof N p)"

lemma mapOk_mapOk [simp]: "mapOk f (mapOk g r) = mapOk (\<lambda>x. f (g x)) r"
  by (cases r) simp_all

lemma build_transaction_app:
  assumes "build_transaction C X app n d w s b = (app', tx, u)"
  shows "fa_notes_root app' = fa_notes_root app" "fa_note_index app' = fa_note_index app + 1"
    "fa_utxo_contract app' = fa_utxo_contract app" "fa_state_contract app' = fa_state_contract app"
    "fa_incl_contract app' = fa_incl_contract app"
  using assms unfolding build_transaction_eq [where token = "[]"] by auto

lemma andThen_mapOk [simp]: "andThen (mapOk f r) g = andThen r (\<lambda>x. g (f x))"
  by (cases r) simp_all

lemma mapOk_andThen [simp]: "mapOk f (andThen r g) = andThen r (\<lambda>x. mapOk f (g x))"
  by (cases r) simp_all

lemma andThen_return [simp]: "andThen r (\<lambda>x. Inr (f x)) = mapOk f r" "andThen r Inr = r" "mapOk (\<lambda>u. u) r = r"
  "mapOk (\<lambda>_. ()) a = a"
  by (cases r; simp)+ (cases a; simp)

lemma faucet_listen_refusal:
  "mapOk (\<lambda>_. ()) (snd (faucet_listen V C X N app m)) = refusal V C X N app m"
  by (cases m)
    (simp_all add: faucet_listen_def refusal_def faucet_tx_def faucet_proof_def process_request_def
      process_deposit_request_def process_transfer_request_def process_transfer_with_proof_def case_prod_unfold
      Let_def)

lemma faucet_listen_app:
  "fst (faucet_listen V C X N app m) =
     (case m of
        FaucetMint cmd \<Rightarrow> fst (build_transaction C X app (mc_note cmd) None None None None)
      | FaucetDeposit cmd \<Rightarrow> fst (build_transaction C X app (mc_note cmd) (Some (dc_token_contract cmd, mc_amount cmd))
          (dc_wallet_account cmd) (dc_secp256k1_blob cmd) (dc_wallet_blob cmd))
      | FaucetStateEvent r \<Rightarrow> on_state_event app r
      | _ \<Rightarrow> app)"
  by (cases m) (simp_all add: faucet_listen_def process_request_def process_deposit_request_def case_prod_unfold)

lemma faucet_listen_effect:
  assumes "faucet_listen V C X N app m = (app', r)"
  shows "fa_notes_root app' = (case event_root m of None \<Rightarrow> fa_notes_root app | Some e \<Rightarrow> e)"
    and "fa_note_index app' = fa_note_index app + (if mints m then 1 else 0)"
    and "fa_utxo_contract app' = fa_utxo_contract app" "fa_state_contract app' = fa_state_contract app"
    "fa_incl_contract app' = fa_incl_contract app"
proof -
  have a: "app' = fst (faucet_listen V C X N app m)" using assms by simp
  show "fa_notes_root app' = (case event_root m of None \<Rightarrow> fa_notes_root app | Some e \<Rightarrow> e)"
    "fa_note_index app' = fa_note_index app + (if mints m then 1 else 0)"
    "fa_utxo_contract app' = fa_utxo_contract app" "fa_state_contract app' = fa_state_contract app"
    "fa_incl_contract app' = fa_incl_contract app"
    unfolding a faucet_listen_app
    by (cases m; simp add: build_transaction_eq [where token = "[]"] on_state_event_def mints_def event_root_def)+
qed

section \<open>Runs of the loop\<close>

lemma faucet_run_result:
  assumes "faucet_run V C X app ms = (app', sent, r)"
  shows "(case r of
       Inr _ \<Rightarrow> length sent = length ms
     | Inl err \<Rightarrow> length sent < length ms \<and>
         refusal V C X (fst (ms ! length sent)) (fst (faucet_run V C X app (take (length sent) ms)))
           (snd (ms ! length sent)) = Inl err) \<and>
    snd (snd (faucet_run V C X app (take (length sent) ms))) = (Inr () :: 'e + unit)"
  using assms
proof (induction ms arbitrary: app app' sent r)
  case (Cons p ms)
  obtain N m where p: "p = (N, m)" by (cases p)
  obtain app1 q where l: "faucet_listen V C X N app m = (app1, q)" by fastforce
  have ref: "mapOk (\<lambda>_. ()) q = refusal V C X N app m" using faucet_listen_refusal [of V C X N app m] l by simp
  show ?case
  proof (cases q)
    case (Inl err)
    then have ref': "refusal V C X N app m = Inl err" using ref by simp
    have "r = Inl err" "sent = []" using Cons.prems Inl by (simp_all add: p l)
    then show ?thesis by (simp add: p ref')
  next
    case (Inr jobs)
    obtain sent' where r: "faucet_run V C X app1 ms = (app', sent', r)" "sent = jobs # sent'"
      using Cons.prems by (auto simp: p l Inr split: prod.splits)
    show ?thesis using Cons.IH [OF r(1)] by (simp add: r(2) p l Inr case_prod_unfold split: sum.splits)
  qed
qed simp

lemma faucet_run_app:
  assumes "faucet_run V C X app ms = (app', sent, r)"
  shows "fa_notes_root app' = last (fa_notes_root app # List.map_filter event_root (map snd (take (length sent) ms))) \<and>
    fa_note_index app' = fa_note_index app + of_nat (length (filter mints (map snd (take (Suc (length sent)) ms)))) \<and>
    fa_utxo_contract app' = fa_utxo_contract app \<and> fa_state_contract app' = fa_state_contract app \<and>
    fa_incl_contract app' = fa_incl_contract app"
  using assms
proof (induction ms arbitrary: app app' sent r)
  case (Cons p ms)
  obtain N m where p: "p = (N, m)" by (cases p)
  obtain app1 q where l: "faucet_listen V C X N app m = (app1, q)" by fastforce
  note e = faucet_listen_effect [OF l]
  show ?case
  proof (cases q)
    case (Inl err)
    then have "event_root m = None"
      using faucet_listen_refusal [of V C X N app m] l
      by (cases m) (simp_all add: event_root_def refusal_def faucet_tx_def faucet_proof_def)
    then show ?thesis using Cons.prems Inl e by (auto simp: p l map_filter_simps)
  next
    case (Inr jobs)
    obtain sent' where r: "faucet_run V C X app1 ms = (app', sent', r)" "sent = jobs # sent'"
      using Cons.prems by (auto simp: p l Inr split: prod.splits)
    show ?thesis using Cons.IH [OF r(1)] e by (simp add: r(2) p map_filter_simps split: option.splits)
  qed
qed (simp add: map_filter_simps)

lemma faucet_run_after_refusal:
  "faucet_run V C X app ms = (app', sent, Inl err) \<Longrightarrow> faucet_run V C X app (ms @ later) = (app', sent, Inl err)"
  by (induction ms arbitrary: app sent) (auto split: prod.splits sum.splits)


text \<open>
  C28: one refusal stops the faucet. The loop handles the messages in order. It comes to
  the end of them exactly when the node refuses nothing; at the first message whose
  transaction or proof the node refuses, the loop returns that error, no later message
  is ever handled, whatever it is, and only the messages before it have made jobs. The
  notes root is then the one of the last event handled, and the note counter has counted
  the mints and deposits up to and including the refused one.
\<close>

theorem faucet_run_stops_at_refusal:
  assumes "faucet_run V C X app ms = (app', sent, r)"
  shows "(case r of
       Inr _ \<Rightarrow> length sent = length ms
     | Inl err \<Rightarrow> length sent < length ms \<and>
         refusal V C X (fst (ms ! length sent)) (fst (faucet_run V C X app (take (length sent) ms)))
           (snd (ms ! length sent)) = Inl err \<and>
         (\<forall>later. faucet_run V C X app (ms @ later) = (app', sent, Inl err))) \<and>
    snd (snd (faucet_run V C X app (take (length sent) ms))) = Inr () \<and>
    fa_notes_root app' = last (fa_notes_root app # List.map_filter event_root (map snd (take (length sent) ms))) \<and>
    fa_note_index app' = fa_note_index app + of_nat (length (filter mints (map snd (take (Suc (length sent)) ms))))"
  using faucet_run_result [OF assms] faucet_run_app [OF assms] faucet_run_after_refusal [of V C X app ms app' sent] assms
  by (auto split: sum.splits)

definition refusing_node :: "string node_ops" where
  "refusing_node = \<lparr> send_tx_blob = (\<lambda>_. Inl ''refused''), send_tx_proof = (\<lambda>_. Inr ()) \<rparr>"

definition accepting_node :: "string node_ops" where
  "accepting_node = \<lparr> send_tx_blob = (\<lambda>_. Inr []), send_tx_proof = (\<lambda>_. Inr ()) \<rparr>"

definition toy_faucet_env :: "nat faucet_env" where
  "toy_faucet_env = \<lparr> fv_hex_decode = hex_dec, fv_noir_vk = [], fv_noir_name = [], fv_zero = 0 \<rparr>"

definition toy_mint_command :: mint_command where
  "toy_mint_command = \<lparr> mc_recipient_pubkey = [], mc_amount = 10, mc_note = toy_note \<rparr>"

theorem faucet_run_stops_at_refusal_witness:
  "snd (snd (faucet_run toy_faucet_env mint_crypto toy_tx toy_faucet
     [(accepting_node, FaucetStateEvent (to_be_bytes 7)), (refusing_node, FaucetMint toy_mint_command),
      (accepting_node, FaucetMint toy_mint_command)])) = Inl ''refused'' \<and>
   fa_notes_root (fst (faucet_run toy_faucet_env mint_crypto toy_tx toy_faucet
     [(accepting_node, FaucetStateEvent (to_be_bytes 7)), (refusing_node, FaucetMint toy_mint_command)])) = 7"
proof -
  let ?ms = "[(accepting_node, FaucetStateEvent (to_be_bytes 7)), (refusing_node, FaucetMint toy_mint_command)]"
  obtain app' sent r where run: "faucet_run toy_faucet_env mint_crypto toy_tx toy_faucet ?ms = (app', sent, r)"
    by (metis prod.collapse)
  then have "sent = [([], [])]" "r = Inl ''refused''"
    by (auto simp: faucet_listen_def process_request_def refusing_node_def accepting_node_def case_prod_unfold)
  then show ?thesis
    using faucet_run_stops_at_refusal [OF run] run
    by (auto simp: event_root_def map_filter_simps element_be.dec_enc
        dest: spec [of _ "[(accepting_node, FaucetMint toy_mint_command)]"])
qed

end
