(* ===== verification/MintSystem.thy ===== *)
theory MintSystem
  imports FaucetRuns "HOL-Library.Multiset"
begin

text \<open>
  The faucet, the node and the executor together (\<^verbatim>\<open>app.rs\<close>, \<^verbatim>\<open>hyli_utxo_state_client.rs\<close>):
  the transactions the node holds, the executor that applies settled ones, and the bus
  that carries the executor's events back to the faucet in their order.
\<close>

section \<open>The system\<close>

text \<open>
  \<^term>\<open>sy_running\<close> says that the faucet's loop has not returned.  Two components only record
  what happened: the notes roots of the transactions applied so far, latest first, and the
  notes of the mints the node accepted.
\<close>

record 't system =
  sy_app :: faucet_app
  sy_running :: bool
  sy_executor :: "'t executor"
  sy_pending :: "blob_transaction list"
  sy_events :: "h256 list"
  sy_applied :: "h256 list"
  sy_minted :: "zk_note list"

definition system_start :: "('t, 'p) smt_ops \<Rightarrow> faucet_app \<Rightarrow> string \<Rightarrow> 't system" where
  "system_start T app token =
     \<lparr> sy_app = faucet_app_build (fa_utxo_contract app) (fa_state_contract app) (fa_incl_contract app),
       sy_running = True, sy_executor = executor_new T (faucet_config app token),
       sy_pending = [], sy_events = [], sy_applied = [], sy_minted = [] \<rparr>"

text \<open>
  A command reaches the faucet; the node accepts or refuses the transaction; an accepted
  transaction settles, in any order, or times out; the bus delivers the oldest event.
  When \<^term>\<open>others\<close> holds the faucet gets deposits and transfers too, and transactions made
  elsewhere settle on the same contract, with the state blob anywhere.  \<^term>\<open>G\<close> says which
  transactions the node lets succeed in a state of the executor: safety is shown for every
  such test, liveness for the guest's own (\<^verbatim>\<open>guest_takes\<close>), the contract's verdict on the
  input the executor makes.
\<close>

definition guest_takes ::
  "'y tx_ops_scheme \<Rightarrow> ('t, 'p) smt_ops \<Rightarrow> 't executor \<Rightarrow> blob_transaction \<Rightarrow> nat \<Rightarrow> bool" where
  "guest_takes X T e tx i =
     (case guest_input_of T e (calldata_of_tx tx i) of
        Inl _ \<Rightarrow> False
      | Inr g \<Rightarrow> isOk (snd (zk_execute (sdk_ops.truncate X) g (calldata_of_tx tx i))))"

inductive system_step ::
  "bool \<Rightarrow> ('t executor \<Rightarrow> blob_transaction \<Rightarrow> nat \<Rightarrow> bool) \<Rightarrow> 'f faucet_env \<Rightarrow> ('f, 'z) crypto_scheme \<Rightarrow> 'y tx_ops_scheme
   \<Rightarrow> ('t, 'p) smt_ops \<Rightarrow> ('p, 'o) client_ops \<Rightarrow> 't system \<Rightarrow> 't system \<Rightarrow> bool"
  for others :: bool and G :: "'t executor \<Rightarrow> blob_transaction \<Rightarrow> nat \<Rightarrow> bool" and V :: "'f faucet_env" and C :: "('f, 'z) crypto_scheme" and X :: "'y tx_ops_scheme"
    and T :: "('t, 'p) smt_ops" and K :: "('p, 'o) client_ops" where
  commanded: "sy_running s \<Longrightarrow> others \<or> (\<exists>cmd. m = FaucetMint cmd) \<Longrightarrow> faucet_tx C X (sy_app s) m = Some tx \<Longrightarrow>
    faucet_listen V C X (N :: string node_ops) (sy_app s) m = (app', r) \<Longrightarrow>
    system_step others G V C X T K s (s\<lparr> sy_app := app', sy_running := isOk r,
      sy_pending := (if isOk (send_tx_blob N tx) then sy_pending s @ [tx] else sy_pending s),
      sy_minted := (case m of
          FaucetMint cmd \<Rightarrow> if isOk (send_tx_blob N tx) then sy_minted s @ [mc_note cmd] else sy_minted s
        | _ \<Rightarrow> sy_minted s) \<rparr>)"
| settled: "others \<or> (tx \<in> set (sy_pending s) \<and> i = 0) \<Longrightarrow> i < length (tx_blobs tx) \<Longrightarrow>
    is_state_action K (blob_data (tx_blobs tx ! i)) \<Longrightarrow> G (sy_executor s) tx i \<Longrightarrow>
    handle_transaction_success T K (sy_executor s) tx i = (e', ev) \<Longrightarrow>
    system_step others G V C X T K s (s\<lparr> sy_executor := e', sy_pending := remove1 tx (sy_pending s),
      sy_events := sy_events s @ (case ev of None \<Rightarrow> [] | Some root \<Rightarrow> [root]),
      sy_applied := (case ev of None \<Rightarrow> [] | Some root \<Rightarrow> [root]) @ sy_applied s \<rparr>)"
| timed_out: "tx \<in> set (sy_pending s) \<Longrightarrow>
    system_step others G V C X T K s (s\<lparr> sy_pending := remove1 tx (sy_pending s) \<rparr>)"
| delivered: "sy_running s \<Longrightarrow> sy_events s = root # rest \<Longrightarrow>
    faucet_listen V C X (N :: string node_ops) (sy_app s) (FaucetStateEvent root) = (app', r) \<Longrightarrow>
    system_step others G V C X T K s (s\<lparr> sy_app := app', sy_events := rest \<rparr>)"

inductive_cases system_stepE: "system_step others G V C X T K s s'"

definition system_reach ::
  "bool \<Rightarrow> ('t executor \<Rightarrow> blob_transaction \<Rightarrow> nat \<Rightarrow> bool) \<Rightarrow> 'f faucet_env \<Rightarrow> ('f, 'z) crypto_scheme \<Rightarrow> 'y tx_ops_scheme
   \<Rightarrow> ('t, 'p) smt_ops \<Rightarrow> ('p, 'o) client_ops \<Rightarrow> 't system \<Rightarrow> 't system \<Rightarrow> bool" where
  "system_reach others G V C X T K = (system_step others G V C X T K)\<^sup>*\<^sup>*"

section \<open>Events are the backlog of the ledger\<close>

text \<open>
  The events waiting are the latest roots, oldest first, so the faucet's root is the one
  before them; the executor's window holds the latest thousand.
\<close>

definition system_inv :: "('t, 'p) smt_ops \<Rightarrow> faucet_app \<Rightarrow> string \<Rightarrow> 't system \<Rightarrow> bool" where
  "system_inv T app token s \<longleftrightarrow>
     fa_utxo_contract (sy_app s) = fa_utxo_contract app \<and> fa_state_contract (sy_app s) = fa_state_contract app \<and>
     fa_incl_contract (sy_app s) = fa_incl_contract app \<and>
     state_inv T (ex_state (sy_executor s)) \<and> ex_config (sy_executor s) = faucet_config app token \<and>
     roots (ex_state (sy_executor s)) = take MAX_ROOTS (map (take 8) (sy_applied s)) \<and>
     (\<forall>r\<in>set (sy_applied s). length r = 32) \<and>
     (\<exists>seen. sy_applied s = rev (sy_events s) @ seen \<and>
        fa_notes_root (sy_app s) = (case seen of [] \<Rightarrow> ZERO | r # _ \<Rightarrow> from_be_bytes r))"

lemma system_start_inv: "smt_laws T \<Longrightarrow> system_inv T app token (system_start T app token)"
  using state_default_good [of T]
  by (simp add: system_inv_def system_start_def faucet_app_build_def executor_new_def good_state_def)
    (simp add: state_default_def)

lemma state_action_event:
  assumes "i < length (tx_blobs tx)" "is_state_action K (blob_data (tx_blobs tx ! i))"
  shows "handle_transaction_success T K e tx i =
    (case update_from_blob T e (calldata_of_tx tx i) of
       (e', Inl _) \<Rightarrow> (e', None) | (e', Inr _) \<Rightarrow> (e', Some (state_notes_root T (ex_state e'))))"
proof -
  have "map_of (cd_blobs (calldata_of_tx tx i)) (cd_index (calldata_of_tx tx i)) = Some (tx_blobs tx ! i)"
    using map_of_enumerate [of 0 "tx_blobs tx" i] assms(1) by (simp add: calldata_of_tx_def)
  then show ?thesis using assms(2)
    by (simp add: handle_transaction_success_def handle_def Let_def split: prod.splits sum.splits)
qed

lemma settled_event:
  assumes "smt_laws T" "state_inv T (ex_state e0)" "i < length (tx_blobs tx)"
    and "is_state_action K (blob_data (tx_blobs tx ! i))"
    and "handle_transaction_success T K e0 tx i = (e, ev)"
  shows "state_inv T (ex_state e) \<and> ex_config e = ex_config e0 \<and>
    roots (ex_state e) = take MAX_ROOTS (map (take 8) (case ev of None \<Rightarrow> [] | Some r \<Rightarrow> [r]) @ roots (ex_state e0)) \<and>
    (\<forall>r. ev = Some r \<longrightarrow> length r = 32 \<and> r = smt_root T (notes_tree (ex_state e)))"
proof -
  have good: "good_state T (ex_state e0)" using assms(1,2) by (simp add: good_state_def)
  have w: "length (roots (ex_state e0)) \<le> MAX_ROOTS" using assms(2) by (simp add: state_inv_def)
  let ?u = "update_from_blob T e0 (calldata_of_tx tx i)"
  have e: "e = fst ?u" "ev = (case snd ?u of Inl _ \<Rightarrow> None | Inr _ \<Rightarrow> Some (state_notes_root T (ex_state e)))"
    using assms(5) unfolding state_action_event [OF assms(3,4)] by (auto split: prod.splits sum.splits)
  show ?thesis
  proof (rule update_from_blob_cases [of T e0 "calldata_of_tx tx i"])
    assume "fst ?u = e0" "\<not> isOk (snd ?u)"
    then have "e = e0" "ev = None" using e by (auto simp: isOk_iff split: sum.splits)
    then show ?thesis using assms(2) w by simp
  next
    fix c n e' r
    assume a: "apply_commitments T e0 n c = (e', r)" and u: "fst ?u = e'"
      "snd ?u = (case r of Inl x \<Rightarrow> Inl x | Inr _ \<Rightarrow> Inr (c, n))"
    note eff = apply_commitments_effect [OF good a]
    have e': "e = e'" using e u by simp
    have inv: "state_inv T (ex_state e')" "ex_config e' = ex_config e0"
      using eff by (simp_all add: good_state_def)
    have rs: "roots (ex_state e') = (if isOk r then take MAX_ROOTS (root_fingerprint T (notes_tree (ex_state e')) # roots (ex_state e0))
        else roots (ex_state e0))" using eff by presburger
    show ?thesis
    proof (cases r)
      case (Inl x)
      then have "ev = None" using e(2) u by simp
      then show ?thesis using inv rs Inl w by (simp add: e')
    next
      case (Inr y)
      then have "ev = Some (smt_root T (notes_tree (ex_state e')))" using e(2) u by (simp add: e' state_notes_root_def)
      then show ?thesis using inv rs Inr smt_root_length [OF assms(1)] by (simp add: e' root_fingerprint_def)
    qed
  qed
qed

lemma system_step_inv:
  assumes "system_step others G V C X T K s s'" "smt_laws T" "system_inv T app token s"
  shows "system_inv T app token s'"
  using assms(1)
proof cases
  case (commanded m tx N app' r)
  have "event_root m = None" using commanded(4) by (cases m) (simp_all add: event_root_def faucet_tx_def)
  then show ?thesis using faucet_listen_effect [OF commanded(5)] assms(3)
    by (simp add: commanded(1) system_inv_def)
next
  case (settled tx i e' ev)
  have "state_inv T (ex_state (sy_executor s))" using assms(3) by (simp add: system_inv_def)
  note ev = settled_event [OF assms(2) this settled(3,4,6)]
  show ?thesis using ev assms(3)
    by (cases ev) (auto simp: settled(1) system_inv_def take_map MAX_ROOTS_def)
next
  case (timed_out tx)
  then show ?thesis using assms(3) by (simp add: system_inv_def)
next
  case (delivered root rest N app' r)
  then show ?thesis using faucet_listen_effect [OF delivered(4)] assms(3)
    by (auto simp: system_inv_def event_root_def)
qed

lemma system_reach_inv:
  assumes "system_reach others G V C X T K s s'" "smt_laws T" "system_inv T app token s"
  shows "system_inv T app token s'"
  using assms(1) unfolding system_reach_def
  by (induction rule: rtranclp_induct) (use assms(2,3) system_step_inv in blast)+

text \<open>A fresh faucet's root is in the window until the window is full.\<close>

lemma backlog_window:
  assumes "system_inv T app token s" "length (sy_events s) < MAX_ROOTS"
  shows "take 8 (to_be_bytes (fa_notes_root (sy_app s))) \<in>
    set (resize MAX_ROOTS (replicate 8 0) (roots (ex_state (sy_executor s))))"
proof -
  obtain seen where seen: "sy_applied s = rev (sy_events s) @ seen"
      "fa_notes_root (sy_app s) = (case seen of [] \<Rightarrow> ZERO | r # _ \<Rightarrow> from_be_bytes r)"
    and w: "roots (ex_state (sy_executor s)) = take MAX_ROOTS (map (take 8) (sy_applied s))"
    and l: "\<forall>r\<in>set (sy_applied s). length r = 32"
    using assms(1) by (auto simp: system_inv_def)
  show ?thesis
  proof (cases seen)
    case Nil
    have "to_be_bytes ZERO = replicate 32 0"
      using to_be_bytes_zero_iff [of ZERO] by (simp add: ZERO_def H256_ZERO_def)
    then show ?thesis using assms(2) seen w Nil by (simp add: resize_def)
  next
    case (Cons r rest)
    have r: "to_be_bytes (fa_notes_root (sy_app s)) = r"
      using seen l Cons by (simp add: element_be.enc_dec)
    have "take 8 r = map (take 8) (sy_applied s) ! length (sy_events s)"
      using seen(1) Cons by (simp add: nth_append)
    then have "take 8 r \<in> set (roots (ex_state (sy_executor s)))"
      unfolding w using assms(2) seen(1) Cons
      by (metis (no_types, lifting) length_append length_map length_rev length_take less_add_same_cancel1
          list.size(4) min_less_iff_conj nth_mem nth_take zero_less_Suc add_Suc_right add.right_neutral)
    then show ?thesis using set_resize [of "roots (ex_state (sy_executor s))" MAX_ROOTS] w by (auto simp: r)
  qed
qed

section \<open>A system with nothing but mints\<close>

text \<open>The transaction some faucet of these contracts builds for a note.\<close>

definition mint_of ::
  "('f, 'z) crypto_scheme \<Rightarrow> 'y tx_ops_scheme \<Rightarrow> faucet_app \<Rightarrow> blob_transaction \<Rightarrow> zk_note \<Rightarrow> bool" where
  "mint_of C X app tx n \<longleftrightarrow>
     (\<exists>a app' u. fa_utxo_contract a = fa_utxo_contract app \<and> fa_state_contract a = fa_state_contract app \<and>
        fa_incl_contract a = fa_incl_contract app \<and> build_transaction C X a n None None None None = (app', tx, u))"

definition note_keys :: "('f, 'z) crypto_scheme \<Rightarrow> zk_note list \<Rightarrow> h256 list" where
  "note_keys C ns = map to_be_bytes (filter (\<lambda>c. c \<noteq> ZERO) (map (note_commitment C) ns))"

definition closed_inv ::
  "('f, 'z) crypto_scheme \<Rightarrow> 'y tx_ops_scheme \<Rightarrow> ('t, 'p) smt_ops \<Rightarrow> faucet_app \<Rightarrow> 't system \<Rightarrow> bool" where
  "closed_inv C X T app s \<longleftrightarrow>
     (\<exists>waiting ns. list_all2 (mint_of C X app) (sy_pending s) waiting \<and>
        mset waiting + mset ns \<subseteq># mset (sy_minted s) \<and> length ns = length (sy_applied s) \<and>
        distinct (note_keys C ns) \<and> created_set T (ex_state (sy_executor s)) = set (note_keys C ns) \<and>
        nullified_set T (ex_state (sy_executor s)) = {})"

lemma list_all2_remove1:
  assumes "list_all2 P xs ys" "x \<in> set xs"
  obtains y ys' where "P x y" "list_all2 P (remove1 x xs) ys'" "mset ys = add_mset y (mset ys')"
  using assms
proof (induction xs ys arbitrary: thesis rule: list_all2_induct)
  case (Cons a as b bs)
  show ?case
  proof (cases "x = a")
    case True
    then show ?thesis using Cons by (intro Cons.prems(1) [of b bs]) simp_all
  next
    case False
    then obtain y ys' where "P x y" "list_all2 P (remove1 x as) ys'" "mset bs = add_mset y (mset ys')"
      using Cons.IH Cons.prems(2) by auto
    then show ?thesis using Cons.hyps False by (intro Cons.prems(1) [of y "b # ys'"]) simp_all
  qed
qed simp

lemma mint_of_settled:
  assumes "smt_laws T" "state_inv T (ex_state e)" "ex_config e = faucet_config app token"
    and "fa_state_contract app \<noteq> fa_utxo_contract app"
    and "to_be_bytes (hash_merge C [ZERO, ZERO]) = PADDING_NULLIFIER" "mint_of C X app tx n"
    and "0 < length (tx_blobs tx)" "is_state_action K (blob_data (tx_blobs tx ! 0))"
    and "handle_transaction_success T K e tx 0 = (e', ev)"
  shows "(ev \<noteq> None \<longleftrightarrow> set (note_keys C [n]) \<inter> created_set T (ex_state e) = {}) \<and>
    created_set T (ex_state e') = set (note_keys C [n]) \<union> created_set T (ex_state e) \<and>
    nullified_set T (ex_state e') = nullified_set T (ex_state e)"
proof -
  obtain a app' u where a: "fa_utxo_contract a = fa_utxo_contract app" "fa_state_contract a = fa_state_contract app"
      "fa_incl_contract a = fa_incl_contract app" "build_transaction C X a n None None None None = (app', tx, u)"
    using assms(6) by (auto simp: mint_of_def)
  have c: "ex_config e = faucet_config a token" "fa_state_contract a \<noteq> fa_utxo_contract a"
    using a assms(3,4) by (simp_all add: faucet_config_def)
  have e': "e' = fst (update_from_blob T e (calldata_of_tx tx 0))"
    "ev \<noteq> None \<longleftrightarrow> isOk (snd (update_from_blob T e (calldata_of_tx tx 0)))"
    using assms(9) unfolding state_action_event [OF assms(7,8)] by (auto split: prod.splits sum.splits)
  have "set (note_keys C [n]) = (if note_commitment C n = ZERO then {} else {to_be_bytes (note_commitment C n)})"
    by (simp add: note_keys_def)
  then show ?thesis using mint_update [OF assms(1,2) c assms(5) a(4)] unfolding e'(2) by (simp add: e'(1))
qed

lemma closed_step:
  assumes "system_step False G V C X T K s s'" "smt_laws T" "system_inv T app token s" "closed_inv C X T app s"
    and "fa_state_contract app \<noteq> fa_utxo_contract app"
    and "to_be_bytes (hash_merge C [ZERO, ZERO]) = PADDING_NULLIFIER"
  shows "closed_inv C X T app s'"
proof -
  obtain waiting ns where w: "list_all2 (mint_of C X app) (sy_pending s) waiting"
      "mset waiting + mset ns \<subseteq># mset (sy_minted s)" "length ns = length (sy_applied s)"
      "distinct (note_keys C ns)" "created_set T (ex_state (sy_executor s)) = set (note_keys C ns)"
      "nullified_set T (ex_state (sy_executor s)) = {}"
    using assms(4) by (auto simp: closed_inv_def)
  show ?thesis
    using assms(1)
  proof cases
    case (commanded m tx N app' r)
    then obtain cmd where m: "m = FaucetMint cmd" by blast
    have "mint_of C X app tx (mc_note cmd)"
      using commanded(4) assms(3) by (auto simp: m faucet_tx_def mint_of_def system_inv_def prod_eq_iff)
    then have l: "list_all2 (mint_of C X app) (sy_pending s @ [tx]) (waiting @ [mc_note cmd])"
      using w(1) by (simp add: list_all2_appendI)
    show ?thesis
    proof (cases "isOk (send_tx_blob N tx)")
      case True
      then show ?thesis using w l unfolding closed_inv_def
        by (intro exI [of _ "waiting @ [mc_note cmd]"] exI [of _ ns]) (simp add: commanded(1) m)
    next
      case False
      then show ?thesis using assms(4) by (simp add: closed_inv_def commanded(1) m)
    qed
  next
    case (settled tx i e' ev)
    then have tx: "tx \<in> set (sy_pending s)" and i: "i = 0" by simp_all
    obtain n rest where n: "mint_of C X app tx n" "list_all2 (mint_of C X app) (remove1 tx (sy_pending s)) rest"
        "mset waiting = add_mset n (mset rest)"
      by (rule list_all2_remove1 [OF w(1) tx])
    have inv: "state_inv T (ex_state (sy_executor s))" "ex_config (sy_executor s) = faucet_config app token"
      using assms(3) by (simp_all add: system_inv_def)
    note eff = mint_of_settled [OF assms(2) inv assms(5,6) n(1) settled(3,4,6) [unfolded i]]
    have k: "note_keys C (n # ns) = note_keys C [n] @ note_keys C ns" by (simp add: note_keys_def)
    have d: "distinct (note_keys C [n])" by (simp add: note_keys_def)
    show ?thesis
    proof (cases ev)
      case None
      have "mset rest + mset ns \<subseteq># mset (sy_minted s)"
        using w(2) n(3) by (metis add_mset_add_single mset_subset_eq_add_left subset_mset.order_trans union_assoc union_commute)
      moreover have "set (note_keys C [n]) \<subseteq> set (note_keys C ns)"
        using eff None w(5) by (auto simp: note_keys_def split: if_splits)
      ultimately show ?thesis using w n(2) eff None unfolding closed_inv_def
        by (intro exI [of _ rest] exI [of _ ns]) (auto simp: settled(1))
    next
      case (Some root)
      have "mset rest + mset (n # ns) \<subseteq># mset (sy_minted s)" using w(2) n(3) by simp
      then show ?thesis using w n(2) eff Some d unfolding closed_inv_def
        by (intro exI [of _ rest] exI [of _ "n # ns"]) (auto simp: settled(1) k)
    qed
  next
    case (timed_out tx)
    obtain n rest where n: "list_all2 (mint_of C X app) (remove1 tx (sy_pending s)) rest"
        "mset waiting = add_mset n (mset rest)"
      by (rule list_all2_remove1 [OF w(1) timed_out(2)])
    have "mset rest + mset ns \<subseteq># mset (sy_minted s)"
      using w(2) n(2) by (metis add_mset_add_single mset_subset_eq_add_left subset_mset.order_trans union_assoc union_commute)
    then show ?thesis using w n(1) unfolding closed_inv_def
      by (intro exI [of _ rest] exI [of _ ns]) (simp add: timed_out(1))
  next
    case (delivered root rest N app' r)
    then show ?thesis using assms(4) by (simp add: closed_inv_def)
  qed
qed

lemma closed_reach:
  assumes "system_reach False G V C X T K (system_start T app token) s" "smt_laws T"
    and "fa_state_contract app \<noteq> fa_utxo_contract app"
    and "to_be_bytes (hash_merge C [ZERO, ZERO]) = PADDING_NULLIFIER"
  shows "system_inv T app token s \<and> closed_inv C X T app s"
  using assms(1) unfolding system_reach_def
proof (induction rule: rtranclp_induct)
  case base
  have "closed_inv C X T app (system_start T app token)"
    using state_default_sets [OF assms(2)]
    by (auto simp: closed_inv_def system_start_def executor_new_def note_keys_def)
  then show ?case using system_start_inv [OF assms(2)] by simp
next
  case (step y z)
  then show ?case
    using system_step_inv [OF step.hyps(2) assms(2)] closed_step [OF step.hyps(2) assms(2) _ _ assms(3,4)] by blast
qed

section \<open>Driving a mint to the ledger\<close>

lemma deliver_all:
  assumes "sy_running s"
  obtains s' where "system_reach others G V C X T K s s'" "sy_events s' = []" "sy_running s'"
    and "sy_executor s' = sy_executor s" "sy_applied s' = sy_applied s" "sy_pending s' = sy_pending s"
  using assms
proof (induction "sy_events s" arbitrary: s thesis)
  case Nil
  then show ?case by (intro Nil.prems(1) [of s]) (simp_all add: system_reach_def)
next
  case (Cons root rest)
  obtain app' r where l: "faucet_listen V C X accepting_node (sy_app s) (FaucetStateEvent root) = (app', r)" by fastforce
  let ?t = "s\<lparr> sy_app := app', sy_events := rest \<rparr>"
  have st: "system_step others G V C X T K s ?t"
    by (rule system_step.delivered [OF Cons.prems(2) Cons.hyps(2) [symmetric] l])
  obtain s' where s': "system_reach others G V C X T K ?t s'" "sy_events s' = []" "sy_running s'"
    "sy_executor s' = sy_executor ?t" "sy_applied s' = sy_applied ?t" "sy_pending s' = sy_pending ?t"
    by (rule Cons.hyps(1) [of ?t]) (use Cons.prems(2) in simp_all)
  then show ?case using st
    by (intro Cons.prems(1) [of s']) (simp_all add: system_reach_def converse_rtranclp_into_rtranclp)
qed

lemma mint_guest_takes:
  assumes "smt_laws T" "tx_laws X" "state_inv T (ex_state e)"
    and "ex_config e = faucet_config app token" "fa_state_contract app \<noteq> fa_utxo_contract app"
    and "to_be_bytes (hash_merge C [ZERO, ZERO]) = PADDING_NULLIFIER" "note_commitment C n \<noteq> ZERO"
    and "named_caller X (mint_bytes C n) \<noteq> Some 0"
    and "build_transaction C X app n None None None None = (app', tx, u)"
  shows "guest_takes X T e tx 0 \<longleftrightarrow>
    to_be_bytes (note_commitment C n) \<notin> created_set T (ex_state e) \<and>
    take 8 (to_be_bytes (fa_notes_root app)) \<in> set (resize MAX_ROOTS (replicate 8 0) (roots (ex_state e)))"
proof -
  obtain g where g: "to_zkvm_state T (ex_state e) (ex_config e) [to_be_bytes (note_commitment C n), to_be_bytes ZERO]
      [PADDING_NULLIFIER, PADDING_NULLIFIER] = Inr g"
    and acc: "isOk (snd (zk_execute (sdk_ops.truncate X) g (calldata_of_tx tx 0))) \<longleftrightarrow>
      to_be_bytes (note_commitment C n) \<notin> created_set T (ex_state e) \<and>
      take 8 (to_be_bytes (fa_notes_root app)) \<in> set (resize MAX_ROOTS (replicate 8 0) (roots (ex_state e)))"
    by (rule mint_guest [OF assms(1,3,2,4-9)])
  have sc: "fa_state_contract app \<noteq> utxo_contract_name (ex_config e)" using assms(4,5) by (simp add: faucet_config_def)
  have "guest_input_of T e (calldata_of_tx tx 0) = Inr g"
    using g mint_bytes_keys(1) [OF assms(6), of n]
    by (simp add: guest_input_of_def zkvm_witness_def mint_tx_eq [OF assms(4,9)] state_tx_utxo_blob [OF sc])
  then show ?thesis using acc by (simp add: guest_takes_def)
qed

text \<open>With no event waiting a mint is built, taken by the guest, applied and reported.\<close>

lemma mint_run_idle:
  assumes "smt_laws T" "tx_laws X" "system_inv T app token s" "sy_running s" "sy_events s = []"
    and "fa_state_contract app \<noteq> fa_utxo_contract app"
    and "to_be_bytes (hash_merge C [ZERO, ZERO]) = PADDING_NULLIFIER"
    and "\<forall>cs. is_state_action K (structured_data X None (Some cs) HYLI_UTXO_STATE_ACTION)"
    and "note_commitment C n \<noteq> ZERO" "named_caller X (mint_bytes C n) \<noteq> Some 0"
    and "to_be_bytes (note_commitment C n) \<notin> created_set T (ex_state (sy_executor s))"
  obtains s' where "system_reach False (guest_takes X T) V C X T K s s'" "sy_running s'" "sy_events s' = []"
    and "created_set T (ex_state (sy_executor s')) =
      insert (to_be_bytes (note_commitment C n)) (created_set T (ex_state (sy_executor s)))"
    and "to_be_bytes (fa_notes_root (sy_app s')) = smt_root T (notes_tree (ex_state (sy_executor s')))"
    and "length (sy_applied s') = Suc (length (sy_applied s))"
proof -
  let ?G = "guest_takes X T"
  let ?cmd = "FaucetMint \<lparr> mc_recipient_pubkey = [], mc_amount = 0, mc_note = n \<rparr>"
  obtain app' tx u where b: "build_transaction C X (sy_app s) n None None None None = (app', tx, u)" by (metis prod.collapse)
  have tx: "faucet_tx C X (sy_app s) ?cmd = Some tx" by (simp add: faucet_tx_def b)
  obtain r where l: "faucet_listen V C X accepting_node (sy_app s) ?cmd = (app', Inr r)"
    by (simp add: faucet_listen_def process_request_def b accepting_node_def)
  let ?s1 = "s\<lparr> sy_app := app', sy_running := True, sy_pending := sy_pending s @ [tx], sy_minted := sy_minted s @ [n] \<rparr>"
  have s1: "system_step False ?G V C X T K s ?s1"
    using system_step.commanded [where others = False and G = ?G and K = K and T = T, OF assms(4) _ tx l]
    by (simp add: accepting_node_def)
  have inv1: "system_inv T app token ?s1" by (rule system_step_inv [OF s1 assms(1,3)])
  have e: "state_inv T (ex_state (sy_executor s))" "ex_config (sy_executor s) = faucet_config (sy_app s) token"
      "fa_state_contract (sy_app s) \<noteq> fa_utxo_contract (sy_app s)"
    using assms(3,6) by (simp_all add: system_inv_def faucet_config_def)
  have "length (sy_events s) < MAX_ROOTS" using assms(5) by (simp add: MAX_ROOTS_def)
  then have takes: "guest_takes X T (sy_executor s) tx 0"
    using mint_guest_takes [OF assms(1,2) e assms(7,9,10) b] assms(11) backlog_window [OF assms(3)] by simp
  have act: "0 < length (tx_blobs tx)" "is_state_action K (blob_data (tx_blobs tx ! 0))"
    using assms(8) by (simp_all add: mint_tx_eq [OF e(2) b] state_tx_def)
  note up = mint_update [OF assms(1) e assms(7) b]
  obtain e' root where h: "handle_transaction_success T K (sy_executor s) tx 0 = (e', Some root)"
    and e': "e' = fst (update_from_blob T (sy_executor s) (calldata_of_tx tx 0))"
    using up(1) assms(11) unfolding state_action_event [OF act] isOk_iff by (fastforce split: prod.splits)
  let ?s2 = "?s1\<lparr> sy_executor := e', sy_pending := remove1 tx (sy_pending ?s1), sy_events := sy_events ?s1 @ [root],
      sy_applied := [root] @ sy_applied ?s1 \<rparr>"
  have s2: "system_step False ?G V C X T K ?s1 ?s2"
    using system_step.settled [of False tx ?s1 0 K ?G T e' "Some root"] act h takes by simp
  obtain s' where s': "system_reach False ?G V C X T K ?s2 s'" "sy_events s' = []" "sy_running s'"
      "sy_executor s' = sy_executor ?s2" "sy_applied s' = sy_applied ?s2"
    by (rule deliver_all [of ?s2 False ?G V C X T K]) simp_all
  have inv': "system_inv T app token s'"
    by (rule system_reach_inv [OF s'(1) assms(1) system_step_inv [OF s2 assms(1) inv1]])
  have root: "length root = 32 \<and> root = smt_root T (notes_tree (ex_state e'))"
    using settled_event [OF assms(1) e(1) act h] smt_root_length [OF assms(1)] by simp
  have "to_be_bytes (fa_notes_root (sy_app s')) = root"
    using inv' s' root assms(5) by (auto simp: system_inv_def element_be.enc_dec)
  moreover have "system_reach False ?G V C X T K s s'"
    using s1 s2 s'(1) by (simp add: system_reach_def converse_rtranclp_into_rtranclp)
  ultimately show thesis
    using s' root up(3) assms(9) by (intro that [of s']) (simp_all add: e')
qed

lemma mint_run:
  assumes "smt_laws T" "tx_laws X" "system_inv T app token s" "sy_running s"
    and "fa_state_contract app \<noteq> fa_utxo_contract app"
    and "to_be_bytes (hash_merge C [ZERO, ZERO]) = PADDING_NULLIFIER"
    and "\<forall>cs. is_state_action K (structured_data X None (Some cs) HYLI_UTXO_STATE_ACTION)"
    and "note_commitment C n \<noteq> ZERO" "named_caller X (mint_bytes C n) \<noteq> Some 0"
    and "to_be_bytes (note_commitment C n) \<notin> created_set T (ex_state (sy_executor s))"
  obtains s' where "system_reach False (guest_takes X T) V C X T K s s'" "sy_running s'" "sy_events s' = []"
    and "created_set T (ex_state (sy_executor s')) =
      insert (to_be_bytes (note_commitment C n)) (created_set T (ex_state (sy_executor s)))"
    and "to_be_bytes (fa_notes_root (sy_app s')) = smt_root T (notes_tree (ex_state (sy_executor s')))"
    and "length (sy_applied s') = Suc (length (sy_applied s))"
proof -
  obtain t where t: "system_reach False (guest_takes X T) V C X T K s t" "sy_events t = []" "sy_running t"
      "sy_executor t = sy_executor s" "sy_applied t = sy_applied s"
    by (rule deliver_all [OF assms(4), of False "guest_takes X T" V C X T K])
  have inv: "system_inv T app token t" by (rule system_reach_inv [OF t(1) assms(1,3)])
  obtain s' where "system_reach False (guest_takes X T) V C X T K t s'" "sy_running s'" "sy_events s' = []"
      "created_set T (ex_state (sy_executor s')) =
        insert (to_be_bytes (note_commitment C n)) (created_set T (ex_state (sy_executor t)))"
      "to_be_bytes (fa_notes_root (sy_app s')) = smt_root T (notes_tree (ex_state (sy_executor s')))"
      "length (sy_applied s') = Suc (length (sy_applied t))"
    by (rule mint_run_idle [OF assms(1,2) inv t(3,2) assms(5-9), of V]) (use assms(10) t(4) in simp)
  moreover from this(1) have "system_reach False (guest_takes X T) V C X T K s s'"
    using t(1) unfolding system_reach_def by (rule rtranclp_trans [rotated])
  ultimately show thesis using t by (intro that [of s']) simp_all
qed

text \<open>
  A faucet that starts again next to an executor that keeps its state: until the next
  event its root is zero, which the guest accepts only while the window is not full or
  holds a root with a zero fingerprint.
\<close>

lemma restarted_faucet_rejected:
  assumes "smt_laws T" "tx_laws X" "fa_state_contract app \<noteq> fa_utxo_contract app"
    and "to_be_bytes (hash_merge C [ZERO, ZERO]) = PADDING_NULLIFIER"
    and "system_reach others G V C X T K (system_start T app token) s"
    and "MAX_ROOTS \<le> length (sy_applied s)" "\<forall>r\<in>set (take MAX_ROOTS (sy_applied s)). take 8 r \<noteq> replicate 8 0"
    and "note_commitment C n \<noteq> ZERO" "named_caller X (mint_bytes C n) \<noteq> Some 0"
    and "build_transaction C X (sy_app (system_start T app token)) n None None None None = (app', tx, u)"
  shows "\<exists>g. to_zkvm_state T (ex_state (sy_executor s)) (ex_config (sy_executor s))
        [to_be_bytes (note_commitment C n), to_be_bytes ZERO] [PADDING_NULLIFIER, PADDING_NULLIFIER] = Inr g \<and>
      \<not> isOk (snd (zk_execute (sdk_ops.truncate X) g (calldata_of_tx tx 0)))"
proof -
  have inv: "system_inv T app token s"
    by (rule system_reach_inv [OF assms(5,1) system_start_inv [OF assms(1)]])
  let ?a = "sy_app (system_start T app token)"
  have a: "state_inv T (ex_state (sy_executor s))" "ex_config (sy_executor s) = faucet_config ?a token"
      "fa_state_contract ?a \<noteq> fa_utxo_contract ?a" "fa_notes_root ?a = ZERO"
    using inv assms(3) by (simp_all add: system_inv_def system_start_def faucet_app_build_def faucet_config_def)
  have "to_be_bytes ZERO = replicate 32 0"
    using to_be_bytes_zero_iff [of ZERO] by (simp add: ZERO_def H256_ZERO_def)
  then have z: "take 8 (to_be_bytes (fa_notes_root ?a)) = replicate 8 0" by (simp add: a)
  have w: "roots (ex_state (sy_executor s)) = map (take 8) (take MAX_ROOTS (sy_applied s))"
    using inv by (simp add: system_inv_def take_map)
  then have "set (resize MAX_ROOTS (replicate 8 0) (roots (ex_state (sy_executor s)))) =
      take 8 ` set (take MAX_ROOTS (sy_applied s))"
    using assms(6) by (simp add: resize_def)
  then have "take 8 (to_be_bytes (fa_notes_root ?a)) \<notin>
      set (resize MAX_ROOTS (replicate 8 0) (roots (ex_state (sy_executor s))))"
    using assms(7) by (auto simp: z)
  then show ?thesis
    using mint_guest [OF assms(1) a(1) assms(2) a(2,3) assms(4,8,9,10)] by metis
qed

section \<open>A run\<close>

definition toy_node_client :: "(toy_tree, byte list) client_ops" where
  "toy_node_client = toy_client\<lparr> is_state_action := (\<lambda>b. take 2 b = [0, 1]) \<rparr>"

lemma toy_mint:
  "fa_state_contract toy_faucet \<noteq> fa_utxo_contract toy_faucet"
  "\<forall>cs. is_state_action toy_node_client (structured_data toy_tx None (Some cs) HYLI_UTXO_STATE_ACTION)"
  "note_commitment mint_crypto toy_note = 5"
  "named_caller toy_tx (mint_bytes mint_crypto toy_note) \<noteq> Some 0"
proof -
  show n: "note_commitment mint_crypto toy_note = 5"
    by (simp add: note_commitment_def mint_crypto_hashes toy_note_def ZERO_def)
  have "to_be_bytes 5 = 0 # replicate 30 0 @ [5]" by code_simp
  then show "named_caller toy_tx (mint_bytes mint_crypto toy_note) \<noteq> Some 0"
    by (simp add: mint_bytes_def n toy_tx_def toy_caller_def)
qed (simp_all add: toy_faucet_def faucet_app_build_def toy_node_client_def toy_tx_def toy_structured_def opt_index_def)

lemma toy_run:
  obtains s where "system_reach False (guest_takes toy_tx toy_smt) toy_faucet_env mint_crypto toy_tx toy_smt toy_node_client
      (system_start toy_smt toy_faucet ''token'') s" "sy_events s = []"
    and "created_set toy_smt (ex_state (sy_executor s)) = {to_be_bytes 5}" "length (sy_applied s) = 1"
proof -
  let ?s = "system_start toy_smt toy_faucet ''token''"
  have z: "created_set toy_smt (ex_state (sy_executor ?s)) = {}" "sy_applied ?s = []" "sy_running ?s"
    using state_default_sets [OF toy_smt_laws] by (simp_all add: system_start_def executor_new_def)
  show thesis
    by (rule mint_run [OF toy_smt_laws toy_tx_laws system_start_inv [OF toy_smt_laws] z(3) toy_mint(1) mint_crypto_hashes(1)
          toy_mint(2), of toy_note toy_faucet_env]) (use z toy_mint(3,4) in \<open>auto simp: ZERO_def intro: that\<close>)
qed

section \<open>Properties\<close>

text \<open>
  C17: mints are accepted in every state of the system. However commands, settlements,
  failures, timeouts, foreign transactions and deliveries interleave, as long as fewer
  than 1000 events wait on the bus, the transaction the faucet builds for the next mint
  command carries a root the contract knows: the executor can prepare the guest's input,
  and both the guest and the executor accept the mint exactly when the note's commitment
  is new.
\<close>

theorem system_mints_accepted:
  assumes "smt_laws T" "tx_laws X" "fa_state_contract app \<noteq> fa_utxo_contract app"
    and "to_be_bytes (hash_merge C [ZERO, ZERO]) = PADDING_NULLIFIER"
    and "system_reach others G V C X T K (system_start T app token) s" "length (sy_events s) < MAX_ROOTS"
    and "note_commitment C (mc_note cmd) \<noteq> ZERO" "named_caller X (mint_bytes C (mc_note cmd)) \<noteq> Some 0"
    and "faucet_tx C X (sy_app s) (FaucetMint cmd) = Some tx"
  shows "\<exists>g. to_zkvm_state T (ex_state (sy_executor s)) (ex_config (sy_executor s))
        [to_be_bytes (note_commitment C (mc_note cmd)), to_be_bytes ZERO] [PADDING_NULLIFIER, PADDING_NULLIFIER] = Inr g \<and>
      (isOk (snd (zk_execute (sdk_ops.truncate X) g (calldata_of_tx tx 0))) \<longleftrightarrow>
         to_be_bytes (note_commitment C (mc_note cmd)) \<notin> created_set T (ex_state (sy_executor s))) \<and>
      (isOk (snd (update_from_blob T (sy_executor s) (calldata_of_tx tx 0))) \<longleftrightarrow>
         to_be_bytes (note_commitment C (mc_note cmd)) \<notin> created_set T (ex_state (sy_executor s)))"
proof -
  have inv: "system_inv T app token s"
    by (rule system_reach_inv [OF assms(5,1) system_start_inv [OF assms(1)]])
  have a: "state_inv T (ex_state (sy_executor s))" "ex_config (sy_executor s) = faucet_config (sy_app s) token"
      "fa_state_contract (sy_app s) \<noteq> fa_utxo_contract (sy_app s)"
    using inv assms(3) by (simp_all add: system_inv_def faucet_config_def)
  obtain app' u where b: "build_transaction C X (sy_app s) (mc_note cmd) None None None None = (app', tx, u)"
    using assms(9) by (auto simp: faucet_tx_def prod_eq_iff)
  show ?thesis
    using mint_settles [OF assms(1) a(1) assms(2) a(2,3) backlog_window [OF inv assms(6)] assms(4,7,8) b] by blast
qed

theorem system_mints_accepted_witness:
  "\<exists>s tx. system_reach False (guest_takes toy_tx toy_smt) toy_faucet_env mint_crypto toy_tx toy_smt toy_node_client
      (system_start toy_smt toy_faucet ''token'') s \<and>
    faucet_tx mint_crypto toy_tx (sy_app s) (FaucetMint toy_mint_command) = Some tx \<and>
    length (sy_applied s) = 1 \<and> \<not> isOk (snd (update_from_blob toy_smt (sy_executor s) (calldata_of_tx tx 0)))"
proof -
  obtain s where s: "system_reach False (guest_takes toy_tx toy_smt) toy_faucet_env mint_crypto toy_tx toy_smt toy_node_client
      (system_start toy_smt toy_faucet ''token'') s" "sy_events s = []"
    "created_set toy_smt (ex_state (sy_executor s)) = {to_be_bytes 5}" "length (sy_applied s) = 1"
    by (rule toy_run)
  obtain tx where tx: "faucet_tx mint_crypto toy_tx (sy_app s) (FaucetMint toy_mint_command) = Some tx"
    by (simp add: faucet_tx_def)
  have n: "mc_note toy_mint_command = toy_note" by (simp add: toy_mint_command_def)
  have w: "length (sy_events s) < MAX_ROOTS" using s(2) by (simp add: MAX_ROOTS_def)
  show ?thesis
    using system_mints_accepted [OF toy_smt_laws toy_tx_laws toy_mint(1) mint_crypto_hashes(1) s(1) w, of toy_mint_command tx]
      toy_mint(3,4) tx s by (auto simp: n ZERO_def)
qed

text \<open>
  C18: the ledger is the mints. In a system whose only traffic are mint commands, in
  whatever order their transactions settle, fail or time out, and whatever test decides
  which of them succeed: the applied transactions
  are mints of notes the node accepted, each accepted command applied at most once, the
  ledger holds exactly the commitments of these notes (zero ones aside), all different,
  and nothing is ever spent.
\<close>

theorem ledger_is_mints:
  assumes "smt_laws T" "fa_state_contract app \<noteq> fa_utxo_contract app"
    and "to_be_bytes (hash_merge C [ZERO, ZERO]) = PADDING_NULLIFIER"
    and "system_reach False G V C X T K (system_start T app token) s"
  shows "\<exists>ns. mset ns \<subseteq># mset (sy_minted s) \<and> length ns = length (sy_applied s) \<and>
      distinct (note_keys C ns) \<and> created_set T (ex_state (sy_executor s)) = set (note_keys C ns) \<and>
      nullified_set T (ex_state (sy_executor s)) = {}"
proof -
  obtain waiting ns where "mset waiting + mset ns \<subseteq># mset (sy_minted s)" "length ns = length (sy_applied s)"
      "distinct (note_keys C ns)" "created_set T (ex_state (sy_executor s)) = set (note_keys C ns)"
      "nullified_set T (ex_state (sy_executor s)) = {}"
    using closed_reach [OF assms(4,1,2,3)] by (auto simp: closed_inv_def)
  moreover from this(1) have "mset ns \<subseteq># mset (sy_minted s)"
    using mset_subset_eq_add_right subset_mset.order_trans by blast
  ultimately show ?thesis by blast
qed

theorem ledger_is_mints_witness:
  "\<exists>s ns. system_reach False (guest_takes toy_tx toy_smt) toy_faucet_env mint_crypto toy_tx toy_smt toy_node_client
      (system_start toy_smt toy_faucet ''token'') s \<and>
    length ns = 1 \<and> set (note_keys mint_crypto ns) = {to_be_bytes 5}"
proof -
  obtain s where s: "system_reach False (guest_takes toy_tx toy_smt) toy_faucet_env mint_crypto toy_tx toy_smt toy_node_client
      (system_start toy_smt toy_faucet ''token'') s" "sy_events s = []"
    "created_set toy_smt (ex_state (sy_executor s)) = {to_be_bytes 5}" "length (sy_applied s) = 1"
    by (rule toy_run)
  show ?thesis
    using ledger_is_mints [OF toy_smt_laws toy_mint(1) mint_crypto_hashes(1) s(1)] s by metis
qed

text \<open>
  C19: a mint can always reach the ledger. From every state of the system in which the
  faucet's loop has not returned, whatever transactions and events are waiting, a mint
  of a note with a new, non-zero commitment can be accepted by the node, taken by the
  guest on the input the executor makes for it, settled and reported, in a run in which
  nothing settles that the guest does not take: then the ledger has gained exactly that
  commitment, no event is waiting, and the faucet's root is the ledger's.
\<close>

theorem mint_reaches_ledger:
  assumes "smt_laws T" "tx_laws X" "fa_state_contract app \<noteq> fa_utxo_contract app"
    and "to_be_bytes (hash_merge C [ZERO, ZERO]) = PADDING_NULLIFIER"
    and "\<forall>cs. is_state_action K (structured_data X None (Some cs) HYLI_UTXO_STATE_ACTION)"
    and "system_reach others G V C X T K (system_start T app token) s" "sy_running s"
    and "note_commitment C n \<noteq> ZERO" "named_caller X (mint_bytes C n) \<noteq> Some 0"
    and "to_be_bytes (note_commitment C n) \<notin> created_set T (ex_state (sy_executor s))"
  shows "\<exists>s'. system_reach False (guest_takes X T) V C X T K s s' \<and> sy_events s' = [] \<and>
    created_set T (ex_state (sy_executor s')) =
      insert (to_be_bytes (note_commitment C n)) (created_set T (ex_state (sy_executor s))) \<and>
    to_be_bytes (fa_notes_root (sy_app s')) = smt_root T (notes_tree (ex_state (sy_executor s')))"
proof -
  have inv: "system_inv T app token s"
    by (rule system_reach_inv [OF assms(6,1) system_start_inv [OF assms(1)]])
  show ?thesis by (rule mint_run [OF assms(1,2) inv assms(7,3-5,8-10), where V = V]) blast
qed

theorem mint_reaches_ledger_witness:
  "\<exists>s'. system_reach False (guest_takes toy_tx toy_smt) toy_faucet_env mint_crypto toy_tx toy_smt toy_node_client
      (system_start toy_smt toy_faucet ''token'') s' \<and> created_set toy_smt (ex_state (sy_executor s')) = {to_be_bytes 5}"
proof -
  let ?s = "system_start toy_smt toy_faucet ''token''"
  have r: "system_reach False (guest_takes toy_tx toy_smt) toy_faucet_env mint_crypto toy_tx toy_smt toy_node_client ?s ?s" by (simp add: system_reach_def)
  have z: "created_set toy_smt (ex_state (sy_executor ?s)) = {}" "sy_running ?s"
    using state_default_sets [OF toy_smt_laws] by (simp_all add: system_start_def executor_new_def)
  have n: "note_commitment mint_crypto toy_note \<noteq> ZERO" by (simp add: toy_mint(3) ZERO_def)
  show ?thesis
    using mint_reaches_ledger [OF toy_smt_laws toy_tx_laws toy_mint(1) mint_crypto_hashes(1) toy_mint(2) r z(2) n toy_mint(4)]
    by (auto simp: z toy_mint(3))
qed

end
