(* ===== verification/Backend.thy ===== *)
theory Backend
  imports HyliCircuits
begin

text \<open>
  Running circuits and the \<^verbatim>\<open>bb\<close> program: \<^verbatim>\<open>execute.rs\<close>, \<^verbatim>\<open>prove.rs\<close>, \<^verbatim>\<open>verify.rs\<close>, the two
  backends of \<^verbatim>\<open>pkg/barretenberg/src/backend\<close>, the verification commands of the Hyli
  circuits, and the bytecode of a compiled program (\<^verbatim>\<open>circuits/mod.rs\<close>).  The Noir crates,
  the file system and the command itself are parameters.
\<close>

section \<open>Executing a circuit (execute.rs)\<close>

text \<open>
  \<^term>\<open>abi_encode\<close> and \<^term>\<open>abi_decode\<close> are the program's ABI, \<^term>\<open>nargo_execute\<close> solves the
  witness with the black-box solver, pedantically or not, and gives the witness stack,
  innermost call last, and \<^term>\<open>bincode_stack\<close> serialises it.
\<close>

record ('f, 'a, 'w, 'e) noir_tools =
  abi_encode :: "circuit \<Rightarrow> 'f input_map \<Rightarrow> 'e + 'a"
  nargo_execute :: "circuit \<Rightarrow> 'a \<Rightarrow> bool \<Rightarrow> 'e + 'w list"
  abi_decode :: "circuit \<Rightarrow> 'w \<Rightarrow> 'e + 'f input_map \<times> 'f noir_value option"
  bincode_stack :: "'w list \<Rightarrow> 'e + byte list"

record ('f, 'w) execution_results =
  er_actual_return :: "'f noir_value option"
  er_witness_stack :: "'w list"

text \<open>A failed run is diagnosed on the terminal and its error returned.\<close>

definition execute_program :: "('f, 'a, 'w, 'e) noir_tools \<Rightarrow> circuit \<Rightarrow> 'f input_map \<Rightarrow> bool \<Rightarrow> 'e + 'w list" where
  "execute_program N compiled_program inputs_map pedantic_solving =
     andThen (abi_encode N compiled_program inputs_map) (\<lambda>initial_witness.
     nargo_execute N compiled_program initial_witness pedantic_solving)"

text \<open>The main witness is the top of the stack, that is the last; without one the code panics.\<close>

definition execute_program_and_decode ::
  "('f, 'a, 'w, 'e) noir_tools \<Rightarrow> circuit \<Rightarrow> 'f input_map \<Rightarrow> bool \<Rightarrow> ('e + ('f, 'w) execution_results) panics" where
  "execute_program_and_decode N program inputs_map pedantic_solving =
     (case execute_program N program inputs_map pedantic_solving of
        Inl e \<Rightarrow> Returns (Inl e)
      | Inr witness_stack \<Rightarrow>
          if witness_stack = [] then Panics
          else Returns (mapOk (\<lambda>(_, actual_return).
              \<lparr> er_actual_return = actual_return, er_witness_stack = witness_stack \<rparr>)
            (abi_decode N program (last witness_stack))))"

section \<open>The command-line backend (backend/bb_cli.rs)\<close>

text \<open>
  The command's arguments: words, the paths of temporary files, given by their content,
  and the output directory.  Making a temporary file and starting the command may fail;
  the command leaves files in the output directory.
\<close>

datatype bb_arg = Word string | File "byte list" | OutputDir

datatype bb_file = KeyFile | ProgramFile | WitnessFile | ProofFile | PublicInputsFile

record 'e bb_output =
  bo_success :: bool
  bo_stderr :: "byte list"
  bo_files :: "string \<Rightarrow> 'e + byte list"

record 'e bb_env =
  gzip :: "byte list \<Rightarrow> 'e + byte list"
  temp_file :: "bb_file \<Rightarrow> byte list \<Rightarrow> 'e + unit"
  temp_dir :: "'e + unit"
  run_bb :: "bb_arg list \<Rightarrow> 'e + 'e bb_output"

datatype 'e bb_error = IoError 'e | StderrNotUtf8 | Stderr string

definition bb_failure :: "'e bb_output \<Rightarrow> 'e bb_error" where
  "bb_failure out = (if utf8_valid (bo_stderr out) then Stderr (bytes_string (bo_stderr out)) else StderrNotUtf8)"

definition prove_args :: "byte list \<Rightarrow> byte list \<Rightarrow> byte list \<Rightarrow> bool \<Rightarrow> bool \<Rightarrow> bb_arg list" where
  "prove_args program witness_gz key recursive oracle_hash_keccak =
     [Word ''prove'', Word ''-v'', Word ''--scheme'', Word ''ultra_honk'', Word ''-b'', File program,
      Word ''-w'', File witness_gz, Word ''-o'', OutputDir, Word ''-k'', File key] @
     (if recursive then [Word ''--ipa_accumulation''] else []) @
     (if oracle_hash_keccak then [Word ''--oracle_hash'', Word ''keccak''] else [])"

definition cli_backend_prove ::
  "'e bb_env \<Rightarrow> byte list \<Rightarrow> byte list \<Rightarrow> byte list \<Rightarrow> byte list \<Rightarrow> bool \<Rightarrow> bool \<Rightarrow> 'e bb_error + byte list" where
  "cli_backend_prove E program bytecode key witness recursive oracle_hash_keccak =
     andThen (mapErr IoError (gzip E witness)) (\<lambda>witness_gz.
     andThen (mapErr IoError (temp_file E ProgramFile program)) (\<lambda>_.
     andThen (mapErr IoError (temp_file E WitnessFile witness_gz)) (\<lambda>_.
     andThen (mapErr IoError (temp_dir E)) (\<lambda>_.
     andThen (mapErr IoError (temp_file E KeyFile key)) (\<lambda>_.
     andThen (mapErr IoError (run_bb E (prove_args program witness_gz key recursive oracle_hash_keccak))) (\<lambda>out.
     if \<not> bo_success out then Inl (bb_failure out)
     else
     andThen (mapErr IoError (bo_files out ''proof'')) (\<lambda>proof_bytes.
     andThen (mapErr IoError (bo_files out ''public_inputs'')) (\<lambda>public_inputs.
     Inr (public_inputs @ proof_bytes)))))))))"

definition verify_args :: "byte list \<Rightarrow> byte list \<Rightarrow> byte list \<Rightarrow> bool \<Rightarrow> bb_arg list" where
  "verify_args key proof_bytes public_inputs_bytes oracle_hash_keccak =
     [Word ''verify'', Word ''-v'', Word ''--scheme'', Word ''ultra_honk'', Word ''-k'', File key,
      Word ''-p'', File proof_bytes, Word ''-i'', File public_inputs_bytes] @
     (if oracle_hash_keccak then [Word ''--oracle_hash'', Word ''keccak''] else [])"

text \<open>The files and the command, common to the three verifiers.\<close>

definition bb_verify_command ::
  "'e bb_env \<Rightarrow> byte list \<Rightarrow> byte list \<Rightarrow> byte list \<Rightarrow> bool \<Rightarrow> 'e bb_error + unit" where
  "bb_verify_command E key public_inputs_bytes proof_bytes oracle_hash_keccak =
     andThen (mapErr IoError (temp_file E ProofFile proof_bytes)) (\<lambda>_.
     andThen (mapErr IoError (temp_file E PublicInputsFile public_inputs_bytes)) (\<lambda>_.
     andThen (mapErr IoError (run_bb E (verify_args key proof_bytes public_inputs_bytes oracle_hash_keccak))) (\<lambda>out.
     if bo_success out then Inr () else Inl (bb_failure out))))"

definition cli_backend_verify ::
  "'e bb_env \<Rightarrow> byte list \<Rightarrow> byte list \<Rightarrow> bool \<Rightarrow> 'e bb_error verify_error + unit" where
  "cli_backend_verify E proof_bytes key oracle_hash_keccak =
     andThen (mapErr (\<lambda>e. VerifierSays (IoError e)) (temp_file E KeyFile key)) (\<lambda>_.
     let public_inputs_len = UTXO_PUBLIC_INPUTS_COUNT * 32 in
     if length proof_bytes < public_inputs_len then Inl ProofTooShort
     else
       (let public_inputs_bytes = take public_inputs_len proof_bytes;
            proof_bytes = drop public_inputs_len proof_bytes
        in if length proof_bytes mod 32 \<noteq> 0 then Inl ProofNotFields
           else mapErr VerifierSays (bb_verify_command E key public_inputs_bytes proof_bytes oracle_hash_keccak)))"

text \<open>The verifiers of the two Hyli circuits, each with its own number of public inputs.\<close>

definition hyli_verify_with_bb :: "'e bb_env \<Rightarrow> byte list \<Rightarrow> byte list \<Rightarrow> 'e bb_error verify_error + unit" where
  "hyli_verify_with_bb E key proof_with_inputs =
     andThen (mapErr (\<lambda>e. VerifierSays (IoError e)) (temp_file E KeyFile key)) (\<lambda>_.
     let public_inputs_len = HYLI_UTXO_PUBLIC_INPUTS_COUNT * 32 in
     if length proof_with_inputs < public_inputs_len then Inl ProofTooShort
     else
       (let public_inputs_bytes = take public_inputs_len proof_with_inputs;
            proof_bytes = drop public_inputs_len proof_with_inputs
        in if length proof_bytes mod 32 \<noteq> 0 then Inl ProofNotFields
           else mapErr VerifierSays (bb_verify_command E key public_inputs_bytes proof_bytes False)))"

definition smt_incl_verify_with_bb :: "'e bb_env \<Rightarrow> byte list \<Rightarrow> byte list \<Rightarrow> 'e bb_error verify_error + unit" where
  "smt_incl_verify_with_bb E key proof_with_inputs =
     (let public_inputs_len = HYLI_SMT_INCL_PUBLIC_INPUTS_COUNT * 32 in
      if length proof_with_inputs < public_inputs_len then Inl ProofTooShort
      else
        (let public_inputs_bytes = take public_inputs_len proof_with_inputs;
             proof_bytes = drop public_inputs_len proof_with_inputs
         in andThen (mapErr (\<lambda>e. VerifierSays (IoError e)) (temp_file E KeyFile key)) (\<lambda>_.
            mapErr VerifierSays (bb_verify_command E key public_inputs_bytes proof_bytes False))))"

section \<open>Proving (prove.rs)\<close>

text \<open>
  \<^term>\<open>B\<close> is the backend's \<^verbatim>\<open>prove\<close>, with the program, its bytecode and the key; \<^term>\<open>wrap\<close> turns the
  errors of the Noir crates into those of the backend (\<^verbatim>\<open>Box<dyn Error>\<close>).
\<close>

definition prove_with ::
  "('f, 'a, 'w, 'e) noir_tools \<Rightarrow> ('e \<Rightarrow> 'x) \<Rightarrow>
   (byte list \<Rightarrow> byte list \<Rightarrow> byte list \<Rightarrow> byte list \<Rightarrow> bool \<Rightarrow> bool \<Rightarrow> 'x + byte list) \<Rightarrow>
   circuit \<Rightarrow> byte list \<Rightarrow> byte list \<Rightarrow> byte list \<Rightarrow> 'f input_map \<Rightarrow> bool \<Rightarrow> bool \<Rightarrow> ('x + byte list) panics" where
  "prove_with N wrap B compiled_program program bytecode key inputs_map recursive oracle_hash_keccak =
     ifReturns (execute_program_and_decode N compiled_program inputs_map False) (\<lambda>results.
     Returns (
       andThen (mapErr wrap results) (\<lambda>results.
       andThen (mapErr wrap (bincode_stack N (er_witness_stack results))) (\<lambda>witness.
       B program bytecode key witness recursive oracle_hash_keccak))))"

section \<open>The bytecode of a compiled program (circuits/mod.rs)\<close>

text \<open>
  The arguments stand for \<^verbatim>\<open>serde_json\<close> (the text of a member of a JSON object), base64 and gzip;
  every failure is unwrapped.
\<close>

definition get_bytecode_from_program ::
  "(string \<Rightarrow> string \<Rightarrow> string option) \<Rightarrow> (string \<Rightarrow> byte list option) \<Rightarrow> (byte list \<Rightarrow> byte list option)
   \<Rightarrow> string \<Rightarrow> byte list option" where
  "get_bytecode_from_program json_member base64_decode gunzip program_json =
     Option.bind (json_member program_json ''bytecode'') (\<lambda>bytecode_base64.
     Option.bind (base64_decode bytecode_base64) (\<lambda>bytecode_gzipped.
     gunzip bytecode_gzipped))"

section \<open>The library backend (backend/bb\_rs.rs)\<close>

text \<open>
  The library is called under a mutex, after its reference string was loaded once; a
  panic inside a call poisons the mutex, and unwrapping the poisoned lock panics.
\<close>

record acir_ops =
  acir_prove :: "bool \<Rightarrow> byte list \<Rightarrow> byte list \<Rightarrow> byte list \<Rightarrow> byte list panics"
  acir_verify :: "bool \<Rightarrow> byte list \<Rightarrow> byte list \<Rightarrow> bool panics"

record binding_state =
  bd_srs_loads :: nat
  bd_poisoned :: bool

definition load_srs :: "binding_state \<Rightarrow> binding_state" where
  "load_srs s = (if bd_srs_loads s = 0 then s\<lparr> bd_srs_loads := 1 \<rparr> else s)"

definition binding_prove ::
  "acir_ops \<Rightarrow> binding_state \<Rightarrow> byte list \<Rightarrow> byte list \<Rightarrow> byte list \<Rightarrow> byte list \<Rightarrow> bool \<Rightarrow> bool
   \<Rightarrow> binding_state \<times> ('e + byte list) panics" where
  "binding_prove L s program bytecode key witness recursive oracle_hash_keccak =
     (if bd_poisoned s then (s, Panics)
      else
        (let s = load_srs s in
         case acir_prove L oracle_hash_keccak bytecode witness key of
           Panics \<Rightarrow> (s\<lparr> bd_poisoned := True \<rparr>, Panics)
         | Returns bytes \<Rightarrow> (s, Returns (Inr bytes))))"

datatype binding_error = ProofVerificationFailed

definition binding_verify ::
  "acir_ops \<Rightarrow> binding_state \<Rightarrow> byte list \<Rightarrow> byte list \<Rightarrow> bool \<Rightarrow> binding_state \<times> (binding_error + unit) panics" where
  "binding_verify L s proof_bytes key oracle_hash_keccak =
     (if bd_poisoned s then (s, Panics)
      else
        (let s = load_srs s in
         case acir_verify L oracle_hash_keccak proof_bytes key of
           Panics \<Rightarrow> (s\<lparr> bd_poisoned := True \<rparr>, Panics)
         | Returns verified \<Rightarrow> (s, Returns (if verified then Inr () else Inl ProofVerificationFailed))))"

inductive binding_step :: "acir_ops \<Rightarrow> binding_state \<Rightarrow> bool \<Rightarrow> binding_state \<Rightarrow> bool" for L :: acir_ops where
  proving: "binding_prove L s program bytecode key witness recursive oracle_hash_keccak = (s', r :: (unit + byte list) panics) \<Longrightarrow>
    binding_step L s (r = Panics) s'"
| verifying: "binding_verify L s bytes key oracle_hash_keccak = (s', v) \<Longrightarrow> binding_step L s (v = Panics) s'"

text \<open>A run, with which of its calls panicked, in order.\<close>

inductive binding_run :: "acir_ops \<Rightarrow> binding_state \<Rightarrow> bool list \<Rightarrow> binding_state \<Rightarrow> bool" for L :: acir_ops where
  idle: "binding_run L s [] s"
| call: "binding_step L s p s' \<Longrightarrow> binding_run L s' ps s'' \<Longrightarrow> binding_run L s (p # ps) s''"

lemma binding_step_effect:
  assumes "binding_step L s p s'"
  shows "(if bd_poisoned s then s' = s \<and> p else bd_poisoned s' = p \<and> bd_srs_loads s' = max 1 (bd_srs_loads s))"
  using assms
  by cases (auto simp: binding_prove_def binding_verify_def load_srs_def Let_def split: panics.splits if_splits)

text \<open>
  The reference string is loaded at the first call and never again; the calls before the
  first panic return, and every call after it panics.
\<close>

lemma binding_run_effect:
  assumes "binding_run L s ps s'" "\<not> bd_poisoned s" "bd_srs_loads s \<le> 1"
  shows "bd_srs_loads s' = (if ps = [] then bd_srs_loads s else 1) \<and>
    (\<exists>k. ps = replicate k False @ replicate (length ps - k) True \<and> k \<le> length ps)"
proof -
  have poisoned: "ps = replicate (length ps) True \<and> s' = s" if "binding_run L s ps s'" "bd_poisoned s" for s ps s'
    using that by (induction rule: binding_run.induct) (auto dest: binding_step_effect)
  show ?thesis using assms
  proof (induction rule: binding_run.induct)
    case (call s p s' ps s'')
    have st: "bd_poisoned s' = p" "bd_srs_loads s' = 1"
      using binding_step_effect [OF call.hyps(1)] call.prems by simp_all
    show ?case
    proof (cases p)
      case True
      then have "ps = replicate (length ps) True" "s'' = s'" using poisoned [OF call.hyps(2)] st by auto
      then show ?thesis using st True by (intro conjI exI [of _ 0]) simp_all
    next
      case False
      then obtain k where "bd_srs_loads s'' = 1" "ps = replicate k False @ replicate (length ps - k) True" "k \<le> length ps"
        using call.IH st by (auto split: if_splits)
      then show ?thesis using False by (intro conjI exI [of _ "Suc k"]) simp_all
    qed
  qed simp
qed

section \<open>The verifiers implement the ones of the circuits\<close>

definition implements_verify :: "'e bb_env \<Rightarrow> (circuit \<Rightarrow> byte list) \<Rightarrow> ('f, 'e bb_error) backend \<Rightarrow> bool" where
  "implements_verify E key B \<longleftrightarrow>
     (\<forall>c. temp_file E KeyFile (key c) = Inr ()) \<and>
     (\<forall>c public_inputs proof_bytes k. bb_verify B c public_inputs proof_bytes k =
        bb_verify_command E (key c) public_inputs proof_bytes k)"

lemma cli_backend_verify_eq:
  assumes "implements_verify E key B"
  shows "cli_backend_verify E bytes (key c) k = cli_verify B c bytes k"
    and "hyli_verify_with_bb E (key HyliUtxoCircuit) bytes = verify_with_bb B bytes"
    and "smt_incl_verify_with_bb E (key HyliSmtInclCircuit) (hyli_smt_incl_proof_to_bytes p) = hyli_smt_incl_verify B p"
  using assms
  by (simp_all add: implements_verify_def cli_backend_verify_def cli_verify_def hyli_verify_with_bb_def verify_with_bb_def
      smt_incl_verify_with_bb_def hyli_smt_incl_verify_def Let_def)

section \<open>Properties\<close>

lemma verify_args_inj:
  "verify_args key pf pi k = verify_args key' pf' pi' k' \<longleftrightarrow> key = key' \<and> pf = pf' \<and> pi = pi' \<and> k = k'"
  by (auto simp: verify_args_def)

lemma prove_with_cli:
  assumes "prove_with N IoError (cli_backend_prove E) c program bytecode key m recursive keccak = Returns (Inr bytes)"
  obtains witness_gz out pi pf where "run_bb E (prove_args program witness_gz key recursive keccak) = Inr out" "bo_success out"
    and "bo_files out ''public_inputs'' = Inr pi" "bo_files out ''proof'' = Inr pf" "bytes = pi @ pf"
    and "temp_file E KeyFile key = Inr ()"
proof -
  obtain r where r: "execute_program_and_decode N c m False = Returns r"
    using assms by (cases "execute_program_and_decode N c m False") (simp_all add: prove_with_def)
  obtain witness where "cli_backend_prove E program bytecode key witness recursive keccak = Inr bytes"
    using assms r by (auto simp: prove_with_def andThen_Inr_iff)
  then show thesis
    by (auto simp: cli_backend_prove_def andThen_Inr_iff intro: that split: if_splits elim!: mapErr.elims)
qed

text \<open>
  C31: what the command-line backend proves, it can verify only with the UTXO circuit's
  number of public inputs. The bytes proving returns are the public inputs and the proof
  the command left in its output directory, joined. When there are as many public inputs
  as the UTXO circuit has, verifying these bytes is running \<^verbatim>\<open>bb verify\<close> on exactly this proof
  and these inputs; with any other number the command is never run on them, so its
  verdict on the proof cannot influence the answer.
\<close>

theorem cli_proof_verification:
  assumes "prove_with N IoError (cli_backend_prove E) c program bytecode key m recursive keccak = Returns (Inr bytes)"
  shows "\<exists>witness_gz out pi pf. run_bb E (prove_args program witness_gz key recursive keccak) = Inr out \<and>
    bo_files out ''public_inputs'' = Inr pi \<and> bo_files out ''proof'' = Inr pf \<and> bytes = pi @ pf \<and>
    (if length pi = UTXO_PUBLIC_INPUTS_COUNT * 32
     then length pf mod 32 = 0 \<longrightarrow>
       cli_backend_verify E bytes key keccak = mapErr VerifierSays (bb_verify_command E key pi pf keccak)
     else \<forall>verdict. cli_backend_verify (E\<lparr> run_bb := (run_bb E)(verify_args key pf pi keccak := verdict) \<rparr>) bytes key keccak =
       cli_backend_verify E bytes key keccak)"
proof -
  obtain witness_gz out pi pf where p: "run_bb E (prove_args program witness_gz key recursive keccak) = Inr out"
      "bo_files out ''public_inputs'' = Inr pi" "bo_files out ''proof'' = Inr pf" "bytes = pi @ pf"
      "temp_file E KeyFile key = Inr ()"
    by (rule prove_with_cli [OF assms])
  let ?n = "UTXO_PUBLIC_INPUTS_COUNT * 32"
  have "verify_args key (drop ?n bytes) (take ?n bytes) keccak \<noteq> verify_args key pf pi keccak"
    if "length pi \<noteq> ?n" "?n \<le> length bytes"
    using that p(4) by (metis length_take min.absorb2 verify_args_inj)
  then have "cli_backend_verify (E\<lparr> run_bb := (run_bb E)(verify_args key pf pi keccak := verdict) \<rparr>) bytes key keccak =
      cli_backend_verify E bytes key keccak" if "length pi \<noteq> ?n" for verdict
    using that p(5) by (simp add: cli_backend_verify_def bb_verify_command_def Let_def)
  moreover have "cli_backend_verify E bytes key keccak = mapErr VerifierSays (bb_verify_command E key pi pf keccak)"
    if "length pi = ?n" "length pf mod 32 = 0"
    using that p(4,5) by (simp add: cli_backend_verify_def)
  ultimately show ?thesis using p by (intro exI [of _ witness_gz] exI [of _ out] exI [of _ pi] exI [of _ pf]) simp
qed

definition toy_tools :: "(nat, unit, unit, unit) noir_tools" where
  "toy_tools = \<lparr> abi_encode = (\<lambda>_ _. Inr ()), nargo_execute = (\<lambda>_ _ _. Inr [()]),
     abi_decode = (\<lambda>_ _. Inr (Map.empty, None)), bincode_stack = (\<lambda>_. Inr []) \<rparr>"

text \<open>A command that leaves two words of public inputs, as for signatures, and accepts that proof only.\<close>

definition toy_bb :: "unit bb_env" where
  "toy_bb = \<lparr> gzip = Inr, temp_file = (\<lambda>_ _. Inr ()), temp_dir = Inr (),
     run_bb = (\<lambda>args. Inr \<lparr> bo_success = (hd args = Word ''prove'' \<or>
         args = verify_args [] (replicate 320 2) (replicate 64 1) False), bo_stderr = [],
       bo_files = (\<lambda>f. Inr (if f = ''proof'' then replicate 320 2 else replicate 64 1)) \<rparr>) \<rparr>"

theorem cli_proof_verification_witness:
  "\<exists>bytes. prove_with toy_tools IoError (cli_backend_prove toy_bb) SignatureCircuit [] [] [] Map.empty False False =
      Returns (Inr bytes) \<and> bytes = replicate 64 1 @ replicate 320 2 \<and>
    (\<forall>verdict. cli_backend_verify (toy_bb\<lparr> run_bb := (run_bb toy_bb)(verify_args [] (replicate 320 2) (replicate 64 1) False := verdict) \<rparr>)
        bytes [] False = cli_backend_verify toy_bb bytes [] False)"
proof -
  have p: "prove_with toy_tools IoError (cli_backend_prove toy_bb) SignatureCircuit [] [] [] Map.empty False False =
      Returns (Inr (replicate 64 1 @ replicate 320 2))"
    by (simp add: prove_with_def toy_tools_def execute_program_and_decode_def execute_program_def
        cli_backend_prove_def toy_bb_def prove_args_def)
  have f: "pi = replicate 64 1 \<and> pf = replicate 320 2"
    if "run_bb toy_bb a = Inr out" "bo_files out ''public_inputs'' = Inr pi" "bo_files out ''proof'' = Inr pf" for a out pi pf
    using that by (auto simp: toy_bb_def)
  have n: "length (replicate 64 (1 :: byte)) \<noteq> UTXO_PUBLIC_INPUTS_COUNT * 32" by (simp add: UTXO_PUBLIC_INPUTS_COUNT_def)
  obtain witness_gz out pi pf where o: "run_bb toy_bb (prove_args [] witness_gz [] False False) = Inr out"
      "bo_files out ''public_inputs'' = Inr pi" "bo_files out ''proof'' = Inr pf"
    and v: "if length pi = UTXO_PUBLIC_INPUTS_COUNT * 32
     then length pf mod 32 = 0 \<longrightarrow> cli_backend_verify toy_bb (replicate 64 1 @ replicate 320 2) [] False =
       mapErr VerifierSays (bb_verify_command toy_bb [] pi pf False)
     else \<forall>verdict. cli_backend_verify (toy_bb\<lparr> run_bb := (run_bb toy_bb)(verify_args [] pf pi False := verdict) \<rparr>)
         (replicate 64 1 @ replicate 320 2) [] False =
       cli_backend_verify toy_bb (replicate 64 1 @ replicate 320 2) [] False"
    using cli_proof_verification [OF p] by blast
  note v [unfolded f [OF o, THEN conjunct1] f [OF o, THEN conjunct2] if_not_P [OF n]]
  then show ?thesis using p by blast
qed

end
