(* ===== verification/ProverModule.thy ===== *)
theory ProverModule
  imports Provers "HOL-Library.Multiset"
begin

text \<open>
  The run loops of the two proving modules (\<^verbatim>\<open>server/src/noir_prover.rs\<close>,
  \<^verbatim>\<open>smt_incl_prover.rs\<close>), which spawn a task per job and join the finished ones, and the
  metrics they share with the API (\<^verbatim>\<open>server/src/metrics.rs\<close>, with the instrumentation
  feature), whose count of running jobs is changed atomically and then recorded as a gauge.
\<close>

section \<open>Metrics (metrics.rs)\<close>

text \<open>The counters by label, the histogram and the gauge, values recorded latest last.\<close>

record faucet_metrics =
  fm_requests_total :: "string \<Rightarrow> u64"
  fm_requests_failed :: "string \<Rightarrow> u64"
  fm_minted_amount :: "u64 list"
  fm_noir_jobs_gauge :: "u64 list"
  fm_current_noir_jobs :: u64

definition metrics_global :: faucet_metrics where
  "metrics_global = \<lparr> fm_requests_total = (\<lambda>_. 0), fm_requests_failed = (\<lambda>_. 0), fm_minted_amount = [],
     fm_noir_jobs_gauge = [], fm_current_noir_jobs = 0 \<rparr>"

definition record_success :: "u64 \<Rightarrow> faucet_metrics \<Rightarrow> faucet_metrics" where
  "record_success amount m =
     m\<lparr> fm_requests_total := (fm_requests_total m)(''success'' := fm_requests_total m ''success'' + 1),
        fm_minted_amount := fm_minted_amount m @ [amount] \<rparr>"

definition record_failure :: "string \<Rightarrow> faucet_metrics \<Rightarrow> faucet_metrics" where
  "record_failure reason m =
     m\<lparr> fm_requests_total := (fm_requests_total m)(''failure'' := fm_requests_total m ''failure'' + 1),
        fm_requests_failed := (fm_requests_failed m)(reason := fm_requests_failed m reason + 1) \<rparr>"

text \<open>
  The counter and the gauge are two objects: \<^verbatim>\<open>fetch_add\<close> and \<^verbatim>\<open>compare_exchange\<close> act on
  the first, \<^verbatim>\<open>record\<close> on the second.
\<close>

definition jobs_fetch_add :: "faucet_metrics \<Rightarrow> faucet_metrics \<times> u64" where
  "jobs_fetch_add m =
     (let current = fm_current_noir_jobs m + 1 in (m\<lparr> fm_current_noir_jobs := current \<rparr>, current))"

definition gauge_record :: "u64 \<Rightarrow> faucet_metrics \<Rightarrow> faucet_metrics" where
  "gauge_record v m = m\<lparr> fm_noir_jobs_gauge := fm_noir_jobs_gauge m @ [v] \<rparr>"

definition track_noir_job_started :: "faucet_metrics \<Rightarrow> faucet_metrics" where
  "track_noir_job_started m = (case jobs_fetch_add m of (m', current) \<Rightarrow> gauge_record current m')"

text \<open>
  One turn of the loop of \<^verbatim>\<open>track_noir_job_finished\<close> with the value read last: the value to
  record before returning, or the value to try next.
\<close>

definition finished_turn :: "u64 \<Rightarrow> faucet_metrics \<Rightarrow> faucet_metrics \<times> (u64 + u64)" where
  "finished_turn current m =
     (if current = 0 then (m, Inl 0)
      else if fm_current_noir_jobs m = current then (m\<lparr> fm_current_noir_jobs := current - 1 \<rparr>, Inl (current - 1))
      else (m, Inr (fm_current_noir_jobs m)))"

text \<open>The whole call when no other thread interferes: the first turn leaves the loop.\<close>

definition track_noir_job_finished :: "faucet_metrics \<Rightarrow> faucet_metrics" where
  "track_noir_job_finished m =
     (case finished_turn (fm_current_noir_jobs m) m of
        (m', Inl v) \<Rightarrow> gauge_record v m'
      | (m', Inr current) \<Rightarrow>
          (case finished_turn current m' of (m'', Inl v) \<Rightarrow> gauge_record v m'' | (m'', Inr _) \<Rightarrow> m''))"

subsection \<open>The gauge under interleaving\<close>

text \<open>
  Threads that start jobs and threads that report finished ones, each of the latter before
  its load (\<^term>\<open>None\<close>) or in its loop with a value.  A thread that has changed the counter
  still has its value to record.  The jobs running, all starts and the number of jobs in
  progress after each change of the counter are counted on the side.  With
  \<^term>\<open>overlap\<close> a thread may change the counter while another has a value to record.
\<close>

record gauge_state =
  gs_metrics :: faucet_metrics
  gs_running :: nat
  gs_finishers :: "u64 option list"
  gs_records :: "u64 list"
  gs_started :: nat
  gs_history :: "nat list"

definition in_progress :: "gauge_state \<Rightarrow> nat" where
  "in_progress s = gs_running s + length (gs_finishers s)"

inductive gauge_step :: "bool \<Rightarrow> gauge_state \<Rightarrow> gauge_state \<Rightarrow> bool" for overlap :: bool where
  start: "overlap \<or> gs_records s = [] \<Longrightarrow> jobs_fetch_add (gs_metrics s) = (m, v) \<Longrightarrow>
    gauge_step overlap s (s\<lparr> gs_metrics := m, gs_running := Suc (gs_running s), gs_records := gs_records s @ [v],
      gs_started := Suc (gs_started s), gs_history := gs_history s @ [Suc (in_progress s)] \<rparr>)"
| finishes: "gs_running s = Suc n \<Longrightarrow>
    gauge_step overlap s (s\<lparr> gs_running := n, gs_finishers := gs_finishers s @ [None] \<rparr>)"
| load: "gs_finishers s = xs @ None # ys \<Longrightarrow>
    gauge_step overlap s (s\<lparr> gs_finishers := xs @ Some (fm_current_noir_jobs (gs_metrics s)) # ys \<rparr>)"
| retries: "gs_finishers s = xs @ Some current # ys \<Longrightarrow> finished_turn current (gs_metrics s) = (m, Inr next_value) \<Longrightarrow>
    gauge_step overlap s (s\<lparr> gs_metrics := m, gs_finishers := xs @ Some next_value # ys \<rparr>)"
| leaves: "overlap \<or> gs_records s = [] \<Longrightarrow> gs_finishers s = xs @ Some current # ys \<Longrightarrow>
    finished_turn current (gs_metrics s) = (m, Inl v) \<Longrightarrow>
    gauge_step overlap s (s\<lparr> gs_metrics := m, gs_finishers := xs @ ys, gs_records := gs_records s @ [v],
      gs_history := gs_history s @ [in_progress s - 1] \<rparr>)"
| records: "gs_records s = xs @ v # ys \<Longrightarrow>
    gauge_step overlap s (s\<lparr> gs_metrics := gauge_record v (gs_metrics s), gs_records := xs @ ys \<rparr>)"

definition gauge_start :: gauge_state where
  "gauge_start = \<lparr> gs_metrics = metrics_global, gs_running = 0, gs_finishers = [], gs_records = [],
     gs_started = 0, gs_history = [] \<rparr>"

text \<open>The values recorded so far and those still to be recorded.\<close>

definition gauge_values :: "gauge_state \<Rightarrow> nat list" where
  "gauge_values s = map unat (fm_noir_jobs_gauge (gs_metrics s) @ gs_records s)"

definition gauge_inv :: "bool \<Rightarrow> gauge_state \<Rightarrow> bool" where
  "gauge_inv overlap s \<longleftrightarrow>
     fm_current_noir_jobs (gs_metrics s) = of_nat (in_progress s) \<and> in_progress s \<le> gs_started s \<and>
     Some 0 \<notin> set (gs_finishers s) \<and> last (0 # gs_history s) = in_progress s \<and>
     mset (gauge_values s) = mset (gs_history s) \<and>
     (\<not> overlap \<longrightarrow> length (gs_records s) \<le> 1 \<and> gauge_values s = gs_history s)"

lemma of_nat_u64_nonzero: "0 < n \<Longrightarrow> n < 2 ^ 64 \<Longrightarrow> (of_nat n :: u64) \<noteq> 0"
  by (simp add: word_of_nat_eq_0_iff) (auto dest: dvd_imp_le)

lemma unat_of_nat_u64: "n < 2 ^ 64 \<Longrightarrow> unat (of_nat n :: u64) = n"
  by (simp add: unat_of_nat)

lemmas gauge_defs = gauge_inv_def gauge_values_def in_progress_def

lemma gauge_step_inv:
  assumes "gauge_step overlap s s'" "gauge_inv overlap s" "gs_started s' < 2 ^ 64"
  shows "gauge_inv overlap s'"
proof -
  have n: "fm_current_noir_jobs (gs_metrics s) = of_nat (in_progress s)" "in_progress s \<le> gs_started s"
      "Some 0 \<notin> set (gs_finishers s)" "last (0 # gs_history s) = in_progress s"
    and v: "mset (gauge_values s) = mset (gs_history s)"
    and o: "\<not> overlap \<Longrightarrow> length (gs_records s) \<le> 1 \<and> gauge_values s = gs_history s"
    using assms(2) by (simp_all add: gauge_inv_def)
  show ?thesis
    using assms(1)
  proof cases
    case (start m x)
    have m: "fm_current_noir_jobs m = of_nat (Suc (in_progress s))" "x = of_nat (Suc (in_progress s))"
        "fm_noir_jobs_gauge m = fm_noir_jobs_gauge (gs_metrics s)"
      using start(3) n(1) by (auto simp: jobs_fetch_add_def Let_def)
    have p: "in_progress s' = Suc (in_progress s)" using start(1) by (simp add: in_progress_def)
    have "unat x = Suc (in_progress s)"
      unfolding m(2) by (rule unat_of_nat_u64) (use n(2) assms(3) start(1) in simp)
    then have "gauge_values s' = gauge_values s @ [Suc (in_progress s)]"
      using start(1) m(3) by (simp add: gauge_values_def)
    then show ?thesis unfolding gauge_inv_def p using start(1,2) m(1) n v o by auto
  next
    case (finishes k)
    then show ?thesis using assms(2) by (simp add: gauge_defs)
  next
    case (load xs ys)
    have "0 < in_progress s" "in_progress s < 2 ^ 64" using load n(2) assms(3) by (simp_all add: in_progress_def)
    then have "(of_nat (in_progress s) :: u64) \<noteq> 0" by (rule of_nat_u64_nonzero)
    then show ?thesis using assms(2) load n(1) by (auto simp: gauge_defs)
  next
    case (retries xs current ys m c)
    have "0 < in_progress s" "in_progress s < 2 ^ 64" using retries n(2) assms(3) by (simp_all add: in_progress_def)
    then have "(of_nat (in_progress s) :: u64) \<noteq> 0" by (rule of_nat_u64_nonzero)
    moreover have "m = gs_metrics s" "c = of_nat (in_progress s)"
      using retries(3) n(1) by (auto simp: finished_turn_def split: if_splits)
    ultimately show ?thesis using assms(2) retries(1,2) by (auto simp: gauge_defs)
  next
    case (leaves xs current ys m x)
    obtain k where k: "in_progress s = Suc k" using leaves(3) by (simp add: in_progress_def)
    have "current \<noteq> 0" using n(3) leaves(3) by auto
    moreover have "fm_current_noir_jobs (gs_metrics s) - 1 = of_nat k" using n(1) k by simp
    ultimately have m: "fm_current_noir_jobs m = of_nat k" "x = of_nat k"
        "fm_noir_jobs_gauge m = fm_noir_jobs_gauge (gs_metrics s)"
      using leaves(4) by (auto simp: finished_turn_def split: if_splits)
    have p: "in_progress s' = k" using leaves(1,3) k by (simp add: in_progress_def)
    have "unat x = k" unfolding m(2) by (rule unat_of_nat_u64) (use n(2) assms(3) leaves(1) k in simp)
    then have "gauge_values s' = gauge_values s @ [k]" using leaves(1) m(3) by (simp add: gauge_values_def)
    then show ?thesis unfolding gauge_inv_def p using leaves(1-3) k m(1) n v o by auto
  next
    case (records xs x ys)
    have "mset (gauge_values s') = mset (gauge_values s)"
      using records by (simp add: gauge_values_def gauge_record_def)
    moreover have "gauge_values s' = gauge_values s" if "length (gs_records s) \<le> 1"
      using records that by (simp add: gauge_values_def gauge_record_def)
    ultimately show ?thesis using records n v o by (auto simp: gauge_inv_def in_progress_def gauge_record_def)
  qed
qed

lemma gauge_started_mono: "gauge_step overlap s s' \<Longrightarrow> gs_started s \<le> gs_started s'"
  by (induction rule: gauge_step.induct) simp_all

lemma gauge_reach_inv:
  "(gauge_step overlap)\<^sup>*\<^sup>* gauge_start s \<Longrightarrow> gs_started s < 2 ^ 64 \<Longrightarrow> gauge_inv overlap s"
proof (induction rule: rtranclp_induct)
  case base
  show ?case by (simp add: gauge_defs gauge_start_def metrics_global_def)
next
  case (step s s')
  then show ?case using gauge_step_inv [OF step.hyps(2)] gauge_started_mono [OF step.hyps(2)] by simp
qed

text \<open>Every value can be recorded and every report brought to its end, whatever the others hold.\<close>

lemma records_end:
  obtains s' where "(gauge_step overlap)\<^sup>*\<^sup>* s s'" "gs_records s' = []" "gs_finishers s' = gs_finishers s"
    "gs_running s' = gs_running s" "gs_started s' = gs_started s"
proof (induction "length (gs_records s)" arbitrary: s thesis)
  case 0
  show ?case by (rule "0.prems" [of s]) (use 0 in simp_all)
next
  case (Suc n)
  obtain v rest where v: "gs_records s = [] @ v # rest" using Suc.hyps(2) by (metis append_Nil length_Suc_conv)
  let ?t = "s\<lparr> gs_metrics := gauge_record v (gs_metrics s), gs_records := [] @ rest \<rparr>"
  have st: "gauge_step overlap s ?t" by (rule gauge_step.records [OF v])
  obtain s' where "(gauge_step overlap)\<^sup>*\<^sup>* ?t s'" "gs_records s' = []" "gs_finishers s' = gs_finishers ?t"
      "gs_running s' = gs_running ?t" "gs_started s' = gs_started ?t"
    by (rule Suc.hyps(1) [of ?t]) (use Suc.hyps(2) v in auto)
  then show ?case using st by (intro Suc.prems [of s']) auto
qed

lemma reports_end:
  obtains s' where "(gauge_step overlap)\<^sup>*\<^sup>* s s'" "gs_finishers s' = []" "gs_running s' = gs_running s"
    "gs_started s' = gs_started s"
proof (induction "length (gs_finishers s)" arbitrary: s thesis)
  case 0
  show ?case by (rule "0.prems" [of s]) (use 0 in simp_all)
next
  case (Suc n)
  obtain s1 where s1: "(gauge_step overlap)\<^sup>*\<^sup>* s s1" "gs_records s1 = []" "gs_finishers s1 = gs_finishers s"
      "gs_running s1 = gs_running s" "gs_started s1 = gs_started s" by (rule records_end)
  obtain f rest where f: "gs_finishers s1 = f # rest" using Suc.hyps(2) s1(3) by (metis length_Suc_conv)
  then have rest: "length rest = n" using Suc.hyps(2) s1(3) by (metis length_Cons nat.inject)
  let ?c = "fm_current_noir_jobs (gs_metrics s1)"
  obtain c where l: "(gauge_step overlap)\<^sup>*\<^sup>* s1 (s1\<lparr> gs_finishers := Some c # rest \<rparr>)"
      and t: "\<exists>m v. finished_turn c (gs_metrics s1) = (m, Inl v)"
  proof (cases f)
    case None
    have "gauge_step overlap s1 (s1\<lparr> gs_finishers := Some ?c # rest \<rparr>)"
      using gauge_step.load [of s1 "[]" rest] f None by simp
    then show thesis by (intro that [of ?c]) (auto simp: finished_turn_def)
  next
    case (Some d)
    show thesis
    proof (cases "d = 0 \<or> ?c = d")
      case True
      have "s1\<lparr> gs_finishers := Some d # rest \<rparr> = s1" using f Some by simp
      then show thesis using True by (intro that [of d]) (auto simp: finished_turn_def)
    next
      case False
      then have "finished_turn d (gs_metrics s1) = (gs_metrics s1, Inr ?c)" by (simp add: finished_turn_def)
      from gauge_step.retries [OF _ this, of "[]" rest]
      have "gauge_step overlap s1 (s1\<lparr> gs_finishers := Some ?c # rest \<rparr>)" using f Some by simp
      then show thesis by (intro that [of ?c]) (auto simp: finished_turn_def)
    qed
  qed
  obtain m v where t: "finished_turn c (gs_metrics (s1\<lparr> gs_finishers := Some c # rest \<rparr>)) = (m, Inl v)" using t by auto
  have st: "gauge_step overlap (s1\<lparr> gs_finishers := Some c # rest \<rparr>) (s1\<lparr> gs_metrics := m, gs_finishers := rest,
      gs_records := [v], gs_history := gs_history s1 @ [in_progress (s1\<lparr> gs_finishers := Some c # rest \<rparr>) - 1] \<rparr>)"
    (is "gauge_step overlap ?l ?t")
    using gauge_step.leaves [OF _ _ t, of overlap "[]" rest] s1(2) by simp
  obtain s' where "(gauge_step overlap)\<^sup>*\<^sup>* ?t s'" "gs_finishers s' = []" "gs_running s' = gs_running ?t"
      "gs_started s' = gs_started ?t"
    by (rule Suc.hyps(1) [of ?t]) (use rest in auto)
  then show ?case using s1 l st by (intro Suc.prems [of s']) auto
qed

lemma all_recorded:
  obtains s' where "(gauge_step overlap)\<^sup>*\<^sup>* s s'" "gs_finishers s' = []" "gs_records s' = []"
    "gs_running s' = gs_running s" "gs_started s' = gs_started s"
proof -
  obtain t where t: "(gauge_step overlap)\<^sup>*\<^sup>* s t" "gs_finishers t = []" "gs_running t = gs_running s"
    "gs_started t = gs_started s" by (rule reports_end)
  obtain u where u: "(gauge_step overlap)\<^sup>*\<^sup>* t u" "gs_records u = []" "gs_finishers u = gs_finishers t"
    "gs_running u = gs_running t" "gs_started u = gs_started t" by (rule records_end)
  show thesis using rtranclp_trans [OF t(1) u(1)] t u by (intro that [of u]) simp_all
qed

text \<open>
  C30: the count of running jobs is exact, and so is the recorded gauge as long as no two
  updates overlap. However starts and reports of finished jobs interleave between
  reading, exchanging and recording (with fewer than \<^term>\<open>2 ^ 64\<close> jobs ever started):
  the internal counter is the number of jobs running or not yet fully reported; no report
  ever sees zero; every change of the counter has exactly one value recorded or still to
  be recorded, the number of jobs in progress right after it; and all reports under way
  can be driven to their end, where the counter is the number of running jobs. When no
  thread changes the counter between another's change and its record, the gauge has
  moreover received these numbers in their order, so it then shows that same number.
\<close>

theorem jobs_gauge_exact:
  assumes "(gauge_step overlap)\<^sup>*\<^sup>* gauge_start s" "gs_started s < 2 ^ 64"
  shows "unat (fm_current_noir_jobs (gs_metrics s)) = gs_running s + length (gs_finishers s) \<and>
    Some 0 \<notin> set (gs_finishers s) \<and> last (0 # gs_history s) = gs_running s + length (gs_finishers s) \<and>
    mset (map unat (fm_noir_jobs_gauge (gs_metrics s) @ gs_records s)) = mset (gs_history s) \<and>
    (\<not> overlap \<longrightarrow> map unat (fm_noir_jobs_gauge (gs_metrics s) @ gs_records s) = gs_history s) \<and>
    (\<exists>s'. (gauge_step overlap)\<^sup>*\<^sup>* s s' \<and> gs_finishers s' = [] \<and> gs_records s' = [] \<and> gs_running s' = gs_running s \<and>
       unat (fm_current_noir_jobs (gs_metrics s')) = gs_running s \<and>
       (\<not> overlap \<longrightarrow> last (0 # map unat (fm_noir_jobs_gauge (gs_metrics s'))) = gs_running s))"
proof -
  have exact: "unat (fm_current_noir_jobs (gs_metrics t)) = in_progress t"
    if "gauge_inv overlap t" "gs_started t < 2 ^ 64" for t
    using that unat_of_nat_u64 [of "in_progress t"] by (simp add: gauge_inv_def)
  have inv: "gauge_inv overlap s" by (rule gauge_reach_inv [OF assms])
  obtain s' where s': "(gauge_step overlap)\<^sup>*\<^sup>* s s'" "gs_finishers s' = []" "gs_records s' = []"
      "gs_running s' = gs_running s" "gs_started s' = gs_started s" by (rule all_recorded)
  have inv': "gauge_inv overlap s'" by (rule gauge_reach_inv) (use assms s' in simp_all)
  have "last (0 # map unat (fm_noir_jobs_gauge (gs_metrics s'))) = gs_running s" if "\<not> overlap"
    using inv' that s' by (simp add: gauge_defs)
  moreover have "unat (fm_current_noir_jobs (gs_metrics s')) = gs_running s"
    using exact [OF inv'] s' assms(2) by (simp add: in_progress_def)
  ultimately have "\<exists>s'. (gauge_step overlap)\<^sup>*\<^sup>* s s' \<and> gs_finishers s' = [] \<and> gs_records s' = [] \<and> gs_running s' = gs_running s \<and>
       unat (fm_current_noir_jobs (gs_metrics s')) = gs_running s \<and>
       (\<not> overlap \<longrightarrow> last (0 # map unat (fm_noir_jobs_gauge (gs_metrics s'))) = gs_running s)"
    using s' by (intro exI [of _ s']) blast
  then show ?thesis
    using exact [OF inv assms(2)] inv unfolding gauge_defs by blast
qed

definition job_up :: "gauge_state \<Rightarrow> gauge_state" where
  "job_up s = s\<lparr> gs_metrics := fst (jobs_fetch_add (gs_metrics s)), gs_running := Suc (gs_running s),
     gs_records := gs_records s @ [snd (jobs_fetch_add (gs_metrics s))],
     gs_started := Suc (gs_started s), gs_history := gs_history s @ [Suc (in_progress s)] \<rparr>"

lemma job_up_step: "overlap \<or> gs_records s = [] \<Longrightarrow> gauge_step overlap s (job_up s)"
  unfolding job_up_def by (rule gauge_step.start) simp_all

lemmas job_up_simps = job_up_def gauge_start_def metrics_global_def jobs_fetch_add_def in_progress_def Let_def gauge_record_def

theorem jobs_gauge_exact_witness:
  "\<exists>s. (gauge_step False)\<^sup>*\<^sup>* gauge_start s \<and> gs_running s = 0 \<and> gs_finishers s = [None] \<and>
     unat (fm_current_noir_jobs (gs_metrics s)) = 1 \<and> map unat (fm_noir_jobs_gauge (gs_metrics s)) = [1]"
proof -
  let ?s = "job_up gauge_start"
  let ?r = "?s\<lparr> gs_metrics := gauge_record 1 (gs_metrics ?s), gs_records := [] @ [] \<rparr>"
  let ?f = "?r\<lparr> gs_running := 0, gs_finishers := gs_finishers ?r @ [None] \<rparr>"
  have "gauge_step False gauge_start ?s" by (rule job_up_step) (simp add: gauge_start_def)
  moreover have "gauge_step False ?s ?r" by (rule gauge_step.records) (simp add: job_up_simps)
  moreover have "gauge_step False ?r ?f" by (rule gauge_step.finishes) (simp add: job_up_simps)
  ultimately have r: "(gauge_step False)\<^sup>*\<^sup>* gauge_start ?f"
    by (blast intro: rtranclp.rtrancl_into_rtrancl rtranclp.rtrancl_refl)
  have "gs_started ?f < 2 ^ 64" "gs_running ?f = 0" "gs_finishers ?f = [None]" "gs_records ?f = []" "gs_history ?f = [1]"
    by (simp_all add: job_up_simps)
  then show ?thesis using jobs_gauge_exact [OF r] r by (intro exI [of _ ?f]) simp
qed

text \<open>
  with overlapping updates the gauge can stay stale. Two threads start a job each and
  record their values in the other order: both records are made, nothing is under way, two
  jobs run and the counter says so, but the gauge shows one until the next update.
\<close>

theorem gauge_can_stay_stale:
  "\<exists>s. (gauge_step True)\<^sup>*\<^sup>* gauge_start s \<and> gs_finishers s = [] \<and> gs_records s = [] \<and> gs_running s = 2 \<and>
     fm_current_noir_jobs (gs_metrics s) = 2 \<and> last (fm_noir_jobs_gauge (gs_metrics s)) = 1"
proof -
  let ?b = "job_up (job_up gauge_start)"
  let ?c = "?b\<lparr> gs_metrics := gauge_record 2 (gs_metrics ?b), gs_records := [1] @ [] \<rparr>"
  let ?d = "?c\<lparr> gs_metrics := gauge_record 1 (gs_metrics ?c), gs_records := [] @ [] \<rparr>"
  have "gauge_step True gauge_start (job_up gauge_start)" "gauge_step True (job_up gauge_start) ?b"
    by (rule job_up_step; simp)+
  moreover have "gauge_step True ?b ?c" by (rule gauge_step.records) (simp add: job_up_simps)
  moreover have "gauge_step True ?c ?d" by (rule gauge_step.records) simp
  ultimately have r: "(gauge_step True)\<^sup>*\<^sup>* gauge_start ?d"
    by (meson rtranclp.rtrancl_into_rtrancl rtranclp.rtrancl_refl)
  show ?thesis by (intro exI [of _ ?d] conjI r) (simp_all add: job_up_simps)
qed

section \<open>The proving modules (noir\_prover.rs, smt\_incl\_prover.rs)\<close>

text \<open>
  A spawned task runs its job, which may send a proof, and stays in the \<^verbatim>\<open>JoinSet\<close> with its
  result until the loop joins it.  A result is what the job returned or a panic.  Jobs
  received, results seen and proofs sent are recorded.
\<close>

datatype ('j, 'r) proof_task = Running 'j | Finished 'j 'r

record ('j, 'r) prover_module =
  pm_tasks :: "('j, 'r) proof_task list"
  pm_metrics :: faucet_metrics
  pm_received :: "'j list"
  pm_handled :: "('j \<times> 'r) list"
  pm_sent :: "proof_transaction list"

definition prover_module_build :: "faucet_metrics \<Rightarrow> ('j, 'r) prover_module" where
  "prover_module_build m = \<lparr> pm_tasks = [], pm_metrics = m, pm_received = [], pm_handled = [], pm_sent = [] \<rparr>"

text \<open>The UTXO module counts its jobs; the inclusion-proof module does not.\<close>

definition listen_proof_job :: "'j \<Rightarrow> ('j, 'r) prover_module \<Rightarrow> ('j, 'r) prover_module" where
  "listen_proof_job job s =
     s\<lparr> pm_metrics := track_noir_job_started (pm_metrics s), pm_tasks := pm_tasks s @ [Running job],
        pm_received := pm_received s @ [job] \<rparr>"

definition listen_smt_proof_job :: "'j \<Rightarrow> ('j, 'r) prover_module \<Rightarrow> ('j, 'r) prover_module" where
  "listen_smt_proof_job job s =
     s\<lparr> pm_tasks := pm_tasks s @ [Running job], pm_received := pm_received s @ [job] \<rparr>"

text \<open>Whatever the result, it is only logged.\<close>

definition handle_task_completion :: "'j \<Rightarrow> 'r \<Rightarrow> ('j, 'r) prover_module \<Rightarrow> ('j, 'r) prover_module" where
  "handle_task_completion job result s =
     s\<lparr> pm_metrics := track_noir_job_finished (pm_metrics s), pm_handled := pm_handled s @ [(job, result)] \<rparr>"

definition handle_smt_task_completion :: "'j \<Rightarrow> 'r \<Rightarrow> ('j, 'r) prover_module \<Rightarrow> ('j, 'r) prover_module" where
  "handle_smt_task_completion job result s = s\<lparr> pm_handled := pm_handled s @ [(job, result)] \<rparr>"

type_synonym 'e job_result = "('e prover_error + unit) panics"

text \<open>
  What a task does: it sends what its job sends, and ends with the job's result.
\<close>

definition task_result ::
  "(proof_transaction list \<times> ('e prover_error + unit)) panics \<Rightarrow> proof_transaction list \<times> 'e job_result" where
  "task_result r = (case r of Panics \<Rightarrow> ([], Panics) | Returns (sent, result) \<Rightarrow> (sent, Returns result))"

inductive module_step ::
  "('j \<Rightarrow> ('j, 'e job_result) prover_module \<Rightarrow> ('j, 'e job_result) prover_module) \<Rightarrow>
   ('j \<Rightarrow> 'e job_result \<Rightarrow> ('j, 'e job_result) prover_module \<Rightarrow> ('j, 'e job_result) prover_module) \<Rightarrow>
   ('e node_ops \<Rightarrow> 'j \<Rightarrow> (proof_transaction list \<times> ('e prover_error + unit)) panics) \<Rightarrow>
   ('j, 'e job_result) prover_module \<Rightarrow> ('j, 'e job_result) prover_module \<Rightarrow> bool"
  for listen :: "'j \<Rightarrow> ('j, 'e job_result) prover_module \<Rightarrow> ('j, 'e job_result) prover_module"
    and complete :: "'j \<Rightarrow> 'e job_result \<Rightarrow> ('j, 'e job_result) prover_module \<Rightarrow> ('j, 'e job_result) prover_module"
    and execute :: "'e node_ops \<Rightarrow> 'j \<Rightarrow> (proof_transaction list \<times> ('e prover_error + unit)) panics" where
  received: "module_step listen complete execute s (listen job s)"
| executed: "pm_tasks s = xs @ Running job # ys \<Longrightarrow> task_result (execute N job) = (sent, result) \<Longrightarrow>
    module_step listen complete execute s
      (s\<lparr> pm_tasks := xs @ Finished job result # ys, pm_sent := pm_sent s @ sent \<rparr>)"
| joined: "pm_tasks s = xs @ Finished job result # ys \<Longrightarrow>
    module_step listen complete execute s (complete job result (s\<lparr> pm_tasks := xs @ ys \<rparr>))"

fun task_job :: "('j, 'r) proof_task \<Rightarrow> 'j" where
  "task_job (Running job) = job"
| "task_job (Finished job result) = job"

section \<open>What both loops share\<close>

text \<open>
  The contract of the two handlers: a job becomes a task, a joined task is recorded, and
  nothing else of the module's work changes.  The metrics are left to the handlers.
\<close>

locale proving_loop =
  fixes listen :: "'j \<Rightarrow> ('j, 'e job_result) prover_module \<Rightarrow> ('j, 'e job_result) prover_module"
    and complete :: "'j \<Rightarrow> 'e job_result \<Rightarrow> ('j, 'e job_result) prover_module \<Rightarrow> ('j, 'e job_result) prover_module"
  assumes listen_tasks: "pm_tasks (listen job s) = pm_tasks s @ [Running job]"
    and listen_received: "pm_received (listen job s) = pm_received s @ [job]"
    and listen_handled: "pm_handled (listen job s) = pm_handled s"
    and listen_sent: "pm_sent (listen job s) = pm_sent s"
    and complete_tasks: "pm_tasks (complete job result s) = pm_tasks s"
    and complete_received: "pm_received (complete job result s) = pm_received s"
    and complete_handled: "pm_handled (complete job result s) = pm_handled s @ [(job, result)]"
    and complete_sent: "pm_sent (complete job result s) = pm_sent s"
begin

lemmas effects = listen_tasks listen_received listen_handled listen_sent
  complete_tasks complete_received complete_handled complete_sent

definition served :: "('e node_ops \<Rightarrow> 'j \<Rightarrow> (proof_transaction list \<times> ('e prover_error + unit)) panics) \<Rightarrow>
    ('j, 'e job_result) prover_module \<Rightarrow> bool" where
  "served execute s \<longleftrightarrow>
     mset (pm_received s) = image_mset task_job (mset (pm_tasks s)) + image_mset fst (mset (pm_handled s)) \<and>
     (\<forall>job result. Finished job result \<in> set (pm_tasks s) \<or> (job, result) \<in> set (pm_handled s) \<longrightarrow>
        (\<exists>N. snd (task_result (execute N job)) = result)) \<and>
     (\<forall>tx\<in>set (pm_sent s). \<exists>N job. job \<in> set (pm_received s) \<and> tx \<in> set (fst (task_result (execute N job))))"

lemma received_jobs:
  "served execute s \<Longrightarrow> set (pm_received s) = task_job ` set (pm_tasks s) \<union> fst ` set (pm_handled s)"
  unfolding served_def by (metis set_image_mset set_mset_mset set_mset_union)

lemma served_step:
  assumes "module_step listen complete execute s s'" "served execute s"
  shows "served execute s'"
  using assms(1)
proof cases
  case (received job)
  then show ?thesis using assms(2) by (auto simp: served_def effects) blast
next
  case (executed xs job ys N sent result)
  have "job \<in> set (pm_received s)"
    using received_jobs [OF assms(2)] executed(2) by (force simp: image_iff)
  moreover have "sent = fst (task_result (execute N job))" "result = snd (task_result (execute N job))"
    using executed(3) by simp_all
  ultimately show ?thesis using assms(2) executed(1,2) by (auto simp: served_def)
next
  case (joined xs job result ys)
  then show ?thesis using assms(2) by (auto simp: served_def effects)
qed

text \<open>Every task can be run and joined.\<close>

lemma work_off:
  fixes N :: "'e node_ops"
  obtains s' where "(module_step listen complete execute)\<^sup>*\<^sup>* s s'" "pm_tasks s' = []" "pm_received s' = pm_received s"
proof (induction "length (pm_tasks s)" arbitrary: s thesis)
  case 0
  show ?case by (rule "0.prems" [of s]) (use 0 in simp_all)
next
  case (Suc n)
  obtain t ts where ts: "pm_tasks s = t # ts" using Suc.hyps(2) by (metis length_Suc_conv)
  obtain s1 job result where s1: "(module_step listen complete execute)\<^sup>*\<^sup>* s s1" "pm_tasks s1 = Finished job result # ts"
      "pm_received s1 = pm_received s"
  proof (cases t)
    case (Running job)
    obtain sent result where r: "task_result (execute N job) = (sent, result)" by fastforce
    have "module_step listen complete execute s (s\<lparr> pm_tasks := [] @ Finished job result # ts, pm_sent := pm_sent s @ sent \<rparr>)"
      by (rule module_step.executed [where execute = execute, OF _ r]) (simp add: ts Running)
    then show thesis
      by (intro that [of "s\<lparr> pm_tasks := Finished job result # ts, pm_sent := pm_sent s @ sent \<rparr>" job result]) auto
  next
    case (Finished job result)
    then show thesis using that [of s job result] ts by simp
  qed
  let ?t = "complete job result (s1\<lparr> pm_tasks := ts \<rparr>)"
  have st: "module_step listen complete execute s1 ?t"
    using module_step.joined [of s1 "[]" job result ts] s1(2) by simp
  obtain s' where "(module_step listen complete execute)\<^sup>*\<^sup>* ?t s'" "pm_tasks s' = []" "pm_received s' = pm_received ?t"
    by (rule Suc.hyps(1) [of ?t]) (use Suc.hyps(2) ts in \<open>simp_all add: effects\<close>)
  then show ?case using s1 st by (intro Suc.prems [of s']) (auto simp: effects)
qed

end

interpretation utxo_loop: proving_loop listen_proof_job handle_task_completion
  by unfold_locales (simp_all add: listen_proof_job_def handle_task_completion_def)

interpretation smt_loop: proving_loop listen_smt_proof_job handle_smt_task_completion
  by unfold_locales (simp_all add: listen_smt_proof_job_def handle_smt_task_completion_def)

section \<open>The UTXO module\<close>

text \<open>The loop calls the metrics one after the other, so the counter and the gauge agree.\<close>

lemma track_started_simps [simp]:
  "fm_current_noir_jobs (track_noir_job_started m) = fm_current_noir_jobs m + 1"
  "fm_noir_jobs_gauge (track_noir_job_started m) = fm_noir_jobs_gauge m @ [fm_current_noir_jobs m + 1]"
  by (simp_all add: track_noir_job_started_def jobs_fetch_add_def gauge_record_def Let_def)

lemma track_finished_simps:
  "fm_current_noir_jobs m \<noteq> 0 \<Longrightarrow> fm_current_noir_jobs (track_noir_job_finished m) = fm_current_noir_jobs m - 1"
  "fm_current_noir_jobs m \<noteq> 0 \<Longrightarrow>
     fm_noir_jobs_gauge (track_noir_job_finished m) = fm_noir_jobs_gauge m @ [fm_current_noir_jobs m - 1]"
  by (simp_all add: track_noir_job_finished_def finished_turn_def gauge_record_def)

definition gauge_shows :: "('j, 'r) prover_module \<Rightarrow> bool" where
  "gauge_shows s \<longleftrightarrow>
     fm_current_noir_jobs (pm_metrics s) = of_nat (length (pm_tasks s)) \<and>
     last (0 # fm_noir_jobs_gauge (pm_metrics s)) = fm_current_noir_jobs (pm_metrics s) \<and>
     length (pm_tasks s) \<le> length (pm_received s)"

lemma gauge_of_tasks:
  assumes "module_step listen_proof_job handle_task_completion execute s s'"
    and "gauge_shows s" "length (pm_received s') < 2 ^ 64"
  shows "gauge_shows s'"
  using assms(1)
proof cases
  case (received job)
  then show ?thesis using assms(2) by (simp add: gauge_shows_def listen_proof_job_def)
next
  case (executed xs job ys N sent result)
  then show ?thesis using assms(2) by (simp add: gauge_shows_def)
next
  case (joined xs job result ys)
  let ?n = "length (pm_tasks s)"
  have n: "?n = Suc (length (xs @ ys))" using joined(2) by simp
  have "?n < 2 ^ 64" using assms(2,3) joined(1) by (simp add: handle_task_completion_def gauge_shows_def)
  then have "(of_nat ?n :: u64) \<noteq> 0" by (intro of_nat_u64_nonzero) (simp_all add: n)
  then have "fm_current_noir_jobs (pm_metrics s) \<noteq> 0" using assms(2) by (simp add: gauge_shows_def)
  from track_finished_simps [OF this] show ?thesis
    using assms(2) joined(1) unfolding gauge_shows_def n by (simp add: handle_task_completion_def)
qed

lemma gauge_of_run:
  assumes "(module_step listen_proof_job handle_task_completion execute)\<^sup>*\<^sup>* (prover_module_build metrics_global) s"
    and "length (pm_received s) < 2 ^ 64"
  shows "gauge_shows s"
  using assms
proof (induction rule: rtranclp_induct)
  case base
  show ?case by (simp add: gauge_shows_def prover_module_build_def metrics_global_def)
next
  case (step s s')
  have "length (pm_received s) \<le> length (pm_received s')"
    using step.hyps(2) by cases (simp_all add: utxo_loop.effects)
  then show ?case using gauge_of_tasks [OF step.hyps(2)] step.IH step.prems by simp
qed

lemma served_run:
  assumes "(module_step listen_proof_job handle_task_completion execute)\<^sup>*\<^sup>* (prover_module_build m) s"
  shows "utxo_loop.served execute s"
  using assms
proof (induction rule: rtranclp_induct)
  case base
  show ?case by (simp add: utxo_loop.served_def prover_module_build_def)
qed (rule utxo_loop.served_step)

text \<open>
  C29: a proving module serves every job it receives. However jobs arrive and their tasks
  run and finish, and whatever becomes of them (errors and panics included): every job
  received is a task or has been reported exactly once, the internal counter and the gauge
  recorded last (with the instrumentation feature) are the number of tasks,
  every proof sent is the backend's output for some job received, addressed to the
  module's contract, and the module can always be driven to the state in which every
  received job has been reported.
\<close>

theorem proving_module_serves:
  assumes "(module_step listen_proof_job handle_task_completion
      (\<lambda>N job. execute_proof_job henc chk C B U N contract p job :: (proof_transaction list \<times> ('e prover_error + unit)) panics))\<^sup>*\<^sup>*
    (prover_module_build metrics_global) s" "length (pm_received s) < 2 ^ 64"
  shows "mset (pm_received s) = image_mset task_job (mset (pm_tasks s)) + image_mset fst (mset (pm_handled s)) \<and>
    unat (fm_current_noir_jobs (pm_metrics s)) = length (pm_tasks s) \<and>
    last (0 # fm_noir_jobs_gauge (pm_metrics s)) = fm_current_noir_jobs (pm_metrics s) \<and>
    (\<forall>tx\<in>set (pm_sent s). \<exists>job v i bytes. job \<in> set (pm_received s) \<and>
       build_hyli_utxo henc (dep_contract_name contract) job = (Inr v :: 'e prover_error + hyli_utxo) \<and>
       build_hyli_input_map chk C v = Some i \<and> bb_prove B HyliUtxoCircuit i False False = Inr bytes \<and>
       tx = \<lparr> px_contract_name = dep_contract_name contract, px_program_id = dep_program_id contract,
         px_verifier = np_verifier p, px_proof = bytes \<rparr>) \<and>
    (\<exists>s'. (module_step listen_proof_job handle_task_completion
        (\<lambda>N job. execute_proof_job henc chk C B U N contract p job))\<^sup>*\<^sup>* s s' \<and>
      pm_tasks s' = [] \<and> mset (pm_received s) = image_mset fst (mset (pm_handled s')))"
proof -
  let ?x = "\<lambda>N job. execute_proof_job henc chk C B U N contract p job :: (proof_transaction list \<times> ('e prover_error + unit)) panics"
  have served: "utxo_loop.served ?x s" by (rule served_run [OF assms(1)])
  obtain s' where s': "(module_step listen_proof_job handle_task_completion ?x)\<^sup>*\<^sup>* s s'" "pm_tasks s' = []"
      "pm_received s' = pm_received s" by (rule utxo_loop.work_off)
  have "utxo_loop.served ?x s'" by (rule served_run [OF rtranclp_trans [OF assms(1) s'(1)]])
  then have done_all: "mset (pm_received s) = image_mset fst (mset (pm_handled s'))" using s' by (simp add: utxo_loop.served_def)
  have g: "unat (fm_current_noir_jobs (pm_metrics s)) = length (pm_tasks s)"
    "last (0 # fm_noir_jobs_gauge (pm_metrics s)) = fm_current_noir_jobs (pm_metrics s)"
    using gauge_of_run [OF assms] assms(2) by (simp_all add: gauge_shows_def unat_of_nat)
  have "\<exists>job v i bytes. job \<in> set (pm_received s) \<and>
       build_hyli_utxo henc (dep_contract_name contract) job = (Inr v :: 'e prover_error + hyli_utxo) \<and>
       build_hyli_input_map chk C v = Some i \<and> bb_prove B HyliUtxoCircuit i False False = Inr bytes \<and>
       tx = \<lparr> px_contract_name = dep_contract_name contract, px_program_id = dep_program_id contract,
         px_verifier = np_verifier p, px_proof = bytes \<rparr>" if tx: "tx \<in> set (pm_sent s)" for tx
  proof -
    obtain N job where j: "job \<in> set (pm_received s)" "tx \<in> set (fst (task_result (?x N job)))"
      using served tx unfolding utxo_loop.served_def by blast
    then obtain sent r where x: "?x N job = Returns (sent, r)" "tx \<in> set sent"
      by (auto simp: task_result_def split: panics.splits prod.splits)
    then show ?thesis using execute_proof_job_cases [OF x(1)] j(1)
      by (auto dest!: hyli_utxo_prove_bytes submit_proof_tx_sent)
  qed
  then show ?thesis using served g s' done_all unfolding utxo_loop.served_def by blast
qed

theorem proving_module_serves_witness:
  "\<exists>s. (module_step listen_proof_job handle_task_completion
      (\<lambda>N job. execute_proof_job hex_enc True toy_circuit_ops toy_prover_backend toy_noir_utils N toy_deployment
         (noir_prover_default ''noir'') job))\<^sup>*\<^sup>* (prover_module_build metrics_global) s \<and>
    pm_tasks s = [Finished toy_job (Returns (Inr ()))] \<and> unat (fm_current_noir_jobs (pm_metrics s)) = 1 \<and>
    (\<exists>tx. pm_sent s = [tx] \<and> px_contract_name tx = ''utxo'')"
proof -
  let ?x = "\<lambda>N job. execute_proof_job hex_enc True toy_circuit_ops toy_prover_backend toy_noir_utils N toy_deployment
         (noir_prover_default ''noir'') job"
  let ?run = "module_step listen_proof_job handle_task_completion ?x"
  let ?s0 = "prover_module_build metrics_global :: (proof_job, unit job_result) prover_module"
  obtain sent where x: "?x toy_node toy_job = Returns (sent, Inr ())" using toy_job_runs by blast
  have sent: "\<exists>tx. sent = [tx]"
    using execute_proof_job_cases [OF x] by (auto dest: submit_proof_tx_sent)
  let ?s1 = "listen_proof_job toy_job ?s0"
  let ?s2 = "?s1\<lparr> pm_tasks := [] @ Finished toy_job (Returns (Inr ())) # [], pm_sent := pm_sent ?s1 @ sent \<rparr>"
  have "?run ?s0 ?s1" by (rule module_step.received)
  moreover have "?run ?s1 ?s2"
    by (rule module_step.executed [where execute = ?x and N = toy_node])
      (simp_all add: listen_proof_job_def prover_module_build_def task_result_def x)
  ultimately have r: "?run\<^sup>*\<^sup>* ?s0 ?s2" by (rule converse_rtranclp_into_rtranclp [OF _ r_into_rtranclp])
  have l: "length (pm_received ?s2) < 2 ^ 64" by (simp add: listen_proof_job_def prover_module_build_def)
  note w = proving_module_serves [OF r l]
  have "pm_sent ?s2 = sent" by (simp add: listen_proof_job_def prover_module_build_def)
  moreover have "px_contract_name tx = ''utxo''" if "tx \<in> set (pm_sent ?s2)" for tx
    using w [THEN conjunct2, THEN conjunct2, THEN conjunct2, THEN conjunct1, rule_format, OF that]
    by (auto simp: toy_deployment_def)
  ultimately have "\<exists>tx. pm_sent ?s2 = [tx] \<and> px_contract_name tx = ''utxo''" using sent by fastforce
  then show ?thesis using r w by (intro exI [of _ ?s2]) simp
qed

end
