(* ===== verification/PersistRuns.thy ===== *)
theory PersistRuns
  imports NoteStore
begin

text \<open>
  Several calls of \<^verbatim>\<open>maybe_persist\<close> (\<^verbatim>\<open>server/src/note_store.rs\<close>) at work on one store: the
  data is changed under the write lock, but a call only holds the read lock while it
  creates, writes and renames the one temporary file, so calls overlap.  The file system
  is kept as names of files (inodes) and their contents: a file stays open for writing
  under another name or none.
\<close>

section \<open>Threads, locks and files\<close>

text \<open>
  A thread whose change waits to be persisted, one that holds the read lock, one that
  writes a file from a position with the text still to come, one that has closed its file,
  and one whose call has returned.
\<close>

datatype persister = Waits | Locks | Writes nat nat string | Wrote | Ended "store_error + unit"

fun holds_lock :: "persister \<Rightarrow> bool" where
  "holds_lock Waits = False"
| "holds_lock (Ended r) = False"
| "holds_lock t = True"

text \<open>
  The file at the path, the temporary file, contents and the next new file; on the side,
  the text the last successful renaming was meant to put at the path.
\<close>

record 'd persist_run =
  pr_data :: 'd
  pr_path :: "nat option"
  pr_temp :: "nat option"
  pr_inodes :: "nat \<Rightarrow> string"
  pr_free :: nat
  pr_threads :: "persister list"
  pr_saved :: "string option"

definition file_text :: "'d persist_run \<Rightarrow> string option" where
  "file_text s = map_option (pr_inodes s) (pr_path s)"

text \<open>A store with the text at its path, if any, and a left-over temporary file, if any.\<close>

definition persist_init :: "'d \<Rightarrow> string option \<Rightarrow> string option \<Rightarrow> 'd persist_run" where
  "persist_init d text left =
     \<lparr> pr_data = d, pr_path = map_option (\<lambda>_. 0) text, pr_temp = map_option (\<lambda>_. 1) left,
       pr_inodes = (\<lambda>i. case (if i = 0 then text else left) of Some t \<Rightarrow> t | None \<Rightarrow> []),
       pr_free = 2, pr_threads = [], pr_saved = text \<rparr>"

text \<open>\<^verbatim>\<open>File::create\<close> empties the file that exists under the name, or makes a new one.\<close>

definition create_temp :: "'d persist_run \<Rightarrow> 'd persist_run \<times> nat" where
  "create_temp s =
     (case pr_temp s of
        Some i \<Rightarrow> (s\<lparr> pr_inodes := (pr_inodes s)(i := []) \<rparr>, i)
      | None \<Rightarrow> (s\<lparr> pr_inodes := (pr_inodes s)(pr_free s := []), pr_temp := Some (pr_free s),
                   pr_free := Suc (pr_free s) \<rparr>, pr_free s))"

text \<open>Writing at a position past the end of a file that was emptied leaves zeros before it.\<close>

definition write_at :: "nat \<Rightarrow> string \<Rightarrow> string \<Rightarrow> string" where
  "write_at off chunk text =
     take off text @ replicate (off - length text) (CHR 0x00) @ chunk @ drop (off + length chunk) text"

text \<open>
  With \<^term>\<open>overlap\<close> a call may start while others hold the read lock; with \<^term>\<open>faults\<close>
  creating, writing and renaming may fail and end the call with the error, leaving what was
  written; with \<^term>\<open>lost\<close> the last buffers may be lost as the writer is dropped.
\<close>

inductive persist_step :: "'d persist_ops \<Rightarrow> bool \<Rightarrow> bool \<Rightarrow> bool \<Rightarrow> 'd persist_run \<Rightarrow> 'd persist_run \<Rightarrow> bool"
  for J :: "'d persist_ops" and overlap faults lost :: bool where
  changed: "\<forall>t\<in>set (pr_threads s). \<not> holds_lock t \<Longrightarrow>
    persist_step J overlap faults lost s (s\<lparr> pr_data := d, pr_threads := pr_threads s @ [Waits] \<rparr>)"
| locked: "pr_threads s = xs @ Waits # ys \<Longrightarrow> overlap \<or> (\<forall>t\<in>set (xs @ ys). \<not> holds_lock t) \<Longrightarrow>
    persist_step J overlap faults lost s (s\<lparr> pr_threads := xs @ Locks # ys \<rparr>)"
| created: "pr_threads s = xs @ Locks # ys \<Longrightarrow> create_temp s = (s', i) \<Longrightarrow>
    persist_step J overlap faults lost s (s'\<lparr> pr_threads := xs @ Writes i 0 (to_json J (pr_data s)) # ys \<rparr>)"
| written: "pr_threads s = xs @ Writes i off (chunk @ rest) # ys \<Longrightarrow> chunk \<noteq> [] \<Longrightarrow>
    persist_step J overlap faults lost s (s\<lparr> pr_inodes := (pr_inodes s)(i := write_at off chunk (pr_inodes s i)),
      pr_threads := xs @ Writes i (off + length chunk) rest # ys \<rparr>)"
| closed: "pr_threads s = xs @ Writes i off [] # ys \<Longrightarrow>
    persist_step J overlap faults lost s (s\<lparr> pr_threads := xs @ Wrote # ys \<rparr>)"
| renamed: "pr_threads s = xs @ Wrote # ys \<Longrightarrow> pr_temp s = Some i \<Longrightarrow>
    persist_step J overlap faults lost s (s\<lparr> pr_path := Some i, pr_temp := None,
      pr_threads := xs @ Ended (Inr ()) # ys, pr_saved := Some (to_json J (pr_data s)) \<rparr>)"
| vanished: "pr_threads s = xs @ Wrote # ys \<Longrightarrow> pr_temp s = None \<Longrightarrow>
    persist_step J overlap faults lost s (s\<lparr> pr_threads := xs @ Ended (Inl FileNotFound) # ys \<rparr>)"
| failed: "faults \<Longrightarrow> pr_threads s = xs @ t # ys \<Longrightarrow> holds_lock t \<Longrightarrow>
    persist_step J overlap faults lost s (s\<lparr> pr_threads := xs @ Ended (Inl IoFailed) # ys \<rparr>)"
| flush_lost: "lost \<Longrightarrow> pr_threads s = xs @ Writes i off rest # ys \<Longrightarrow>
    persist_step J overlap faults lost s (s\<lparr> pr_threads := xs @ Wrote # ys \<rparr>)"

abbreviation persist_reach ::
  "'d persist_ops \<Rightarrow> bool \<Rightarrow> bool \<Rightarrow> bool \<Rightarrow> 'd \<Rightarrow> string option \<Rightarrow> string option \<Rightarrow> 'd persist_run \<Rightarrow> bool" where
  "persist_reach J overlap faults lost d text left s \<equiv>
     (persist_step J overlap faults lost)\<^sup>*\<^sup>* (persist_init d text left) s"

text \<open>The temporary file is never the one at the path, and new files are new.\<close>

definition files_inv :: "'d persist_run \<Rightarrow> bool" where
  "files_inv s \<longleftrightarrow>
     (\<forall>i. pr_path s = Some i \<longrightarrow> i < pr_free s) \<and>
     (\<forall>i. pr_temp s = Some i \<longrightarrow> i < pr_free s \<and> pr_path s \<noteq> Some i) \<and>
     (\<forall>i off rest. Writes i off rest \<in> set (pr_threads s) \<longrightarrow> i < pr_free s)"

lemma files_step: "persist_step J overlap faults lost s s' \<Longrightarrow> files_inv s \<Longrightarrow> files_inv s'"
  by (cases rule: persist_step.cases, assumption)
    (fastforce simp: files_inv_def create_temp_def split: option.splits)+

lemma files_init: "files_inv (persist_init d text left)"
  by (auto simp: files_inv_def persist_init_def split: if_splits)

section \<open>One call at a time\<close>

definition alone_inv :: "'d persist_ops \<Rightarrow> 'd persist_run \<Rightarrow> bool" where
  "alone_inv J s \<longleftrightarrow>
     (let text = to_json J (pr_data s) in
      file_text s = pr_saved s \<and> length (filter holds_lock (pr_threads s)) \<le> 1 \<and>
      (\<forall>i off rest. Writes i off rest \<in> set (pr_threads s) \<longrightarrow>
         pr_temp s = Some i \<and> pr_inodes s i = take off text \<and> rest = drop off text \<and> off \<le> length text) \<and>
      (Wrote \<in> set (pr_threads s) \<longrightarrow> (\<exists>i. pr_temp s = Some i \<and> pr_inodes s i = text)))"

lemma only_holder:
  "length (filter holds_lock (xs @ t # ys)) \<le> 1 \<Longrightarrow> holds_lock t \<Longrightarrow> u \<in> set (xs @ ys) \<Longrightarrow> \<not> holds_lock u"
  by (auto simp: filter_empty_conv)

lemma no_holders: "\<forall>t\<in>set ts. \<not> holds_lock t \<Longrightarrow> Writes i off rest \<notin> set ts \<and> Wrote \<notin> set ts"
  by (metis holds_lock.simps)

lemma write_at_take:
  "off \<le> length text \<Longrightarrow> chunk @ rest = drop off text \<Longrightarrow> write_at off chunk (take off text) = take (off + length chunk) text"
  by (simp add: write_at_def take_add) (metis append_eq_conv_conj)

lemma file_text_other [simp]:
  "pr_path s = p \<Longrightarrow> p \<noteq> Some i \<Longrightarrow> map_option ((pr_inodes s)(i := c)) p = file_text s"
  by (cases p) (auto simp: file_text_def)

lemma holders_rest:
  "length (filter holds_lock (xs @ t # ys)) \<le> 1 \<Longrightarrow> holds_lock t \<Longrightarrow> filter holds_lock xs = [] \<and> filter holds_lock ys = []"
  by (auto simp: filter_empty_conv)

lemma alone_step:
  assumes "persist_step J False faults False s s'" "alone_inv J s" "files_inv s"
  shows "alone_inv J s'"
proof -
  let ?text = "to_json J (pr_data s)"
  have f: "file_text s = pr_saved s" and l: "length (filter holds_lock (pr_threads s)) \<le> 1"
    and w: "\<And>i off rest. Writes i off rest \<in> set (pr_threads s) \<Longrightarrow>
         pr_temp s = Some i \<and> pr_inodes s i = take off ?text \<and> rest = drop off ?text \<and> off \<le> length ?text"
    and c: "Wrote \<in> set (pr_threads s) \<Longrightarrow> \<exists>i. pr_temp s = Some i \<and> pr_inodes s i = ?text"
    using assms(2) by (auto simp: alone_inv_def Let_def)
  show ?thesis
    using assms(1)
  proof cases
    case (changed d)
    then show ?thesis using f no_holders [OF changed(2)]
      by (auto simp: alone_inv_def Let_def file_text_def filter_empty_conv)
  next
    case (locked xs ys)
    then have n: "\<forall>t\<in>set (xs @ ys). \<not> holds_lock t" by simp
    then have "filter holds_lock xs = []" "filter holds_lock ys = []" by (auto simp: filter_empty_conv)
    then show ?thesis using f no_holders [OF n] locked(1) by (auto simp: alone_inv_def Let_def file_text_def)
  next
    case (created xs ys t i)
    have n: "\<forall>t\<in>set (xs @ ys). \<not> holds_lock t" using only_holder [OF l [unfolded created(2)]] by simp
    have "pr_temp t = Some i" "pr_inodes t i = []" "pr_data t = pr_data s" "file_text t = file_text s" "pr_saved t = pr_saved s"
      using created(3) assms(3)
      by (auto simp: create_temp_def files_inv_def file_text_def map_option_case split: option.splits)
    then show ?thesis using f no_holders [OF n] holders_rest [OF l [unfolded created(2)]] created(1)
      by (auto simp: alone_inv_def Let_def file_text_def)
  next
    case (written xs i off chunk rest ys)
    have n: "\<forall>t\<in>set (xs @ ys). \<not> holds_lock t" using only_holder [OF l [unfolded written(2)]] by simp
    have i: "pr_temp s = Some i" "pr_inodes s i = take off ?text" "chunk @ rest = drop off ?text" "off \<le> length ?text"
      using w written(2) by auto
    have o: "write_at off chunk (pr_inodes s i) = take (off + length chunk) ?text"
      unfolding i(2) by (rule write_at_take [OF i(4,3)])
    have r: "rest = drop (off + length chunk) ?text"
      using i(3) by (metis add.commute append_eq_conv_conj drop_drop)
    have "length (chunk @ rest) = length ?text - off" unfolding i(3) by simp
    then have "off + length chunk \<le> length ?text" using i(4) by simp
    moreover have "pr_path s \<noteq> Some i" using assms(3) i(1) by (simp add: files_inv_def)
    ultimately show ?thesis
      using f no_holders [OF n] holders_rest [OF l [unfolded written(2)]] written(1) i(1) o r
      by (auto simp: alone_inv_def Let_def file_text_def map_option_case split: option.splits)
  next
    case (closed xs i off ys)
    have n: "\<forall>t\<in>set (xs @ ys). \<not> holds_lock t" using only_holder [OF l [unfolded closed(2)]] by simp
    have "pr_temp s = Some i" "pr_inodes s i = ?text" using w [of i off "[]"] closed(2) by auto
    then show ?thesis using f no_holders [OF n] holders_rest [OF l [unfolded closed(2)]] closed(1)
      by (auto simp: alone_inv_def Let_def file_text_def)
  next
    case (renamed xs ys i)
    have n: "\<forall>t\<in>set (xs @ ys). \<not> holds_lock t" using only_holder [OF l [unfolded renamed(2)]] by simp
    then show ?thesis using c renamed no_holders [OF n] holders_rest [OF l [unfolded renamed(2)]]
      by (auto simp: alone_inv_def Let_def file_text_def)
  next
    case (vanished xs ys)
    then show ?thesis using c by auto
  next
    case (failed xs t ys)
    have n: "\<forall>t\<in>set (xs @ ys). \<not> holds_lock t" using only_holder [OF l [unfolded failed(3)] failed(4)] by simp
    then show ?thesis using f failed no_holders [OF n] holders_rest [OF l [unfolded failed(3)] failed(4)]
      by (auto simp: alone_inv_def Let_def file_text_def)
  qed simp
qed

lemma alone_reach:
  "persist_reach J False faults False d text left s \<Longrightarrow> alone_inv J s \<and> files_inv s"
proof (induction rule: rtranclp_induct)
  case base
  show ?case using files_init [of d "text" left]
    by (cases "text") (simp_all add: alone_inv_def Let_def file_text_def persist_init_def)
next
  case (step s s')
  then show ?case using alone_step [OF step.hyps(2)] files_step [OF step.hyps(2)] by blast
qed

section \<open>Overlapping calls\<close>

text \<open>
  Every position of a file holds its part of the text, or a thread that writes the file has
  yet to come to it.
\<close>

definition covered :: "string \<Rightarrow> 'd persist_run \<Rightarrow> nat \<Rightarrow> bool" where
  "covered text s i \<longleftrightarrow>
     length (pr_inodes s i) \<le> length text \<and>
     (\<forall>p < length text. (p < length (pr_inodes s i) \<and> pr_inodes s i ! p = text ! p) \<or>
        (\<exists>off rest. Writes i off rest \<in> set (pr_threads s) \<and> off \<le> p))"

definition working :: "persister \<Rightarrow> bool" where
  "working t \<longleftrightarrow> t = Wrote \<or> (\<exists>i off rest. t = Writes i off rest)"

definition shared_inv :: "'d persist_ops \<Rightarrow> 'd persist_run \<Rightarrow> bool" where
  "shared_inv J s \<longleftrightarrow>
     (let text = to_json J (pr_data s) in
      (\<forall>i off rest. Writes i off rest \<in> set (pr_threads s) \<longrightarrow> rest = drop off text \<and> off \<le> length text) \<and>
      ((\<exists>t\<in>set (pr_threads s). working t) \<longrightarrow> (\<forall>i. pr_temp s = Some i \<longrightarrow> covered text s i)) \<and>
      (pr_threads s = [] \<or> Waits \<in> set (pr_threads s) \<or> Locks \<in> set (pr_threads s) \<or>
       ((\<exists>t\<in>set (pr_threads s). working t) \<and> pr_temp s \<noteq> None) \<or>
       (\<exists>i. pr_path s = Some i \<and> covered text s i)))"

lemma covered_whole:
  assumes "covered text s i" "\<forall>t\<in>set (pr_threads s). \<not> holds_lock t"
  shows "pr_inodes s i = text"
proof (rule nth_equalityI)
  have p: "p < length (pr_inodes s i) \<and> pr_inodes s i ! p = text ! p" if "p < length text" for p
    using assms(1) that no_holders [OF assms(2)] by (auto simp: covered_def)
  show "length (pr_inodes s i) = length text"
    using assms(1) p [of "length (pr_inodes s i)"] by (cases "length (pr_inodes s i) < length text") (auto simp: covered_def)
  then show "pr_inodes s i ! p = text ! p" if "p < length (pr_inodes s i)" for p using p that by simp
qed

text \<open>A step that leaves the file alone keeps it covered when its writers stay or are done.\<close>

lemma covered_keeps:
  assumes "covered text s i" "pr_inodes s' i = pr_inodes s i"
    and "\<And>off rest. Writes i off rest \<in> set (pr_threads s) \<Longrightarrow> off < length text \<Longrightarrow> Writes i off rest \<in> set (pr_threads s')"
  shows "covered text s' i"
  using assms unfolding covered_def by (metis order.strict_trans1)

lemma covered_new:
  "pr_inodes s i = [] \<Longrightarrow> Writes i 0 rest \<in> set (pr_threads s) \<Longrightarrow> covered text s i"
  by (auto simp: covered_def)

lemma nth_write_at:
  assumes "p < length (write_at off chunk text)"
  shows "write_at off chunk text ! p =
    (if p < off then (if p < length text then text ! p else CHR 0x00)
     else if p < off + length chunk then chunk ! (p - off) else text ! p)"
  using assms by (auto simp: write_at_def nth_append min_def)

lemma length_write_at: "length (write_at off chunk text) = max (length text) (off + length chunk)"
  by (auto simp: write_at_def max_def min_def)

lemma covered_written:
  assumes c: "covered text s i" and t: "pr_threads s = xs @ Writes i off (chunk @ rest) # ys"
    and d: "chunk @ rest = drop off text" "off \<le> length text"
    and s': "pr_inodes s' i = write_at off chunk (pr_inodes s i)" "pr_threads s' = xs @ Writes i (off + length chunk) rest # ys"
  shows "covered text s' i"
proof -
  let ?old = "pr_inodes s i"
  have ch: "chunk ! (p - off) = text ! p" "p < length text" if "off \<le> p" "p < off + length chunk" for p
  proof -
    have "(chunk @ rest) ! (p - off) = drop off text ! (p - off)" "length (chunk @ rest) = length text - off"
      unfolding d(1) by simp_all
    then show "chunk ! (p - off) = text ! p" "p < length text" using that d(2) by (auto simp: nth_append split: if_splits)
  qed
  have "length (chunk @ rest) = length text - off" unfolding d(1) by simp
  then have l: "off + length chunk \<le> length text" using d(2) by simp
  have "(p < length (pr_inodes s' i) \<and> pr_inodes s' i ! p = text ! p) \<or>
      (\<exists>q rest. Writes i q rest \<in> set (pr_threads s') \<and> q \<le> p)" if p: "p < length text" for p
  proof -
    consider (here) "off \<le> p" "p < off + length chunk" | (later) "off + length chunk \<le> p" | (before) "p < off" by linarith
    then show ?thesis
    proof cases
      case here
      then have "p < length (write_at off chunk ?old)" by (simp add: length_write_at)
      then show ?thesis using here ch(1) [OF here] by (simp add: s'(1) nth_write_at)
    next
      case later
      then show ?thesis unfolding s'(2) by auto
    next
      case before
      from c p consider "p < length ?old" "?old ! p = text ! p"
        | q r where "Writes i q r \<in> set (pr_threads s)" "q \<le> p" by (auto simp: covered_def)
      then show ?thesis
      proof cases
        case 1
        then have "p < length (write_at off chunk ?old)" by (simp add: length_write_at)
        then show ?thesis using 1 before by (simp add: s'(1) nth_write_at)
      next
        case 2
        then have "Writes i q r \<in> set (xs @ ys)" using t before by auto
        then show ?thesis unfolding s'(2) using 2(2) by auto
      qed
    qed
  qed
  then show ?thesis using c l by (auto simp: covered_def s'(1) length_write_at)
qed

lemma working_simps [simp]:
  "\<not> working Waits" "\<not> working Locks" "\<not> working (Ended r)" "working Wrote" "working (Writes i off rest)"
  by (simp_all add: working_def)

lemma working_holds: "working t \<Longrightarrow> holds_lock t"
  by (auto simp: working_def)

lemma shared_invI:
  assumes "\<And>i off rest. Writes i off rest \<in> set (pr_threads s) \<Longrightarrow>
      rest = drop off (to_json J (pr_data s)) \<and> off \<le> length (to_json J (pr_data s))"
    and "\<And>i t. t \<in> set (pr_threads s) \<Longrightarrow> working t \<Longrightarrow> pr_temp s = Some i \<Longrightarrow> covered (to_json J (pr_data s)) s i"
    and "pr_threads s = [] \<or> Waits \<in> set (pr_threads s) \<or> Locks \<in> set (pr_threads s) \<or>
       ((\<exists>t\<in>set (pr_threads s). working t) \<and> pr_temp s \<noteq> None) \<or>
       (\<exists>i. pr_path s = Some i \<and> covered (to_json J (pr_data s)) s i)"
  shows "shared_inv J s"
  using assms unfolding shared_inv_def Let_def by blast

lemma shared_step:
  assumes "persist_step J overlap False False s s'" "shared_inv J s" "files_inv s"
  shows "shared_inv J s'"
proof -
  let ?text = "to_json J (pr_data s)"
  have w: "\<And>i off rest. Writes i off rest \<in> set (pr_threads s) \<Longrightarrow> rest = drop off ?text \<and> off \<le> length ?text"
    and c: "\<And>i t. t \<in> set (pr_threads s) \<Longrightarrow> working t \<Longrightarrow> pr_temp s = Some i \<Longrightarrow> covered ?text s i"
    and d: "pr_threads s = [] \<or> Waits \<in> set (pr_threads s) \<or> Locks \<in> set (pr_threads s) \<or>
       ((\<exists>t\<in>set (pr_threads s). working t) \<and> pr_temp s \<noteq> None) \<or>
       (\<exists>i. pr_path s = Some i \<and> covered ?text s i)"
    using assms(2) unfolding shared_inv_def Let_def by blast+
  show ?thesis
    using assms(1)
  proof cases
    case (changed x)
    then have "\<not> working t" if "t \<in> set (pr_threads s')" for t
      using that working_holds by auto
    then show ?thesis by (intro shared_invI) (use changed in auto)
  next
    case (locked xs ys)
    have k: "covered ?text s' i" if "covered ?text s i" for i
      by (rule covered_keeps [OF that]) (use locked in auto)
    have "covered ?text s' i" if "t \<in> set (xs @ ys)" "working t" "pr_temp s = Some i" for t i
      by (rule k [OF c [of t]]) (use that locked in auto)
    then show ?thesis by (intro shared_invI) (use locked w in auto)
  next
    case (created xs ys t i)
    have t: "pr_temp t = Some i" "pr_inodes t i = []" "pr_data t = pr_data s"
      using created(3) by (auto simp: create_temp_def split: option.splits)
    have "covered ?text s' i" by (rule covered_new) (use created(1) t in auto)
    then show ?thesis by (intro shared_invI) (use created(1,2) t w in auto)
  next
    case (written xs i off chunk rest ys)
    have i: "chunk @ rest = drop off ?text" "off \<le> length ?text" using w written(2) by auto
    have k: "covered ?text s' j" if "covered ?text s j" for j
    proof (cases "j = i")
      case True
      show ?thesis unfolding True
        by (rule covered_written [OF that [unfolded True] written(2) i]) (simp_all add: written(1))
    next
      case False
      show ?thesis by (rule covered_keeps [OF that]) (use written False in auto)
    qed
    have "length (chunk @ rest) = length ?text - off" unfolding i(1) by simp
    then have "off + length chunk \<le> length ?text" using i(2) by simp
    moreover have "rest = drop (off + length chunk) ?text"
      using i(1) by (metis add.commute append_eq_conv_conj drop_drop)
    ultimately show ?thesis
      by (intro shared_invI) (use written(1,2) w c [of "Writes i off (chunk @ rest)"] d k in auto)
  next
    case (closed xs i off ys)
    have "off = length ?text" using w [of i off "[]"] closed(2) by auto
    then have k: "covered ?text s' j" if "covered ?text s j" for j
      by (intro covered_keeps [OF that]) (use closed in auto)
    show ?thesis by (rule shared_invI) (use closed w c [of "Writes i off []"] d k in auto)
  next
    case (renamed xs ys i)
    have "covered ?text s i" using c [of Wrote] renamed by auto
    then have "covered ?text s' i" by (rule covered_keeps) (use renamed in auto)
    then show ?thesis by (intro shared_invI) (use renamed w in auto)
  next
    case (vanished xs ys)
    have k: "covered ?text s' j" if "covered ?text s j" for j
      by (rule covered_keeps [OF that]) (use vanished in auto)
    show ?thesis by (rule shared_invI) (use vanished w c d k in auto)
  qed simp_all
qed

lemma shared_reach:
  "persist_reach J overlap False False d text left s \<Longrightarrow> shared_inv J s \<and> files_inv s"
proof (induction rule: rtranclp_induct)
  case base
  show ?case using files_init [of d "text" left] by (simp add: shared_inv_def Let_def persist_init_def)
next
  case (step s s')
  then show ?case using shared_step [OF step.hyps(2)] files_step [OF step.hyps(2)] by blast
qed

section \<open>One call is \<^verbatim>\<open>maybe\_persist\<close>\<close>

definition temp_text :: "'d persist_run \<Rightarrow> string option" where
  "temp_text s = map_option (pr_inodes s) (pr_temp s)"

lemma call_locks:
  obtains s where "persist_reach J overlap faults lost d0 text left s" "pr_data s = d" "pr_threads s = [Locks]"
    "file_text s = text" "temp_text s = left" "files_inv s"
proof -
  let ?r = "persist_step J overlap faults lost"
  let ?a = "persist_init d0 text left"
  let ?b = "?a\<lparr> pr_data := d, pr_threads := pr_threads ?a @ [Waits] \<rparr>"
  let ?c = "?b\<lparr> pr_threads := [] @ Locks # [] \<rparr>"
  have "?r ?a ?b" by (rule persist_step.changed) (simp add: persist_init_def)
  moreover have st: "?r ?b ?c" by (rule persist_step.locked) (simp_all add: persist_init_def)
  ultimately have r: "?r\<^sup>*\<^sup>* ?a ?c" by (rule converse_rtranclp_into_rtranclp [OF _ r_into_rtranclp])
  have "files_inv ?c" using files_init [of d0 "text" left] by (auto simp: files_inv_def persist_init_def)
  then show thesis
    by (intro that [of ?c] r)
      (cases "text"; cases left; simp add: persist_init_def file_text_def temp_text_def)+
qed

lemma call_creates:
  assumes "pr_threads s = [Locks]" "files_inv s"
  obtains s' i where "persist_step J overlap faults lost s s'" "pr_threads s' = [Writes i 0 (to_json J (pr_data s))]"
    "pr_temp s' = Some i" "pr_inodes s' i = []" "file_text s' = file_text s" "pr_path s' \<noteq> Some i" "pr_data s' = pr_data s"
proof -
  obtain t i where t: "create_temp s = (t, i)" by fastforce
  let ?s = "t\<lparr> pr_threads := [] @ Writes i 0 (to_json J (pr_data s)) # [] \<rparr>"
  have st: "persist_step J overlap faults lost s ?s"
    by (rule persist_step.created [OF _ t]) (simp add: assms(1))
  have e: "pr_temp t = Some i" "pr_inodes t i = []" "file_text t = file_text s" "pr_path t \<noteq> Some i" "pr_data t = pr_data s"
    using t assms(2) by (auto simp: create_temp_def files_inv_def file_text_def map_option_case split: option.splits)
  show thesis by (rule that [OF st]) (use e in \<open>simp_all add: file_text_def\<close>)
qed

lemma call_writes:
  assumes "pr_threads s = [Writes i 0 (part @ rest)]" "pr_temp s = Some i" "pr_inodes s i = []" "pr_path s \<noteq> Some i"
  obtains s' where "(persist_step J overlap faults lost)\<^sup>*\<^sup>* s s'" "pr_threads s' = [Writes i (length part) rest]"
    "temp_text s' = Some part" "pr_temp s' = Some i" "file_text s' = file_text s" "pr_path s' \<noteq> Some i" "pr_data s' = pr_data s"
proof (cases "part = []")
  case True
  then show thesis using assms by (intro that [of s]) (simp_all add: temp_text_def)
next
  case False
  let ?s = "s\<lparr> pr_inodes := (pr_inodes s)(i := write_at 0 part (pr_inodes s i)),
      pr_threads := [] @ Writes i (0 + length part) rest # [] \<rparr>"
  have st: "persist_step J overlap faults lost s ?s"
    by (rule persist_step.written [OF _ False]) (simp add: assms(1))
  have "file_text ?s = file_text s" using file_text_other [OF refl assms(4)] by (simp add: file_text_def)
  then show thesis using st assms
    by (intro that [of ?s]) (simp_all add: temp_text_def write_at_def)
qed

text \<open>
  the sequential description of a call is a run of it that nobody else disturbs: for
  every outcome of the file operations (what is written being a beginning of the text)
  the steps lead to the same files and the same result.
\<close>

theorem maybe_persist_runs:
  assumes "ps_path s = Some path" "maybe_persist J fault s fs = (fs', r)"
    and "\<And>part. fault = WriteFails part \<or> fault = FlushLost part \<Longrightarrow> \<exists>rest. part @ rest = to_json J (ps_data s)"
  shows "\<exists>s'. persist_reach J overlap True True d0 (fs path) (fs (path @ ''.tmp'')) s' \<and>
    pr_data s' = ps_data s \<and> pr_threads s' = [Ended r] \<and>
    file_text s' = fs' path \<and> temp_text s' = fs' (path @ ''.tmp'')"
proof -
  let ?reach = "persist_reach J overlap True True d0 (fs path) (fs (path @ ''.tmp''))"
  let ?st = "persist_step J overlap True True"
  let ?text = "to_json J (ps_data s)"
  obtain a where a: "?reach a" "pr_data a = ps_data s" "pr_threads a = [Locks]" "file_text a = fs path"
      "temp_text a = fs (path @ ''.tmp'')" "files_inv a" by (rule call_locks)
  have fail: "?st t (t\<lparr> pr_threads := [] @ Ended (Inl IoFailed) # [] \<rparr>)"
    if "pr_threads t = [u]" "holds_lock u" for t :: "'a persist_run" and u
    by (rule persist_step.failed) (use that in simp_all)
  obtain b i where b: "?st a b" "pr_threads b = [Writes i 0 ?text]" "pr_temp b = Some i" "pr_inodes b i = []"
      "file_text b = fs path" "pr_path b \<noteq> Some i" "pr_data b = ps_data s"
    using call_creates [OF a(3,6), of J overlap True True thesis] a(2,4) by metis
  have part: "\<exists>c. ?reach c \<and> pr_threads c = [Writes i (length part) rest] \<and> temp_text c = Some part \<and>
      pr_temp c = Some i \<and> file_text c = fs path \<and> pr_data c = ps_data s" if "part @ rest = ?text" for part rest
  proof -
    have t: "pr_threads b = [Writes i 0 (part @ rest)]" using b(2) that by simp
    obtain c where "?st\<^sup>*\<^sup>* b c" "pr_threads c = [Writes i (length part) rest]" "temp_text c = Some part"
        "pr_temp c = Some i" "file_text c = file_text b" "pr_data c = pr_data b"
      by (rule call_writes [OF t b(3,4,6)])
    then show ?thesis using a(1) b(1,5,7) by (intro exI [of _ c]) (auto intro: rtranclp_trans)
  qed
  have rename: "\<exists>t. ?reach t \<and> pr_data t = ps_data s \<and> pr_threads t = [Ended (Inr ())] \<and> file_text t = Some x \<and> temp_text t = None"
    if c: "?reach c" "pr_data c = ps_data s" "pr_threads c = [Wrote]" "pr_temp c = Some i" "temp_text c = Some x" for c x
  proof -
    let ?t = "c\<lparr> pr_path := Some i, pr_temp := None, pr_threads := [] @ Ended (Inr ()) # [],
      pr_saved := Some (to_json J (pr_data c)) \<rparr>"
    have "?st c ?t" by (rule persist_step.renamed) (use c in simp_all)
    then show ?thesis using c
      by (intro exI [of _ ?t]) (auto simp: file_text_def temp_text_def intro: rtranclp.rtrancl_into_rtrancl)
  qed
  have wrote: "?st c (c\<lparr> pr_threads := [] @ Wrote # [] \<rparr>)" if "pr_threads c = [Writes i off rest]" for c :: "'a persist_run" and off rest
    by (rule persist_step.flush_lost) (use that in simp_all)
  have closes: "?st c (c\<lparr> pr_threads := [] @ Wrote # [] \<rparr>)" if "pr_threads c = [Writes i off []]" for c :: "'a persist_run" and off
    by (rule persist_step.closed) (use that in simp_all)
  obtain w where w: "?reach w" "pr_threads w = [Writes i (length ?text) []]" "temp_text w = Some ?text"
      "pr_temp w = Some i" "file_text w = fs path" "pr_data w = ps_data s"
    using part [of ?text "[]"] by auto
  let ?w = "w\<lparr> pr_threads := [] @ Wrote # [] \<rparr>"
  have w': "?reach ?w" using w(1) closes [OF w(2)] by (rule rtranclp.rtrancl_into_rtrancl)
  show ?thesis
  proof (cases fault)
    case NoFault
    have "\<exists>t. ?reach t \<and> pr_data t = ps_data s \<and> pr_threads t = [Ended (Inr ())] \<and> file_text t = Some ?text \<and> temp_text t = None"
      by (rule rename [OF w']) (use w in \<open>simp_all add: temp_text_def\<close>)
    then show ?thesis using assms(1,2) NoFault by (auto simp: maybe_persist_def Let_def)
  next
    case CreateFails
    let ?t = "a\<lparr> pr_threads := [] @ Ended (Inl IoFailed) # [] \<rparr>"
    have "?reach ?t" using a(1) fail [OF a(3)] by (simp add: rtranclp.rtrancl_into_rtrancl)
    then show ?thesis using assms(1,2) CreateFails a
      by (intro exI [of _ ?t]) (auto simp: maybe_persist_def Let_def file_text_def temp_text_def)
  next
    case (WriteFails q)
    then obtain rest where "q @ rest = ?text" using assms(3) by blast
    then obtain c where c: "?reach c" "pr_threads c = [Writes i (length q) rest]" "temp_text c = Some q"
        "file_text c = fs path" "pr_data c = ps_data s" using part [of q rest] by auto
    let ?t = "c\<lparr> pr_threads := [] @ Ended (Inl IoFailed) # [] \<rparr>"
    have "?reach ?t" using c(1) fail [OF c(2)] by (simp add: rtranclp.rtrancl_into_rtrancl)
    then show ?thesis using assms(1,2) WriteFails c
      by (intro exI [of _ ?t]) (auto simp: maybe_persist_def Let_def file_text_def temp_text_def)
  next
    case (FlushLost q)
    then obtain rest where "q @ rest = ?text" using assms(3) by blast
    then obtain c where c: "?reach c" "pr_threads c = [Writes i (length q) rest]" "temp_text c = Some q"
        "pr_temp c = Some i" "file_text c = fs path" "pr_data c = ps_data s" using part [of q rest] by auto
    let ?t = "c\<lparr> pr_threads := [] @ Wrote # [] \<rparr>"
    have t: "?reach ?t" using c(1) wrote [OF c(2)] by (rule rtranclp.rtrancl_into_rtrancl)
    have "\<exists>t. ?reach t \<and> pr_data t = ps_data s \<and> pr_threads t = [Ended (Inr ())] \<and> file_text t = Some q \<and> temp_text t = None"
      by (rule rename [OF t]) (use c in \<open>simp_all add: temp_text_def\<close>)
    then show ?thesis using assms(1,2) FlushLost by (auto simp: maybe_persist_def Let_def)
  next
    case RenameFails
    let ?t = "?w\<lparr> pr_threads := [] @ Ended (Inl IoFailed) # [] \<rparr>"
    have "?st ?w ?t" by (rule fail [of ?w Wrote]) simp_all
    then have "?reach ?t" using w' by (simp add: rtranclp.rtrancl_into_rtrancl)
    then show ?thesis using assms(1,2) RenameFails w
      by (intro exI [of _ ?t]) (auto simp: maybe_persist_def Let_def file_text_def temp_text_def)
  qed
qed

lemma saved_whole:
  "persist_reach J overlap faults lost d text left s \<Longrightarrow> pr_saved s = text \<or> (\<exists>d'. pr_saved s = Some (to_json J d'))"
proof (induction rule: rtranclp_induct)
  case base
  show ?case by (simp add: persist_init_def)
next
  case (step s s')
  from step.hyps(2) have "pr_saved s' = pr_saved s \<or> (\<exists>d'. pr_saved s' = Some (to_json J d'))"
    by cases (auto simp: create_temp_def split: option.splits)
  then show ?case using step.IH by auto
qed

section \<open>Properties\<close>

text \<open>
  C33: what persistence keeps of the file at the path. While calls do not overlap, the
  file holds at every moment, in the middle of a call included, exactly what the last
  successful renaming was meant to put there, the first text or a whole serialisation,
  whatever creation, write or renaming fails; so a crash never leaves a part. When calls overlap, which the read lock allows, but
  nothing fails, then as soon as every call has returned the file is the whole
  serialisation of the current data, also when the first to finish renamed the file the
  others were still writing.
\<close>

theorem persist_is_atomic:
  "(persist_reach J False faults False d text left s \<longrightarrow>
      file_text s = pr_saved s \<and> (file_text s = text \<or> (\<exists>d'. file_text s = Some (to_json J d')))) \<and>
   (persist_reach J overlap False False d text left s \<longrightarrow> pr_threads s \<noteq> [] \<longrightarrow>
      (\<forall>t\<in>set (pr_threads s). \<exists>r. t = Ended r) \<longrightarrow> file_text s = Some (to_json J (pr_data s)))"
proof (intro conjI impI)
  assume r: "persist_reach J False faults False d text left s"
  then show "file_text s = pr_saved s" using alone_reach [of J faults d "text" left s] by (simp add: alone_inv_def Let_def)
  then show "file_text s = text \<or> (\<exists>d'. file_text s = Some (to_json J d'))" using saved_whole [OF r] by simp
next
  assume r: "persist_reach J overlap False False d text left s" "pr_threads s \<noteq> []"
    "\<forall>t\<in>set (pr_threads s). \<exists>r. t = Ended r"
  then have n: "\<not> working t \<and> \<not> holds_lock t \<and> t \<noteq> Waits" if "t \<in> set (pr_threads s)" for t
    using that by fastforce
  have "shared_inv J s" using shared_reach [OF r(1)] by simp
  then obtain i where i: "pr_path s = Some i" "covered (to_json J (pr_data s)) s i"
    using n r(2) unfolding shared_inv_def Let_def by (metis holds_lock.simps(3))
  have "pr_inodes s i = to_json J (pr_data s)" by (rule covered_whole [OF i(2)]) (use n in blast)
  then show "file_text s = Some (to_json J (pr_data s))" using i(1) by (simp add: file_text_def)
qed

definition two_calls :: "nat option \<Rightarrow> nat option \<Rightarrow> string \<Rightarrow> nat \<Rightarrow> persister list \<Rightarrow> string option \<Rightarrow> nat persist_run" where
  "two_calls path temp c free threads saved =
     \<lparr> pr_data = 2, pr_path = path, pr_temp = temp, pr_inodes = (\<lambda>i. if i = 0 then ''1'' else [])(2 := c),
       pr_free = free, pr_threads = threads, pr_saved = saved \<rparr>"

lemma two_calls_begin:
  "persist_reach nat_json True faults False 0 (Some ''1'') None (two_calls (Some 0) None [] 2 [Locks, Locks] (Some ''1''))"
proof -
  let ?s = "\<lambda>ts. two_calls (Some 0) None [] 2 ts (Some ''1'')"
  let ?st = "persist_step nat_json True faults False"
  have "?st (persist_init 0 (Some ''1'') None) (?s [Waits])"
    using persist_step.changed [of "persist_init 0 (Some ''1'') None" nat_json True faults False 2]
    by (simp add: persist_init_def two_calls_def fun_upd_idem if_distrib [of "case_option [] (\<lambda>t. t)"] cong: if_cong)
  moreover have "?st (?s [Waits]) (?s [Waits, Waits])"
    using persist_step.changed [of "?s [Waits]" nat_json True faults False 2] by (simp add: two_calls_def)
  moreover have "?st (?s [Waits, Waits]) (?s [Locks, Waits])"
    using persist_step.locked [of "?s [Waits, Waits]" "[]" "[Waits]" True] by (simp add: two_calls_def)
  moreover have "?st (?s [Locks, Waits]) (?s [Locks, Locks])"
    using persist_step.locked [of "?s [Locks, Waits]" "[Locks]" "[]" True] by (simp add: two_calls_def)
  ultimately show ?thesis by (meson rtranclp.rtrancl_into_rtrancl rtranclp.rtrancl_refl)
qed

lemma two_calls_cross:
  "persist_reach nat_json True faults False 0 (Some ''1'') None
     (two_calls (Some 2) None [] 3 [Ended (Inr ()), Writes 2 0 ''11''] (Some ''11''))"
proof -
  let ?s = "\<lambda>temp c free ts. two_calls (Some 0) temp c free ts (Some ''1'')"
  let ?st = "persist_step nat_json True faults False"
  have j: "to_json nat_json 2 = ''11''" by (simp add: nat_json_def numeral_2_eq_2)
  have "?st (?s None [] 2 [Locks, Locks]) (?s (Some 2) [] 3 [Writes 2 0 ''11'', Locks])"
    using persist_step.created [of "?s None [] 2 [Locks, Locks]" "[]" "[Locks]" _ _ nat_json True faults False, OF _ surjective_pairing]
    by (simp add: two_calls_def create_temp_def j)
  moreover have "?st (?s (Some 2) [] 3 [Writes 2 0 ''11'', Locks]) (?s (Some 2) ''11'' 3 [Writes 2 2 [], Locks])"
    using persist_step.written [of "?s (Some 2) [] 3 [Writes 2 0 ''11'', Locks]" "[]" 2 0 "''11''" "[]" "[Locks]"]
    by (simp add: two_calls_def write_at_def eval_nat_numeral)
  moreover have "?st (?s (Some 2) ''11'' 3 [Writes 2 2 [], Locks]) (?s (Some 2) ''11'' 3 [Wrote, Locks])"
    using persist_step.closed [of "?s (Some 2) ''11'' 3 [Writes 2 2 [], Locks]" "[]" 2 2 "[Locks]"] by (simp add: two_calls_def)
  moreover have "?st (?s (Some 2) ''11'' 3 [Wrote, Locks]) (?s (Some 2) [] 3 [Wrote, Writes 2 0 ''11''])"
    using persist_step.created [of "?s (Some 2) ''11'' 3 [Wrote, Locks]" "[Wrote]" "[]" _ _ nat_json True faults False, OF _ surjective_pairing]
    by (simp add: two_calls_def create_temp_def j)
  moreover have "?st (?s (Some 2) [] 3 [Wrote, Writes 2 0 ''11''])
      (two_calls (Some 2) None [] 3 [Ended (Inr ()), Writes 2 0 ''11''] (Some ''11''))"
    using persist_step.renamed [of "?s (Some 2) [] 3 [Wrote, Writes 2 0 ''11'']" "[]" "[Writes 2 0 ''11'']" 2 nat_json True faults False]
    by (simp add: two_calls_def j)
  ultimately show ?thesis
    using two_calls_begin [of faults] by (meson rtranclp.rtrancl_into_rtrancl)
qed

text \<open>
  overlapping calls break the promise of the temporary file. Of two calls of one store the
  second empties the file the first has written and is about to rename: the good file is
  then replaced by an empty one although the first call reports success and nothing has
  failed, and it stays empty when the second call's write fails.
\<close>

theorem overlapping_persists_corrupt:
  "(\<exists>s. persist_reach nat_json True False False 0 (Some ''1'') None s \<and>
     Ended (Inr ()) \<in> set (pr_threads s) \<and> file_text s = Some [] \<and> of_json nat_json ''1'' = Some 1) \<and>
   (\<exists>s. persist_reach nat_json True True False 0 (Some ''1'') None s \<and>
     pr_threads s = [Ended (Inr ()), Ended (Inl IoFailed)] \<and> file_text s = Some [])"
proof
  show "\<exists>s. persist_reach nat_json True False False 0 (Some ''1'') None s \<and>
     Ended (Inr ()) \<in> set (pr_threads s) \<and> file_text s = Some [] \<and> of_json nat_json ''1'' = Some 1"
    by (intro exI conjI, rule two_calls_cross) (simp_all add: two_calls_def file_text_def nat_json_def)
  let ?s = "two_calls (Some 2) None [] 3 [Ended (Inr ()), Writes 2 0 ''11''] (Some ''11'')"
  let ?t = "two_calls (Some 2) None [] 3 [Ended (Inr ()), Ended (Inl IoFailed)] (Some ''11'')"
  have "persist_step nat_json True True False ?s ?t"
    using persist_step.failed [of True ?s "[Ended (Inr ())]" "Writes 2 0 ''11''" "[]"] by (simp add: two_calls_def)
  with two_calls_cross have "persist_reach nat_json True True False 0 (Some ''1'') None ?t"
    by (rule rtranclp.rtrancl_into_rtrancl)
  then show "\<exists>s. persist_reach nat_json True True False 0 (Some ''1'') None s \<and>
     pr_threads s = [Ended (Inr ()), Ended (Inl IoFailed)] \<and> file_text s = Some []"
    by (intro exI [of _ ?t] conjI) (simp_all add: two_calls_def file_text_def)
qed

theorem persist_is_atomic_witness:
  "(\<exists>s. persist_reach nat_json False True False 0 (Some ''1'') None s \<and> pr_threads s = [Writes 2 1 ''1''] \<and>
     temp_text s = Some ''1'' \<and> file_text s = Some ''1'') \<and>
   (\<exists>s. persist_reach nat_json True False False 0 (Some ''1'') None s \<and>
     pr_threads s = [Ended (Inr ()), Ended (Inl FileNotFound)] \<and> file_text s = Some ''11'')"
proof
  let ?s = "\<lambda>path temp c free ts. two_calls path temp c free ts (Some ''1'')"
  let ?st = "persist_step nat_json False True False"
  have j: "to_json nat_json 2 = ''11''" by (simp add: nat_json_def numeral_2_eq_2)
  let ?t = "?s (Some 0) (Some 2) ''1'' 3 [Writes 2 1 ''1'']"
  have "?st (persist_init 0 (Some ''1'') None) (?s (Some 0) None [] 2 [Waits])"
    using persist_step.changed [of "persist_init 0 (Some ''1'') None" nat_json False True False 2]
    by (simp add: persist_init_def two_calls_def fun_upd_idem if_distrib [of "case_option [] (\<lambda>t. t)"] cong: if_cong)
  moreover have "?st (?s (Some 0) None [] 2 [Waits]) (?s (Some 0) None [] 2 [Locks])"
    using persist_step.locked [of "?s (Some 0) None [] 2 [Waits]" "[]" "[]" False] by (simp add: two_calls_def)
  moreover have "?st (?s (Some 0) None [] 2 [Locks]) (?s (Some 0) (Some 2) [] 3 [Writes 2 0 ''11''])"
    using persist_step.created [of "?s (Some 0) None [] 2 [Locks]" "[]" "[]" _ _ nat_json False True False, OF _ surjective_pairing]
    by (simp add: two_calls_def create_temp_def j)
  moreover have "?st (?s (Some 0) (Some 2) [] 3 [Writes 2 0 ''11'']) ?t"
    using persist_step.written [of "?s (Some 0) (Some 2) [] 3 [Writes 2 0 ''11'']" "[]" 2 0 "''1''" "''1''" "[]"]
    by (simp add: two_calls_def write_at_def eval_nat_numeral)
  ultimately have r: "persist_reach nat_json False True False 0 (Some ''1'') None ?t"
    by (meson rtranclp.rtrancl_into_rtrancl rtranclp.rtrancl_refl)
  have "file_text ?t = pr_saved ?t"
    using persist_is_atomic [of nat_json True 0 "Some ''1''" None ?t False] r by blast
  then have "file_text ?t = Some ''1''" by (simp add: two_calls_def)
  then show "\<exists>s. persist_reach nat_json False True False 0 (Some ''1'') None s \<and> pr_threads s = [Writes 2 1 ''1''] \<and>
     temp_text s = Some ''1'' \<and> file_text s = Some ''1''"
    by (intro exI [of _ ?t] conjI r) (simp_all add: two_calls_def temp_text_def)
next
  let ?s = "\<lambda>c ts. two_calls (Some 2) None c 3 ts (Some ''11'')"
  let ?st = "persist_step nat_json True False False"
  let ?t = "?s ''11'' [Ended (Inr ()), Ended (Inl FileNotFound)]"
  have "?st (?s [] [Ended (Inr ()), Writes 2 0 ''11'']) (?s ''11'' [Ended (Inr ()), Writes 2 2 []])"
    using persist_step.written [of "?s [] [Ended (Inr ()), Writes 2 0 ''11'']" "[Ended (Inr ())]" 2 0 "''11''" "[]" "[]"]
    by (simp add: two_calls_def write_at_def eval_nat_numeral)
  moreover have "?st (?s ''11'' [Ended (Inr ()), Writes 2 2 []]) (?s ''11'' [Ended (Inr ()), Wrote])"
    using persist_step.closed [of "?s ''11'' [Ended (Inr ()), Writes 2 2 []]" "[Ended (Inr ())]" 2 2 "[]"]
    by (simp add: two_calls_def)
  moreover have "?st (?s ''11'' [Ended (Inr ()), Wrote]) ?t"
    using persist_step.vanished [of "?s ''11'' [Ended (Inr ()), Wrote]" "[Ended (Inr ())]" "[]"]
    by (simp add: two_calls_def)
  ultimately have r: "persist_reach nat_json True False False 0 (Some ''1'') None ?t"
    using two_calls_cross [of False] by (meson rtranclp.rtrancl_into_rtrancl)
  have e: "pr_threads ?t = [Ended (Inr ()), Ended (Inl FileNotFound)]" "pr_data ?t = 2" by (simp_all add: two_calls_def)
  have "file_text ?t = Some (to_json nat_json (pr_data ?t))"
    using persist_is_atomic [of nat_json False 0 "Some ''1''" None ?t True] r e(1) by fastforce
  then have "file_text ?t = Some ''11''" unfolding e(2) by (simp add: nat_json_def numeral_2_eq_2)
  then show "\<exists>s. persist_reach nat_json True False False 0 (Some ''1'') None s \<and>
     pr_threads s = [Ended (Inr ()), Ended (Inl FileNotFound)] \<and> file_text s = Some ''11''"
    by (intro exI [of _ ?t] conjI r e)
qed

end
