(* ===== verification/Batch.thy ===== *)
theory Batch
  imports Prelude
begin

text \<open>
  The request batcher of \<^verbatim>\<open>primitives/src/batch.rs\<close> as a state machine: callers queue
  items, one spawned task at a time waits, takes the queue, runs the processor and answers
  the callers.  Every section under the lock, and every await between them, is a step; the
  clock is in milliseconds and may advance between any two steps.
\<close>

section \<open>State\<close>

datatype 'e batch_error = TaskDropped | ProcessorError 'e

record batch_config =
  batch_delay_ms :: nat
  min_interval_ms :: nat

definition batch_config_default :: batch_config where
  "batch_config_default = \<lparr> batch_delay_ms = 10, min_interval_ms = 100 \<rparr>"

text \<open>
  The queue under the lock.  A \<^verbatim>\<open>oneshot\<close> sender is the number of the call it answers.
\<close>

record 'i batch_queue =
  bq_items :: "('i \<times> nat) list"
  bq_next_execution :: "nat option"
  bq_last_execution :: "nat option"
  bq_processing :: bool

text \<open>
  Where the task of \<^verbatim>\<open>schedule_next_batch\<close> is: before its first lock, asleep until a time,
  running the processor on the items taken, or before its last lock.
\<close>

datatype 'i phase = Scheduled | Sleeping nat | Processing "('i \<times> nat) list" | Settling

text \<open>
  The whole system: beside the queue and the configuration, the spawned tasks, the clock,
  the items of the calls made so far, the answers sent, and the times at which the
  processor was started, latest first.
\<close>

record ('i, 'r, 'e) batch =
  bs_queue :: "'i batch_queue"
  bs_config :: batch_config
  bs_tasks :: "'i phase list"
  bs_clock :: nat
  bs_calls :: "'i list"
  bs_answers :: "nat \<rightharpoonup> 'e batch_error + 'r"
  bs_starts :: "nat list"

definition batch_new :: "batch_config \<Rightarrow> ('i, 'r, 'e) batch" where
  "batch_new cfg =
     \<lparr> bs_queue = \<lparr> bq_items = [], bq_next_execution = None, bq_last_execution = None, bq_processing = False \<rparr>,
       bs_config = cfg, bs_tasks = [], bs_clock = 0, bs_calls = [], bs_answers = Map.empty, bs_starts = [] \<rparr>"

definition batch_with_defaults :: "('i, 'r, 'e) batch" where
  "batch_with_defaults = batch_new batch_config_default"

definition batch_with_timing :: "nat \<Rightarrow> nat \<Rightarrow> ('i, 'r, 'e) batch" where
  "batch_with_timing delay interval = batch_new \<lparr> batch_delay_ms = delay, min_interval_ms = interval \<rparr>"

definition update_config :: "batch_config \<Rightarrow> ('i, 'r, 'e) batch \<Rightarrow> ('i, 'r, 'e) batch" where
  "update_config cfg s = s\<lparr> bs_config := cfg \<rparr>"

definition set_batch_delay :: "nat \<Rightarrow> ('i, 'r, 'e) batch \<Rightarrow> ('i, 'r, 'e) batch" where
  "set_batch_delay delay s = s\<lparr> bs_config := (bs_config s)\<lparr> batch_delay_ms := delay \<rparr> \<rparr>"

definition set_min_interval :: "nat \<Rightarrow> ('i, 'r, 'e) batch \<Rightarrow> ('i, 'r, 'e) batch" where
  "set_min_interval interval s = s\<lparr> bs_config := (bs_config s)\<lparr> min_interval_ms := interval \<rparr> \<rparr>"

section \<open>Steps\<close>

text \<open>
  \<^verbatim>\<open>call\<close> up to the await: the item is queued and, when nothing is scheduled or running, a
  task is spawned for a time that respects the delay and the throttle.
\<close>

definition call_time :: "batch_config \<Rightarrow> nat option \<Rightarrow> nat \<Rightarrow> nat" where
  "call_time cfg last_execution now =
     (case last_execution of
        Some last_exec \<Rightarrow>
          (let min_next = last_exec + min_interval_ms cfg; batch_next = now + batch_delay_ms cfg
           in max min_next batch_next)
      | None \<Rightarrow> now + batch_delay_ms cfg)"

definition batch_call :: "'i \<Rightarrow> ('i, 'r, 'e) batch \<Rightarrow> ('i, 'r, 'e) batch" where
  "batch_call item s =
     (let q = (bs_queue s)\<lparr> bq_items := bq_items (bs_queue s) @ [(item, length (bs_calls s))] \<rparr>;
          s = s\<lparr> bs_calls := bs_calls s @ [item] \<rparr>
      in if bq_next_execution q = None \<and> \<not> bq_processing q
         then s\<lparr> bs_queue := q\<lparr> bq_next_execution := Some (call_time (bs_config s) (bq_last_execution q) (bs_clock s)) \<rparr>,
                bs_tasks := bs_tasks s @ [Scheduled] \<rparr>
         else s\<lparr> bs_queue := q \<rparr>)"

text \<open>The first lock of the task: how long to sleep; nothing is left to do without a time.\<close>

definition task_schedule :: "nat \<Rightarrow> ('i, 'r, 'e) batch \<Rightarrow> ('i, 'r, 'e) batch" where
  "task_schedule i s =
     (case bq_next_execution (bs_queue s) of
        Some next_time \<Rightarrow>
          (let wait = (if bs_clock s < next_time then next_time - bs_clock s else 0)
           in s\<lparr> bs_tasks := (bs_tasks s)[i := Sleeping (bs_clock s + wait)] \<rparr>)
      | None \<Rightarrow> s\<lparr> bs_tasks := remove_nth i (bs_tasks s) \<rparr>)"

text \<open>The second lock: everything queued is taken.\<close>

definition task_take :: "nat \<Rightarrow> ('i, 'r, 'e) batch \<Rightarrow> ('i, 'r, 'e) batch" where
  "task_take i s =
     (let q = bs_queue s
      in s\<lparr> bs_queue := q\<lparr> bq_next_execution := None, bq_processing := True, bq_items := [] \<rparr>,
           bs_tasks := (bs_tasks s)[i := Processing (bq_items q)],
           bs_starts := (if bq_items q = [] then bs_starts s else bs_clock s # bs_starts s) \<rparr>)"

text \<open>
  The answers of a batch: results are zipped with the callers, and a caller without a
  result sees its sender dropped; an error goes to every caller.  Nothing is processed when
  the queue was empty.
\<close>

definition batch_answers :: "('e + 'r list) \<Rightarrow> ('i \<times> nat) list \<Rightarrow> nat \<rightharpoonup> 'e batch_error + 'r" where
  "batch_answers outcome taken =
     (case outcome of
        Inr results \<Rightarrow>
          map_of (zip (map snd taken) (map Inr results @ replicate (length taken) (Inl TaskDropped)))
      | Inl err \<Rightarrow> map_of (map (\<lambda>(_, caller). (caller, Inl (ProcessorError err))) taken))"

definition task_finish ::
  "('i list \<Rightarrow> 'e + 'r list) \<Rightarrow> nat \<Rightarrow> ('i \<times> nat) list \<Rightarrow> ('i, 'r, 'e) batch \<Rightarrow> ('i, 'r, 'e) batch" where
  "task_finish process_batch i taken s =
     (let s = s\<lparr> bs_tasks := (bs_tasks s)[i := Settling] \<rparr>
      in if taken = [] then s
         else s\<lparr> bs_answers := bs_answers s ++ batch_answers (process_batch (map fst taken)) taken \<rparr>)"

text \<open>
  The last lock, at three readings of the clock \<^term>\<open>t0 \<le> t1\<close> and \<^term>\<open>t1 \<le> t2\<close>: the time of
  the next batch is computed from the time elapsed since the first.
\<close>

definition task_settle :: "nat \<Rightarrow> nat \<Rightarrow> nat \<Rightarrow> nat \<Rightarrow> ('i, 'r, 'e) batch \<Rightarrow> ('i, 'r, 'e) batch" where
  "task_settle i t0 t1 t2 s =
     (let q = (bs_queue s)\<lparr> bq_last_execution := Some t0, bq_processing := False \<rparr>;
          s = s\<lparr> bs_clock := t2 \<rparr>
      in if bq_items q \<noteq> [] \<and> bq_next_execution q = None
         then (let min_next = t0 + max 0 (t2 - t0); next_time = max min_next t1
               in s\<lparr> bs_queue := q\<lparr> bq_next_execution := Some next_time \<rparr>,
                    bs_tasks := (bs_tasks s)[i := Scheduled] \<rparr>)
         else s\<lparr> bs_queue := q, bs_tasks := remove_nth i (bs_tasks s) \<rparr>)"

text \<open>A processor that panics takes its task with it: the callers' senders are dropped.\<close>

definition task_panic :: "nat \<Rightarrow> ('i \<times> nat) list \<Rightarrow> ('i, 'r, 'e) batch \<Rightarrow> ('i, 'r, 'e) batch" where
  "task_panic i taken s =
     s\<lparr> bs_tasks := remove_nth i (bs_tasks s),
        bs_answers := bs_answers s ++ map_of (map (\<lambda>(_, caller). (caller, Inl TaskDropped)) taken) \<rparr>"

text \<open>
  One step of the system for a processor.  \<^term>\<open>work_step\<close> are the steps of the tasks and the clock.
\<close>

inductive work_step ::
  "('i list \<Rightarrow> 'e + 'r list) \<Rightarrow> ('i, 'r, 'e) batch \<Rightarrow> ('i, 'r, 'e) batch \<Rightarrow> bool"
  for process_batch :: "'i list \<Rightarrow> 'e + 'r list" where
  tick: "bs_clock s \<le> t \<Longrightarrow> work_step process_batch s (s\<lparr> bs_clock := t \<rparr>)"
| schedule: "i < length (bs_tasks s) \<Longrightarrow> bs_tasks s ! i = Scheduled \<Longrightarrow> work_step process_batch s (task_schedule i s)"
| take: "i < length (bs_tasks s) \<Longrightarrow> bs_tasks s ! i = Sleeping t \<Longrightarrow> t \<le> bs_clock s \<Longrightarrow>
    work_step process_batch s (task_take i s)"
| finish: "i < length (bs_tasks s) \<Longrightarrow> bs_tasks s ! i = Processing taken \<Longrightarrow>
    work_step process_batch s (task_finish process_batch i taken s)"
| settle: "i < length (bs_tasks s) \<Longrightarrow> bs_tasks s ! i = Settling \<Longrightarrow> bs_clock s \<le> t0 \<Longrightarrow> t0 \<le> t1 \<Longrightarrow> t1 \<le> t2 \<Longrightarrow>
    work_step process_batch s (task_settle i t0 t1 t2 s)"

inductive batch_step ::
  "('i list \<Rightarrow> 'e + 'r list) \<Rightarrow> ('i, 'r, 'e) batch \<Rightarrow> ('i, 'r, 'e) batch \<Rightarrow> bool"
  for process_batch :: "'i list \<Rightarrow> 'e + 'r list" where
  call: "batch_step process_batch s (batch_call item s)"
| configure: "batch_step process_batch s (update_config cfg s)"
| work: "work_step process_batch s s' \<Longrightarrow> batch_step process_batch s s'"

inductive batch_reach ::
  "('i list \<Rightarrow> 'e + 'r list) \<Rightarrow> batch_config \<Rightarrow> ('i, 'r, 'e) batch \<Rightarrow> bool"
  for process_batch :: "'i list \<Rightarrow> 'e + 'r list" and cfg :: batch_config where
  start: "batch_reach process_batch cfg (batch_new cfg)"
| step: "batch_reach process_batch cfg s \<Longrightarrow> batch_step process_batch s s' \<Longrightarrow> batch_reach process_batch cfg s'"

section \<open>The invariant\<close>

text \<open>
  At most one task exists, and the lock's fields say where it is; the callers waiting are
  those queued and those of the batch being processed, in the order of their calls.
\<close>

fun in_hand :: "'i phase list \<Rightarrow> ('i \<times> nat) list" where
  "in_hand [Processing taken] = taken"
| "in_hand _ = []"

fun phase_ok :: "'i batch_queue \<Rightarrow> 'i phase list \<Rightarrow> bool" where
  "phase_ok q [] = (bq_next_execution q = None \<and> \<not> bq_processing q \<and> bq_items q = [])"
| "phase_ok q [Scheduled] = (bq_next_execution q \<noteq> None \<and> \<not> bq_processing q)"
| "phase_ok q [Sleeping t] = (bq_next_execution q \<noteq> None \<and> \<not> bq_processing q)"
| "phase_ok q [Processing taken] = (bq_next_execution q = None \<and> bq_processing q)"
| "phase_ok q [Settling] = (bq_next_execution q = None \<and> bq_processing q)"
| "phase_ok q _ = False"

definition waiting :: "('i, 'r, 'e) batch \<Rightarrow> ('i \<times> nat) list" where
  "waiting s = in_hand (bs_tasks s) @ bq_items (bs_queue s)"

definition served :: "nat \<Rightarrow> ('i, 'r, 'e) batch \<Rightarrow> bool" where
  "served n s \<longleftrightarrow> n \<le> length (bs_calls s) \<and> dom (bs_answers s) = {..<n} \<and>
     waiting s = drop n (zip (bs_calls s) [0..<length (bs_calls s)])"

definition batch_inv :: "('i, 'r, 'e) batch \<Rightarrow> bool" where
  "batch_inv s \<longleftrightarrow> phase_ok (bs_queue s) (bs_tasks s) \<and> (\<exists>n. served n s)"

lemma phase_okE:
  assumes "phase_ok q ts"
  obtains "ts = []" "bq_next_execution q = None" "\<not> bq_processing q" "bq_items q = []"
  | "ts = [Scheduled]" "bq_next_execution q \<noteq> None" "\<not> bq_processing q"
  | t where "ts = [Sleeping t]" "bq_next_execution q \<noteq> None" "\<not> bq_processing q"
  | taken where "ts = [Processing taken]" "bq_next_execution q = None" "bq_processing q"
  | "ts = [Settling]" "bq_next_execution q = None" "bq_processing q"
  using assms by (cases "(q, ts)" rule: phase_ok.cases) auto

lemma batch_new_inv: "batch_inv (batch_new cfg)"
  by (auto simp: batch_inv_def served_def batch_new_def waiting_def)

lemma batch_call_inv:
  assumes "batch_inv s"
  shows "batch_inv (batch_call item s)"
proof -
  let ?c = "bs_calls s" and ?s = "batch_call item s"
  obtain n where n: "served n s" and ok: "phase_ok (bs_queue s) (bs_tasks s)" using assms by (auto simp: batch_inv_def)
  have f: "bs_calls ?s = ?c @ [item]" "bs_answers ?s = bs_answers s" by (simp_all add: batch_call_def Let_def)
  have w: "waiting ?s = waiting s @ [(item, length ?c)]" "phase_ok (bs_queue ?s) (bs_tasks ?s)"
    using ok by (auto elim!: phase_okE simp: batch_call_def waiting_def Let_def)
  then have "served n ?s" using n by (simp add: served_def f)
  then show ?thesis using w(2) by (auto simp: batch_inv_def)
qed

lemma batch_inv_tasks:
  assumes "batch_inv s" "i < length (bs_tasks s)"
  shows "i = 0 \<and> bs_tasks s = [bs_tasks s ! i]"
  using assms by (auto simp: batch_inv_def elim!: phase_okE)

lemma dom_batch_answers: "dom (batch_answers outcome taken) = set (map snd taken)"
proof (cases outcome)
  case (Inl e)
  then show ?thesis by (force simp: batch_answers_def dom_map_of_conv_image_fst)
next
  case (Inr rs)
  have "length (map snd taken) \<le> length (map Inr rs @ replicate (length taken) (Inl TaskDropped))" by simp
  then have "map fst (zip (map snd taken) (map Inr rs @ replicate (length taken) (Inl TaskDropped))) = map snd taken"
    by (simp add: map_fst_zip_take)
  then have "fst ` set (zip (map snd taken) (map Inr rs @ replicate (length taken) (Inl TaskDropped))) = set (map snd taken)"
    by (metis set_map)
  then show ?thesis unfolding Inr batch_answers_def sum.case dom_map_of_conv_image_fst .
qed

lemma served_split:
  assumes "served n s" "waiting s = xs @ ys"
  shows "ys = drop (n + length xs) (zip (bs_calls s) [0..<length (bs_calls s)])" "n + length xs \<le> length (bs_calls s)"
    and "map snd xs = [n..<n + length xs]" "map fst xs = take (length xs) (drop n (bs_calls s))"
proof -
  let ?c = "bs_calls s"
  have a: "xs @ ys = drop n (zip ?c [0..<length ?c])" "n \<le> length ?c" using assms by (simp_all add: served_def)
  have "length xs + length ys = length ?c - n" using arg_cong [OF a(1), of length] by simp
  then show *: "n + length xs \<le> length ?c" using a(2) by simp
  have "drop (length xs) (xs @ ys) = drop (n + length xs) (zip ?c [0..<length ?c])"
    unfolding a(1) by (simp add: add.commute)
  then show "ys = drop (n + length xs) (zip ?c [0..<length ?c])" by simp
  have "take (length xs) (xs @ ys) = take (length xs) (drop n (zip ?c [0..<length ?c]))" unfolding a(1) ..
  then have xs: "xs = zip (take (length xs) (drop n ?c)) [n..<n + length xs]"
    using * by (simp add: drop_zip take_zip min_def)
  show "map snd xs = [n..<n + length xs]" using * by (subst xs) simp
  show "map fst xs = take (length xs) (drop n ?c)" using * by (subst xs) simp
qed

lemma finish_served:
  assumes "served n s" "bs_tasks s = [Processing taken]"
  shows "served (n + length taken) (task_finish P 0 taken s)"
proof -
  have w: "waiting s = taken @ bq_items (bs_queue s)" using assms(2) by (simp add: waiting_def)
  note split = served_split [OF assms(1) w]
  have "dom (bs_answers (task_finish P 0 taken s)) = {..<n + length taken}"
    using assms(1) split(3) by (cases "taken = []") (auto simp: served_def task_finish_def Let_def dom_batch_answers)
  then show ?thesis
    using split(1,2) assms(2) by (simp add: served_def task_finish_def Let_def waiting_def)
qed

lemma work_step_inv:
  assumes "work_step P s s'" "batch_inv s"
  shows "batch_inv s'"
proof -
  obtain n where n: "served n s" using assms(2) by (auto simp: batch_inv_def)
  have ok: "phase_ok (bs_queue s) (bs_tasks s)" using assms(2) by (simp add: batch_inv_def)
  note one = batch_inv_tasks [OF assms(2)]
  have "phase_ok (bs_queue s') (bs_tasks s') \<and> (\<exists>m. served m s')"
    using assms(1)
  proof cases
    case (tick t)
    then show ?thesis using n ok by (auto simp: served_def waiting_def)
  next
    case (schedule i)
    then have "i = 0" "bs_tasks s = [Scheduled]" using one [of i] by auto
    then show ?thesis using n ok by (auto simp: schedule(1) served_def task_schedule_def waiting_def Let_def)
  next
    case (take i t)
    then have "i = 0" "bs_tasks s = [Sleeping t]" using one [of i] by auto
    then show ?thesis using n ok by (auto simp: take(1) served_def task_take_def waiting_def Let_def)
  next
    case (finish i taken)
    then have i: "i = 0" "bs_tasks s = [Processing taken]" using one [of i] by auto
    then show ?thesis using finish_served [OF n i(2), of P] ok by (auto simp: finish(1)) (simp add: task_finish_def Let_def)
  next
    case (settle i t0 t1 t2)
    then have "i = 0" "bs_tasks s = [Settling]" using one [of i] by auto
    then show ?thesis using n ok by (auto simp: settle(1) served_def task_settle_def waiting_def Let_def)
  qed
  then show ?thesis by (simp add: batch_inv_def)
qed

lemma batch_step_inv: "batch_step P s s' \<Longrightarrow> batch_inv s \<Longrightarrow> batch_inv s'"
  by (auto elim!: batch_step.cases intro: batch_call_inv work_step_inv)
    (simp add: batch_inv_def served_def update_config_def waiting_def)

lemma batch_reach_inv: "batch_reach P cfg s \<Longrightarrow> batch_inv s"
  by (induction rule: batch_reach.induct) (auto intro: batch_new_inv batch_step_inv)

section \<open>What the callers get\<close>

text \<open>The contract the trait asks of a processor: one result per item in order, or an error for all.\<close>

definition processor_contract :: "('i list \<Rightarrow> 'e + 'r list) \<Rightarrow> ('i \<Rightarrow> 'r) \<Rightarrow> bool" where
  "processor_contract P f \<longleftrightarrow> (\<forall>items. isOk (P items) \<longrightarrow> P items = Inr (map f items))"

definition good_answers :: "('i list \<Rightarrow> 'e + 'r list) \<Rightarrow> ('i \<Rightarrow> 'r) \<Rightarrow> ('i, 'r, 'e) batch \<Rightarrow> bool" where
  "good_answers P f s \<longleftrightarrow> (\<forall>k r. bs_answers s k = Some r \<longrightarrow>
     r = Inr (f (bs_calls s ! k)) \<or> (\<exists>items e. P items = Inl e \<and> r = Inl (ProcessorError e)))"

lemma batch_answers_good:
  assumes "processor_contract P f" "batch_answers (P (map fst taken)) taken k = Some r"
  shows "(\<exists>x. (x, k) \<in> set taken \<and> r = Inr (f x)) \<or> (\<exists>items e. P items = Inl e \<and> r = Inl (ProcessorError e))"
proof (cases "P (map fst taken)")
  case (Inl e)
  then have "r = Inl (ProcessorError e)" using assms(2) by (auto simp: batch_answers_def dest!: map_of_SomeD)
  then show ?thesis using Inl by blast
next
  case (Inr rs)
  then have rs: "rs = map (f \<circ> fst) taken" using assms(1) by (fastforce simp: processor_contract_def isOk_iff)
  have z: "zip (map snd taken) (map Inr rs @ ys) = map (\<lambda>(x, k). (k, Inr (f x))) taken" for ys :: "('b batch_error + 'c) list"
    unfolding rs by (induction taken) auto
  have "(k, r) \<in> set (map (\<lambda>(x, k). (k, Inr (f x))) taken)"
    using assms(2) by (auto simp: batch_answers_def Inr z dest!: map_of_SomeD)
  then show ?thesis by auto
qed

lemma batch_call_good:
  assumes "batch_inv s" "good_answers P f s"
  shows "good_answers P f (batch_call item s)"
proof -
  have "k < length (bs_calls s)" if "bs_answers s k = Some r" for k r
  proof -
    obtain n where "n \<le> length (bs_calls s)" "dom (bs_answers s) = {..<n}" using assms(1) by (auto simp: batch_inv_def served_def)
    moreover have "k \<in> dom (bs_answers s)" using that by blast
    ultimately show ?thesis by simp
  qed
  moreover have "bs_calls (batch_call item s) = bs_calls s @ [item]" "bs_answers (batch_call item s) = bs_answers s"
    by (simp_all add: batch_call_def Let_def)
  ultimately show ?thesis using assms(2) unfolding good_answers_def by (metis nth_append)
qed

lemma work_step_good:
  assumes "processor_contract P f" "batch_inv s" "good_answers P f s" "work_step P s s'"
  shows "good_answers P f s'"
  using assms(4)
proof cases
  case (finish i taken)
  then have i: "i = 0" "bs_tasks s = [Processing taken]" using batch_inv_tasks [OF assms(2), of i] by auto
  obtain n where n: "served n s" using assms(2) by (auto simp: batch_inv_def)
  have "waiting s = taken @ bq_items (bs_queue s)" using i by (simp add: waiting_def)
  then have sub: "set taken \<subseteq> set (zip (bs_calls s) [0..<length (bs_calls s)])"
    using n by (metis Un_upper1 served_def set_append set_drop_subset subset_trans)
  have nth: "x = bs_calls s ! k" if "(x, k) \<in> set taken" for x k using sub that by (auto simp: set_zip)
  have c: "bs_calls s' = bs_calls s" by (simp add: finish(1) task_finish_def Let_def)
  show ?thesis
    unfolding good_answers_def c
  proof (intro allI impI)
    fix k r
    assume "bs_answers s' k = Some r"
    then have "bs_answers s k = Some r \<or> batch_answers (P (map fst taken)) taken k = Some r"
      by (auto simp: finish(1) task_finish_def Let_def map_add_Some_iff split: if_splits)
    then show "r = Inr (f (bs_calls s ! k)) \<or> (\<exists>items e. P items = Inl e \<and> r = Inl (ProcessorError e))"
      using assms(3) batch_answers_good [OF assms(1), of taken k r] nth unfolding good_answers_def by blast
  qed
qed (use assms(3) in \<open>auto simp: good_answers_def task_schedule_def task_take_def task_settle_def Let_def split: option.splits\<close>)

lemma batch_reach_good: "batch_reach P cfg s \<Longrightarrow> processor_contract P f \<Longrightarrow> good_answers P f s"
proof (induction rule: batch_reach.induct)
  case (step s s')
  have inv: "batch_inv s" by (rule batch_reach_inv [OF step.hyps(1)])
  show ?case
    using step.hyps(2)
  proof cases
    case (call item)
    then show ?thesis using batch_call_good [OF inv step.IH] step.prems by simp
  next
    case (configure cfg')
    then show ?thesis using step.IH step.prems by (simp add: good_answers_def update_config_def)
  next
    case work
    then show ?thesis using work_step_good [OF step.prems inv] step.IH step.prems by blast
  qed
qed (simp add: good_answers_def batch_new_def)

section \<open>Every call is served\<close>

abbreviation works :: "('i list \<Rightarrow> 'e + 'r list) \<Rightarrow> ('i, 'r, 'e) batch \<Rightarrow> ('i, 'r, 'e) batch \<Rightarrow> bool" where
  "works P \<equiv> (work_step P)\<^sup>*\<^sup>*"

lemma works_inv: "works P s s' \<Longrightarrow> batch_inv s \<Longrightarrow> batch_inv s' \<and> bs_calls s' = bs_calls s"
proof (induction rule: rtranclp_induct)
  case (step y z)
  have "bs_calls z = bs_calls y"
    using step.hyps(2) by cases (auto simp: task_schedule_def task_take_def task_finish_def task_settle_def Let_def split: option.splits)
  then show ?case using step work_step_inv by metis
qed simp

text \<open>From each phase the task can be driven to the next one.\<close>

lemma drive_settling:
  assumes "batch_inv s" "bs_tasks s = [Settling]"
  shows "\<exists>s'. works P s s' \<and> (bs_tasks s' = [] \<or> bs_tasks s' = [Scheduled])"
proof -
  have "work_step P s (task_settle 0 (bs_clock s) (bs_clock s) (bs_clock s) s)"
    by (rule work_step.settle) (simp_all add: assms(2))
  then show ?thesis using assms(2) by (auto simp: task_settle_def Let_def split: if_splits)
qed

lemma drive_processing:
  assumes "batch_inv s" "bs_tasks s = [Processing taken]"
  shows "\<exists>s'. works P s s' \<and> bs_tasks s' = [Settling] \<and> bq_items (bs_queue s') = bq_items (bs_queue s)"
proof -
  have "work_step P s (task_finish P 0 taken s)" by (rule work_step.finish) (simp_all add: assms(2))
  then show ?thesis using assms(2) by (intro exI [of _ "task_finish P 0 taken s"]) (auto simp: task_finish_def Let_def)
qed

lemma drive_sleeping:
  assumes "batch_inv s" "bs_tasks s = [Sleeping t]"
  shows "\<exists>s' taken. works P s s' \<and> bs_tasks s' = [Processing taken] \<and> bq_items (bs_queue s') = []"
proof -
  let ?s = "s\<lparr> bs_clock := max t (bs_clock s) \<rparr>"
  have "work_step P s ?s" by (rule work_step.tick) simp
  moreover have "work_step P ?s (task_take 0 ?s)" by (rule work_step.take [where t = t]) (simp_all add: assms(2) le_max_iff_disj)
  ultimately have "works P s (task_take 0 ?s)" by auto
  then show ?thesis using assms(2) by (intro exI [of _ "task_take 0 ?s"]) (auto simp: task_take_def Let_def)
qed

lemma drive_scheduled:
  assumes "batch_inv s" "bs_tasks s = [Scheduled]"
  shows "\<exists>s' t. works P s s' \<and> bs_tasks s' = [Sleeping t]"
proof -
  have "work_step P s (task_schedule 0 s)" by (rule work_step.schedule) (simp_all add: assms(2))
  moreover have "bq_next_execution (bs_queue s) \<noteq> None" using assms by (simp add: batch_inv_def)
  ultimately show ?thesis using assms(2) by (intro exI [of _ "task_schedule 0 s"]) (auto simp: task_schedule_def Let_def)
qed

lemma drive_to_rest:
  assumes "batch_inv s"
  shows "\<exists>s'. works P s s' \<and> bs_tasks s' = []"
proof -
  have from_settling: "\<exists>s'. works P s s' \<and> bs_tasks s' = []"
    if inv: "batch_inv s" and t: "bs_tasks s = [Settling]" and e: "bq_items (bs_queue s) = []" for s
  proof -
    have "work_step P s (task_settle 0 (bs_clock s) (bs_clock s) (bs_clock s) s)"
      by (rule work_step.settle) (simp_all add: t)
    then show ?thesis using t e by (auto simp: task_settle_def Let_def)
  qed
  have from_sleeping: "\<exists>s'. works P s s' \<and> bs_tasks s' = []"
    if inv: "batch_inv s" and t: "bs_tasks s = [Sleeping t]" for s t
  proof -
    obtain s1 taken where 1: "works P s s1" "bs_tasks s1 = [Processing taken]" "bq_items (bs_queue s1) = []"
      using drive_sleeping [OF inv t] by blast
    obtain s2 where 2: "works P s1 s2" "bs_tasks s2 = [Settling]" "bq_items (bs_queue s2) = []"
      using drive_processing [OF _ 1(2)] works_inv [OF 1(1) inv] 1(3) by metis
    have "batch_inv s2" using works_inv 1(1) 2(1) inv by metis
    then show ?thesis using from_settling [OF _ 2(2,3)] 1(1) 2(1) by (meson rtranclp_trans)
  qed
  have from_scheduled: "\<exists>s'. works P s s' \<and> bs_tasks s' = []" if inv: "batch_inv s" and t: "bs_tasks s = [Scheduled]" for s
    using drive_scheduled [OF inv t] from_sleeping works_inv inv by (meson rtranclp_trans)
  have from_settling': "\<exists>s'. works P s s' \<and> bs_tasks s' = []" if inv: "batch_inv s" and t: "bs_tasks s = [Settling]" for s
    using drive_settling [OF inv t] from_scheduled works_inv inv by (meson rtranclp_trans)
  have "phase_ok (bs_queue s) (bs_tasks s)" using assms by (simp add: batch_inv_def)
  then show ?thesis
  proof (cases rule: phase_okE)
    case (4 taken)
    then show ?thesis
      using drive_processing [OF assms 4(1)] from_settling' works_inv assms by (meson rtranclp_trans)
  qed (use from_sleeping from_scheduled from_settling' assms in auto)
qed

text \<open>
  C34: batched calls are served. In every reachable state, whatever the interleaving of
  calls, waits, processing and reconfiguration, the calls answered are the first ones made,
  each with the processor's result for its own item or with an error of the processor;
  at most one task exists; and the task can be driven, without further calls, to a state
  in which every call made has been answered.
\<close>

theorem batched_calls_are_served:
  assumes "processor_contract P f" "batch_reach P cfg s"
  shows "(\<exists>n \<le> length (bs_calls s). dom (bs_answers s) = {..<n}) \<and> length (bs_tasks s) \<le> 1 \<and>
    (\<forall>k r. bs_answers s k = Some r \<longrightarrow>
       r = Inr (f (bs_calls s ! k)) \<or> (\<exists>items e. P items = Inl e \<and> r = Inl (ProcessorError e))) \<and>
    (\<exists>s'. works P s s' \<and> bs_calls s' = bs_calls s \<and> dom (bs_answers s') = {..<length (bs_calls s)})"
proof -
  have inv: "batch_inv s" by (rule batch_reach_inv [OF assms(2)])
  obtain s' where s': "works P s s'" "bs_tasks s' = []" using drive_to_rest [OF inv] by blast
  have i': "batch_inv s'" "bs_calls s' = bs_calls s" using works_inv [OF s'(1) inv] by simp_all
  obtain n where n: "served n s'" using i'(1) by (auto simp: batch_inv_def)
  have "waiting s' = []" using i'(1) s'(2) by (simp add: batch_inv_def waiting_def)
  then have "n = length (bs_calls s')" using n by (auto simp: served_def)
  then have "dom (bs_answers s') = {..<length (bs_calls s)}" using n i'(2) by (simp add: served_def)
  moreover have "\<exists>n \<le> length (bs_calls s). dom (bs_answers s) = {..<n}" using inv by (auto simp: batch_inv_def served_def)
  moreover have "length (bs_tasks s) \<le> 1" using inv by (auto simp: batch_inv_def elim!: phase_okE)
  ultimately show ?thesis
    using s'(1) i'(2) batch_reach_good [OF assms(2,1)] unfolding good_answers_def by blast
qed

section \<open>Throttling\<close>

text \<open>A run in which a second call arrives while the first is being processed.\<close>

lemma back_to_back:
  fixes P :: "'i list \<Rightarrow> 'e + 'r list"
  obtains s :: "('i, 'r, 'e) batch" where "batch_reach P cfg s" "bs_starts s = [batch_delay_ms cfg, batch_delay_ms cfg]"
    "bs_clock s = batch_delay_ms cfg" "bs_tasks s = [Processing [(b, 1)]]" "bs_calls s = [a, b]"
    "bs_answers s = batch_answers (P [a]) [(a, 0)]"
proof -
  let ?d = "batch_delay_ms cfg"
  define s1 :: "('i, 'r, 'e) batch" where "s1 = batch_call a (batch_new cfg)"
  define s2 where "s2 = task_schedule 0 s1"
  define s3 where "s3 = s2\<lparr> bs_clock := ?d \<rparr>"
  define s4 where "s4 = batch_call b (task_take 0 s3)"
  define s5 where "s5 = task_settle 0 ?d ?d ?d (task_finish P 0 [(a, 0)] s4)"
  define s6 where "s6 = task_take 0 (task_schedule 0 s5)"
  note defs = batch_call_def batch_new_def call_time_def task_schedule_def task_take_def task_finish_def task_settle_def
  have e1: "s1 = \<lparr> bs_queue = \<lparr> bq_items = [(a, 0)], bq_next_execution = Some ?d, bq_last_execution = None, bq_processing = False \<rparr>,
      bs_config = cfg, bs_tasks = [Scheduled], bs_clock = 0, bs_calls = [a], bs_answers = Map.empty, bs_starts = [] \<rparr>"
    by (simp add: s1_def defs)
  have e3: "s3 = s1\<lparr> bs_tasks := [Sleeping ?d], bs_clock := ?d \<rparr>"
    by (cases "?d = 0") (simp_all add: s3_def s2_def e1 defs)
  have e4: "s4 = \<lparr> bs_queue = \<lparr> bq_items = [(b, 1)], bq_next_execution = None, bq_last_execution = None, bq_processing = True \<rparr>,
      bs_config = cfg, bs_tasks = [Processing [(a, 0)]], bs_clock = ?d, bs_calls = [a, b], bs_answers = Map.empty, bs_starts = [?d] \<rparr>"
    by (simp add: s4_def e3 e1 defs)
  have e5: "s5 = \<lparr> bs_queue = \<lparr> bq_items = [(b, 1)], bq_next_execution = Some ?d, bq_last_execution = Some ?d, bq_processing = False \<rparr>,
      bs_config = cfg, bs_tasks = [Scheduled], bs_clock = ?d, bs_calls = [a, b],
      bs_answers = batch_answers (P [a]) [(a, 0)], bs_starts = [?d] \<rparr>"
    by (simp add: s5_def e4 defs)
  have e6: "bs_starts s6 = [?d, ?d]" "bs_clock s6 = ?d" "bs_tasks s6 = [Processing [(b, 1)]]" "bs_calls s6 = [a, b]"
      "bs_answers s6 = batch_answers (P [a]) [(a, 0)]"
    by (simp_all add: s6_def e5 defs)
  note work = batch_reach.step [OF _ batch_step.work] and calls = batch_reach.step [OF _ batch_step.call]
  have "batch_reach P cfg s1" unfolding s1_def by (rule calls [OF batch_reach.start])
  then have "batch_reach P cfg s2" unfolding s2_def by (rule work) (rule work_step.schedule, simp_all add: e1)
  then have "batch_reach P cfg s3" unfolding s3_def by (rule work) (rule work_step.tick, simp add: s2_def e1 defs)
  then have "batch_reach P cfg (task_take 0 s3)" by (rule work) (rule work_step.take [where t = ?d], simp_all add: e3)
  then have "batch_reach P cfg s4" unfolding s4_def by (rule calls)
  then have "batch_reach P cfg (task_finish P 0 [(a, 0)] s4)" by (rule work) (rule work_step.finish, simp_all add: e4)
  then have "batch_reach P cfg s5" unfolding s5_def by (rule work) (rule work_step.settle, simp_all add: e4 defs)
  then have "batch_reach P cfg (task_schedule 0 s5)" by (rule work) (rule work_step.schedule, simp_all add: e5)
  then have "batch_reach P cfg s6" unfolding s6_def by (rule work) (rule work_step.take [where t = ?d], simp_all add: e5 defs)
  then show thesis using e6 by (rule that)
qed

text \<open>
  the throttle holds for calls and not for what queued up. A batch that a call
  schedules starts no earlier than the delay after the call and the minimum interval after
  the last batch. But the task that settles a batch with calls waiting starts the next one
  without either: for every configuration there is a run whose two batches start at the
  same millisecond.
\<close>

theorem batch_throttle_skipped:
  "(\<forall>cfg last now t. call_time cfg last now = t \<longrightarrow>
      now + batch_delay_ms cfg \<le> t \<and> (\<forall>l. last = Some l \<longrightarrow> l + min_interval_ms cfg \<le> t)) \<and>
   (\<forall>(P :: 'i list \<Rightarrow> 'e + 'r list) cfg. \<exists>s t. batch_reach P cfg s \<and> bs_starts s = [t, t])"
proof (intro conjI allI)
  fix P :: "'i list \<Rightarrow> 'e + 'r list" and cfg
  obtain s :: "('i, 'r, 'e) batch" where "batch_reach P cfg s" "bs_starts s = [batch_delay_ms cfg, batch_delay_ms cfg]"
    by (rule back_to_back)
  then show "\<exists>s t. batch_reach P cfg s \<and> bs_starts s = [t, t]" by blast
qed (auto simp: call_time_def Let_def split: option.splits)

section \<open>A processor that panics\<close>

lemma map_of_callers:
  "map_of (map (\<lambda>(_, caller). (caller, v)) taken) k = (if k \<in> snd ` set taken then Some v else None)"
  by (induction taken) auto

lemma blocked_step:
  assumes "batch_step P s s'" "bs_tasks s = []" "bq_processing (bs_queue s)"
  shows "bs_tasks s' = [] \<and> bq_processing (bs_queue s') \<and> bs_answers s' = bs_answers s"
  using assms(1)
proof cases
  case work
  then show ?thesis using assms(2,3) by cases simp_all
qed (use assms(2,3) in \<open>simp_all add: batch_call_def update_config_def Let_def\<close>)

lemma blocked_steps:
  "(batch_step P)\<^sup>*\<^sup>* s s' \<Longrightarrow> bs_tasks s = [] \<Longrightarrow> bq_processing (bs_queue s) \<Longrightarrow>
     bs_tasks s' = [] \<and> bq_processing (bs_queue s') \<and> bs_answers s' = bs_answers s"
  by (induction rule: rtranclp_induct) (auto dest: blocked_step)

text \<open>
  C35: a panic of the processor blocks the batcher. When the processor panics, the calls of
  its batch learn that the task was dropped, but the queue stays marked as processing: no
  later step of the system ever starts a task or answers a call, neither one that was
  queued nor one made afterwards.
\<close>

theorem panic_blocks_the_batch:
  assumes "batch_reach P cfg s" "bs_tasks s = [Processing taken]"
    and "(batch_step P)\<^sup>*\<^sup>* (task_panic 0 taken s) s'"
  shows "(\<forall>k \<in> snd ` set taken. bs_answers s' k = Some (Inl TaskDropped)) \<and>
    (\<forall>k. k \<notin> snd ` set taken \<longrightarrow> bs_answers s' k = bs_answers s k) \<and> bs_tasks s' = []"
proof -
  let ?s = "task_panic 0 taken s"
  have "bq_processing (bs_queue s)" using batch_reach_inv [OF assms(1)] assms(2) by (simp add: batch_inv_def)
  then have "bs_tasks ?s = []" "bq_processing (bs_queue ?s)" using assms(2) by (simp_all add: task_panic_def)
  then have "bs_tasks s' = [] \<and> bq_processing (bs_queue s') \<and> bs_answers s' = bs_answers ?s"
    by (rule blocked_steps [OF assms(3)])
  then show ?thesis by (auto simp: task_panic_def map_add_def map_of_callers)
qed

section \<open>A run\<close>

definition doubling :: "nat list \<Rightarrow> string + nat list" where
  "doubling items = Inr (map (\<lambda>x. x * 2) items)"

theorem batched_calls_are_served_witness:
  "\<exists>s s'. batch_reach doubling batch_config_default s \<and> bs_answers s 0 = Some (Inr 10) \<and> bs_answers s 1 = None \<and>
     works doubling s s' \<and> dom (bs_answers s') = {0, 1}"
proof -
  have c: "processor_contract doubling (\<lambda>x. x * 2)" by (simp add: processor_contract_def doubling_def)
  obtain s where s: "batch_reach doubling batch_config_default s" "bs_calls s = [5, 6]"
      "bs_answers s = batch_answers (doubling [5]) [(5 :: nat, 0)]"
    by (rule back_to_back [of doubling batch_config_default 6 5])
  have "{..<2} = {0, 1 :: nat}" by auto
  then show ?thesis
    using batched_calls_are_served [OF c s(1)] s by (auto simp: batch_answers_def doubling_def numeral_2_eq_2)
qed

theorem panic_blocks_the_batch_witness:
  "\<exists>s. batch_reach doubling batch_config_default s \<and>
     (\<forall>s'. (batch_step doubling)\<^sup>*\<^sup>* (batch_call 7 (task_panic 0 [(6, 1)] s)) s' \<longrightarrow>
        bs_answers s' 1 = Some (Inl TaskDropped) \<and> bs_answers s' 2 = None)"
proof -
  obtain s where s: "batch_reach doubling batch_config_default s" "bs_tasks s = [Processing [(6, 1)]]"
      "bs_answers s = batch_answers (doubling [5]) [(5 :: nat, 0)]"
    by (rule back_to_back [of doubling batch_config_default 6 5])
  have "bs_answers s' 1 = Some (Inl TaskDropped) \<and> bs_answers s' 2 = None"
    if "(batch_step doubling)\<^sup>*\<^sup>* (batch_call 7 (task_panic 0 [(6, 1)] s)) s'" for s'
    using panic_blocks_the_batch [OF s(1,2) converse_rtranclp_into_rtranclp [OF batch_step.call that]] s(3)
    by (simp add: batch_answers_def doubling_def)
  then show ?thesis using s(1) by blast
qed

end
