(* ===== verification/Pool.thy ===== *)
theory Pool
  imports Prelude "HOL-Library.Multiset"
begin

text \<open>
  The pool of \<^verbatim>\<open>primitives/src/pool.rs\<close>: values lent out as guards, with a queue of waiting
  callers.  Every section under the lock is a step; receivers are dropped without the lock,
  so a receiver may close between the test and the send of a returning guard.
\<close>

section \<open>State and operations\<close>

text \<open>
  Waiters and guards are numbers.  Beside the two queues under the lock, the state has the
  values in the waiters' channels, the waiters whose receiver is gone, the guards in use,
  and whether some thread holds the lock for ever.
\<close>

record 'v pool =
  pl_values :: "'v list"
  pl_waiters :: "nat list"
  pl_channel :: "nat \<rightharpoonup> 'v"
  pl_closed :: "nat set"
  pl_guards :: "'v list"
  pl_next_waiter :: nat
  pl_locked :: bool

definition pool_new :: "'v list \<Rightarrow> 'v pool" where
  "pool_new vs = \<lparr> pl_values = vs, pl_waiters = [], pl_channel = Map.empty, pl_closed = {}, pl_guards = [],
     pl_next_waiter = 0, pl_locked = False \<rparr>"

text \<open>\<^verbatim>\<open>get\<close> up to its await: a guard, or a place in the queue.\<close>

definition pool_get :: "'v pool \<Rightarrow> 'v pool \<times> (nat + 'v)" where
  "pool_get s =
     (case pl_values s of
        value # rest \<Rightarrow> (s\<lparr> pl_values := rest, pl_guards := pl_guards s @ [value] \<rparr>, Inr value)
      | [] \<Rightarrow> (s\<lparr> pl_waiters := pl_waiters s @ [pl_next_waiter s], pl_next_waiter := pl_next_waiter s + 1 \<rparr>,
              Inl (pl_next_waiter s)))"

text \<open>
  The loop of \<^verbatim>\<open>PoolGuard::drop\<close> over the waiters.  When a receiver closes between
  \<^verbatim>\<open>is_closed\<close> and \<^verbatim>\<open>send\<close>, the send gives back a guard whose value is taken out; that empty
  guard is then dropped inside the loop, and its own \<^verbatim>\<open>drop\<close> asks for the lock that this
  thread holds.
\<close>

datatype offer = NobodyWaits | Handed nat "nat list" | SelfDeadlock

fun offer_value :: "(nat \<Rightarrow> bool) \<Rightarrow> nat set \<Rightarrow> nat list \<Rightarrow> offer" where
  "offer_value closes_now closed [] = NobodyWaits"
| "offer_value closes_now closed (sender # waiters) =
     (if sender \<in> closed then offer_value closes_now closed waiters
      else if closes_now sender then SelfDeadlock
      else Handed sender waiters)"

definition guard_drop :: "(nat \<Rightarrow> bool) \<Rightarrow> 'v \<Rightarrow> 'v pool \<Rightarrow> 'v pool" where
  "guard_drop closes_now value s =
     (case offer_value closes_now (pl_closed s) (pl_waiters s) of
        NobodyWaits \<Rightarrow> s\<lparr> pl_waiters := [], pl_values := pl_values s @ [value] \<rparr>
      | Handed sender waiters \<Rightarrow> s\<lparr> pl_waiters := waiters, pl_channel := (pl_channel s)(sender \<mapsto> value) \<rparr>
      | SelfDeadlock \<Rightarrow> s\<lparr> pl_locked := True \<rparr>)"

text \<open>A caller drops its guard, receives one, or gives up waiting.\<close>

definition pool_release :: "(nat \<Rightarrow> bool) \<Rightarrow> nat \<Rightarrow> 'v pool \<Rightarrow> 'v pool" where
  "pool_release closes_now i s =
     guard_drop closes_now (pl_guards s ! i) (s\<lparr> pl_guards := remove_nth i (pl_guards s) \<rparr>)"

definition pool_receive :: "nat \<Rightarrow> 'v pool \<Rightarrow> 'v pool" where
  "pool_receive w s =
     (case pl_channel s w of
        Some value \<Rightarrow> s\<lparr> pl_channel := (pl_channel s)(w := None), pl_guards := pl_guards s @ [value] \<rparr>
      | None \<Rightarrow> s)"

text \<open>Dropping the receiver drops a guard that is already in the channel.\<close>

definition pool_cancel :: "(nat \<Rightarrow> bool) \<Rightarrow> nat \<Rightarrow> 'v pool \<Rightarrow> 'v pool" where
  "pool_cancel closes_now w s =
     (let s = s\<lparr> pl_closed := insert w (pl_closed s) \<rparr> in
      case pl_channel s w of
        Some value \<Rightarrow> guard_drop closes_now value (s\<lparr> pl_channel := (pl_channel s)(w := None) \<rparr>)
      | None \<Rightarrow> s)"

text \<open>
  The steps; all but receiving and giving up without a value need the lock.  \<^term>\<open>race\<close> tells
  whether a receiver may close at the bad moment.
\<close>

inductive pool_step :: "bool \<Rightarrow> 'v pool \<Rightarrow> 'v pool \<Rightarrow> bool" for race :: bool where
  get: "\<not> pl_locked s \<Longrightarrow> pool_step race s (fst (pool_get s))"
| release: "\<not> pl_locked s \<Longrightarrow> i < length (pl_guards s) \<Longrightarrow> (\<forall>w. closes_now w \<longrightarrow> race) \<Longrightarrow>
    pool_step race s (pool_release closes_now i s)"
| receive: "w \<notin> pl_closed s \<Longrightarrow> pl_channel s w \<noteq> None \<Longrightarrow> pool_step race s (pool_receive w s)"
| cancel: "w < pl_next_waiter s \<Longrightarrow> w \<notin> pl_closed s \<Longrightarrow> \<not> pl_locked s \<or> pl_channel s w = None \<Longrightarrow>
    (\<forall>w. closes_now w \<longrightarrow> race) \<Longrightarrow> pool_step race s (pool_cancel closes_now w s)"

inductive pool_reach :: "bool \<Rightarrow> 'v list \<Rightarrow> 'v pool \<Rightarrow> bool" for race :: bool and vs :: "'v list" where
  start: "pool_reach race vs (pool_new vs)"
| step: "pool_reach race vs s \<Longrightarrow> pool_step race s s' \<Longrightarrow> pool_reach race vs s'"

section \<open>The invariant\<close>

definition in_channels :: "'v pool \<Rightarrow> 'v multiset" where
  "in_channels s = image_mset (\<lambda>w. the (pl_channel s w)) (mset_set (dom (pl_channel s)))"

text \<open>
  The values lent, waiting in channels and idle are together \<^term>\<open>M\<close>; nothing is idle while
  somebody waits, and a waiter that was handed a value has left the queue.
\<close>

definition pool_inv :: "'v multiset \<Rightarrow> 'v pool \<Rightarrow> bool" where
  "pool_inv M s \<longleftrightarrow>
     mset (pl_values s) + mset (pl_guards s) + in_channels s = M \<and>
     (pl_values s = [] \<or> pl_waiters s = []) \<and> \<not> pl_locked s \<and>
     dom (pl_channel s) \<inter> set (pl_waiters s) = {} \<and> set (pl_waiters s) \<union> dom (pl_channel s) \<subseteq> {..<pl_next_waiter s} \<and>
     distinct (pl_waiters s) \<and> dom (pl_channel s) \<inter> pl_closed s = {}"

lemma pool_inv_finite: "pool_inv M s \<Longrightarrow> finite (dom (pl_channel s))"
  unfolding pool_inv_def by (meson finite_lessThan finite_subset le_sup_iff)

lemma in_channels_upd:
  assumes "finite (dom (pl_channel s))" "w \<notin> dom (pl_channel s)"
  shows "in_channels (s\<lparr> pl_channel := (pl_channel s)(w \<mapsto> v) \<rparr>) = add_mset v (in_channels s)"
proof -
  have "image_mset (\<lambda>x. the (((pl_channel s)(w \<mapsto> v)) x)) (mset_set (dom (pl_channel s))) =
      image_mset (\<lambda>x. the (pl_channel s x)) (mset_set (dom (pl_channel s)))"
    using assms by (intro image_mset_cong) auto
  then show ?thesis using assms by (simp add: in_channels_def)
qed

lemma in_channels_take:
  assumes "finite (dom (pl_channel s))" "pl_channel s w = Some v"
  shows "in_channels s = add_mset v (in_channels (s\<lparr> pl_channel := (pl_channel s)(w := None) \<rparr>))"
proof -
  let ?s = "s\<lparr> pl_channel := (pl_channel s)(w := None) \<rparr>"
  have "s = ?s\<lparr> pl_channel := (pl_channel ?s)(w \<mapsto> v) \<rparr>" using assms(2) by (cases s) (auto simp: fun_eq_iff)
  moreover have "finite (dom (pl_channel ?s))" "w \<notin> dom (pl_channel ?s)" using assms(1) by auto
  ultimately show ?thesis using in_channels_upd [of ?s w v] by metis
qed

lemma in_channels_cong: "pl_channel s = pl_channel t \<Longrightarrow> in_channels s = in_channels t"
  by (simp add: in_channels_def)

lemma offer_cases:
  obtains "offer_value (\<lambda>_. False) closed ws = NobodyWaits" "set ws \<subseteq> closed"
  | (handed) pre w rest where "offer_value (\<lambda>_. False) closed ws = Handed w rest" "ws = pre @ w # rest"
      "set pre \<subseteq> closed" "w \<notin> closed"
proof -
  have "(offer_value (\<lambda>_. False) closed ws = NobodyWaits \<and> set ws \<subseteq> closed) \<or>
      (\<exists>pre w rest. offer_value (\<lambda>_. False) closed ws = Handed w rest \<and> ws = pre @ w # rest \<and> set pre \<subseteq> closed \<and> w \<notin> closed)"
  proof (induction ws)
    case (Cons a ws)
    show ?case
    proof (cases "a \<in> closed")
      case True
      then show ?thesis using Cons by (auto intro: exI [of _ "a # _"])
    next
      case False
      then show ?thesis by (auto intro!: exI [of _ "[]"])
    qed
  qed simp
  then show thesis using that by blast
qed

lemma guard_drop_inv:
  assumes "pool_inv M s"
  shows "pool_inv (add_mset v M) (guard_drop (\<lambda>_. False) v s)"
proof (rule offer_cases [of "pl_closed s" "pl_waiters s"])
  assume "offer_value (\<lambda>_. False) (pl_closed s) (pl_waiters s) = NobodyWaits"
  moreover have "in_channels (s\<lparr> pl_waiters := [], pl_values := pl_values s @ [v] \<rparr>) = in_channels s"
    by (rule in_channels_cong) simp
  ultimately show ?thesis using assms by (auto simp: guard_drop_def pool_inv_def)
next
  fix pre w rest
  assume h: "offer_value (\<lambda>_. False) (pl_closed s) (pl_waiters s) = Handed w rest" "pl_waiters s = pre @ w # rest"
    "w \<notin> pl_closed s"
  have w: "w \<notin> dom (pl_channel s)" using assms h(2) by (auto simp: pool_inv_def)
  have "in_channels (s\<lparr> pl_waiters := rest, pl_channel := (pl_channel s)(w \<mapsto> v) \<rparr>) = add_mset v (in_channels s)"
    using in_channels_upd [OF pool_inv_finite [OF assms] w, of v] by (simp add: in_channels_def)
  then show ?thesis using assms h w by (auto simp: guard_drop_def pool_inv_def)
qed

text \<open>
  The other outcome: the returning value met a closing receiver, is gone, and the lock is
  held for ever; nothing else is lost.
\<close>

definition pool_total :: "'v pool \<Rightarrow> 'v multiset" where
  "pool_total s = mset (pl_values s) + mset (pl_guards s) + in_channels s"

definition one_lost :: "'v multiset \<Rightarrow> 'v pool \<Rightarrow> bool" where
  "one_lost M s \<longleftrightarrow> pl_locked s \<and> finite (dom (pl_channel s)) \<and> (\<exists>v. add_mset v (pool_total s) = M)"

lemma offer_value_race:
  "offer_value closes_now closed ws = offer_value (\<lambda>_. False) closed ws \<or>
   offer_value closes_now closed ws = SelfDeadlock \<and> (\<exists>w. closes_now w)"
  by (induction ws) auto

lemma guard_drop_cases:
  assumes "pool_inv M s"
  obtains "pool_inv (add_mset v M) (guard_drop closes_now v s)"
  | (lost) w where "one_lost (add_mset v M) (guard_drop closes_now v s)" "closes_now w"
proof (cases "offer_value closes_now (pl_closed s) (pl_waiters s) = offer_value (\<lambda>_. False) (pl_closed s) (pl_waiters s)")
  case True
  then have "guard_drop closes_now v s = guard_drop (\<lambda>_. False) v s" by (simp add: guard_drop_def)
  then show ?thesis using that(1) guard_drop_inv [OF assms] by simp
next
  case False
  then obtain w where w: "offer_value closes_now (pl_closed s) (pl_waiters s) = SelfDeadlock" "closes_now w"
    using offer_value_race by blast
  have "in_channels (s\<lparr> pl_locked := True \<rparr>) = in_channels s" by (rule in_channels_cong) simp
  then have "pool_total (s\<lparr> pl_locked := True \<rparr>) = M" using assms by (simp add: pool_total_def pool_inv_def)
  then show ?thesis using that(2) [OF _ w(2)] w(1) pool_inv_finite [OF assms]
    by (auto simp: guard_drop_def one_lost_def)
qed

lemma pool_step_inv:
  assumes "pool_step race s s'" "pool_inv M s"
  shows "pool_inv M s' \<or> (race \<and> one_lost M s')"
  using assms(1)
proof cases
  case get
  have c: "in_channels (fst (pool_get s)) = in_channels s"
    by (rule in_channels_cong) (simp add: pool_get_def split: list.split)
  show ?thesis
  proof (cases "pl_values s")
    case Nil
    then show ?thesis using assms(2) c by (auto simp: get(1) pool_get_def pool_inv_def less_Suc_eq)
  next
    case (Cons v vs)
    then show ?thesis using assms(2) c by (auto simp: get(1) pool_get_def pool_inv_def)
  qed
next
  case (release i closes_now)
  let ?s = "s\<lparr> pl_guards := remove_nth i (pl_guards s) \<rparr>"
  have m: "mset (pl_guards s) = add_mset (pl_guards s ! i) (mset (remove_nth i (pl_guards s)))"
    using release(3) by (simp add: remove_nth_def) (metis id_take_nth_drop mset.simps(2) mset_append union_mset_add_mset_right)
  have "in_channels ?s = in_channels s" by (rule in_channels_cong) simp
  then have "pool_inv (mset (pl_values s) + mset (remove_nth i (pl_guards s)) + in_channels s) ?s"
    using assms(2) by (auto simp: pool_inv_def)
  note inv = this
  have eq: "add_mset (pl_guards s ! i) (mset (pl_values s) + mset (remove_nth i (pl_guards s)) + in_channels s) = M"
    using assms(2) m by (simp add: pool_inv_def)
  show ?thesis
    by (rule guard_drop_cases [OF inv, of "pl_guards s ! i" closes_now])
      (use eq release(4) in \<open>auto simp: release(1) pool_release_def\<close>)
next
  case (receive w)
  then obtain v where v: "pl_channel s w = Some v" by blast
  have "in_channels (pool_receive w s) = in_channels (s\<lparr> pl_channel := (pl_channel s)(w := None) \<rparr>)"
    by (rule in_channels_cong) (simp add: pool_receive_def v)
  then have "add_mset v (in_channels (pool_receive w s)) = in_channels s"
    using in_channels_take [OF pool_inv_finite [OF assms(2)] v] by simp
  then show ?thesis using assms(2) by (auto simp: receive(1) pool_inv_def pool_receive_def v)
next
  case (cancel w closes_now)
  show ?thesis
  proof (cases "pl_channel s w")
    case None
    have "in_channels (s\<lparr> pl_closed := insert w (pl_closed s) \<rparr>) = in_channels s" by (rule in_channels_cong) simp
    then show ?thesis using assms(2) None by (auto simp: cancel(1) pool_cancel_def pool_inv_def)
  next
    case (Some v)
    let ?s = "s\<lparr> pl_closed := insert w (pl_closed s), pl_channel := (pl_channel s)(w := None) \<rparr>"
    have c: "in_channels s = add_mset v (in_channels ?s)"
      using in_channels_take [OF pool_inv_finite [OF assms(2)] Some] by (simp add: in_channels_def)
    have "pool_inv (mset (pl_values s) + mset (pl_guards s) + in_channels ?s) ?s"
      using assms(2) by (auto simp: pool_inv_def)
    note inv = this
    have eq: "add_mset v (mset (pl_values s) + mset (pl_guards s) + in_channels ?s) = M"
      using assms(2) c by (simp add: pool_inv_def)
    show ?thesis
      by (rule guard_drop_cases [OF inv, of v closes_now])
        (use eq cancel(5) Some in \<open>auto simp: cancel(1) pool_cancel_def Let_def\<close>)
  qed
qed

lemma lost_step:
  assumes "pool_step race s s'" "one_lost M s"
  shows "one_lost M s'"
  using assms(1)
proof cases
  case (receive w)
  then obtain v where v: "pl_channel s w = Some v" by blast
  have f: "finite (dom (pl_channel s))" using assms(2) by (simp add: one_lost_def)
  have "in_channels (pool_receive w s) = in_channels (s\<lparr> pl_channel := (pl_channel s)(w := None) \<rparr>)"
    by (rule in_channels_cong) (simp add: pool_receive_def v)
  then have "pool_total (pool_receive w s) = pool_total s"
    using in_channels_take [OF f v] by (simp add: pool_total_def pool_receive_def v)
  then show ?thesis using assms(2) v by (simp add: receive(1) one_lost_def pool_receive_def)
next
  case (cancel w closes_now)
  then have n: "pl_channel s w = None" using assms(2) by (auto simp: one_lost_def)
  have "in_channels (s\<lparr> pl_closed := insert w (pl_closed s) \<rparr>) = in_channels s" by (rule in_channels_cong) simp
  then show ?thesis using assms(2) n by (simp add: cancel(1) pool_cancel_def one_lost_def pool_total_def)
qed (use assms(2) in \<open>simp_all add: one_lost_def\<close>)

lemma pool_reach_inv: "pool_reach race vs s \<Longrightarrow> pool_inv (mset vs) s \<or> (race \<and> one_lost (mset vs) s)"
proof (induction rule: pool_reach.induct)
  case start
  then show ?case by (simp add: pool_inv_def pool_new_def in_channels_def)
qed (metis pool_step_inv lost_step)

section \<open>Properties\<close>

text \<open>
  C36: the pool never duplicates a value and loses one only together with its lock. In
  every state reachable by getting, receiving, dropping guards and giving up in any order:
  as long as the lock is free the values idle, lent and on their way to a waiter are
  exactly those the pool was made of, and none is idle while a caller is queued; a guard
  that is dropped then hands its value to the first queued caller that has not given up,
  or back to the pool when there is none. The lock is lost only when \<^term>\<open>race\<close> allows a
  waiting receiver to close between the test and the send, and then exactly one value,
  the one being returned, is missing.
\<close>

theorem pool_keeps_values:
  assumes "pool_reach race vs s"
  shows "(\<not> pl_locked s \<longrightarrow> mset (pl_values s) + mset (pl_guards s) + in_channels s = mset vs \<and>
       (pl_values s = [] \<or> pl_waiters s = []) \<and>
       (\<forall>i < length (pl_guards s). \<forall>pre w rest. pl_waiters s = pre @ w # rest \<longrightarrow> set pre \<subseteq> pl_closed s \<longrightarrow> w \<notin> pl_closed s \<longrightarrow>
          pl_channel (pool_release (\<lambda>_. False) i s) w = Some (pl_guards s ! i) \<and>
          pl_waiters (pool_release (\<lambda>_. False) i s) = rest) \<and>
       (\<forall>i < length (pl_guards s). set (pl_waiters s) \<subseteq> pl_closed s \<longrightarrow>
          pl_values (pool_release (\<lambda>_. False) i s) = pl_values s @ [pl_guards s ! i])) \<and>
    (pl_locked s \<longrightarrow> race \<and> (\<exists>v. add_mset v (mset (pl_values s) + mset (pl_guards s) + in_channels s) = mset vs)) \<and>
    length (pl_guards s) \<le> length vs"
proof -
  have skip: "offer_value (\<lambda>_. False) c (pre @ w # rest) = Handed w rest" if "set pre \<subseteq> c" "w \<notin> c" for c pre w rest
    using that by (induction pre) auto
  have none: "offer_value (\<lambda>_. False) c ws = NobodyWaits" if "set ws \<subseteq> c" for c ws
    using that by (induction ws) auto
  consider (kept) "pool_inv (mset vs) s" | (lost) "race" "one_lost (mset vs) s"
    using pool_reach_inv [OF assms] by blast
  then show ?thesis
  proof cases
    case kept
    then have m: "mset (pl_values s) + mset (pl_guards s) + in_channels s = mset vs" by (simp add: pool_inv_def)
    have l: "length (pl_guards s) \<le> length vs" using arg_cong [OF m, of size] by simp
    show ?thesis using kept m l by (auto simp: pool_inv_def pool_release_def guard_drop_def skip none)
  next
    case lost
    then obtain v where v: "pl_locked s" "add_mset v (mset (pl_values s) + mset (pl_guards s) + in_channels s) = mset vs"
      by (auto simp: one_lost_def pool_total_def)
    have l: "length (pl_guards s) \<le> length vs" using arg_cong [OF v(2), of size] by simp
    show ?thesis using lost(1) v l by blast
  qed
qed

lemma locked_step:
  "pool_step race s s' \<Longrightarrow> pl_locked s \<Longrightarrow> pl_locked s' \<and> pl_values s' = pl_values s \<and> pl_next_waiter s' = pl_next_waiter s"
  by (cases rule: pool_step.cases, assumption) (auto simp: pool_receive_def pool_cancel_def Let_def split: option.splits)

lemma locked_steps:
  "(pool_step race)\<^sup>*\<^sup>* s s' \<Longrightarrow> pl_locked s \<Longrightarrow>
     pl_locked s' \<and> pl_values s' = pl_values s \<and> pl_next_waiter s' = pl_next_waiter s"
  by (induction rule: rtranclp_induct) (auto dest: locked_step)

lemma pool_locks: "\<exists>s. pool_reach True [v] s \<and> pl_locked s"
proof -
  define s1 where "s1 = fst (pool_get (pool_new [v]))"
  define s2 where "s2 = fst (pool_get s1)"
  define s3 where "s3 = pool_release (\<lambda>w. w = 0) 0 s2"
  note defs = pool_get_def pool_new_def
  have "pool_reach True [v] s1" unfolding s1_def
    by (rule pool_reach.step [OF pool_reach.start pool_step.get]) (simp add: defs)
  then have "pool_reach True [v] s2" unfolding s2_def
    by (rule pool_reach.step [OF _ pool_step.get]) (simp add: s1_def defs)
  then have "pool_reach True [v] s3" unfolding s3_def
    by (rule pool_reach.step [OF _ pool_step.release]) (simp_all add: s1_def s2_def defs)
  moreover have "pl_locked s3" by (simp add: s3_def s2_def s1_def defs pool_release_def guard_drop_def)
  ultimately show ?thesis by blast
qed

text \<open>
  a returning guard can lock the pool for ever. When a waiting receiver is dropped
  between the test and the send, the guard's drop waits for the lock its own thread holds:
  for every value there is a run of a pool of that one value that gets there, and from then
  on no caller gets a value or a place in the queue and no value comes back.
\<close>

theorem pool_drop_deadlocks:
  "\<exists>s. pool_reach True [v] s \<and> pl_locked s \<and>
     (\<forall>s'. (pool_step True)\<^sup>*\<^sup>* s s' \<longrightarrow>
        pl_locked s' \<and> pl_values s' = pl_values s \<and> pl_next_waiter s' = pl_next_waiter s)"
  using pool_locks [of v] locked_steps by blast

theorem pool_drop_deadlocks_witness:
  "\<exists>s s'. pool_reach True [7 :: nat] s \<and> (pool_step True)\<^sup>*\<^sup>* s s' \<and> pl_locked s' \<and> pl_values s' = pl_values s"
  using pool_drop_deadlocks [of "7 :: nat"] by blast

theorem pool_keeps_values_witness:
  "(\<exists>s. pool_reach False [1, 2 :: nat] s \<and> pl_guards s = [1] \<and> mset (pl_values s) + in_channels s = {#2#}) \<and>
   (\<exists>s. pool_reach True [1 :: nat] s \<and> pl_locked s \<and> mset (pl_values s) + mset (pl_guards s) + in_channels s = {#})"
proof
  let ?s = "fst (pool_get (pool_new [1, 2 :: nat]))"
  have r: "pool_reach False [1, 2] ?s"
    by (rule pool_reach.step [OF pool_reach.start pool_step.get]) (simp add: pool_new_def)
  have g: "pl_guards ?s = [1]" "\<not> pl_locked ?s" by (simp_all add: pool_get_def pool_new_def)
  then have "mset (pl_values ?s) + in_channels ?s = {#2#}"
    using pool_keeps_values [OF r] by simp
  then show "\<exists>s. pool_reach False [1, 2 :: nat] s \<and> pl_guards s = [1] \<and> mset (pl_values s) + in_channels s = {#2#}"
    using r g by blast
  obtain t where t: "pool_reach True [1 :: nat] t" "pl_locked t" using pool_locks [of "1 :: nat"] by (elim exE conjE)
  have "\<exists>v. add_mset v (mset (pl_values t) + mset (pl_guards t) + in_channels t) = mset [1 :: nat]"
    using pool_keeps_values [OF t(1), THEN conjunct2, THEN conjunct1] t(2) by blast
  then have "mset (pl_values t) + mset (pl_guards t) + in_channels t = {#}"
    by (simp only: mset.simps add_mset_eq_single) blast
  then show "\<exists>s. pool_reach True [1 :: nat] s \<and> pl_locked s \<and> mset (pl_values s) + mset (pl_guards s) + in_channels s = {#}"
    using t by blast
qed

end
