(* ===== verification/Runtime.thy ===== *)
theory Runtime
  imports Prelude
begin

text \<open>
  The crate's control structures: retries (\<^verbatim>\<open>primitives/src/retry.rs\<close>), the background worker
  (\<^verbatim>\<open>tick_worker.rs\<close>) and cursors over ordered items (\<^verbatim>\<open>pagination.rs\<close>).
\<close>

section \<open>Retries\<close>

text \<open>
  The operation is a state machine.  What a run does besides calling it is the list of its
  events: errors handed to the handler, if any, and sleeps.
\<close>

record 'e retry_conf =
  rt_delay :: nat
  rt_handled :: bool

definition retry_new :: "'e retry_conf" where
  "retry_new = \<lparr> rt_delay = 1000, rt_handled = False \<rparr>"

definition retry_on_error :: "'e retry_conf \<Rightarrow> 'e retry_conf" where
  "retry_on_error c = c\<lparr> rt_handled := True \<rparr>"

definition retry_delay :: "nat \<Rightarrow> 'e retry_conf \<Rightarrow> 'e retry_conf" where
  "retry_delay delay c = c\<lparr> rt_delay := delay \<rparr>"

datatype 'e retry_event = ErrorHandled 'e | Slept nat

definition failure_events :: "'e retry_conf \<Rightarrow> 'e \<Rightarrow> 'e retry_event list" where
  "failure_events c err = (if rt_handled c then [ErrorHandled err] else []) @ [Slept (rt_delay c)]"

text \<open>The loop \<^verbatim>\<open>for _ in 0..attempts\<close>; at its end the last error is unwrapped.\<close>

fun exec_attempts ::
  "'e retry_conf \<Rightarrow> ('s \<Rightarrow> 's \<times> ('e + 'a)) \<Rightarrow> nat \<Rightarrow> 'e option \<Rightarrow> 's \<Rightarrow> 's \<times> 'e retry_event list \<times> ('e + 'a) panics" where
  "exec_attempts c operation 0 last_error s =
     (s, [], case last_error of None \<Rightarrow> Panics | Some err \<Rightarrow> Returns (Inl err))"
| "exec_attempts c operation (Suc n) last_error s =
     (case operation s of
        (s, Inr value) \<Rightarrow> (s, [], Returns (Inr value))
      | (s, Inl err) \<Rightarrow>
          (case exec_attempts c operation n (Some err) s of
             (s, events, r) \<Rightarrow> (s, failure_events c err @ events, r)))"

definition retry_exec ::
  "'e retry_conf \<Rightarrow> ('s \<Rightarrow> 's \<times> ('e + 'a)) \<Rightarrow> nat \<Rightarrow> 's \<Rightarrow> 's \<times> 'e retry_event list \<times> ('e + 'a) panics" where
  "retry_exec c operation attempts s = exec_attempts c operation attempts None s"

text \<open>\<^verbatim>\<open>exec_forever\<close> need not return; then it is \<^term>\<open>None\<close>.\<close>

partial_function (option) exec_forever :: "('s \<Rightarrow> 's \<times> ('e + 'a)) \<Rightarrow> 's \<Rightarrow> ('s \<times> 'a) option" where
  "exec_forever operation s =
     (case operation s of
        (s, Inr value) \<Rightarrow> Some (s, value)
      | (s, Inl err) \<Rightarrow> exec_forever operation s)"

definition retry_forever :: "('s \<Rightarrow> 's \<times> ('e + 'a)) \<Rightarrow> 's \<Rightarrow> ('s \<times> 'a) option" where
  "retry_forever operation s = exec_forever operation s"

text \<open>The state before the k-th call, all earlier calls failing or not, and its outcome.\<close>

fun op_state :: "('s \<Rightarrow> 's \<times> ('e + 'a)) \<Rightarrow> nat \<Rightarrow> 's \<Rightarrow> 's" where
  "op_state operation 0 s = s"
| "op_state operation (Suc k) s = op_state operation k (fst (operation s))"

definition op_outcome :: "('s \<Rightarrow> 's \<times> ('e + 'a)) \<Rightarrow> nat \<Rightarrow> 's \<Rightarrow> 'e + 'a" where
  "op_outcome operation k s = snd (operation (op_state operation k s))"

lemma op_outcome_0: "op_outcome operation 0 s = snd (operation s)"
  and op_outcome_Suc: "op_outcome operation (Suc k) s = op_outcome operation k (fst (operation s))"
  by (simp_all add: op_outcome_def)

lemma fails_Suc:
  "(\<forall>j<Suc k. \<not> isOk (op_outcome operation j s)) \<longleftrightarrow>
     \<not> isOk (snd (operation s)) \<and> (\<forall>j<k. \<not> isOk (op_outcome operation j (fst (operation s))))"
  by (simp add: All_less_Suc2 op_outcome_0 op_outcome_Suc)

lemma failed_step: "\<not> isOk (snd p) \<Longrightarrow> \<exists>s1 err. p = (s1, Inl err)"
  by (cases p; cases "snd p") auto

lemma exec_attempts_success:
  assumes "op_outcome operation k s = Inr v" "\<forall>j<k. \<not> isOk (op_outcome operation j s)" "k < n"
  shows "\<exists>ev. exec_attempts c operation n e s = (fst (operation (op_state operation k s)), ev, Returns (Inr v)) \<and>
    length (filter (\<lambda>x. x = Slept (rt_delay c)) ev) = k"
  using assms
proof (induction k arbitrary: s n e)
  case 0
  then obtain m where "n = Suc m" by (cases n) auto
  then show ?case using 0 by (cases "operation s") (simp add: op_outcome_0)
next
  case (Suc k)
  then obtain m where m: "n = Suc m" "k < m" by (cases n) auto
  obtain s1 err where s1: "operation s = (s1, Inl err)"
    using Suc.prems(2) failed_step unfolding fails_Suc by blast
  have "op_outcome operation k s1 = Inr v" "\<forall>j<k. \<not> isOk (op_outcome operation j s1)"
    using Suc.prems(1,2) by (simp_all add: fails_Suc op_outcome_Suc s1)
  then obtain ev where "exec_attempts c operation m (Some err) s1 = (fst (operation (op_state operation k s1)), ev, Returns (Inr v))"
      "length (filter (\<lambda>x. x = Slept (rt_delay c)) ev) = k"
    using Suc.IH m(2) by blast
  then show ?case by (simp add: m(1) s1 failure_events_def)
qed

lemma exec_attempts_failure:
  assumes "\<forall>j<n. \<not> isOk (op_outcome operation j s)"
  shows "\<exists>ev. exec_attempts c operation n e s = (op_state operation n s, ev,
      if n = 0 then (case e of None \<Rightarrow> Panics | Some err \<Rightarrow> Returns (Inl err))
      else Returns (op_outcome operation (n - 1) s)) \<and> length (filter (\<lambda>x. x = Slept (rt_delay c)) ev) = n"
  using assms
proof (induction n arbitrary: s e)
  case (Suc n)
  obtain s1 err where s1: "operation s = (s1, Inl err)"
    using Suc.prems failed_step unfolding fails_Suc by blast
  have "\<forall>j<n. \<not> isOk (op_outcome operation j s1)"
    using Suc.prems by (simp_all add: fails_Suc op_outcome_Suc s1)
  then obtain ev where "exec_attempts c operation n (Some err) s1 = (op_state operation n s1, ev,
      if n = 0 then Returns (Inl err) else Returns (op_outcome operation (n - 1) s1))"
      "length (filter (\<lambda>x. x = Slept (rt_delay c)) ev) = n"
    using Suc.IH [of s1 "Some err"] by auto
  then show ?case by (cases n) (simp_all add: s1 failure_events_def op_outcome_0 op_outcome_Suc)
qed simp

lemma exec_forever_success:
  assumes "op_outcome operation k s = Inr v" "\<forall>j<k. \<not> isOk (op_outcome operation j s)"
  shows "exec_forever operation s = Some (fst (operation (op_state operation k s)), v)"
  using assms
proof (induction k arbitrary: s)
  case 0
  then show ?case by (cases "operation s") (simp add: exec_forever.simps op_outcome_0)
next
  case (Suc k)
  obtain s1 err where s1: "operation s = (s1, Inl err)"
    using Suc.prems(2) failed_step unfolding fails_Suc by blast
  have "op_outcome operation k s1 = Inr v" "\<forall>j<k. \<not> isOk (op_outcome operation j s1)"
    using Suc.prems by (simp_all add: fails_Suc op_outcome_Suc s1)
  then show ?case using Suc.IH by (simp add: exec_forever.simps [of _ s] s1)
qed

lemma exec_forever_returns:
  assumes "exec_forever operation s = Some y"
  shows "\<exists>k. isOk (op_outcome operation k s)"
proof (rule exec_forever.raw_induct [OF _ assms, where P = "\<lambda>operation s y. \<exists>k. isOk (op_outcome operation k s)"])
  fix rec operation s y
  assume rec: "\<And>operation s y. rec operation s = Some y \<Longrightarrow> \<exists>k. isOk (op_outcome operation k s)"
    and y: "(case operation s of (s, Inl err) \<Rightarrow> rec operation s | (s, Inr value) \<Rightarrow> Some (s, value)) = Some y"
  show "\<exists>k. isOk (op_outcome operation k s)"
  proof (cases "isOk (snd (operation s))")
    case True
    then show ?thesis by (metis op_outcome_0)
  next
    case False
    then obtain s1 err where o: "operation s = (s1, Inl err)" using failed_step by blast
    then have "rec operation s1 = Some y" using y by simp
    then obtain k where "isOk (op_outcome operation k s1)" using rec by blast
    then show ?thesis using o by (intro exI [of _ "Suc k"]) (simp add: op_outcome_Suc)
  qed
qed

text \<open>
  C38: retries. A run with a positive number of attempts returns the first success among
  them and makes no later call, or, when all fail, the last error after a sleep for every
  attempt, the last one included; with no attempts it panics. Retrying for ever returns
  exactly when some call succeeds, and then with the value of any bounded run that
  succeeds.
\<close>

theorem retry_outcomes:
  "(\<forall>k v. op_outcome operation k s = Inr v \<longrightarrow> (\<forall>j<k. \<not> isOk (op_outcome operation j s)) \<longrightarrow>
      retry_forever operation s = Some (op_state operation (Suc k) s, v) \<and>
      (\<forall>n>k. fst (retry_exec c operation n s) = op_state operation (Suc k) s \<and>
         snd (snd (retry_exec c operation n s)) = Returns (Inr v))) \<and>
   (\<forall>n. (\<forall>j<n. \<not> isOk (op_outcome operation j s)) \<longrightarrow>
      fst (retry_exec c operation n s) = op_state operation n s \<and>
      length (filter (\<lambda>x. x = Slept (rt_delay c)) (fst (snd (retry_exec c operation n s)))) = n \<and>
      snd (snd (retry_exec c operation n s)) = (if n = 0 then Panics else Returns (op_outcome operation (n - 1) s))) \<and>
   (retry_forever operation s = None \<longleftrightarrow> (\<forall>k. \<not> isOk (op_outcome operation k s)))"
proof (intro conjI)
  have st: "fst (operation (op_state operation k s)) = op_state operation (Suc k) s" for k
    by (induction k arbitrary: s) simp_all
  show "\<forall>k v. op_outcome operation k s = Inr v \<longrightarrow> (\<forall>j<k. \<not> isOk (op_outcome operation j s)) \<longrightarrow>
      retry_forever operation s = Some (op_state operation (Suc k) s, v) \<and>
      (\<forall>n>k. fst (retry_exec c operation n s) = op_state operation (Suc k) s \<and>
         snd (snd (retry_exec c operation n s)) = Returns (Inr v))"
  proof (intro allI impI conjI)
    fix k v n
    assume k: "op_outcome operation k s = Inr v" "\<forall>j<k. \<not> isOk (op_outcome operation j s)"
    show "retry_forever operation s = Some (op_state operation (Suc k) s, v)"
      unfolding retry_forever_def exec_forever_success [OF k] st ..
    assume "k < n"
    from exec_attempts_success [OF k this, of c None]
    show "fst (retry_exec c operation n s) = op_state operation (Suc k) s"
      and "snd (snd (retry_exec c operation n s)) = Returns (Inr v)"
      unfolding retry_exec_def st by auto
  qed
  show "\<forall>n. (\<forall>j<n. \<not> isOk (op_outcome operation j s)) \<longrightarrow>
      fst (retry_exec c operation n s) = op_state operation n s \<and>
      length (filter (\<lambda>x. x = Slept (rt_delay c)) (fst (snd (retry_exec c operation n s)))) = n \<and>
      snd (snd (retry_exec c operation n s)) = (if n = 0 then Panics else Returns (op_outcome operation (n - 1) s))"
  proof (intro allI impI)
    fix n
    assume "\<forall>j<n. \<not> isOk (op_outcome operation j s)"
    from exec_attempts_failure [OF this, of c None]
    show "fst (retry_exec c operation n s) = op_state operation n s \<and>
      length (filter (\<lambda>x. x = Slept (rt_delay c)) (fst (snd (retry_exec c operation n s)))) = n \<and>
      snd (snd (retry_exec c operation n s)) = (if n = 0 then Panics else Returns (op_outcome operation (n - 1) s))"
      unfolding retry_exec_def by auto
  qed
  show "retry_forever operation s = None \<longleftrightarrow> (\<forall>k. \<not> isOk (op_outcome operation k s))"
  proof
    assume n: "retry_forever operation s = None"
    show "\<forall>k. \<not> isOk (op_outcome operation k s)"
    proof (rule ccontr)
      assume "\<not> (\<forall>k. \<not> isOk (op_outcome operation k s))"
      then obtain k where k: "isOk (op_outcome operation k s)" "\<forall>j<k. \<not> isOk (op_outcome operation j s)"
        using exists_least_iff [of "\<lambda>k. isOk (op_outcome operation k s)"] by blast
      then obtain v where "op_outcome operation k s = Inr v" by (auto simp: isOk_iff)
      then show False using exec_forever_success k(2) n unfolding retry_forever_def by fastforce
    qed
  next
    assume "\<forall>k. \<not> isOk (op_outcome operation k s)"
    then show "retry_forever operation s = None"
      using exec_forever_returns [of operation s] unfolding retry_forever_def by (cases "exec_forever operation s") auto
  qed
qed

definition third_time :: "nat \<Rightarrow> nat \<times> (unit + nat)" where
  "third_time s = (Suc s, if s < 2 then Inl () else Inr s)"

theorem retry_outcomes_witness:
  "retry_forever third_time 0 = Some (3, 2) \<and>
   snd (snd (retry_exec (retry_new :: unit retry_conf) third_time 5 0)) = Returns (Inr 2) \<and>
   snd (snd (retry_exec (retry_new :: unit retry_conf) third_time 2 0)) = Returns (Inl ()) \<and>
   retry_forever (\<lambda>s :: nat. (s, Inl () :: unit + nat)) 0 = None"
proof -
  have st: "op_state third_time k s = s + k" for k s
    by (induction k arbitrary: s) (simp_all add: third_time_def)
  have o: "op_outcome third_time k s = (if s + k < 2 then Inl () else Inr (s + k))" for k s
    by (simp add: op_outcome_def st) (simp add: third_time_def)
  have no: "op_outcome (\<lambda>s :: nat. (s, Inl () :: unit + nat)) k s = Inl ()" for k s by (simp add: op_outcome_def)
  show ?thesis
    using retry_outcomes [of third_time 0 "retry_new :: unit retry_conf", THEN conjunct1, rule_format, of 2 2]
      retry_outcomes [of third_time 0 "retry_new :: unit retry_conf", THEN conjunct2, THEN conjunct1, rule_format, of 2]
      retry_outcomes [of "\<lambda>s :: nat. (s, Inl () :: unit + nat)" 0 "retry_new :: unit retry_conf", THEN conjunct2, THEN conjunct2]
    by (simp add: o st no)
qed

section \<open>The background worker\<close>

text \<open>
  The two flags and the permit of \<^verbatim>\<open>Notify\<close> (which holds at most one); a worker is before
  its test of the shutdown flag, in its tick, or waiting, with or without a time.
\<close>

datatype worker = Checking | Ticking | Waiting "nat option"

record tick_worker =
  tw_is_running :: bool
  tw_shutdown :: bool
  tw_permit :: bool
  tw_workers :: "worker list"
  tw_clock :: nat

definition tick_worker_new :: tick_worker where
  "tick_worker_new = \<lparr> tw_is_running = False, tw_shutdown = False, tw_permit = False, tw_workers = [], tw_clock = 0 \<rparr>"

definition tw_tick :: "tick_worker \<Rightarrow> tick_worker" where
  "tw_tick s = s\<lparr> tw_permit := True \<rparr>"

definition tw_run :: "tick_worker \<Rightarrow> tick_worker" where
  "tw_run s =
     (if \<not> tw_is_running s then s\<lparr> tw_is_running := True, tw_workers := tw_workers s @ [Checking] \<rparr>
      else tw_tick s)"

text \<open>
  Dropping the worker's owner, which nobody else can be using then, so no \<^verbatim>\<open>run\<close> comes
  between the three stores.
\<close>

definition tw_stop :: "tick_worker \<Rightarrow> tick_worker" where
  "tw_stop s = s\<lparr> tw_shutdown := True, tw_is_running := False, tw_permit := True \<rparr>"

text \<open>The worker's loop: the test, the end of a tick, and the end of a wait.\<close>

definition worker_check :: "nat \<Rightarrow> tick_worker \<Rightarrow> tick_worker" where
  "worker_check i s =
     (if tw_shutdown s then s\<lparr> tw_workers := remove_nth i (tw_workers s) \<rparr>
      else s\<lparr> tw_workers := (tw_workers s)[i := Ticking] \<rparr>)"

definition worker_ticked :: "nat \<Rightarrow> nat option \<Rightarrow> tick_worker \<Rightarrow> tick_worker" where
  "worker_ticked i next s =
     s\<lparr> tw_workers := (tw_workers s)[i :=
          (case next of
             Some w \<Rightarrow> if tw_clock s < w then Waiting (Some w) else Checking
           | None \<Rightarrow> Waiting None)] \<rparr>"

definition worker_notified :: "nat \<Rightarrow> tick_worker \<Rightarrow> tick_worker" where
  "worker_notified i s = s\<lparr> tw_permit := False, tw_workers := (tw_workers s)[i := Checking] \<rparr>"

definition worker_timeout :: "nat \<Rightarrow> tick_worker \<Rightarrow> tick_worker" where
  "worker_timeout i s = s\<lparr> tw_workers := (tw_workers s)[i := Checking] \<rparr>"

inductive loop_step :: "tick_worker \<Rightarrow> tick_worker \<Rightarrow> bool" where
  check: "i < length (tw_workers s) \<Longrightarrow> tw_workers s ! i = Checking \<Longrightarrow> loop_step s (worker_check i s)"
| ticked: "i < length (tw_workers s) \<Longrightarrow> tw_workers s ! i = Ticking \<Longrightarrow> loop_step s (worker_ticked i next s)"
| notified: "i < length (tw_workers s) \<Longrightarrow> tw_workers s ! i = Waiting w \<Longrightarrow> tw_permit s \<Longrightarrow> loop_step s (worker_notified i s)"
| timeout: "i < length (tw_workers s) \<Longrightarrow> tw_workers s ! i = Waiting (Some t) \<Longrightarrow> t \<le> tw_clock s \<Longrightarrow> loop_step s (worker_timeout i s)"

inductive tick_step :: "tick_worker \<Rightarrow> tick_worker \<Rightarrow> bool" where
  run: "\<not> tw_shutdown s \<Longrightarrow> tick_step s (tw_run s)"
| tick: "\<not> tw_shutdown s \<Longrightarrow> tick_step s (tw_tick s)"
| stop: "\<not> tw_shutdown s \<Longrightarrow> tick_step s (tw_stop s)"
| pass: "tw_clock s \<le> t \<Longrightarrow> tick_step s (s\<lparr> tw_clock := t \<rparr>)"
| loop: "loop_step s s' \<Longrightarrow> tick_step s s'"

inductive tick_reach :: "tick_worker \<Rightarrow> bool" where
  start: "tick_reach tick_worker_new"
| step: "tick_reach s \<Longrightarrow> tick_step s s' \<Longrightarrow> tick_reach s'"

definition tick_inv :: "tick_worker \<Rightarrow> bool" where
  "tick_inv s \<longleftrightarrow> length (tw_workers s) \<le> 1 \<and> (\<not> tw_shutdown s \<longrightarrow> tw_is_running s = (tw_workers s \<noteq> [])) \<and>
     (tw_shutdown s \<longrightarrow> tw_permit s \<or> tw_workers s = [] \<or> tw_workers s = [Checking])"

lemma single_worker:
  "length (tw_workers s) \<le> 1 \<Longrightarrow> i < length (tw_workers s) \<Longrightarrow> i = 0 \<and> tw_workers s = [tw_workers s ! i]"
  by (cases "tw_workers s") auto

lemma loop_step_inv:
  assumes "loop_step s s'" "tick_inv s"
  shows "tick_inv s' \<and> tw_shutdown s' = tw_shutdown s"
proof -
  have one: "length (tw_workers s) \<le> 1" using assms(2) by (simp add: tick_inv_def)
  show ?thesis
    using assms(1)
  proof cases
    case (check i)
    then show ?thesis using single_worker [OF one check(2)] assms(2)
      by (auto simp: worker_check_def tick_inv_def)
  next
    case (ticked i nx)
    then show ?thesis using single_worker [OF one ticked(2)] assms(2)
      by (auto simp: worker_ticked_def tick_inv_def)
  next
    case (notified i w)
    then show ?thesis using single_worker [OF one notified(2)] assms(2)
      by (auto simp: worker_notified_def tick_inv_def)
  next
    case (timeout i t)
    then show ?thesis using single_worker [OF one timeout(2)] assms(2)
      by (auto simp: worker_timeout_def tick_inv_def)
  qed
qed

lemma tick_reach_inv: "tick_reach s \<Longrightarrow> tick_inv s"
proof (induction rule: tick_reach.induct)
  case start
  then show ?case by (simp add: tick_inv_def tick_worker_new_def)
next
  case (step s s')
  show ?case
    using step.hyps(2)
  proof cases
    case loop
    then show ?thesis using loop_step_inv step.IH by blast
  qed (use step.IH in \<open>auto simp: tick_inv_def tw_run_def tw_tick_def tw_stop_def\<close>)
qed

lemma stop_from_checking:
  assumes "tw_workers s = [Checking]" "tw_shutdown s"
  shows "\<exists>s'. loop_step\<^sup>*\<^sup>* s s' \<and> tw_workers s' = [] \<and> tw_clock s' = tw_clock s"
proof -
  have "loop_step s (worker_check 0 s)" by (rule loop_step.check) (simp_all add: assms(1))
  then show ?thesis using assms by (intro exI [of _ "worker_check 0 s"]) (auto simp: worker_check_def)
qed

lemma stop_from_waiting:
  assumes "tw_workers s = [Waiting w]" "tw_shutdown s" "tw_permit s"
  shows "\<exists>s'. loop_step\<^sup>*\<^sup>* s s' \<and> tw_workers s' = [] \<and> tw_clock s' = tw_clock s"
proof -
  have "loop_step s (worker_notified 0 s)" by (rule loop_step.notified [where w = w]) (simp_all add: assms)
  moreover have "tw_workers (worker_notified 0 s) = [Checking]" "tw_shutdown (worker_notified 0 s)"
      "tw_clock (worker_notified 0 s) = tw_clock s"
    using assms by (simp_all add: worker_notified_def)
  ultimately show ?thesis using stop_from_checking by (metis converse_rtranclp_into_rtranclp)
qed

lemma stop_from_ticking:
  assumes "tw_workers s = [Ticking]" "tw_shutdown s" "tick_inv s"
  shows "\<exists>s'. loop_step\<^sup>*\<^sup>* s s' \<and> tw_workers s' = [] \<and> tw_clock s' = tw_clock s"
proof -
  let ?s = "worker_ticked 0 None s"
  have l: "loop_step s ?s" by (rule loop_step.ticked) (simp_all add: assms(1))
  have "tw_workers ?s = [Waiting None]" "tw_shutdown ?s" "tw_clock ?s = tw_clock s"
    using assms by (simp_all add: worker_ticked_def)
  moreover from this have "tw_permit ?s" using loop_step_inv [OF l assms(3)] by (auto simp: tick_inv_def)
  ultimately show ?thesis using stop_from_waiting l by (metis converse_rtranclp_into_rtranclp)
qed

text \<open>
  one worker, and it stops. However often it is run, ticked and stopped, there is at
  most one background worker. Once stopped it begins no further tick, and from every
  state, whether it is waiting without a time, asleep, ticking or about to test the flag,
  it ends without waiting for the clock: the wake-up is never lost.
\<close>

theorem tick_worker_stops:
  assumes "tick_reach s"
  shows "length (tw_workers s) \<le> 1 \<and>
    (tw_shutdown s \<longrightarrow>
       (\<forall>s'. tick_step s s' \<longrightarrow> tw_shutdown s' \<and> (Ticking \<in> set (tw_workers s') \<longrightarrow> Ticking \<in> set (tw_workers s))) \<and>
       (\<exists>s'. loop_step\<^sup>*\<^sup>* s s' \<and> tw_workers s' = [] \<and> tw_clock s' = tw_clock s))"
proof -
  have inv: "tick_inv s" by (rule tick_reach_inv [OF assms])
  have one: "length (tw_workers s) \<le> 1" using inv by (simp add: tick_inv_def)
  have no_tick: "tw_shutdown s' \<and> (Ticking \<in> set (tw_workers s') \<longrightarrow> Ticking \<in> set (tw_workers s))"
    if sd: "tw_shutdown s" and st: "tick_step s s'" for s'
    using st
  proof cases
    case loop
    have "Ticking \<in> set (tw_workers s') \<longrightarrow> Ticking \<in> set (tw_workers s)"
      using loop
    proof cases
      case (check i)
      then show ?thesis using single_worker [OF one check(2)] sd by (auto simp: worker_check_def)
    next
      case (ticked i nx)
      then show ?thesis using single_worker [OF one ticked(2)] by auto
    next
      case (notified i w)
      then show ?thesis using single_worker [OF one notified(2)] by (auto simp: worker_notified_def)
    next
      case (timeout i t)
      then show ?thesis using single_worker [OF one timeout(2)] by (auto simp: worker_timeout_def)
    qed
    then show ?thesis using loop_step_inv [OF loop inv] sd by simp
  qed (use sd in simp_all)
  have stops: "\<exists>s'. loop_step\<^sup>*\<^sup>* s s' \<and> tw_workers s' = [] \<and> tw_clock s' = tw_clock s" if sd: "tw_shutdown s"
  proof (cases "tw_workers s")
    case (Cons w ws)
    then have w: "tw_workers s = [w]" using one by simp
    show ?thesis
    proof (cases w)
      case (Waiting x)
      then show ?thesis using stop_from_waiting [of s x] w sd inv by (auto simp: tick_inv_def)
    qed (use stop_from_checking stop_from_ticking w sd inv in auto)
  qed blast
  show ?thesis using one no_tick stops by blast
qed

theorem tick_worker_stops_witness:
  "\<exists>s'. loop_step\<^sup>*\<^sup>* (tw_stop (tw_tick (tw_run tick_worker_new))) s' \<and> tw_workers s' = []"
proof -
  let ?s = "tw_stop (tw_tick (tw_run tick_worker_new))"
  have 1: "tick_reach (tw_run tick_worker_new)"
    by (rule tick_reach.step [OF tick_reach.start tick_step.run]) (simp add: tick_worker_new_def)
  have 2: "tick_reach (tw_tick (tw_run tick_worker_new))"
    by (rule tick_reach.step [OF 1 tick_step.tick]) (simp add: tw_run_def tick_worker_new_def)
  have "tick_reach ?s"
    by (rule tick_reach.step [OF 2 tick_step.stop]) (simp add: tw_run_def tw_tick_def tick_worker_new_def)
  moreover have "tw_shutdown ?s" by (simp add: tw_stop_def)
  ultimately show ?thesis using tick_worker_stops [of ?s] by blast
qed

section \<open>Cursors and pages\<close>

datatype 'p cursor_after = After 'p | AfterInclusive 'p

datatype 'p cursor_before = Before 'p | BeforeInclusive 'p

datatype 'p cursor_choice = ChoiceAfter "'p cursor_after" | ChoiceBefore "'p cursor_before"

record 'p page_cursor =
  pc_after :: "'p cursor_after option"
  pc_before :: "'p cursor_before option"

datatype 'p bound = Excluded 'p | Included 'p

fun after_inner :: "'p cursor_after \<Rightarrow> 'p" where
  "after_inner (After p) = p"
| "after_inner (AfterInclusive p) = p"

fun after_inclusive :: "'p cursor_after \<Rightarrow> 'p cursor_after" where
  "after_inclusive (After p) = AfterInclusive p"
| "after_inclusive (AfterInclusive p) = AfterInclusive p"

fun after_to_bound :: "'p cursor_after \<Rightarrow> 'p bound" where
  "after_to_bound (After p) = Excluded p"
| "after_to_bound (AfterInclusive p) = Included p"

fun after_map_pos :: "('p \<Rightarrow> 'q) \<Rightarrow> 'p cursor_after \<Rightarrow> 'q cursor_after" where
  "after_map_pos f (After p) = After (f p)"
| "after_map_pos f (AfterInclusive p) = AfterInclusive (f p)"

fun before_inner :: "'p cursor_before \<Rightarrow> 'p" where
  "before_inner (Before p) = p"
| "before_inner (BeforeInclusive p) = p"

fun before_inclusive :: "'p cursor_before \<Rightarrow> 'p cursor_before" where
  "before_inclusive (Before p) = BeforeInclusive p"
| "before_inclusive (BeforeInclusive p) = BeforeInclusive p"

fun before_to_bound :: "'p cursor_before \<Rightarrow> 'p bound" where
  "before_to_bound (Before p) = Excluded p"
| "before_to_bound (BeforeInclusive p) = Included p"

fun before_map_pos :: "('p \<Rightarrow> 'q) \<Rightarrow> 'p cursor_before \<Rightarrow> 'q cursor_before" where
  "before_map_pos f (Before p) = Before (f p)"
| "before_map_pos f (BeforeInclusive p) = BeforeInclusive (f p)"

fun choice_inner :: "'p cursor_choice \<Rightarrow> 'p" where
  "choice_inner (ChoiceAfter a) = after_inner a"
| "choice_inner (ChoiceBefore b) = before_inner b"

fun choice_map_pos :: "('p \<Rightarrow> 'q) \<Rightarrow> 'p cursor_choice \<Rightarrow> 'q cursor_choice" where
  "choice_map_pos f (ChoiceAfter a) = ChoiceAfter (after_map_pos f a)"
| "choice_map_pos f (ChoiceBefore b) = ChoiceBefore (before_map_pos f b)"

fun choice_inclusive :: "'p cursor_choice \<Rightarrow> 'p cursor_choice" where
  "choice_inclusive (ChoiceAfter a) = ChoiceAfter (after_inclusive a)"
| "choice_inclusive (ChoiceBefore b) = ChoiceBefore (before_inclusive b)"

text \<open>
  \<^verbatim>\<open>Opaque\<close>: base64 of the JSON of a value; both crates are parameters.  A cursor is made
  opaque by wrapping both its ends.
\<close>

record 'a opaque_codec =
  json_to_vec :: "'a \<Rightarrow> byte list option"
  json_from_slice :: "byte list \<Rightarrow> 'a option"
  b64_encode :: "byte list \<Rightarrow> string"
  b64_decode :: "string \<Rightarrow> byte list option"

definition opaque_serialize :: "'a opaque_codec \<Rightarrow> 'a \<Rightarrow> string option" where
  "opaque_serialize K v = map_option (b64_encode K) (json_to_vec K v)"

definition opaque_deserialize :: "'a opaque_codec \<Rightarrow> string \<Rightarrow> 'a option" where
  "opaque_deserialize K s = Option.bind (b64_decode K s) (json_from_slice K)"

text \<open>
  A paginator: the items left, the position of an item if it has one, and the cursors of
  the items produced so far.
\<close>

record ('i, 'p) paginator =
  pg_iter :: "'i list"
  pg_before :: "'p cursor_before option"
  pg_after :: "'p cursor_after option"

definition paginator_new :: "'i list \<Rightarrow> ('i, 'p) paginator" where
  "paginator_new iter = \<lparr> pg_iter = iter, pg_before = None, pg_after = None \<rparr>"

definition paginator_next :: "('i \<Rightarrow> 'p option) \<Rightarrow> ('i, 'p) paginator \<Rightarrow> ('i, 'p) paginator \<times> 'i option" where
  "paginator_next item_to_pos s =
     (case pg_iter s of
        [] \<Rightarrow> (s, None)
      | item # iter \<Rightarrow>
          (let s = s\<lparr> pg_iter := iter \<rparr>;
               s = (case item_to_pos item of
                      Some pos \<Rightarrow>
                        s\<lparr> pg_before := (if pg_before s = None then Some (Before pos) else pg_before s),
                           pg_after := Some (After pos) \<rparr>
                    | None \<Rightarrow> s)
           in (s, Some item)))"

function paginator_items ::
  "('i \<Rightarrow> 'p option) \<Rightarrow> ('i, 'p) paginator \<Rightarrow> ('i, 'p) paginator \<times> 'i list" where
  "paginator_items item_to_pos s =
     (case paginator_next item_to_pos s of
        (s, None) \<Rightarrow> (s, [])
      | (s, Some item) \<Rightarrow> (case paginator_items item_to_pos s of (s, items) \<Rightarrow> (s, item # items)))"
  by pat_completeness auto

lemma paginator_next_length:
  "(s', Some item) = paginator_next f s \<Longrightarrow> length (pg_iter s') < length (pg_iter s)"
  by (auto simp: paginator_next_def Let_def split: list.splits option.splits)

termination paginator_items
  by (relation "measure (\<lambda>(_, s). length (pg_iter s))") (auto intro: paginator_next_length)

declare paginator_items.simps [simp del]

definition paginator_collect ::
  "('i \<Rightarrow> 'p option) \<Rightarrow> ('i, 'p) paginator \<Rightarrow> 'p page_cursor \<times> 'i list" where
  "paginator_collect item_to_pos s =
     (case paginator_items item_to_pos s of
        (s, collected) \<Rightarrow> (\<lparr> pc_after = pg_after s, pc_before = pg_before s \<rparr>, collected))"

text \<open>A result of a list in a page becomes a result of the page.\<close>

record ('l, 'p) paginated_list =
  pl_cursor :: "'p page_cursor"
  pl_list :: 'l

definition paginated_result :: "('e + 'l, 'p) paginated_list \<Rightarrow> 'e + ('l, 'p) paginated_list" where
  "paginated_result p = mapOk (\<lambda>l. \<lparr> pl_cursor = pl_cursor p, pl_list = l \<rparr>) (pl_list p)"

text \<open>A bound as the start and as the end of a range.\<close>

fun starts_after :: "'p :: linorder bound \<Rightarrow> 'p \<Rightarrow> bool" where
  "starts_after (Excluded p) x \<longleftrightarrow> p < x"
| "starts_after (Included p) x \<longleftrightarrow> p \<le> x"

fun ends_before :: "'p :: linorder bound \<Rightarrow> 'p \<Rightarrow> bool" where
  "ends_before (Excluded p) x \<longleftrightarrow> x < p"
| "ends_before (Included p) x \<longleftrightarrow> x \<le> p"

definition first_pos :: "('i \<Rightarrow> 'p option) \<Rightarrow> 'i list \<Rightarrow> 'p option" where
  "first_pos f xs = (case List.map_filter f xs of [] \<Rightarrow> None | p # _ \<Rightarrow> Some p)"

definition last_pos :: "('i \<Rightarrow> 'p option) \<Rightarrow> 'i list \<Rightarrow> 'p option" where
  "last_pos f xs = (case rev (List.map_filter f xs) of [] \<Rightarrow> None | p # _ \<Rightarrow> Some p)"

lemma pos_simps [simp]:
  "first_pos f [] = None" "last_pos f [] = None"
  "first_pos f (x # xs) = (case f x of Some p \<Rightarrow> Some p | None \<Rightarrow> first_pos f xs)"
  "last_pos f (x # xs) = (case last_pos f xs of Some p \<Rightarrow> Some p | None \<Rightarrow> f x)"
  by (auto simp: first_pos_def last_pos_def List.map_filter_simps split: option.splits list.splits)

lemma paginator_items_eq:
  "paginator_items f \<lparr> pg_iter = xs, pg_before = b, pg_after = a \<rparr> =
     (\<lparr> pg_iter = [], pg_before = (if b = None then map_option Before (first_pos f xs) else b),
        pg_after = (case last_pos f xs of None \<Rightarrow> a | Some p \<Rightarrow> Some (After p)) \<rparr>, xs)"
proof (induction xs arbitrary: b a)
  case Nil
  show ?case by (subst paginator_items.simps) (simp add: paginator_next_def)
next
  case (Cons x xs)
  show ?case
  proof (cases "f x")
    case None
    then show ?thesis
      by (subst paginator_items.simps) (simp add: paginator_next_def Cons.IH split: option.split)
  next
    case (Some p)
    then show ?thesis
      by (subst paginator_items.simps) (simp add: paginator_next_def Cons.IH split: option.split)
  qed
qed

lemma last_pos_all: "\<forall>x\<in>set xs. f x = Some (g x) \<Longrightarrow> xs \<noteq> [] \<Longrightarrow> last_pos f xs = Some (g (last xs))"
  by (induction xs) (auto split: option.split)

lemma first_pos_all: "\<forall>x\<in>set xs. f x = Some (g x) \<Longrightarrow> xs \<noteq> [] \<Longrightarrow> first_pos f xs = Some (g (hd xs))"
  by (cases xs) auto

text \<open>
  pages. Collecting a page returns all its items and the positions of the first and the
  last item that have one. When the items of a query are ordered by position, the cursors
  of a page cut exactly at it: the items past the bound of its after-cursor are those that
  follow the page, those before the bound of its before-cursor are those that precede it,
  and the inclusive variants keep one item of the page.
\<close>

theorem pages_resume:
  fixes g :: "'i \<Rightarrow> 'p :: linorder"
  assumes "sorted_wrt (\<lambda>x y. g x < g y) (earlier @ page @ later)" "page \<noteq> []"
    and "\<forall>x\<in>set page. f x = Some (g x)"
  shows "\<exists>a b. paginator_collect f (paginator_new page) = (\<lparr> pc_after = Some a, pc_before = Some b \<rparr>, page) \<and>
    filter (\<lambda>x. starts_after (after_to_bound a) (g x)) (earlier @ page @ later) = later \<and>
    filter (\<lambda>x. ends_before (before_to_bound b) (g x)) (earlier @ page @ later) = earlier \<and>
    filter (\<lambda>x. starts_after (after_to_bound (after_inclusive a)) (g x)) (earlier @ page @ later) = last page # later \<and>
    filter (\<lambda>x. ends_before (before_to_bound (before_inclusive b)) (g x)) (earlier @ page @ later) = earlier @ [hd page]"
proof -
  obtain xs z where z: "page = xs @ [z]" using assms(2) by (cases page rule: rev_cases) auto
  obtain y ys where y: "page = y # ys" using assms(2) by (cases page) auto
  have c: "paginator_collect f (paginator_new page) = (\<lparr> pc_after = Some (After (g z)), pc_before = Some (Before (g y)) \<rparr>, page)"
    using last_pos_all [OF assms(3,2)] first_pos_all [OF assms(3,2)]
    by (simp add: paginator_collect_def paginator_new_def paginator_items_eq) (simp add: z, simp add: y flip: z)
  have lt: "\<forall>x\<in>set (earlier @ xs). g x < g z" "\<forall>x\<in>set later. g z < g x"
    using assms(1) by (auto simp: z sorted_wrt_append)
  have gt: "\<forall>x\<in>set earlier. g x < g y" "\<forall>x\<in>set (ys @ later). g y < g x"
    using assms(1) by (auto simp: y sorted_wrt_append)
  have "filter (\<lambda>x. g z < g x) (earlier @ page @ later) = later" "filter (\<lambda>x. g z \<le> g x) (earlier @ page @ later) = z # later"
    using lt unfolding z by (auto simp: filter_empty_conv not_less not_le filter_id_conv intro: less_imp_le)
  moreover have "filter (\<lambda>x. g x < g y) (earlier @ page @ later) = earlier" "filter (\<lambda>x. g x \<le> g y) (earlier @ page @ later) = earlier @ [y]"
    using gt unfolding y by (auto simp: filter_empty_conv not_less not_le filter_id_conv intro: less_imp_le)
  moreover have "last page = z" "hd page = y" using z by simp (simp add: y)
  ultimately show ?thesis using c by (intro exI [of _ "After (g z)"] exI [of _ "Before (g y)"]) simp
qed

theorem pages_resume_witness:
  "\<exists>a b. paginator_collect Some (paginator_new [3, 5 :: nat]) = (\<lparr> pc_after = Some a, pc_before = Some b \<rparr>, [3, 5]) \<and>
     filter (\<lambda>x. starts_after (after_to_bound a) x) [1, 3, 5, 8] = [8]"
proof -
  have "sorted_wrt (\<lambda>x y. id x < id y) ([1] @ [3, 5] @ [8 :: nat])" "[3, 5 :: nat] \<noteq> []"
    "\<forall>x\<in>set [3, 5 :: nat]. Some x = Some (id x)" by simp_all
  from pages_resume [OF this] show ?thesis unfolding id_apply append.simps by blast
qed

text \<open>opaque cursors read back, when the codecs do.\<close>

lemma opaque_round_trip:
  "json_to_vec K v = Some bytes \<Longrightarrow> json_from_slice K bytes = Some v \<Longrightarrow> (\<And>b. b64_decode K (b64_encode K b) = Some b) \<Longrightarrow>
     Option.bind (opaque_serialize K v) (opaque_deserialize K) = Some v"
  by (simp add: opaque_serialize_def opaque_deserialize_def)

end
