(* ===== verification/Signing.thy ===== *)
theory Signing
  imports Notes ElementExt
begin

text \<open>
  Signatures and peer identities (\<^verbatim>\<open>primitives/src/sig.rs\<close>, \<^verbatim>\<open>peer.rs\<close>) and the small
  utilities of the crate (\<^verbatim>\<open>serde.rs\<close>, \<^verbatim>\<open>util.rs\<close>, \<^verbatim>\<open>block_height.rs\<close>).  The curve is a
  parameter with the laws of the \<^verbatim>\<open>secp256k1\<close> crate.
\<close>

section \<open>Signatures\<close>

record ('sk, 'pk, 'sg) curve_ops =
  public_of_secret :: "'sk \<Rightarrow> 'pk"
  serialize_uncompressed :: "'pk \<Rightarrow> byte list"
  sign_recoverable :: "byte list \<Rightarrow> 'sk \<Rightarrow> 'sg"
  serialize_compact :: "'sg \<Rightarrow> nat \<times> byte list"
  sig_from_compact :: "byte list \<Rightarrow> nat \<Rightarrow> 'sg option"
  recover_key :: "byte list \<Rightarrow> 'sg \<Rightarrow> 'pk option"
  secret_from_str :: "string \<Rightarrow> 'sk option"

definition curve_laws :: "('sk, 'pk, 'sg) curve_ops \<Rightarrow> bool" where
  "curve_laws V \<longleftrightarrow>
     (\<forall>sg. fst (serialize_compact V sg) < 4 \<and> length (snd (serialize_compact V sg)) = 64 \<and>
        sig_from_compact V (snd (serialize_compact V sg)) (fst (serialize_compact V sg)) = Some sg) \<and>
     (\<forall>m sk. recover_key V m (sign_recoverable V m sk) = Some (public_of_secret V sk)) \<and>
     (\<forall>s sk. secret_from_str V s = Some sk \<longrightarrow> length s = 64)"

datatype signature65 = Signature65 (sig_inner: "byte list")

definition signature_default :: signature65 where
  "signature_default = Signature65 (replicate 65 0)"

definition NETWORK :: string where
  "NETWORK = ''Payy''"

text \<open>The digest signed: \<^verbatim>\<open>usize\<close> length, name and message.\<close>

definition signed_digest :: "('f, 'z) zk_env_scheme \<Rightarrow> crypto_hash \<Rightarrow> byte list" where
  "signed_digest E msg =
     keccak256 E (word_to_be (of_nat (length NETWORK) :: u64) @ string_bytes NETWORK @ hash_inner msg)"

definition address_from_public_key :: "('f, 'z) zk_env_scheme \<Rightarrow> ('sk, 'pk, 'sg) curve_ops \<Rightarrow> 'pk \<Rightarrow> address" where
  "address_from_public_key E V public_key =
     (let hashed_pubkey = keccak256 E (drop 1 (serialize_uncompressed V public_key))
      in Address (drop (length hashed_pubkey - 20) hashed_pubkey))"

definition address_from_secret_key :: "('f, 'z) zk_env_scheme \<Rightarrow> ('sk, 'pk, 'sg) curve_ops \<Rightarrow> 'sk \<Rightarrow> address" where
  "address_from_secret_key E V secret_key = address_from_public_key E V (public_of_secret V secret_key)"

text \<open>
  \<^verbatim>\<open>RecoveryId::from_i32\<close> fails outside 0 to 3, which gives \<^verbatim>\<open>None\<close>; \<^verbatim>\<open>from_compact\<close> fails
  when a half is not below the group order, and is unwrapped.
\<close>

definition sig_verify ::
  "('f, 'z) zk_env_scheme \<Rightarrow> ('sk, 'pk, 'sg) curve_ops \<Rightarrow> signature65 \<Rightarrow> crypto_hash \<Rightarrow> address option panics" where
  "sig_verify E V sg msg =
     (let digest = signed_digest E msg; sig = sig_inner sg; recovery_id = unat (sig ! 64) in
      if 3 < recovery_id then Returns None
      else case sig_from_compact V (take 64 sig) recovery_id of
        None \<Rightarrow> Panics
      | Some s \<Rightarrow> Returns (map_option (address_from_public_key E V) (recover_key V digest s)))"

definition address_default :: address where
  "address_default = Address (replicate 20 0)"

definition address_verify ::
  "('f, 'z) zk_env_scheme \<Rightarrow> ('sk, 'pk, 'sg) curve_ops \<Rightarrow> address \<Rightarrow> signature65 \<Rightarrow> crypto_hash \<Rightarrow> bool panics" where
  "address_verify E V a sg msg =
     (case sig_verify E V sg msg of
        Panics \<Rightarrow> Panics
      | Returns r \<Rightarrow> Returns ((case r of Some b \<Rightarrow> b | None \<Rightarrow> address_default) = a))"

definition address_prefix :: "address \<Rightarrow> string" where
  "address_prefix a = concat (take 4 (map (\<lambda>b. map (\<lambda>c. if 97 \<le> (of_char c :: nat) then char_of (of_char c - (32 :: nat)) else c)
     (hex_enc [b])) (addr_bytes a)))"

definition address_to_u256 :: "address \<Rightarrow> u256" where
  "address_to_u256 a = word_from_le (addr_bytes a)"

section \<open>Peer identities\<close>

record 'sk peer_signer =
  ps_peer_id :: address
  ps_secret_key :: 'sk

definition peer_signer_new :: "('f, 'z) zk_env_scheme \<Rightarrow> ('sk, 'pk, 'sg) curve_ops \<Rightarrow> 'sk \<Rightarrow> 'sk peer_signer" where
  "peer_signer_new E V sk = \<lparr> ps_peer_id = address_from_secret_key E V sk, ps_secret_key = sk \<rparr>"

definition peer_sign ::
  "('f, 'z) zk_env_scheme \<Rightarrow> ('sk, 'pk, 'sg) curve_ops \<Rightarrow> 'sk peer_signer \<Rightarrow> crypto_hash \<Rightarrow> signature65" where
  "peer_sign E V p msg =
     (let (recovery, rest) = serialize_compact V (sign_recoverable V (signed_digest E msg) (ps_secret_key p))
      in Signature65 (take 64 rest @ [of_nat recovery]))"

definition peer_signer_from_str ::
  "('f, 'z) zk_env_scheme \<Rightarrow> ('sk, 'pk, 'sg) curve_ops \<Rightarrow> string \<Rightarrow> 'sk peer_signer option" where
  "peer_signer_from_str E V s = map_option (peer_signer_new E V) (secret_from_str V (strip_0x s))"

text \<open>Serialising writes the text form, which is the address; deserialising parses a secret key.\<close>

definition peer_signer_serialize :: "('f, 'z) zk_env_scheme \<Rightarrow> 'sk peer_signer \<Rightarrow> string" where
  "peer_signer_serialize E p = address_to_hex E (ps_peer_id p)"

definition peer_signer_deserialize ::
  "('f, 'z) zk_env_scheme \<Rightarrow> ('sk, 'pk, 'sg) curve_ops \<Rightarrow> string \<Rightarrow> 'sk peer_signer option" where
  "peer_signer_deserialize E V s = peer_signer_from_str E V s"

section \<open>Text forms of bytes (serde.rs)\<close>

definition serialize_base64 :: "(byte list \<Rightarrow> string) \<Rightarrow> byte list \<Rightarrow> string" where
  "serialize_base64 b64 v = b64 v"

definition serialize_base64_opt :: "(byte list \<Rightarrow> string) \<Rightarrow> byte list option \<Rightarrow> string option" where
  "serialize_base64_opt b64 v = (case v of Some v \<Rightarrow> Some (serialize_base64 b64 v) | None \<Rightarrow> None)"

definition deserialize_base64 :: "(string \<Rightarrow> byte list option) \<Rightarrow> string \<Rightarrow> byte list option" where
  "deserialize_base64 b64d s = b64d s"

definition serialize_hex_0x_prefixed :: "(byte list \<Rightarrow> string) \<Rightarrow> byte list \<Rightarrow> string" where
  "serialize_hex_0x_prefixed henc v = ''0x'' @ henc v"

definition deserialize_hex_0x_prefixed :: "(string \<Rightarrow> byte list option) \<Rightarrow> string \<Rightarrow> byte list option" where
  "deserialize_hex_0x_prefixed hdec s = hdec (trim_start_matches ''0x'' s)"

section \<open>Other utilities (util.rs, block\_height.rs)\<close>

text \<open>
  A text as UTF-8 bytes.  Cutting inside a character panics; the ellipsis is three bytes.
\<close>

definition char_boundary :: "byte list \<Rightarrow> nat \<Rightarrow> bool" where
  "char_boundary s i \<longleftrightarrow> i = 0 \<or> i = length s \<or> (i < length s \<and> \<not> utf8_cont (s ! i))"

definition middle_truncate :: "byte list \<Rightarrow> nat \<Rightarrow> byte list panics" where
  "middle_truncate s max_len =
     (if length s \<le> max_len then Returns s
      else
        (let half = max_len div 2 in
         if char_boundary s half \<and> char_boundary s (length s - half)
         then Returns (take half s @ [0xE2, 0x80, 0xA6] @ drop (length s - half) s)
         else Panics))"

definition block_height_next :: "bool \<Rightarrow> u64 \<Rightarrow> u64 panics" where
  "block_height_next checks h = (if checks \<and> h = - 1 then Panics else Returns (h + 1))"

section \<open>Properties\<close>

lemma signed_parts:
  assumes "curve_laws V"
  shows "take 64 (sig_inner (peer_sign E V p msg)) =
      snd (serialize_compact V (sign_recoverable V (signed_digest E msg) (ps_secret_key p)))"
    and "unat (sig_inner (peer_sign E V p msg) ! 64) =
      fst (serialize_compact V (sign_recoverable V (signed_digest E msg) (ps_secret_key p)))"
    and "length (sig_inner (peer_sign E V p msg)) = 65"
proof -
  let ?c = "serialize_compact V (sign_recoverable V (signed_digest E msg) (ps_secret_key p))"
  have c: "fst ?c < 4" "length (snd ?c) = 64" using assms by (simp_all add: curve_laws_def)
  have s: "sig_inner (peer_sign E V p msg) = snd ?c @ [of_nat (fst ?c)]"
    using c(2) by (simp add: peer_sign_def case_prod_unfold Let_def)
  show "take 64 (sig_inner (peer_sign E V p msg)) = snd ?c" "length (sig_inner (peer_sign E V p msg)) = 65"
    using c(2) by (simp_all add: s)
  show "unat (sig_inner (peer_sign E V p msg) ! 64) = fst ?c"
    using c by (simp add: s nth_append unat_of_nat take_bit_eq_mod)
qed

text \<open>
  C37: signatures identify their signer. A signature made by a peer has 65 bytes and
  recovers, for the message signed, exactly the peer's address, so the address verifies it
  and no other address does.
\<close>

theorem signature_identifies_signer:
  assumes "curve_laws V"
  shows "length (sig_inner (peer_sign E V (peer_signer_new E V sk) msg)) = 65 \<and>
    sig_verify E V (peer_sign E V (peer_signer_new E V sk) msg) msg =
      Returns (Some (ps_peer_id (peer_signer_new E V sk))) \<and>
    address_verify E V a (peer_sign E V (peer_signer_new E V sk) msg) msg =
      Returns (a = ps_peer_id (peer_signer_new E V sk))"
proof -
  let ?p = "peer_signer_new E V sk"
  note parts = signed_parts [OF assms, of E ?p msg]
  have "sig_verify E V (peer_sign E V ?p msg) msg = Returns (Some (ps_peer_id ?p))"
  proof -
    let ?s = "sign_recoverable V (signed_digest E msg) sk"
    have "fst (serialize_compact V ?s) < 4" using assms by (simp add: curve_laws_def)
    then have "\<not> 3 < fst (serialize_compact V ?s)" by simp
    then show ?thesis
      using assms unfolding sig_verify_def Let_def parts(1,2)
      by (simp add: curve_laws_def peer_signer_new_def address_from_secret_key_def)
  qed
  then show ?thesis using parts(3) by (auto simp: address_verify_def)
qed

text \<open>
  failed verifications. A signature whose recovery byte is above 3, or from which no
  key can be recovered, is not rejected for every address: the zero address accepts it, for
  every message. And a signature whose halves the curve refuses makes the verification
  panic whoever is asked.
\<close>

theorem failed_verification_accepts_zero_address:
  "(3 < unat (sig_inner sg ! 64) \<longrightarrow> address_verify E V a sg msg = Returns (a = address_default)) \<and>
   (\<forall>s. unat (sig_inner sg ! 64) \<le> 3 \<longrightarrow> sig_from_compact V (take 64 (sig_inner sg)) (unat (sig_inner sg ! 64)) = Some s \<longrightarrow>
      recover_key V (signed_digest E msg) s = None \<longrightarrow> address_verify E V a sg msg = Returns (a = address_default)) \<and>
   (unat (sig_inner sg ! 64) \<le> 3 \<longrightarrow> sig_from_compact V (take 64 (sig_inner sg)) (unat (sig_inner sg ! 64)) = None \<longrightarrow>
      address_verify E V a sg msg = Panics)"
  by (auto simp: address_verify_def sig_verify_def Let_def)

text \<open>
  a peer's identity does not survive its own serialisation: the text written is the
  40 digits of the address, which is never a secret key, so reading it back always fails.
\<close>

theorem peer_signer_not_readable:
  assumes "curve_laws V" "env_hex_laws E" "length (addr_bytes (ps_peer_id p)) = 20"
  shows "peer_signer_deserialize E V (peer_signer_serialize E p) = None"
proof -
  let ?h = "hex_encode E (addr_bytes (ps_peer_id p))"
  have l: "hex_laws (hex_encode E) (hex_decode E)" using assms(2) by (simp add: env_hex_laws_def)
  then have "length ?h = 40" using assms(3) by (simp add: hex_laws_def)
  moreover have "length (strip_0x ?h) \<le> length ?h"
    by (auto simp: strip_0x_def strip_prefix_Some_iff split: option.split)
  ultimately have "length (strip_0x ?h) \<noteq> 64" by simp
  then have "secret_from_str V (strip_0x ?h) = None"
    using assms(1) by (cases "secret_from_str V (strip_0x ?h)") (auto simp: curve_laws_def)
  then show ?thesis
    by (simp add: peer_signer_deserialize_def peer_signer_serialize_def peer_signer_from_str_def address_to_hex_def)
qed

text \<open>
  texts of bytes are read back, with or without the prefix; base64 texts are when the
  base64 crate reads what it writes.
\<close>

theorem byte_texts_read_back:
  assumes "hex_laws henc hdec" "\<And>v. b64d (b64 v) = Some v"
  shows "deserialize_hex_0x_prefixed hdec (serialize_hex_0x_prefixed henc v) = Some v \<and>
    deserialize_hex_0x_prefixed hdec (henc v) = Some v \<and>
    deserialize_base64 b64d (serialize_base64 b64 v) = Some v \<and>
    map_option (deserialize_base64 b64d) (serialize_base64_opt b64 (Some v)) = Some (Some v)"
proof -
  have h: "trim_start_matches ''0x'' (henc v) = henc v" by (rule hex_no_prefix [OF assms(1)])
  have "trim_start_matches ''0x'' (''0x'' @ henc v) = henc v"
    by (subst trim_start_matches.simps) (simp only: strip_prefix_append, simp add: h)
  then show ?thesis
    using assms h by (simp add: deserialize_hex_0x_prefixed_def serialize_hex_0x_prefixed_def hex_laws_def
        deserialize_base64_def serialize_base64_def serialize_base64_opt_def)
qed

text \<open>
  truncation. A text within the limit is kept; a longer ASCII text becomes its two ends
  around the ellipsis, which is three bytes long, so that the result exceeds an even limit
  by three bytes; a cut inside a character panics.
\<close>

theorem middle_truncate_lengths:
  "(length s \<le> n \<longrightarrow> middle_truncate s n = Returns s) \<and>
   (n < length s \<longrightarrow> (\<forall>b\<in>set s. b < 0x80) \<longrightarrow> (\<exists>r. middle_truncate s n = Returns r \<and> length r = 2 * (n div 2) + 3 \<and>
      take (n div 2) r = take (n div 2) s \<and> drop (length r - n div 2) r = drop (length s - n div 2) s)) \<and>
   (n < length s \<longrightarrow> 1 < n \<longrightarrow> utf8_cont (s ! (n div 2)) \<longrightarrow> middle_truncate s n = Panics)"
proof -
  have b: "char_boundary s i" if "\<forall>b\<in>set s. b < 0x80" "i \<le> length s" for i
  proof (cases "i < length s")
    case True
    then have "s ! i < 0x80" using that(1) by simp
    then show ?thesis using True by (simp add: char_boundary_def utf8_cont_def not_le)
  qed (use that(2) in \<open>simp add: char_boundary_def\<close>)
  have "length (take h s @ [0xE2, 0x80, 0xA6] @ drop (length s - h) s) = 2 * h + 3"
    "take h (take h s @ [0xE2, 0x80, 0xA6] @ drop (length s - h) s) = take h s"
    "drop (2 * h + 3 - h) (take h s @ [0xE2, 0x80, 0xA6] @ drop (length s - h) s) = drop (length s - h) s"
    if "h \<le> length s" for h using that by simp_all
  moreover have "\<not> char_boundary s (n div 2)" if "n < length s" "1 < n" "utf8_cont (s ! (n div 2))"
    using that by (auto simp: char_boundary_def)
  ultimately show ?thesis using b by (auto simp: middle_truncate_def Let_def)
qed

section \<open>A concrete curve\<close>

definition toy_curve :: "(byte, byte, byte) curve_ops" where
  "toy_curve = \<lparr> public_of_secret = (\<lambda>k. k), serialize_uncompressed = (\<lambda>k. 4 # replicate 64 k),
     sign_recoverable = (\<lambda>m k. k), serialize_compact = (\<lambda>g. (1, replicate 63 0 @ [g])),
     sig_from_compact = (\<lambda>bs r. if bs = [] then None else Some (last bs)), recover_key = (\<lambda>m g. Some g),
     secret_from_str = (\<lambda>s. if length s = 64 then Some 7 else None) \<rparr>"

lemma toy_curve_laws: "curve_laws toy_curve"
  by (simp add: curve_laws_def toy_curve_def)

theorem signature_identifies_signer_witness:
  "address_verify toy_env toy_curve (ps_peer_id (peer_signer_new toy_env toy_curve 9))
     (peer_sign toy_env toy_curve (peer_signer_new toy_env toy_curve 9) crypto_hash_genesis) crypto_hash_genesis = Returns True"
  using signature_identifies_signer [OF toy_curve_laws, of toy_env 9 crypto_hash_genesis] by simp

theorem failed_verification_accepts_zero_address_witness:
  "address_verify toy_env toy_curve (Address (replicate 20 0)) (Signature65 (replicate 64 1 @ [9])) crypto_hash_genesis = Returns True"
  using failed_verification_accepts_zero_address [of "Signature65 (replicate 64 1 @ [9])" toy_env toy_curve
      "Address (replicate 20 0)" crypto_hash_genesis]
  by (simp add: address_default_def nth_append)

theorem peer_signer_not_readable_witness:
  "peer_signer_deserialize toy_env toy_curve
     (peer_signer_serialize toy_env \<lparr> ps_peer_id = Address (replicate 20 9), ps_secret_key = 5 \<rparr>) = None"
  by (rule peer_signer_not_readable [OF toy_curve_laws toy_env_hex]) simp

end
