(* ===== verification/Spec2Isabelle.thy ===== *)
theory Spec2Isabelle
  imports Agg ElementPg SignedElement PoseidonAlt Transfers Deployment MintSystem Backend ProverModule PersistRuns Batch Pool Runtime Signing
begin

text \<open>
  A verification development of the cachecash workspace: private notes on Hyli.  Notes are
  commitments in a sparse Merkle tree, spending publishes a nullifier, and a state contract
  proved in a virtual machine keeps both sets.  Sources are named relative to the
  repository; \<^verbatim>\<open>zk\<close> is \<^verbatim>\<open>pkg/zk-primitives/src\<close>, \<^verbatim>\<open>bb\<close> is \<^verbatim>\<open>pkg/barretenberg/src\<close>, \<^verbatim>\<open>prim\<close> is
  \<^verbatim>\<open>pkg/primitives/src\<close>, \<^verbatim>\<open>state\<close> is \<^verbatim>\<open>contracts/hyli-utxo-state/src\<close>, \<^verbatim>\<open>server\<close> is \<^verbatim>\<open>server/src\<close>.

  \<^bold>\<open>How the program works, and where each part is modelled.\<close>  A request reaches the HTTP
  API, which sends a command to the faucet or builds a transfer; the faucet makes a blob
  transaction and two proof jobs; the proving modules turn jobs into circuit inputs and
  submit the proofs; the node settles the transaction; the executor applies it to the two
  trees and builds the input of the guest, which checks the same transaction in the
  virtual machine; the executor's event tells the faucet the new root.

  \<^item> Foundations.  \<^verbatim>\<open>Prelude\<close> (results, lists, panics, words), \<^verbatim>\<open>Codec\<close> and \<^verbatim>\<open>Borsh\<close> (fixed-width
  and derived encodings, locales \<^verbatim>\<open>fixed_codec\<close> and \<^verbatim>\<open>stream_codec\<close>), \<^verbatim>\<open>Hex\<close>, \<^verbatim>\<open>Strings\<close> (the
  standard library's text operations) and \<^verbatim>\<open>Interfaces\<close> (locales for sets that absorb keys,
  bounded histories and work queues, interpreted on the trees, the root window, the note
  queues and the batch).
  \<^item> \<^verbatim>\<open>pkg/element\<close>: \<^verbatim>\<open>Element\<close>, \<^verbatim>\<open>ElementExt\<close>, \<^verbatim>\<open>ElementPg\<close>, \<^verbatim>\<open>SignedElement\<close>.  An element is a
  256-bit word; whether an operation panics on overflow is the build setting \<^verbatim>\<open>chk\<close>.
  \<^item> \<^verbatim>\<open>pkg/hash\<close>: \<^verbatim>\<open>Hash\<close> (hashing and Merkle paths), \<^verbatim>\<open>PoseidonAlt\<close> (the in-tree permutation).
  \<^item> \<^verbatim>\<open>zk\<close>: \<^verbatim>\<open>Notes\<close> (addresses, notes, links), \<^verbatim>\<open>Utxo\<close> (transactions, public inputs, the Hyli
  blob), \<^verbatim>\<open>Agg\<close> (Merkle paths and both aggregation levels).
  \<^item> \<^verbatim>\<open>state\<close>: \<^verbatim>\<open>SmtTree\<close> (tree wrapper and witnesses), \<^verbatim>\<open>UtxoState\<close> (both trees and the window of
  1000 root fingerprints), \<^verbatim>\<open>ZkContract\<close> (the guest and its batch), \<^verbatim>\<open>Metadata\<close> (the batch's
  encoding).
  \<^item> \<^verbatim>\<open>bb\<close>: \<^verbatim>\<open>Circuits\<close> and \<^verbatim>\<open>HyliCircuits\<close> (input maps, proofs cut and joined, assertions),
  \<^verbatim>\<open>Backend\<close> (\<^verbatim>\<open>execute.rs\<close>, \<^verbatim>\<open>prove.rs\<close>, both backends).
  \<^item> \<^verbatim>\<open>server\<close>: \<^verbatim>\<open>Executor\<close> and \<^verbatim>\<open>ExecutorRuns\<close> (\<^verbatim>\<open>hyli_utxo_state_client.rs\<close> and its reachable
  states), \<^verbatim>\<open>NoteStore\<close> and \<^verbatim>\<open>PersistRuns\<close> (\<^verbatim>\<open>note_store.rs\<close>, one operation at a time and with
  overlapping writes of its file), \<^verbatim>\<open>ServerTx\<close> (transactions and handlers of \<^verbatim>\<open>app.rs\<close>), \<^verbatim>\<open>FaucetRuns\<close> (its
  loop), \<^verbatim>\<open>Provers\<close> and \<^verbatim>\<open>ProverModule\<close> (\<^verbatim>\<open>noir_prover.rs\<close>, \<^verbatim>\<open>smt_incl_prover.rs\<close>, \<^verbatim>\<open>prover.rs\<close>,
  \<^verbatim>\<open>metrics.rs\<close>), \<^verbatim>\<open>ApiNotes\<close> and \<^verbatim>\<open>ApiTransfers\<close> (\<^verbatim>\<open>api.rs\<close>), \<^verbatim>\<open>Deployment\<close> (\<^verbatim>\<open>init.rs\<close>, \<^verbatim>\<open>conf.rs\<close>,
  \<^verbatim>\<open>main.rs\<close>, \<^verbatim>\<open>utils.rs\<close>, \<^verbatim>\<open>bin/mint_request.rs\<close>).
  \<^item> \<^verbatim>\<open>prim\<close>: \<^verbatim>\<open>Batch\<close>, \<^verbatim>\<open>Pool\<close>, \<^verbatim>\<open>Runtime\<close> (retries, tick worker, pagination), \<^verbatim>\<open>Signing\<close>.
  \<^item> Composition: \<^verbatim>\<open>MintSystem\<close> (faucet, node, executor and bus as one step relation), the end
  of \<^verbatim>\<open>Deployment\<close> (the first mint of a new server), \<^verbatim>\<open>Transfers\<close> (a request for a transfer, its
  transaction, guest and executor, and the second spending of a note), and this theory (a
  transaction's blob and the ledger).

  \<^bold>\<open>How code is rendered.\<close>  A struct is a record, an enum a datatype, an integer a word of its
  width.  \<^verbatim>\<open>Result\<close> is a sum with \<^term>\<open>Inl\<close> for the error; a panic is \<^term>\<open>None\<close> or \<^term>\<open>Panics\<close>.
  Methods on \<^verbatim>\<open>&mut self\<close> return the new state, also when they fail.  Concurrent parts
  (batcher, pool, worker, gauge, file writes, modules, system) are inductive step relations whose steps
  are the sections the code makes atomic: one operation of an atomic, one call of the file
  system, one section under a lock.  Some relations have switches for what a run may do: the
  pool's \<^term>\<open>race\<close> (a receiver closes between test and send), the gauge's \<^term>\<open>overlap\<close>, the
  file's \<^term>\<open>overlap\<close>, \<^term>\<open>faults\<close> and \<^term>\<open>lost\<close>, and the test that decides which transactions of
  the system settle (any test for the safety properties, \<^term>\<open>guest_takes\<close>, that is the guest
  on the executor's input, where a mint is shown to get through).  A component that only records what happened
  (calls made, answers sent, roots applied) is named as such.  Strings are lists of UTF-8
  bytes written as characters.

  \<^bold>\<open>Parameters.\<close>  Code that is not in the repository is an argument: the proof field and its
  Poseidon hash (\<^verbatim>\<open>crypto\<close>), \<^verbatim>\<open>hex\<close> and keccak (\<^verbatim>\<open>zk_env\<close>), the sparse Merkle tree
  (\<^verbatim>\<open>smt_ops\<close>, laws \<^term>\<open>smt_laws\<close>), the SDK's calldata and structured blobs (\<^verbatim>\<open>sdk_ops\<close>,
  \<^verbatim>\<open>tx_ops\<close>, laws \<^term>\<open>tx_laws\<close>), the client SDK (\<^verbatim>\<open>client_ops\<close>), the node (\<^verbatim>\<open>node_ops\<close>,
  \<^verbatim>\<open>node_client\<close>), the circuits and their prover (\<^verbatim>\<open>backend\<close>, \<^verbatim>\<open>noir_tools\<close>, \<^verbatim>\<open>bb_env\<close>), the
  curve (\<^verbatim>\<open>curve_ops\<close>).  Every law is shown satisfiable by a concrete instance (\<^term>\<open>toy_smt\<close>,
  \<^term>\<open>toy_tx\<close>, \<^term>\<open>mint_crypto\<close> and others), on which the witnesses run.  \<^term>\<open>tx_laws\<close> says of the
  callee check what the repository's tests show: parsing succeeds when the listed callees are
  the blobs naming the action, and fails when such a blob is not listed (\<^verbatim>\<open>withdraw_topologies\<close>).  The bus is assumed to
  deliver in order and without loss.

  \<^bold>\<open>What is shown.\<close>  For the ledger: no double spending over all reachable executors, a
  spent note rejected for ever after by executor and guest, the executor as an abstract
  ledger that absorbs keys one by one, the guest's witness and merged metadata in step with
  the executor, exact acceptance conditions of the guest, and the limits of these
  (unbound witness keys, nullifiers spent by failed transactions).  For the server: faucet
  mints are accepted in every state of the whole system and can reach the ledger, the
  ledger of a mint-only system is the accepted mints, transfers are accepted under exact
  conditions, deployments complete, one refused transaction stops the faucet, proving
  modules report every job, the count of jobs is exact, and the note store's file is never
  partial while its writers do not overlap (and can be when they do).  For the data: round trips of trees, executors, signatures,
  registry entries, injectivity and binding of Merkle paths, exact signed arithmetic.
  For the runtime: batched calls are served, pools keep their values as long as they keep their lock, retries and workers end.

  \<^bold>\<open>Bounds.\<close>  No fuel is used: loops are structural recursions, functions with a measure, or,
  where they need not end, partial functions whose value \<^term>\<open>None\<close> is not returning
  (\<^verbatim>\<open>retry_forever\<close>, the eviction loop with a bound of zero).  Waiting for a contract makes 60
  attempts, as the code does.  Executors are cloned with fewer than \<^term>\<open>2 ^ 32\<close> leaves per tree,
  the width of the length field, and the gauge counts fewer than \<^term>\<open>2 ^ 64\<close> jobs.

  \<^bold>\<open>Not modelled.\<close>  Routing, CORS, OpenAPI and JSON of the server, tracing, module wiring and
  configuration files are pure input and output.  The guest's entry point only reads its
  environment and calls the SDK.  \<^verbatim>\<open>zk/signed_element.rs\<close> is not declared as a module.
  \<^verbatim>\<open>zk/burn.rs\<close> is a record that no code uses.  Derived \<^verbatim>\<open>Debug\<close> and \<^verbatim>\<open>Display\<close>, the macro for 256-bit
  integers, build scripts, the circuits in Noir, the user interface and the example
  client are outside the library.
\<close>

section \<open>From a transaction to the ledger\<close>

text \<open>
  C9: a Hyli transaction reaches the ledger as its outputs and nullifiers. When the
  executor applies a transaction whose UTXO blob is the one \<^verbatim>\<open>expected_blob\<close> computes, it
  records the commitments of the two output notes (those that are not zero, as the
  commitment of a note without value is) and the two nullifiers (neither zero nor the
  padding nullifier), all of them new; nothing of the spent notes' commitments is recorded.
\<close>

theorem hyli_blob_is_recorded:
  assumes "smt_laws T" "state_inv T (ex_state e)" "utxo_wf (hy_utxo h)"
    and "find (\<lambda>(_, b). blob_contract_name b = utxo_contract_name (ex_config e)) (cd_blobs cd) = Some (i, b)"
    and "blob_data b = expected_blob C h" "update_from_blob T e cd = (e', Inr p)"
  shows "p = (map (\<lambda>n. to_be_bytes (note_commitment C n)) (u_output_notes (hy_utxo h)),
              map to_be_bytes (nullifier_commitments C h)) \<and>
    created_set T (ex_state e') = created_set T (ex_state e) \<union>
      to_be_bytes ` {note_commitment C n |n. n \<in> set (u_output_notes (hy_utxo h)) \<and> note_commitment C n \<noteq> ZERO} \<and>
    nullified_set T (ex_state e') = nullified_set T (ex_state e) \<union>
      to_be_bytes ` {m \<in> set (nullifier_commitments C h). m \<noteq> ZERO \<and> to_be_bytes m \<noteq> PADDING_NULLIFIER} \<and>
    (\<forall>m. m \<in> set (nullifier_commitments C h) \<longrightarrow> m \<noteq> ZERO \<longrightarrow> to_be_bytes m \<noteq> PADDING_NULLIFIER \<longrightarrow>
       to_be_bytes m \<notin> nullified_set T (ex_state e))"
proof -
  let ?os = "drop 2 (hyli_commitments C h)" and ?ns = "nullifier_commitments C h"
  have good: "good_state T (ex_state e)" using assms(1,2) by (simp add: good_state_def)
  have os: "?os = map (note_commitment C) (u_output_notes (hy_utxo h))"
    using assms(3) by (auto simp: hyli_commitments_def utxo_wf_def list_2)
  obtain r where a: "apply_commitments T e (map to_be_bytes ?ns) (map to_be_bytes ?os) = (e', r)" "isOk r"
    and p: "p = (map to_be_bytes ?os, map to_be_bytes ?ns)"
    using assms(4-6) expected_blob_parse [OF assms(3), of C]
    by (auto simp: update_from_blob_def split: prod.splits sum.splits)
  note eff = apply_commitments_effect [OF good a(1)]
  have "set (filter (\<lambda>e. e \<noteq> 0) ?os) =
      {note_commitment C n |n. n \<in> set (u_output_notes (hy_utxo h)) \<and> note_commitment C n \<noteq> ZERO}"
    by (auto simp: os ZERO_def)
  then show ?thesis using eff a(2) p os unfolding kept_element_keys by (auto simp: ZERO_def)
qed

definition step_crypto :: "nat crypto" where
  "step_crypto = const_crypto\<lparr> poseidon := (\<lambda>xs. if length xs = 7 then 5 else 0) \<rparr>"

definition toy_hyli_calldata :: calldata where
  "toy_hyli_calldata = \<lparr> cd_blobs = [(0, \<lparr> blob_contract_name = ''utxo'', blob_data = expected_blob step_crypto toy_hyli \<rparr>)],
     cd_index = 0, cd_identity = ''alice'', cd_tx_blob_count = 1 \<rparr>"

lemma toy_hyli_keys:
  "nullifier_commitments step_crypto toy_hyli = [0, 0]"
  "drop 2 (hyli_commitments step_crypto toy_hyli) = [from_base step_crypto 5, 0]"
proof -
  have "from_base step_crypto 0 = from_be_bytes (to_be_bytes 0)"
    by (simp add: from_base_def step_crypto_def const_crypto_def to_be_bytes_def word_to_be_def)
  then have z: "from_base step_crypto 0 = 0" by (simp only: element_be.dec_enc)
  show "nullifier_commitments step_crypto toy_hyli = [0, 0]"
    using z by (simp add: nullifier_commitments_eq [OF toy_hyli_wf] hash_merge_def Let_def) (simp add: step_crypto_def)
  show "drop 2 (hyli_commitments step_crypto toy_hyli) = [from_base step_crypto 5, 0]"
    by (simp add: hyli_commitments_def toy_hyli_def toy_mint_def utxo_new_mint_def note_commitment_def hash_merge_def
        Let_def padding_note_def ZERO_def) (simp add: step_crypto_def)
qed

theorem hyli_blob_is_recorded_witness:
  "\<exists>e'. update_from_blob toy_smt (executor_new toy_smt toy_config) toy_hyli_calldata =
      (e', Inr ([to_be_bytes (from_base step_crypto 5), to_be_bytes 0], [to_be_bytes 0, to_be_bytes 0])) \<and>
    nullified_set toy_smt (ex_state e') = {}"
proof -
  let ?e = "executor_new toy_smt toy_config"
  let ?c = "[to_be_bytes (from_base step_crypto 5), to_be_bytes 0]" and ?n = "[to_be_bytes 0, to_be_bytes 0]"
  have i: "state_inv toy_smt (ex_state ?e)" using toy_state_inv by (simp add: executor_new_def)
  then have good: "good_state toy_smt (ex_state ?e)" using toy_smt_laws by (simp add: good_state_def)
  have z: "nullified_set toy_smt (ex_state ?e) = {}" "created_set toy_smt (ex_state ?e) = {}"
    using state_default_sets [OF toy_smt_laws] by (simp_all add: executor_new_def)
  have find: "find (\<lambda>(_, b). blob_contract_name b = utxo_contract_name (ex_config ?e)) (cd_blobs toy_hyli_calldata) =
      Some (0, \<lparr> blob_contract_name = ''utxo'', blob_data = expected_blob step_crypto toy_hyli \<rparr>)"
    by (simp add: toy_hyli_calldata_def executor_new_def toy_config_def)
  obtain e' r where a: "apply_commitments toy_smt ?e ?n ?c = (e', r)" by fastforce
  have k: "filter_keys ?c False = map to_be_bytes (filter (\<lambda>e. e \<noteq> 0) [from_base step_crypto 5, 0])"
    "filter_keys ?n True = []"
    using kept_element_keys(1) [of "[from_base step_crypto 5, 0]"] kept_element_keys(2) [of "[0, 0]"] by simp_all
  have "isOk r" using apply_commitments_effect [OF good a] by (simp add: k z)
  then have u: "update_from_blob toy_smt ?e toy_hyli_calldata = (e', Inr (?c, ?n))"
    using find a expected_blob_parse [OF toy_hyli_wf, of step_crypto]
    by (cases r) (simp_all add: update_from_blob_def toy_hyli_keys)
  have d: "blob_data \<lparr> blob_contract_name = ''utxo'', blob_data = expected_blob step_crypto toy_hyli \<rparr> =
      expected_blob step_crypto toy_hyli" by simp
  show ?thesis
    using hyli_blob_is_recorded [OF toy_smt_laws i toy_hyli_wf find d u] u z by (auto simp: toy_hyli_keys ZERO_def)
qed

end
